(* ===== verification/Prelude.thy ===== *)
theory Prelude
  imports Main "HOL-Library.Word"
begin

text \<open>
  Shared ground of the development: names for the machine types the C++ code uses, the
  collections of simplification and introduction rules that the component theories fill,
  and the generic facts about lists, options and maps that several components need.
\<close>

unbundle bit_operations_syntax

subsection \<open>Machine types\<close>

type_synonym u8 = "8 word"
type_synonym u16 = "16 word"
type_synonym u32 = "32 word"
type_synonym u64 = "64 word"

text \<open>Signed integers are words read through \<^const>\<open>sint\<close>; \<open>size_t\<close> is 64 bits wide.\<close>

type_synonym i32 = "32 word"
type_synonym i64 = "64 word"
type_synonym size_t = "64 word"

type_synonym byte = "8 word"
type_synonym bytes = "byte list"

subsection \<open>Rule collections\<close>

text \<open>
  \<open>fdb_simps\<close> holds the record-frame equations of the operations (what an operation does
  not touch), \<open>fdb_inv\<close> the preservation lemmas of the component invariants.
\<close>

named_theorems fdb_simps "frame equations of the component operations"
named_theorems fdb_inv "preservation of component invariants"

subsection \<open>Optional fields\<close>

text \<open>Reading an optional message field: its value, or the default of its type.\<close>

definition get_or :: "'a \<Rightarrow> 'a option \<Rightarrow> 'a" where
  "get_or d x = (case x of None \<Rightarrow> d | Some v \<Rightarrow> v)"

lemma get_or_simps [simp]:
  "get_or d None = d"
  "get_or d (Some v) = v"
  by (simp_all add: get_or_def)

subsection \<open>Words and natural numbers\<close>

lemma unat_less: "unat (w :: 'a::len word) < 2 ^ LENGTH('a)"
  by (rule unsigned_less)

lemma unat_of_nat_small: "n < 2 ^ LENGTH('a) \<Longrightarrow> unat (of_nat n :: 'a::len word) = n"
  by (simp add: unat_of_nat take_bit_nat_eq_self)

lemma of_nat_word_inj:
  "m < 2 ^ LENGTH('a) \<Longrightarrow> n < 2 ^ LENGTH('a) \<Longrightarrow> (of_nat m :: 'a::len word) = of_nat n \<longleftrightarrow> m = n"
  by (metis unat_of_nat_small)

lemma unat_power_lower: "k < LENGTH('a) \<Longrightarrow> unat (2 ^ k :: 'a::len word) = 2 ^ k"
  using unat_of_nat_small[of "2 ^ k", where 'a = 'a] by simp

lemma sint_pred:
  fixes x :: i32
  assumes "0 < sint x"
  shows "sint (x - 1) = sint x - 1"
proof -
  have "sint (x - 1) = signed_take_bit 31 (sint x - sint (1 :: i32))"
    by (simp add: sint_word_ariths)
  also have "sint x - sint (1 :: i32) = sint x - 1" by simp
  also have "signed_take_bit 31 (sint x - 1) = sint x - 1"
    using assms sint_lt[of x] by (intro signed_take_bit_int_eq_self) auto
  finally show ?thesis .
qed

subsection \<open>Characters and memory\<close>

text \<open>A C++ \<open>char\<close> and the byte that represents it.\<close>

definition byte_of_char :: "char \<Rightarrow> byte" where
  "byte_of_char c = of_nat (of_char c)"

definition char_of_byte :: "byte \<Rightarrow> char" where
  "char_of_byte b = char_of (unat b)"

lemma char_of_byte_of_char [simp]: "char_of_byte (byte_of_char c) = c"
  by (simp add: byte_of_char_def char_of_byte_def unat_of_nat of_char_mod_256 flip: take_bit_eq_mod)

lemma byte_of_char_of_byte [simp]: "byte_of_char (char_of_byte b) = b"
proof -
  have "unat b < 2 ^ 8" using unat_less[of b] by simp
  then have "of_char (char_of (unat b)) = unat b" by (simp add: of_char_of take_bit_nat_eq_self)
  then show ?thesis by (simp add: byte_of_char_def char_of_byte_def)
qed

lemma map_char_of_byte [simp]: "map (char_of_byte \<circ> byte_of_char) s = s" "map (byte_of_char \<circ> char_of_byte) bs = bs"
  by (simp_all add: comp_def)

lemma byte_of_char_inj [simp]: "byte_of_char c = byte_of_char d \<longleftrightarrow> c = d"
  by (metis char_of_byte_of_char)

lemma byte_of_char_zero [simp]: "byte_of_char c = 0 \<longleftrightarrow> c = CHR 0x00"
  using byte_of_char_inj[of c "CHR 0x00"] by (simp add: byte_of_char_def)

text \<open>The bytes of an integer in memory, least significant first, and back.\<close>

fun le_bytes :: "nat \<Rightarrow> 'a::len word \<Rightarrow> bytes" where
  "le_bytes 0 w = []"
| "le_bytes (Suc n) w = ucast w # le_bytes n (drop_bit 8 w)"

fun le_value :: "bytes \<Rightarrow> nat" where
  "le_value [] = 0"
| "le_value (b # bs) = unat b + 256 * le_value bs"

lemma length_le_bytes [simp]: "length (le_bytes n w) = n"
  by (induction n arbitrary: w) auto

lemma le_value_le_bytes: "le_value (le_bytes n w) = unat w mod 256 ^ n"
proof (induction n arbitrary: w)
  case (Suc n)
  have "unat (ucast w :: byte) = unat w mod 256"
    by (simp add: unsigned_ucast_eq take_bit_eq_mod)
  moreover have "unat (drop_bit 8 w) = unat w div 256"
    unfolding unat_drop_bit_eq by (simp add: drop_bit_eq_div)
  ultimately show ?case
    using Suc by (simp add: mod_mult2_eq)
qed simp

lemma le_value_lt: "le_value bs < 256 ^ length bs"
proof (induction bs)
  case (Cons b bs)
  have "unat b < 256" using unat_less[of b] by simp
  then show ?case using Cons by simp
qed simp

lemma word_of_le_bytes:
  "8 * n = LENGTH('a) \<Longrightarrow> (of_nat (le_value (le_bytes n w)) :: 'a::len word) = w"
proof -
  assume "8 * n = LENGTH('a)"
  then have "(256 :: nat) ^ n = 2 ^ LENGTH('a)" using power_mult[of "2 :: nat" 8 n] by simp
  then show ?thesis using unat_less[of w] by (simp add: le_value_le_bytes)
qed

end
