(* ===== verification/Globals.thy ===== *)
theory Globals
  imports Prelude
begin

text \<open>
  The constants of \<open>common/global_constants.h\<close>.
\<close>

definition versionMajor :: u8 where "versionMajor = 1"
definition versionMinor :: u8 where "versionMinor = 3"
definition tcpDefaultPort :: u16 where "tcpDefaultPort = 1290"
definition udpDefaultPort :: u16 where "udpDefaultPort = 1291"
definition udpMulticastIp :: string where "udpMulticastIp = ''239.172.22.165''"
definition tcpMagicNumber :: u32 where "tcpMagicNumber = 0xffdd0011"
definition udpMagicNumber :: u32 where "udpMagicNumber = 0xaaa33388"
definition fileProjects :: string where "fileProjects = ''FreeDistributedBuild.xml''"

end
