(* ===== verification/Messages.thy ===== *)
theory Messages
  imports Prelude
begin

text \<open>
  The protobuf messages of \<open>protocol/master.proto\<close> and \<open>protocol/slave.proto\<close>. All messages
  are \<open>proto2\<close>: every field carries a presence bit, so a field is an \<open>option\<close>; reading an
  absent field gives the default of its type (\<^const>\<open>get_or\<close>). \<open>IsInitialized\<close> holds when every
  required field of the message and of its present sub-messages is set.
\<close>

subsection \<open>master.proto\<close>

record Master_Task =
  tk_id :: "u32 option"
  tk_project :: "string option"
  tk_outputFile :: "string option"
  tk_application :: "string option"
  tk_commandline :: "string option"
  tk_workingDir :: "string option"
  tk_sourceFile :: "string option"
  tk_inputData :: "string option"
  tk_abortOnError :: "bool option"

definition Master_Task_default :: Master_Task where
  "Master_Task_default =
     \<lparr>tk_id = None, tk_project = None, tk_outputFile = None, tk_application = None,
      tk_commandline = None, tk_workingDir = None, tk_sourceFile = None, tk_inputData = None,
      tk_abortOnError = None\<rparr>"

record Master_System =
  sys_close :: "bool option"

record Master_Packet =
  mp_task :: "Master_Task option"
  mp_system :: "Master_System option"

definition Task_IsInitialized :: "Master_Task \<Rightarrow> bool" where
  "Task_IsInitialized t \<longleftrightarrow>
     tk_id t \<noteq> None \<and> tk_project t \<noteq> None \<and> tk_outputFile t \<noteq> None \<and>
     tk_application t \<noteq> None \<and> tk_commandline t \<noteq> None \<and> tk_workingDir t \<noteq> None \<and>
     tk_sourceFile t \<noteq> None \<and> tk_inputData t \<noteq> None"

definition Master_IsInitialized :: "Master_Packet \<Rightarrow> bool" where
  "Master_IsInitialized p = (case mp_task p of None \<Rightarrow> True | Some t \<Rightarrow> Task_IsInitialized t)"

subsection \<open>slave.proto\<close>

record Slave_Info =
  inf_task_count :: "i32 option"

record Slave_Result =
  rs_id :: "u32 option"
  rs_exit_code :: "i32 option"
  rs_process_code :: "i32 option"
  rs_outputFile :: "string option"
  rs_outputData :: "string option"

record Slave_Packet =
  sp_info :: "Slave_Info option"
  sp_result :: "Slave_Result option"

definition Info_IsInitialized :: "Slave_Info \<Rightarrow> bool" where
  "Info_IsInitialized i \<longleftrightarrow> inf_task_count i \<noteq> None"

definition Result_IsInitialized :: "Slave_Result \<Rightarrow> bool" where
  "Result_IsInitialized r \<longleftrightarrow> rs_id r \<noteq> None \<and> rs_exit_code r \<noteq> None \<and> rs_process_code r \<noteq> None"

definition Slave_IsInitialized :: "Slave_Packet \<Rightarrow> bool" where
  "Slave_IsInitialized p \<longleftrightarrow>
     (case sp_info p of None \<Rightarrow> True | Some i \<Rightarrow> Info_IsInitialized i) \<and>
     (case sp_result p of None \<Rightarrow> True | Some r \<Rightarrow> Result_IsInitialized r)"

subsection \<open>Serialisation\<close>

text \<open>
  The message classes themselves are generated by \<open>protoc\<close> at build time and are not part of
  the repository: their serialisers and parsers are a parameter. \<open>dec_x bs\<close> is the message
  object that \<open>ParseFromArray\<close> leaves behind for input \<open>bs\<close>; the code never reads its boolean
  result.
\<close>

record codec =
  enc_master :: "Master_Packet \<Rightarrow> bytes"
  dec_master :: "bytes \<Rightarrow> Master_Packet"
  enc_slave :: "Slave_Packet \<Rightarrow> bytes"
  dec_slave :: "bytes \<Rightarrow> Slave_Packet"

end
