(* ===== verification/Node.thy ===== *)
theory Node
  imports Messages
begin

text \<open>
  \<open>TcpProtobufNode\<close> (\<open>protocol/tcp_protobufnode.h\<close>, \<open>.cpp\<close>): one end of a master-daemon
  connection. Its base class \<open>su::Net::PacketNode\<close> belongs to a submodule; of it the model keeps
  the name \<open>fullId()\<close>, the queue of received packets and the packets handed to
  \<open>PacketNode::send\<close>. What \<open>PacketNode::send\<close> returns is a parameter, a function of the node
  (with its history of sent packets) and of the data.
\<close>

record node =
  fullId :: string
  m_freeCores :: i32
  recvPackets :: "bytes list"
  sentPackets :: "bytes list"

text \<open>Both constructors start with \<open>m_freeCores = 0\<close> and empty queues.\<close>

definition new_TcpProtobufNode :: "string \<Rightarrow> node" where
  "new_TcpProtobufNode fid =
     \<lparr>fullId = fid, m_freeCores = 0, recvPackets = [], sentPackets = []\<rparr>"

text \<open>
  \<open>google::protobuf::MessageLite\<close> is an abstract class: \<open>send\<close> uses three of its methods.
  \<open>ByteSizeLong\<close> is documented as the size of the serialisation.
\<close>

record MessageLite =
  ml_IsInitialized :: bool
  ml_SerializeToString :: bytes

definition ml_ByteSizeLong :: "MessageLite \<Rightarrow> size_t" where
  "ml_ByteSizeLong m = of_nat (length (ml_SerializeToString m))"

definition master_message :: "codec \<Rightarrow> Master_Packet \<Rightarrow> MessageLite" where
  "master_message c p =
     \<lparr>ml_IsInitialized = Master_IsInitialized p, ml_SerializeToString = enc_master c p\<rparr>"

definition slave_message :: "codec \<Rightarrow> Slave_Packet \<Rightarrow> MessageLite" where
  "slave_message c p =
     \<lparr>ml_IsInitialized = Slave_IsInitialized p, ml_SerializeToString = enc_slave c p\<rparr>"

type_synonym pn_send = "node \<Rightarrow> bytes \<Rightarrow> size_t"

definition TcpProtobufNode_send :: "pn_send \<Rightarrow> node \<Rightarrow> MessageLite \<Rightarrow> size_t \<times> node" where
  "TcpProtobufNode_send pn nd m =
     (if ml_ByteSizeLong m = 0 \<or> \<not> ml_IsInitialized m then (0, nd)
      else (pn nd (ml_SerializeToString m),
            nd\<lparr>sentPackets := sentPackets nd @ [ml_SerializeToString m]\<rparr>))"

definition onRecivedMessage :: "node \<Rightarrow> MessageLite \<Rightarrow> bool" where
  "onRecivedMessage nd m = True"

subsection \<open>What send keeps\<close>

lemma send_frame [simp, fdb_simps]:
  "fullId (snd (TcpProtobufNode_send pn nd m)) = fullId nd"
  "m_freeCores (snd (TcpProtobufNode_send pn nd m)) = m_freeCores nd"
  "recvPackets (snd (TcpProtobufNode_send pn nd m)) = recvPackets nd"
  by (simp_all add: TcpProtobufNode_send_def)

lemma send_appends:
  "sentPackets (snd (TcpProtobufNode_send pn nd m)) = sentPackets nd @
     (if ml_ByteSizeLong m = 0 \<or> \<not> ml_IsInitialized m then [] else [ml_SerializeToString m])"
  by (simp add: TcpProtobufNode_send_def)

lemma size_t_nonzero: "0 < n \<Longrightarrow> n < 2 ^ 64 \<Longrightarrow> (of_nat n :: size_t) \<noteq> 0"
  by (simp add: unat_eq_0 unat_of_nat flip: unat_eq_0 )

end
