(* ===== verification/External.thy ===== *)
theory External
  imports Prelude
begin

text \<open>
  The functions of the submodules \<open>external/smallUtils\<close> and \<open>external/tinyxml2\<close> and of the
  Windows API that the sources call. Their code is not part of the repository, so they are
  parameters: records of functions that the definitions take as arguments. Where an operation
  has effects, the state it acts on (\<open>'w\<close>) is passed and returned.
\<close>

subsection \<open>su: strings\<close>

record su_string =
  String_replace :: "string \<Rightarrow> string \<Rightarrow> string \<Rightarrow> bool \<Rightarrow> string"
  String_tolower :: "string \<Rightarrow> string"
  String_rawFilename :: "string \<Rightarrow> string"
  String_filenamePath :: "string \<Rightarrow> string"
  String_format2 :: "string \<Rightarrow> string list \<Rightarrow> string"

subsection \<open>su::fs and std::filesystem: files\<close>

text \<open>
  \<open>fs_load w path\<close> is the status \<open>su::fs::load\<close> returns and what it leaves in the string;
  \<open>fs_save\<close> returns a status and the new file system.
\<close>

record 'w su_fs =
  fs_OK :: i32
  fs_load :: "'w \<Rightarrow> string \<Rightarrow> i32 \<times> string"
  fs_save :: "'w \<Rightarrow> string \<Rightarrow> string \<Rightarrow> i32 \<times> 'w"
  fs_deleteFile :: "'w \<Rightarrow> string \<Rightarrow> 'w"

subsection \<open>tinyxml2\<close>

text \<open>
  An XML document is seen through the queries the loaders make. \<open>children e n\<close> lists the
  elements that the loop \<open>FirstChildElement(n)\<close>, \<open>NextSiblingElement(n)\<close>, ... visits, so
  \<open>FirstChildElement(n)\<close> is its first member. \<open>GetText\<close> is \<open>None\<close> for a null pointer.
\<close>

record 'x xml_api =
  children :: "'x \<Rightarrow> string \<Rightarrow> 'x list"
  getAttributeString :: "'x \<Rightarrow> string \<Rightarrow> string \<Rightarrow> bool \<Rightarrow> string"
  getAttributeBool :: "'x \<Rightarrow> string \<Rightarrow> bool \<Rightarrow> bool"
  GetText :: "'x \<Rightarrow> string option"

definition FirstChildElement :: "'x xml_api \<Rightarrow> 'x \<Rightarrow> string \<Rightarrow> 'x option" where
  "FirstChildElement xa e n = (case children xa e n of [] \<Rightarrow> None | c # _ \<Rightarrow> Some c)"

subsection \<open>Windows processes\<close>

record PROCESS_INFORMATION =
  hProcess :: nat
  hThread :: nat
  dwProcessId :: u32
  dwThreadId :: u32

record 'w win_api =
  CreateProcessW :: "'w \<Rightarrow> u16 list \<Rightarrow> u16 list \<Rightarrow> u32 \<Rightarrow> u16 list option \<Rightarrow> PROCESS_INFORMATION option \<times> 'w"
  GetExitCodeProcess :: "'w \<Rightarrow> nat \<Rightarrow> u32 option"
  TerminateProcess :: "'w \<Rightarrow> nat \<Rightarrow> u32 \<Rightarrow> 'w"
  CloseHandle :: "'w \<Rightarrow> nat \<Rightarrow> 'w"
  convertUtf8ToWide :: "string \<Rightarrow> u16 list"

text \<open>Documented values of the Windows SDK.\<close>

abbreviation (input) CREATE_NEW_CONSOLE :: u32 where "CREATE_NEW_CONSOLE \<equiv> 0x10"
abbreviation (input) CREATE_NEW_PROCESS_GROUP :: u32 where "CREATE_NEW_PROCESS_GROUP \<equiv> 0x200"
abbreviation (input) CREATE_NO_WINDOW :: u32 where "CREATE_NO_WINDOW \<equiv> 0x08000000"
abbreviation (input) STILL_ACTIVE :: u32 where "STILL_ACTIVE \<equiv> 259"

end
