(* ===== verification/Process_App.thy ===== *)
theory Process_App
  imports External
begin

text \<open>
  \<open>daemon/Process.h\<close> and \<open>daemon/Process.cpp\<close>: a child process, its handles and its exit code.
  \<open>daemon/CMakeLists.txt\<close> does not build this file: the daemon uses the class
  \<open>su::Process::AppObject\<close> of the submodule, which is not in the repository and therefore a
  parameter of the daemon's model, the record \<open>proc_api\<close> at the end of this theory. The class
  modelled here has the same operations; it stands on its own, and in samples it takes the place
  of that parameter.

  The enumeration \<open>ExitCodeResult\<close> has the same enumerators in both. It is an
  \<open>enum class\<close> over \<open>int\<close>: a cast from a received integer can produce any value, so it is a
  32-bit word with named constants.
\<close>

subsection \<open>Enumerations\<close>

type_synonym ExitCodeResult = i32

definition NoInit :: ExitCodeResult where "NoInit = -100"
definition NotStarted :: ExitCodeResult where "NotStarted = -2"
definition StillRunning :: ExitCodeResult where "StillRunning = -1"
definition Exited :: ExitCodeResult where "Exited = 0"

lemma ExitCodeResult_distinct [simp]:
  "NoInit \<noteq> NotStarted" "NoInit \<noteq> StillRunning" "NoInit \<noteq> Exited"
  "NotStarted \<noteq> NoInit" "StillRunning \<noteq> NoInit" "Exited \<noteq> NoInit"
  "NotStarted \<noteq> StillRunning" "NotStarted \<noteq> Exited" "StillRunning \<noteq> Exited"
  "StillRunning \<noteq> NotStarted" "Exited \<noteq> NotStarted" "Exited \<noteq> StillRunning"
  by (simp_all add: NoInit_def NotStarted_def StillRunning_def Exited_def)

datatype LaunchMode = NewConsole | InheritConsole | NoConsole

subsection \<open>AppObject\<close>

record AppObject =
  m_processInfo :: PROCESS_INFORMATION
  m_nativePath :: string
  m_commandLine :: string
  m_workingDirectory :: string
  m_launchMode :: LaunchMode
  m_success :: bool

definition zero_processInfo :: PROCESS_INFORMATION where
  "zero_processInfo = \<lparr>hProcess = 0, hThread = 0, dwProcessId = 0, dwThreadId = 0\<rparr>"

definition new_AppObject :: "string \<Rightarrow> string \<Rightarrow> string option \<Rightarrow> LaunchMode \<Rightarrow> AppObject" where
  "new_AppObject nativePath commandLine workingDirectory launchMode =
     \<lparr>m_processInfo = zero_processInfo, m_nativePath = nativePath, m_commandLine = commandLine,
      m_workingDirectory = (case workingDirectory of None \<Rightarrow> '''' | Some d \<Rightarrow> d),
      m_launchMode = launchMode, m_success = False\<rparr>"


fun launch_flags :: "LaunchMode \<Rightarrow> u32" where
  "launch_flags NewConsole = CREATE_NEW_CONSOLE OR CREATE_NEW_PROCESS_GROUP"
| "launch_flags InheritConsole = CREATE_NEW_PROCESS_GROUP"
| "launch_flags NoConsole = CREATE_NO_WINDOW"

text \<open>The call of \<open>CreateProcessW\<close> with the converted path, command line and directory.\<close>

definition create_process ::
  "su_string \<Rightarrow> 'w win_api \<Rightarrow> 'w \<Rightarrow> AppObject \<Rightarrow> PROCESS_INFORMATION option \<times> 'w" where
  "create_process su api w a =
     (let finalCommandLine = String_format2 su ''\"%s\" %s'' [m_nativePath a, m_commandLine a];
          widePath = convertUtf8ToWide api (m_nativePath a);
          wideCommandLine = convertUtf8ToWide api finalCommandLine;
          pWideDir = (if length (m_workingDirectory a) > 0
                      then Some (convertUtf8ToWide api (m_workingDirectory a)) else None)
      in CreateProcessW api w widePath wideCommandLine (launch_flags (m_launchMode a)) pWideDir)"

definition AppObject_execute ::
  "su_string \<Rightarrow> 'w win_api \<Rightarrow> 'w \<Rightarrow> AppObject \<Rightarrow> bool \<times> AppObject \<times> 'w" where
  "AppObject_execute su api w a =
     (case create_process su api w a of
        (Some pi, w') \<Rightarrow> (True, a\<lparr>m_processInfo := pi, m_success := True\<rparr>, w')
      | (None, w') \<Rightarrow> (m_success a, a, w'))"

text \<open>
  \<open>getProcessExitCode(int* exitCodeDest)\<close>: the second component is what is stored through a
  non-null pointer, if anything is.
\<close>

definition getProcessExitCode :: "'w win_api \<Rightarrow> 'w \<Rightarrow> AppObject \<Rightarrow> ExitCodeResult \<times> i32 option" where
  "getProcessExitCode api w a =
     (if m_success a then
        (case GetExitCodeProcess api w (hProcess (m_processInfo a)) of
           Some ec \<Rightarrow> if ec = STILL_ACTIVE then (StillRunning, None) else (Exited, Some ec)
         | None \<Rightarrow> (NotStarted, None))
      else (NotStarted, None))"

definition isRunning :: "'w win_api \<Rightarrow> 'w \<Rightarrow> AppObject \<Rightarrow> bool" where
  "isRunning api w a \<longleftrightarrow> fst (getProcessExitCode api w a) = StillRunning"


definition getProcessId :: "AppObject \<Rightarrow> size_t" where
  "getProcessId a = (if m_success a then ucast (dwProcessId (m_processInfo a)) else 0)"

subsection \<open>The process interface of the daemon\<close>

text \<open>
  What the daemon calls of the submodule's class: it creates a process, starts it at once, and
  later asks whether it still runs and how it ended. \<open>pa_exitCode\<close> returns the result and what was
  stored through the pointer argument. Nothing is assumed of these functions here.
\<close>

record ('w, 'p) proc_api =
  pa_start :: "'w \<Rightarrow> string \<Rightarrow> string \<Rightarrow> string \<Rightarrow> 'p \<times> 'w"
  pa_isRunning :: "'w \<Rightarrow> 'p \<Rightarrow> bool"
  pa_exitCode :: "'w \<Rightarrow> 'p \<Rightarrow> ExitCodeResult \<times> i32 option"

text \<open>
  The class of this directory in the place of the parameter, for the daemons of the samples.
\<close>

definition AppObject_api :: "su_string \<Rightarrow> 'w win_api \<Rightarrow> ('w, AppObject) proc_api" where
  "AppObject_api su api =
     \<lparr>pa_start = (\<lambda>w app cmd wd.
        case AppObject_execute su api w (new_AppObject app cmd (Some wd) NoConsole) of
          (_, a, w') \<Rightarrow> (a, w')),
      pa_isRunning = isRunning api,
      pa_exitCode = getProcessExitCode api\<rparr>"

subsection \<open>The handles of an object\<close>

text \<open>The calls of the class, and a sequence of them on one object.\<close>

datatype app_call = Call_execute | Call_isRunning | Call_terminate | Call_getProcessId | Call_getProcessExitCode















end
