(* ===== verification/Float32.thy ===== *)
theory Float32
  imports Complex_Main "HOL-Library.Log_Nat" Prelude
begin

text \<open>
  The floating-point arithmetic of the C++ code that \<open>common/project.cpp\<close> relies on: IEEE 754
  binary32 (\<open>float\<close>) and binary64 (\<open>double\<close>) values with rounding to nearest, ties to even. A
  finite value is the rational number it denotes; the sign of zero is not represented, and no
  operation below can tell the zeros apart.
\<close>

subsection \<open>Values and rounding\<close>

datatype fl = Fin rat | PInf | NInf | NaN

text \<open>\<open>ilog2 x\<close> is the exponent \<open>e\<close> with \<open>2 ^ e \<le> x < 2 ^ (e + 1)\<close>, for positive \<open>x\<close>.\<close>

definition ilog2 :: "rat \<Rightarrow> int" where
  "ilog2 x = (case quotient_of x of (a, b) \<Rightarrow>
     let k = bitlen a - bitlen b in if 2 powi k \<le> x then k else k - 1)"

text \<open>The nearest integer, the even one in the middle.\<close>

definition rne :: "rat \<Rightarrow> int" where
  "rne y = (let f = \<lfloor>y\<rfloor>; r = y - of_int f in
     if r < 1 / 2 then f else if 1 / 2 < r then f + 1 else if even f then f else f + 1)"

text \<open>The spacing of the format's numbers around \<open>x\<close>, for precision \<open>p\<close> and least exponent \<open>emin\<close>.\<close>

definition quantum :: "nat \<Rightarrow> int \<Rightarrow> rat \<Rightarrow> rat" where
  "quantum p emin x = 2 powi (max (ilog2 \<bar>x\<bar>) emin - int p + 1)"

definition fround_fin :: "nat \<Rightarrow> int \<Rightarrow> rat \<Rightarrow> rat" where
  "fround_fin p emin x =
     (if x = 0 then 0 else of_int (rne (x / quantum p emin x)) * quantum p emin x)"

definition fround :: "nat \<Rightarrow> int \<Rightarrow> int \<Rightarrow> rat \<Rightarrow> fl" where
  "fround p emin emax x =
     (let r = fround_fin p emin x in
      if 2 powi emax \<le> r then PInf else if r \<le> - (2 powi emax) then NInf else Fin r)"

definition round32 :: "rat \<Rightarrow> fl" where "round32 = fround 24 (-126) 128"
definition round64 :: "rat \<Rightarrow> fl" where "round64 = fround 53 (-1022) 1024"

subsection \<open>Operations on float\<close>

fun fl_neg :: "fl \<Rightarrow> fl" where
  "fl_neg (Fin x) = Fin (- x)"
| "fl_neg PInf = NInf"
| "fl_neg NInf = PInf"
| "fl_neg NaN = NaN"

fun fl_less :: "fl \<Rightarrow> fl \<Rightarrow> bool" where
  "fl_less (Fin x) (Fin y) = (x < y)"
| "fl_less (Fin x) PInf = True"
| "fl_less NInf (Fin y) = True"
| "fl_less NInf PInf = True"
| "fl_less a b = False"

text \<open>\<open>std::clamp\<close>: two comparisons, both false on a NaN.\<close>

definition fl_clamp :: "fl \<Rightarrow> fl \<Rightarrow> fl \<Rightarrow> fl" where
  "fl_clamp v lo hi = (if fl_less v lo then lo else if fl_less hi v then hi else v)"

definition float_of_int :: "int \<Rightarrow> fl" where
  "float_of_int n = round32 (of_int n)"

fun float_of_double :: "fl \<Rightarrow> fl" where
  "float_of_double (Fin x) = round32 x"
| "float_of_double v = v"

definition fl_sgn :: "fl \<Rightarrow> rat" where
  "fl_sgn v = (case v of Fin x \<Rightarrow> sgn x | PInf \<Rightarrow> 1 | NInf \<Rightarrow> -1 | NaN \<Rightarrow> 0)"

definition signed_inf :: "rat \<Rightarrow> fl" where
  "signed_inf s = (if s > 0 then PInf else if s < 0 then NInf else NaN)"

fun float_mul :: "fl \<Rightarrow> fl \<Rightarrow> fl" where
  "float_mul (Fin x) (Fin y) = round32 (x * y)"
| "float_mul NaN b = NaN"
| "float_mul a NaN = NaN"
| "float_mul a b = signed_inf (fl_sgn a * fl_sgn b)"

text \<open>The only divisor of the sources is the non-zero finite constant \<open>100.0f\<close>.\<close>

fun float_div_const :: "fl \<Rightarrow> rat \<Rightarrow> fl" where
  "float_div_const (Fin x) d = round32 (x / d)"
| "float_div_const NaN d = NaN"
| "float_div_const a d = signed_inf (fl_sgn a * sgn d)"

text \<open>Addition of the finite constant \<open>0.5f\<close>.\<close>

fun float_add_const :: "fl \<Rightarrow> rat \<Rightarrow> fl" where
  "float_add_const (Fin x) d = round32 (x + d)"
| "float_add_const v d = v"

text \<open>
  \<open>static_cast<uint32_t>\<close> of a \<open>float\<close>: truncation. Outside the range of the target the C++
  result is undefined; the model then returns 0.
\<close>

definition float_to_u32 :: "fl \<Rightarrow> u32" where
  "float_to_u32 v = (case v of
     Fin x \<Rightarrow> (let n = (if 0 \<le> x then \<lfloor>x\<rfloor> else - \<lfloor>- x\<rfloor>) in
               if 0 \<le> n \<and> n < 2 ^ 32 then word_of_int n else 0)
   | _ \<Rightarrow> 0)"

subsection \<open>The exponent\<close>

lemma bitlen_bounds_rat:
  assumes "0 < (a :: int)"
  shows "2 powi (bitlen a - 1) \<le> (of_int a :: rat)" and "(of_int a :: rat) < 2 powi (bitlen a)"
proof -
  have n: "0 \<le> bitlen a - 1"
    using assms by (auto simp: bitlen_alt_def)
  have "2 ^ nat (bitlen a - 1) \<le> a" and "a < 2 ^ nat (bitlen a)"
    using bitlen_bounds[OF assms] by simp_all
  then have "(of_int (2 ^ nat (bitlen a - 1)) :: rat) \<le> of_int a"
    and "(of_int a :: rat) < of_int (2 ^ nat (bitlen a))"
    by (simp_all only: of_int_le_iff of_int_less_iff)
  then show "2 powi (bitlen a - 1) \<le> (of_int a :: rat)" and "(of_int a :: rat) < 2 powi (bitlen a)"
    using n by (simp_all add: power_int_def)
qed

lemma ilog2_bounds:
  assumes "0 < x"
  shows "2 powi (ilog2 x) \<le> x" and "x < 2 powi (ilog2 x + 1)"
proof -
  obtain a b where ab: "quotient_of x = (a, b)" by fastforce
  have b: "0 < b" using ab by (rule quotient_of_denom_pos)
  have x: "x = of_int a / of_int b" using ab by (rule quotient_of_div)
  have a: "0 < a" using assms x b by (simp add: zero_less_divide_iff)
  let ?k = "bitlen a - bitlen b"
  have lo: "2 powi (?k - 1) < x"
  proof -
    have "2 powi (?k - 1) = 2 powi (bitlen a - 1) / (2 powi (bitlen b) :: rat)"
      by (simp add: power_int_diff[symmetric] algebra_simps)
    also have "\<dots> < 2 powi (bitlen a - 1) / of_int b"
      using bitlen_bounds_rat(2)[OF b] b by (intro divide_strict_left_mono) auto
    also have "\<dots> \<le> x"
      using bitlen_bounds_rat(1)[OF a] b by (simp add: x divide_right_mono)
    finally show ?thesis .
  qed
  have hi: "x < 2 powi (?k + 1)"
  proof -
    have "x < 2 powi (bitlen a) / of_int b"
      using bitlen_bounds_rat(2)[OF a] b by (simp add: x divide_strict_right_mono)
    also have "\<dots> \<le> 2 powi (bitlen a) / 2 powi (bitlen b - 1)"
      using bitlen_bounds_rat(1)[OF b] b by (intro divide_left_mono) auto
    also have "\<dots> = 2 powi (?k + 1)"
      by (simp add: power_int_diff[symmetric] algebra_simps)
    finally show ?thesis .
  qed
  show "2 powi (ilog2 x) \<le> x" and "x < 2 powi (ilog2 x + 1)"
    using lo hi by (auto simp: ilog2_def ab Let_def)
qed

subsection \<open>Rounding respects the numbers of the format\<close>

lemma rne_le: "y \<le> of_int k \<Longrightarrow> rne y \<le> k"
proof -
  assume y: "y \<le> of_int k"
  show "rne y \<le> k"
  proof (cases "y = of_int k")
    case True
    then show ?thesis by (simp add: rne_def)
  next
    case False
    with y have "\<lfloor>y\<rfloor> < k" by (simp add: floor_less_iff)
    then show ?thesis by (simp add: rne_def Let_def)
  qed
qed

lemma rne_ge: "of_int k \<le> y \<Longrightarrow> k \<le> rne y"
  by (auto simp: rne_def Let_def le_floor_iff add_increasing2)

definition representable :: "nat \<Rightarrow> int \<Rightarrow> rat \<Rightarrow> bool" where
  "representable p emin c \<longleftrightarrow>
     (\<exists>m k. c = of_int m * 2 powi k \<and> \<bar>m\<bar> < 2 ^ p \<and> emin - int p + 1 \<le> k)"

lemma representableI:
  "c = of_int m * 2 powi k \<Longrightarrow> \<bar>m\<bar> < 2 ^ p \<Longrightarrow> emin - int p + 1 \<le> k \<Longrightarrow> representable p emin c"
  by (auto simp: representable_def)

lemma quantum_pos [simp]: "0 < quantum p emin x"
  by (simp add: quantum_def)

lemma multiple_of_quantum:
  assumes "j \<le> k"
  shows "\<exists>i. of_int m * 2 powi k = of_int i * (2 powi j :: rat)"
proof
  have "(2 :: rat) powi k = 2 powi (k - j) * 2 powi j"
    by (simp add: power_int_add[symmetric])
  also have "2 powi (k - j) = (of_int (2 ^ nat (k - j)) :: rat)"
    using assms by (simp add: power_int_def)
  finally show "of_int m * 2 powi k = of_int (m * 2 ^ nat (k - j)) * (2 powi j :: rat)"
    by (simp add: ac_simps)
qed

lemma representable_multiple:
  assumes c: "representable p emin c" and pos: "0 < x" and e: "2 powi (ilog2 x) \<le> c"
  shows "\<exists>i. c = of_int i * quantum p emin x"
proof -
  obtain m k where m: "c = of_int m * 2 powi k" "\<bar>m\<bar> < 2 ^ p" "emin - int p + 1 \<le> k"
    using c by (auto simp: representable_def)
  let ?e = "max (ilog2 x) emin"
  have "?e - int p + 1 \<le> k"
  proof (rule ccontr)
    assume "\<not> ?thesis"
    then have lt: "k < ?e - int p + 1" by simp
    with m(3) have "?e = ilog2 x" by (auto simp: max_def split: if_splits)
    with lt have le: "int p \<le> ilog2 x - k" by simp
    have "(2 :: rat) ^ p \<le> 2 powi (ilog2 x - k)"
      using le by (metis power_int_increasing power_int_of_nat one_le_numeral)
    also have "\<dots> = 2 powi (ilog2 x) / 2 powi k" by (simp add: power_int_diff)
    also have "\<dots> \<le> c / 2 powi k" using e by (simp add: divide_right_mono)
    also have "\<dots> = of_int m" using m(1) by simp
    finally have "2 ^ p \<le> m" by (metis of_int_le_iff of_int_numeral of_int_power)
    with m(2) show False by simp
  qed
  then show ?thesis
    using multiple_of_quantum[of "?e - int p + 1" k m] m(1) pos by (simp add: quantum_def)
qed

lemma fround_fin_le:
  assumes c: "representable p emin c" and x: "0 \<le> x" "x \<le> c"
  shows "fround_fin p emin x \<le> c"
proof (cases "x = 0")
  case True
  then show ?thesis using x by (simp add: fround_fin_def)
next
  case False
  with x have pos: "0 < x" by simp
  let ?q = "quantum p emin x"
  have "\<exists>i. of_int i * ?q \<le> c \<and> x \<le> of_int i * ?q"
  proof -
    have "2 powi (ilog2 x) \<le> c" using ilog2_bounds(1)[OF pos] x by simp
    then obtain i where "c = of_int i * ?q" using representable_multiple[OF c pos] by blast
    with x show ?thesis by auto
  qed
  then obtain i where i: "of_int i * ?q \<le> c" "x \<le> of_int i * ?q" by blast
  then have "x / ?q \<le> of_int i" by (simp add: divide_le_eq)
  then have "rne (x / ?q) \<le> i" by (rule rne_le)
  then have "of_int (rne (x / ?q)) * ?q \<le> of_int i * ?q" by (simp add: mult_right_mono)
  also have "\<dots> \<le> c" by (rule i(1))
  finally show ?thesis using False by (simp add: fround_fin_def)
qed

lemma fround_fin_ge:
  assumes c: "representable p emin c" and p: "0 < p" and x: "0 \<le> c" "c \<le> x"
  shows "c \<le> fround_fin p emin x"
proof (cases "x = 0")
  case True
  then show ?thesis using x by (simp add: fround_fin_def)
next
  case False
  with x have pos: "0 < x" by simp
  let ?q = "quantum p emin x"
  have "\<exists>i. c \<le> of_int i * ?q \<and> of_int i * ?q \<le> x"
  proof (cases "2 powi (ilog2 x) \<le> c")
    case True
    then obtain i where "c = of_int i * ?q" using representable_multiple[OF c pos] by blast
    with x show ?thesis by auto
  next
    case less: False
    show ?thesis
    proof (cases "emin \<le> ilog2 x")
      case True
      then have "2 powi (ilog2 x) = of_int (2 ^ (p - 1)) * ?q"
        using p pos by (simp add: quantum_def power_int_add[symmetric] of_nat_diff flip: power_int_of_nat)
      with less ilog2_bounds(1)[OF pos] show ?thesis
        by (intro exI[of _ "2 ^ (p - 1)"]) simp
    next
      case False
      obtain m k where m: "c = of_int m * 2 powi k" "emin - int p + 1 \<le> k"
        using c by (auto simp: representable_def)
      with False pos obtain i where "c = of_int i * ?q"
        using multiple_of_quantum[of "emin - int p + 1" k m] by (auto simp: quantum_def)
      with x show ?thesis by auto
    qed
  qed
  then obtain i where i: "c \<le> of_int i * ?q" "of_int i * ?q \<le> x" by blast
  then have "of_int i \<le> x / ?q" by (simp add: le_divide_eq)
  then have "i \<le> rne (x / ?q)" by (rule rne_ge)
  then have "of_int i * ?q \<le> of_int (rne (x / ?q)) * ?q" by (simp add: mult_right_mono)
  with i(1) have "c \<le> of_int (rne (x / ?q)) * ?q" by (rule order_trans)
  then show ?thesis using False by (simp add: fround_fin_def)
qed

subsection \<open>Binary32\<close>

abbreviation float32 :: "rat \<Rightarrow> bool" where
  "float32 \<equiv> representable 24 (-126)"

lemma float32_frac:
  assumes "0 \<le> n" "n < 2 ^ 24" "k \<le> 100"
  shows "float32 (of_int n / 2 ^ k)"
  by (rule representableI[of _ n "- int k"]) (use assms in \<open>auto simp: power_int_minus field_simps\<close>)

lemma float32_int: "0 \<le> n \<Longrightarrow> n < 2 ^ 24 \<Longrightarrow> float32 (of_int n)"
  using float32_frac[of n 0] by simp

lemma float32_half: "0 \<le> n \<Longrightarrow> n < 2 ^ 24 \<Longrightarrow> float32 (of_int n / 2)"
  using float32_frac[of n 1] by simp

lemma float32_128th: "0 \<le> n \<Longrightarrow> n < 2 ^ 24 \<Longrightarrow> float32 (of_int n / 128)"
  using float32_frac[of n 7] by simp

lemma round32_between:
  assumes "float32 a" "float32 b" "0 \<le> a" "a \<le> x" "x \<le> b" "b < 2 ^ 127"
  obtains r where "round32 x = Fin r" and "a \<le> r" and "r \<le> b"
proof -
  let ?r = "fround_fin 24 (-126) x"
  have a: "a \<le> ?r" using assms by (intro fround_fin_ge) auto
  have b: "?r \<le> b" using assms by (intro fround_fin_le) auto
  have big: "(2 :: rat) ^ 127 < 2 powi 128" by (simp add: power_int_def)
  have "\<not> 2 powi 128 \<le> ?r" and "\<not> ?r \<le> - (2 powi 128)"
    using a b assms big by auto
  then have "round32 x = Fin ?r" by (simp add: round32_def fround_def Let_def)
  then show ?thesis using a b by (rule that)
qed

lemma round32_exact:
  assumes "float32 c" "0 \<le> c" "c < 2 ^ 127"
  shows "round32 c = Fin c"
proof -
  obtain r where "round32 c = Fin r" "c \<le> r" "r \<le> c"
    using round32_between[of c c c] assms by blast
  then show ?thesis by simp
qed

lemma float_to_u32_floor:
  "0 \<le> x \<Longrightarrow> x < 2 ^ 32 \<Longrightarrow> float_to_u32 (Fin x) = word_of_int \<lfloor>x\<rfloor>"
  by (simp add: float_to_u32_def floor_less_iff)

lemma uint_float_to_u32:
  assumes "0 \<le> x" "x < 2 ^ 32"
  shows "uint (float_to_u32 (Fin x)) = \<lfloor>x\<rfloor>"
proof -
  have "0 \<le> \<lfloor>x\<rfloor>" and "\<lfloor>x\<rfloor> < 2 ^ 32" using assms by (simp_all add: floor_less_iff)
  then show ?thesis
    using assms by (simp add: float_to_u32_floor uint_word_of_int take_bit_int_eq_self)
qed

end
