(* ===== verification/Samples.thy ===== *)
theory Samples
  imports Process_App Messages
begin

text \<open>
  Concrete values for the parameters that stand for code outside the repository. Definitions
  and theorems of the development do not depend on them: the witnesses use them, to show that
  the hypotheses of a theorem can hold together.
\<close>

subsection \<open>XML trees\<close>

datatype xml = XElem (xtag: string) (xattrs: "(string \<times> string) list") (xtext: "string option") (xkids: "xml list")

definition tree_xml :: "xml xml_api" where
  "tree_xml = \<lparr>children = (\<lambda>e n. filter (\<lambda>c. xtag c = n) (xkids e)),
     getAttributeString = (\<lambda>e n d _. case map_of (xattrs e) n of None \<Rightarrow> d | Some v \<Rightarrow> v),
     getAttributeBool = (\<lambda>e n d. case map_of (xattrs e) n of None \<Rightarrow> d | Some v \<Rightarrow> v = ''1''),
     GetText = xtext\<rparr>"

subsection \<open>Strings\<close>

function replace_all :: "string \<Rightarrow> string \<Rightarrow> string \<Rightarrow> string" where
  "replace_all a b s =
     (if s = [] then []
      else if a \<noteq> [] \<and> take (length a) s = a then b @ replace_all a b (drop (length a) s)
      else hd s # replace_all a b (tl s))"
  by pat_completeness auto
termination
  by (relation "measure (\<lambda>(a, b, s). length s)") auto

declare replace_all.simps [simp del]

definition sample_su :: su_string where
  "sample_su = \<lparr>String_replace = (\<lambda>s a b _. replace_all a b s), String_tolower = (\<lambda>s. s),
     String_rawFilename = takeWhile (\<lambda>c. c \<noteq> CHR ''.''), String_filenamePath = (\<lambda>s. s),
     String_format2 = (\<lambda>f args. concat args)\<rparr>"

subsection \<open>Files\<close>

definition map_fs :: "(string \<rightharpoonup> string) su_fs" where
  "map_fs = \<lparr>fs_OK = 0, fs_load = (\<lambda>w f. case w f of None \<Rightarrow> (1, []) | Some d \<Rightarrow> (0, d)),
     fs_save = (\<lambda>w f d. (0, w(f \<mapsto> d))), fs_deleteFile = (\<lambda>w f. w(f := None))\<rparr>"

subsection \<open>Processes\<close>

text \<open>A machine whose processes have handle 1 and have ended with the code the world holds.\<close>

definition exited_win :: "u32 win_api" where
  "exited_win = \<lparr>CreateProcessW = (\<lambda>w _ _ _ _. (Some \<lparr>hProcess = 1, hThread = 2, dwProcessId = 77, dwThreadId = 78\<rparr>, w)),
     GetExitCodeProcess = (\<lambda>w h. if h = 1 then Some w else None), TerminateProcess = (\<lambda>w h c. c),
     CloseHandle = (\<lambda>w h. w), convertUtf8ToWide = (\<lambda>s. [])\<rparr>"

text \<open>Strings without variables: nothing to replace.\<close>

definition plain_su :: su_string where
  "plain_su = sample_su\<lparr>String_replace := (\<lambda>s a b _. s)\<rparr>"

subsection \<open>Messages\<close>

text \<open>A codec whose encodings are one byte long.\<close>

definition sample_codec :: codec where
  "sample_codec = \<lparr>enc_master = (\<lambda>_. [1]), dec_master = (\<lambda>_. \<lparr>mp_task = None, mp_system = None\<rparr>),
     enc_slave = (\<lambda>_. [2]),
     dec_slave = (\<lambda>_. \<lparr>sp_info = None, sp_result = Some \<lparr>rs_id = Some 1, rs_exit_code = Some 0,
        rs_process_code = Some Exited, rs_outputFile = None, rs_outputData = Some ''obj''\<rparr>\<rparr>)\<rparr>"

text \<open>A file system whose world holds no files.\<close>

definition null_fs :: "'w su_fs" where
  "null_fs = \<lparr>fs_OK = 0, fs_load = (\<lambda>w f. (0, [])), fs_save = (\<lambda>w f d. (0, w)), fs_deleteFile = (\<lambda>w f. w)\<rparr>"

end
