(* ===== verification/Project.thy ===== *)
theory Project
  imports External Float32 Samples
begin

text \<open>
  \<open>common/project.h\<close> and \<open>common/project.cpp\<close>: the projects a machine knows, and the share of
  its cores it lends to builds depending on the time of day.
\<close>

subsection \<open>Parsing of times and numbers\<close>

text \<open>
  \<open>ss >> std::get_time(&t, "%H:%M")\<close>: leading white space is skipped, an hour of one or two
  digits, a colon, a minute of one or two digits; what follows is left in the stream. Standard
  libraries differ in whether they also take white space or a plus sign before the digits of a
  number; such texts are refused here. Either way hour and minute are within their ranges.
\<close>

definition is_space :: "char \<Rightarrow> bool" where
  "is_space c \<longleftrightarrow> c = CHR '' '' \<or> c = CHR 0x09 \<or> c = CHR 0x0A \<or> c = CHR 0x0B \<or> c = CHR 0x0C \<or> c = CHR 0x0D"

definition is_digit :: "char \<Rightarrow> bool" where
  "is_digit c \<longleftrightarrow> 48 \<le> (of_char c :: nat) \<and> (of_char c :: nat) \<le> 57"

definition digit_val :: "char \<Rightarrow> nat" where
  "digit_val c = of_char c - 48"

fun get_num2 :: "nat \<Rightarrow> string \<Rightarrow> (nat \<times> string) option" where
  "get_num2 hi (a # b # s) =
     (if \<not> is_digit a then None
      else if is_digit b then
        (let n = 10 * digit_val a + digit_val b in if n \<le> hi then Some (n, s) else None)
      else Some (digit_val a, b # s))"
| "get_num2 hi [a] = (if is_digit a then Some (digit_val a, []) else None)"
| "get_num2 hi [] = None"

definition get_time_HM :: "string \<Rightarrow> (nat \<times> nat) option" where
  "get_time_HM s =
     (case get_num2 23 (dropWhile is_space s) of
        None \<Rightarrow> None
      | Some (h, r) \<Rightarrow>
          (case r of
             [] \<Rightarrow> None
           | c # r' \<Rightarrow> if c \<noteq> CHR '':'' then None
                       else (case get_num2 59 r' of None \<Rightarrow> None | Some (m, _) \<Rightarrow> Some (h, m))))"

text \<open>
  \<open>std::atof\<close>: optional white space and sign, then a decimal or hexadecimal number or one of the
  words \<open>inf\<close>, \<open>infinity\<close>, \<open>nan\<close>; 0 when there is none.
\<close>

definition lower :: "char \<Rightarrow> char" where
  "lower c = (let n = (of_char c :: nat) in if 65 \<le> n \<and> n \<le> 90 then char_of (n + 32) else c)"

definition xdigit_val :: "char \<Rightarrow> nat option" where
  "xdigit_val c = (if is_digit c then Some (digit_val c)
     else let n = (of_char (lower c) :: nat) in if 97 \<le> n \<and> n \<le> 102 then Some (n - 87) else None)"

fun digits_val :: "nat \<Rightarrow> nat list \<Rightarrow> nat" where
  "digits_val b ds = foldl (\<lambda>acc d. b * acc + d) 0 ds"

definition span :: "(char \<Rightarrow> nat option) \<Rightarrow> string \<Rightarrow> nat list \<times> string" where
  "span f s = (map (the \<circ> f) (takeWhile (\<lambda>c. f c \<noteq> None) s), dropWhile (\<lambda>c. f c \<noteq> None) s)"

definition dec_val :: "char \<Rightarrow> nat option" where
  "dec_val c = (if is_digit c then Some (digit_val c) else None)"

text \<open>The exponent part after the letter \<open>e\<close>: 0 unless the letter, a sign and digits are there.\<close>

definition scan_exponent :: "char \<Rightarrow> string \<Rightarrow> int" where
  "scan_exponent e s =
     (case s of
        c # r \<Rightarrow>
          if lower c \<noteq> e then 0
          else (case r of
              d # r' \<Rightarrow>
                if d = CHR ''-'' then - int (digits_val 10 (fst (span dec_val r')))
                else if d = CHR ''+'' then int (digits_val 10 (fst (span dec_val r')))
                else int (digits_val 10 (fst (span dec_val r)))
            | [] \<Rightarrow> 0)
      | [] \<Rightarrow> 0)"

text \<open>
  A magnitude in base \<open>b\<close> (10 or 16) with exponent letter \<open>e\<close> over base \<open>eb\<close>; \<open>None\<close> without
  a digit.
\<close>

definition scan_magnitude :: "nat \<Rightarrow> (char \<Rightarrow> nat option) \<Rightarrow> char \<Rightarrow> nat \<Rightarrow> string \<Rightarrow> rat option" where
  "scan_magnitude b f e eb s =
     (case span f s of
        (ds, r) \<Rightarrow>
          (case (case r of c # r' \<Rightarrow> if c = CHR ''.'' then span f r' else ([], r) | [] \<Rightarrow> ([], [])) of
             (fs, r2) \<Rightarrow>
               if ds = [] \<and> fs = [] then None
               else Some (of_nat (digits_val b (ds @ fs)) / of_nat (b ^ length fs)
                          * of_nat eb powi (scan_exponent e r2))))"

definition starts_with_ci :: "string \<Rightarrow> string \<Rightarrow> bool" where
  "starts_with_ci w s \<longleftrightarrow> map lower (take (length w) s) = w"

definition atof_magnitude :: "string \<Rightarrow> fl" where
  "atof_magnitude s =
     (if starts_with_ci ''inf'' s then PInf
      else if starts_with_ci ''nan'' s then NaN
      else
        (case (if starts_with_ci ''0x'' s then scan_magnitude 16 xdigit_val (CHR ''p'') 2 (drop 2 s)
               else None) of
           Some v \<Rightarrow> round64 v
         | None \<Rightarrow>
             (case scan_magnitude 10 dec_val (CHR ''e'') 10 s of
                Some v \<Rightarrow> round64 v
              | None \<Rightarrow> Fin 0)))"

definition atof :: "string \<Rightarrow> fl" where
  "atof s = (let s = dropWhile is_space s in
     case s of
       c # r \<Rightarrow> if c = CHR ''-'' then fl_neg (atof_magnitude r)
                else if c = CHR ''+'' then atof_magnitude r
                else atof_magnitude s
     | [] \<Rightarrow> Fin 0)"

subsection \<open>State\<close>

record Item =
  m_name :: string
  m_path :: string
  m_workPath :: string

record Projects =
  m_items :: "string \<rightharpoonup> Item"
  m_workBegin :: size_t
  m_workEnd :: size_t
  m_workBath :: fl
  m_workDefault :: fl

definition new_Projects :: Projects where
  "new_Projects = \<lparr>m_items = Map.empty, m_workBegin = 0, m_workEnd = 0,
     m_workBath = Fin 100, m_workDefault = Fin 100\<rparr>"

subsection \<open>Operations\<close>

definition getProject :: "Projects \<Rightarrow> string \<Rightarrow> Item option" where
  "getProject p prjname = m_items p prjname"

text \<open>\<open>now\<close> is the local hour and minute.\<close>

definition getWorkPercent :: "nat \<times> nat \<Rightarrow> Projects \<Rightarrow> fl" where
  "getWorkPercent now p =
     (let workNow = (of_nat (fst now * 60 + snd now) :: size_t) in
      if m_workBegin p < m_workEnd p then
        (if workNow \<ge> m_workBegin p \<and> workNow \<le> m_workEnd p then m_workBath p else m_workDefault p)
      else
        (if workNow \<ge> m_workBegin p \<or> workNow \<le> m_workEnd p then m_workBath p else m_workDefault p))"

text \<open>\<open>hw\<close> is what \<open>su::ThreadPool::getMaxThreads()\<close> returns.\<close>

definition getFreeCore :: "i32 \<Rightarrow> nat \<times> nat \<Rightarrow> Projects \<Rightarrow> u32" where
  "getFreeCore hw now p =
     (let coreReserved = (3 :: i32);
          maxThreads = hw - coreReserved;
          maxThreads = (if sint maxThreads < 1 then 1 else maxThreads);
          maxTasksCount = float_div_const (float_mul (float_of_int (sint maxThreads)) (getWorkPercent now p)) 100
      in float_to_u32 (float_add_const maxTasksCount (1 / 2)))"

text \<open>
  \<open>loadWorkTime\<close>: the boolean result and the new state; \<open>None\<close> stands for the undefined
  behaviour of constructing a stream or parsing a number from a null \<open>GetText()\<close>. A failure on
  \<open>End\<close> leaves the value read from \<open>Begin\<close> in place.
\<close>

definition load_minutes :: "'x xml_api \<Rightarrow> 'x option \<Rightarrow> size_t \<Rightarrow> (bool \<times> size_t) option" where
  "load_minutes xa e old =
     (case e of
        None \<Rightarrow> Some (True, old)
      | Some x \<Rightarrow>
          (case GetText xa x of
             None \<Rightarrow> None
           | Some txt \<Rightarrow>
               (case get_time_HM txt of
                  None \<Rightarrow> Some (False, old)
                | Some (h, m) \<Rightarrow> Some (True, of_nat (h * 60 + m)))))"

definition load_percent :: "'x xml_api \<Rightarrow> 'x option \<Rightarrow> fl \<Rightarrow> fl option" where
  "load_percent xa e old =
     (case e of
        None \<Rightarrow> Some old
      | Some x \<Rightarrow>
          (case GetText xa x of
             None \<Rightarrow> None
           | Some txt \<Rightarrow> Some (fl_clamp (float_of_double (atof txt)) (Fin 0) (Fin 100))))"

definition loadWorkTime :: "'x xml_api \<Rightarrow> 'x option \<Rightarrow> Projects \<Rightarrow> (bool \<times> Projects) option" where
  "loadWorkTime xa rt p =
     (case rt of
        None \<Rightarrow> Some (True, p)
      | Some r \<Rightarrow>
          (case load_minutes xa (FirstChildElement xa r ''Begin'') (m_workBegin p) of
             None \<Rightarrow> None
           | Some (False, _) \<Rightarrow> Some (False, p)
           | Some (True, b) \<Rightarrow>
               let p = p\<lparr>m_workBegin := b\<rparr> in
               (case load_minutes xa (FirstChildElement xa r ''End'') (m_workEnd p) of
                  None \<Rightarrow> None
                | Some (False, _) \<Rightarrow> Some (False, p)
                | Some (True, e) \<Rightarrow>
                    let p = p\<lparr>m_workEnd := e\<rparr> in
                    (case load_percent xa (FirstChildElement xa r ''Bath'') (m_workBath p) of
                       None \<Rightarrow> None
                     | Some v \<Rightarrow>
                         let p = p\<lparr>m_workBath := v\<rparr> in
                         (case load_percent xa (FirstChildElement xa r ''Default'') (m_workDefault p) of
                            None \<Rightarrow> None
                          | Some v \<Rightarrow> Some (True, p\<lparr>m_workDefault := v\<rparr>))))))"

text \<open>
  One iteration of the loop over the \<open>Project\<close> elements. \<open>absolute\<close> is
  \<open>std::filesystem::absolute\<close>, which depends on the working directory; \<open>addSeparator\<close> is
  \<open>su::fs::addSeparator\<close>.
\<close>

definition read_item ::
  "su_string \<Rightarrow> (string \<Rightarrow> string) \<Rightarrow> (string \<Rightarrow> string) \<Rightarrow> 'x xml_api \<Rightarrow> 'x \<Rightarrow> Item" where
  "read_item su absolute addSeparator xa project =
     (let name = getAttributeString xa project ''Name'' '''' True;
          path = getAttributeString xa project ''Path'' '''' True;
          workPath = getAttributeString xa project ''WorkDir''
                       (''C:'' @ [CHR 0x5C] @ ''Windows'' @ [CHR 0x5C] @ ''Temp'') True;
          path = String_replace su path ''/'' [CHR 0x5C] True;
          workPath = String_replace su workPath ''/'' [CHR 0x5C] True;
          workPath = addSeparator (absolute workPath)
      in \<lparr>m_name = name, m_path = path, m_workPath = workPath\<rparr>)"

definition load_item ::
  "su_string \<Rightarrow> (string \<Rightarrow> string) \<Rightarrow> (string \<Rightarrow> string) \<Rightarrow> 'x xml_api \<Rightarrow> 'x \<Rightarrow> Projects \<Rightarrow> Projects" where
  "load_item su absolute addSeparator xa project p =
     (let prj = read_item su absolute addSeparator xa project
      in p\<lparr>m_items := (m_items p)(m_name prj \<mapsto> prj)\<rparr>)"

definition loadFromFile ::
  "su_string \<Rightarrow> (string \<Rightarrow> string) \<Rightarrow> (string \<Rightarrow> string) \<Rightarrow> 'x xml_api \<Rightarrow> (string \<Rightarrow> 'x option)
     \<Rightarrow> string \<Rightarrow> Projects \<Rightarrow> (bool \<times> Projects) option" where
  "loadFromFile su absolute addSeparator xa xml_load filename p =
     (case xml_load filename of
        None \<Rightarrow> Some (False, p)
      | Some doc \<Rightarrow>
          (case FirstChildElement xa doc ''Config'' of
             None \<Rightarrow> Some (False, p)
           | Some rt \<Rightarrow>
               let p = fold (load_item su absolute addSeparator xa) (children xa rt ''Project'') p in
               loadWorkTime xa (FirstChildElement xa rt ''WorkTime'') p))"

subsection \<open>The number of lent cores\<close>

definition percent_ok :: "fl \<Rightarrow> bool" where
  "percent_ok v \<longleftrightarrow> v = NaN \<or> (\<exists>x. v = Fin x \<and> 0 \<le> x \<and> x \<le> 100)"

definition usable_threads :: "i32 \<Rightarrow> int" where
  "usable_threads hw = max 1 (sint (hw - 3))"

lemma getFreeCore_eq:
  "getFreeCore hw now p =
     float_to_u32 (float_add_const (float_div_const (float_mul
       (float_of_int (usable_threads hw)) (getWorkPercent now p)) 100) (1 / 2))"
  by (auto simp: getFreeCore_def usable_threads_def max_def)

lemma usable_threads_pos: "1 \<le> usable_threads hw"
  by (simp add: usable_threads_def)

lemma float_of_threads: "0 \<le> n \<Longrightarrow> n < 2 ^ 24 \<Longrightarrow> float_of_int n = Fin (of_int n)"
proof -
  assume n: "0 \<le> n" "n < 2 ^ 24"
  have "(of_int n :: rat) < of_int (2 ^ 24)" using n by (simp only: of_int_less_iff)
  then show ?thesis
    unfolding float_of_int_def using n by (intro round32_exact float32_int) auto
qed

text \<open>The computation of \<open>getFreeCore\<close> for a percentage \<open>x\<close> between representable bounds.\<close>

lemma free_core_between:
  fixes x lo hi :: rat
  assumes T: "1 \<le> T" "T < 2 ^ 16" and x: "0 \<le> x" "x \<le> 100"
    and prod: "round32 (of_int T * x) = Fin y"
    and lo: "float32 lo" "float32 (lo + 1 / 2)" "0 \<le> lo" "lo \<le> y / 100"
    and hi: "float32 hi" "float32 (hi + 1 / 2)" "y / 100 \<le> hi" "hi < 2 ^ 16"
  obtains z where "float_add_const (float_div_const (float_mul (float_of_int T) (Fin x)) 100) (1 / 2) = Fin z"
    and "lo + 1 / 2 \<le> z" and "z \<le> hi + 1 / 2"
proof -
  have T': "float_of_int T = Fin (of_int T)" using T by (intro float_of_threads) auto
  obtain q where q: "round32 (y / 100) = Fin q" "lo \<le> q" "q \<le> hi"
    using round32_between[of lo hi "y / 100"] lo hi by force
  obtain z where z: "round32 (q + 1 / 2) = Fin z" "lo + 1 / 2 \<le> z" "z \<le> hi + 1 / 2"
    using round32_between[of "lo + 1 / 2" "hi + 1 / 2" "q + 1 / 2"] lo hi q by force
  show ?thesis using that z prod q T' by simp
qed

lemma free_core_le:
  assumes T: "usable_threads hw < 2 ^ 16" and pct: "getWorkPercent now p = Fin x" "0 \<le> x" "x \<le> 100"
  shows "uint (getFreeCore hw now p) \<le> usable_threads hw"
proof -
  let ?T = "usable_threads hw"
  have T1: "1 \<le> ?T" by (rule usable_threads_pos)
  have Tr: "(of_int ?T :: rat) < 2 ^ 16" using T by (metis of_int_less_iff of_int_numeral of_int_power)
  have Tx: "of_int ?T * x \<le> of_int (100 * ?T)" "0 \<le> of_int ?T * x"
    using pct T1 by (auto simp: mult.commute intro: mult_mono)
  obtain y where y: "round32 (of_int ?T * x) = Fin y" "0 \<le> y" "y \<le> of_int (100 * ?T)"
    using round32_between[of 0 "of_int (100 * ?T)" "of_int ?T * x"] Tx T T1 Tr
      float32_int[of 0] float32_int[of "100 * ?T"] by force
  obtain z where z: "float_add_const (float_div_const (float_mul (float_of_int ?T) (Fin x)) 100) (1 / 2) = Fin z"
    "0 + 1 / 2 \<le> z" "z \<le> of_int ?T + 1 / 2"
  proof (rule free_core_between[OF T1 T pct(2,3) y(1), of 0 "of_int ?T"])
    have "of_int ?T + 1 / 2 = (of_int (2 * ?T + 1) / 2 :: rat)" by simp
    then show "float32 (of_int ?T + 1 / 2)" using T T1 by (simp only:) (rule float32_half, auto)
  qed (use y T T1 Tr float32_int[of 0] float32_int[of ?T] float32_half[of 1] in auto)
  have "\<lfloor>z\<rfloor> \<le> ?T" using z(3) by (simp add: floor_le_iff)
  moreover have "z < 2 ^ 32" using z(3) Tr by simp
  ultimately show ?thesis
    using z by (simp add: getFreeCore_eq pct uint_float_to_u32)
qed

text \<open>
  For a whole percentage the rounding errors of the three single-precision operations never
  show: the result is the exact share, rounded half up.
\<close>

lemma half_up_share:
  fixes N :: int
  assumes "0 \<le> N"
  defines "m \<equiv> (2 * N + 100) div 200"
  shows "(of_int (max 0 (2 * m - 1)) / 2 :: rat) \<le> of_int N / 100"
    and "(of_int N / 100 :: rat) \<le> of_int (128 * m + 63) / 128"
proof -
  have m: "200 * m \<le> 2 * N + 100" "2 * N + 100 < 200 * m + 200" unfolding m_def by auto
  have "100 * max 0 (2 * m - 1) \<le> 2 * N" using m assms(1) by (cases "m \<le> 0") auto
  then have "(of_int (100 * max 0 (2 * m - 1)) :: rat) \<le> of_int (2 * N)" by (simp only: of_int_le_iff)
  then show "(of_int (max 0 (2 * m - 1)) / 2 :: rat) \<le> of_int N / 100" by simp
  have "N \<le> 100 * m + 49" using m by simp
  then have "128 * N \<le> 100 * (128 * m + 63)" by simp
  then have "(of_int (128 * N) :: rat) \<le> of_int (100 * (128 * m + 63))" by (simp only: of_int_le_iff)
  then show "(of_int N / 100 :: rat) \<le> of_int (128 * m + 63) / 128" by simp
qed

lemma float32_share_bounds:
  assumes "0 \<le> m" "m < 2 ^ 16"
  shows "float32 (of_int (max 0 (2 * m - 1)) / 2)" "float32 (of_int (max 0 (2 * m - 1)) / 2 + 1 / 2)"
    "float32 (of_int (128 * m + 63) / 128)" "float32 (of_int (128 * m + 63) / 128 + 1 / 2)"
    "(of_int (128 * m + 63) / 128 :: rat) < 2 ^ 16"
proof -
  have half: "of_int (max 0 (2 * m - 1)) / 2 + 1 / 2 = (of_int (max 0 (2 * m - 1) + 1) / 2 :: rat)"
    "of_int (128 * m + 63) / 128 + 1 / 2 = (of_int (128 * m + 127) / 128 :: rat)"
    by (simp_all add: add_divide_distrib)
  show "float32 (of_int (max 0 (2 * m - 1)) / 2)" "float32 (of_int (128 * m + 63) / 128)"
    using assms by (auto intro!: float32_half float32_128th simp del: of_int_add of_int_mult of_int_max)
  show "float32 (of_int (max 0 (2 * m - 1)) / 2 + 1 / 2)" "float32 (of_int (128 * m + 63) / 128 + 1 / 2)"
    unfolding half using assms
    by (auto intro!: float32_half float32_128th simp del: of_int_add of_int_mult of_int_max)
  have "128 * m + 63 < 2 ^ 23" using assms by simp
  then have "(of_int (128 * m + 63) :: rat) < of_int (2 ^ 23)" by (simp only: of_int_less_iff)
  then show "(of_int (128 * m + 63) / 128 :: rat) < 2 ^ 16" by simp
qed

lemma floor_share:
  fixes z :: rat
  assumes "0 \<le> m" "of_int (max 0 (2 * m - 1)) / 2 + 1 / 2 \<le> z" "z \<le> of_int (128 * m + 63) / 128 + 1 / 2"
  shows "\<lfloor>z\<rfloor> = m" and "0 \<le> z"
proof -
  have "2 * m \<le> max 0 (2 * m - 1) + 1" by simp
  then have "(of_int (2 * m) :: rat) \<le> of_int (max 0 (2 * m - 1) + 1)" by (simp only: of_int_le_iff)
  with assms(2) have le: "of_int m \<le> z" by simp
  have "z < of_int m + 1" using assms(3) by (simp add: add_divide_distrib)
  with le show "\<lfloor>z\<rfloor> = m" by (simp add: floor_eq_iff)
  from le assms(1) show "0 \<le> z" by (metis of_int_0_le_iff order_trans)
qed

lemma free_core_exact:
  assumes T: "usable_threads hw < 2 ^ 16"
    and pct: "getWorkPercent now p = Fin (of_int k)" "0 \<le> k" "k \<le> 100"
  shows "uint (getFreeCore hw now p) = (2 * usable_threads hw * k + 100) div 200"
proof -
  let ?T = "usable_threads hw"
  let ?N = "?T * k"
  let ?m = "(2 * ?N + 100) div 200"
  have T1: "1 \<le> ?T" by (rule usable_threads_pos)
  have N: "0 \<le> ?N" "?N \<le> 100 * ?T" using T1 pct by (auto simp: mult.commute intro: mult_mono)
  have m: "0 \<le> ?m" "?m < 2 ^ 16" using N T by auto
  have x: "(0::rat) \<le> of_int k" "(of_int k :: rat) \<le> 100"
    using pct by (simp, metis of_int_le_iff of_int_numeral)
  have prod: "round32 (of_int ?T * of_int k) = Fin (of_int ?N)"
  proof -
    have lt: "?N < 2 ^ 24" using N T by simp
    then have "(of_int ?N :: rat) < of_int (2 ^ 24)" by (simp only: of_int_less_iff)
    moreover have "(0 :: rat) \<le> of_int ?N" using N(1) by (simp only: of_int_0_le_iff)
    ultimately have "round32 (of_int ?N) = Fin (of_int ?N)"
      using N lt by (intro round32_exact float32_int) auto
    then show ?thesis by simp
  qed
  obtain z where z: "float_add_const (float_div_const (float_mul (float_of_int ?T) (Fin (of_int k))) 100) (1 / 2) = Fin z"
    "of_int (max 0 (2 * ?m - 1)) / 2 + 1 / 2 \<le> z" "z \<le> of_int (128 * ?m + 63) / 128 + 1 / 2"
    by (rule free_core_between[OF T1 T x prod float32_share_bounds(1,2)[OF m] _ half_up_share(1)[OF N(1)]
          float32_share_bounds(3,4)[OF m] half_up_share(2)[OF N(1)] float32_share_bounds(5)[OF m]]) auto
  have "z < 2 ^ 32" using z(3) float32_share_bounds(5)[OF m] by (simp add: add_divide_distrib)
  then show ?thesis
    using z(1) floor_share[OF m(1) z(2,3)]
    by (simp add: getFreeCore_eq pct(1) uint_float_to_u32 mult.assoc)
qed

text \<open>
  C21: For a whole percentage between 0 and 100 and fewer than 65536 usable threads,
  \<open>getFreeCore\<close> returns exactly the percentage of the usable threads (all but three, at least
  one), rounded half up: the single-precision rounding errors never show.
\<close>

theorem getFreeCore_exact:
  assumes "usable_threads hw < 2 ^ 16"
    and "getWorkPercent now p = Fin (of_int k)" "0 \<le> k" "k \<le> 100"
  shows "uint (getFreeCore hw now p) = (2 * usable_threads hw * k + 100) div 200"
  using assms by (rule free_core_exact)

theorem getFreeCore_exact_witness:
  "uint (getFreeCore 16 (12, 0) (new_Projects\<lparr>m_workBath := Fin 35\<rparr>)) = 5"
proof -
  have t: "usable_threads 16 = 13" by (simp add: usable_threads_def)
  have "getWorkPercent (12, 0) (new_Projects\<lparr>m_workBath := Fin 35\<rparr>) = Fin (of_int 35)"
    by (simp add: getWorkPercent_def new_Projects_def)
  from getFreeCore_exact[OF _ this, of 16] show ?thesis by (simp add: t)
qed

text \<open>
  With any percentage from 0 to 100, fractional ones included, \<open>getFreeCore\<close> never lends
  more than the usable threads.
\<close>

theorem getFreeCore_bound:
  assumes "usable_threads hw < 2 ^ 16"
    and "getWorkPercent now p = Fin x" "0 \<le> x" "x \<le> 100"
  shows "uint (getFreeCore hw now p) \<le> usable_threads hw"
  using assms by (rule free_core_le)

theorem getFreeCore_bound_witness:
  "uint (getFreeCore 8 (0, 0) (new_Projects\<lparr>m_workBath := Fin (333 / 10)\<rparr>)) \<le> 5"
proof -
  have t: "usable_threads 8 = 5" by (simp add: usable_threads_def)
  have "getWorkPercent (0, 0) (new_Projects\<lparr>m_workBath := Fin (333 / 10)\<rparr>) = Fin (333 / 10)"
    by (simp add: getWorkPercent_def new_Projects_def)
  from getFreeCore_bound[OF _ this, of 8] show ?thesis by (simp add: t)
qed

subsection \<open>The working window\<close>

text \<open>Sub-day times as words: no wrap-around.\<close>

lemma minutes_uint: "n < 1440 \<Longrightarrow> uint (of_nat n :: size_t) = int n"
  by (simp add: unsigned_of_nat take_bit_nat_eq_self)

lemma work_percent_cases:
  assumes "uint (m_workBegin p) = b" "uint (m_workEnd p) = e" "int (h * 60 + m) = t" "t < 1440"
  shows "getWorkPercent (h, m) p =
    (if b < e \<and> b \<le> t \<and> t \<le> e \<or> \<not> b < e \<and> (b \<le> t \<or> t \<le> e) then m_workBath p else m_workDefault p)"
proof -
  have "h * 60 + m < 1440" using assms by linarith
  then have "uint (of_nat (h * 60 + m) :: size_t) = t" using minutes_uint assms(3) by metis
  then show ?thesis
    using assms(1,2) by (simp add: getWorkPercent_def Let_def word_less_def word_le_def del: of_nat_add)
qed

lemma cyclic_window:
  fixes b e t :: int
  assumes "0 \<le> b" "b < 1440" "0 \<le> e" "e < 1440" "0 \<le> t" "t < 1440" "b \<noteq> e"
  shows "(b < e \<and> b \<le> t \<and> t \<le> e \<or> \<not> b < e \<and> (b \<le> t \<or> t \<le> e))
         \<longleftrightarrow> (t - b) mod 1440 \<le> (e - b) mod 1440"
proof -
  have md: "(u - b) mod 1440 = (if b \<le> u then u - b else u - b + 1440)" if "0 \<le> u" "u < 1440" for u
  proof (cases "b \<le> u")
    case True
    then show ?thesis using that assms by simp
  next
    case False
    have "(u - b) mod 1440 = (u - b + 1440) mod 1440" by simp
    also have "\<dots> = u - b + 1440" using False that assms by (intro mod_pos_pos_trivial) auto
    finally show ?thesis using False by simp
  qed
  show ?thesis using assms md[of t] md[of e] by auto
qed

text \<open>
  The working window is cyclic over the day: for a window whose two ends differ,
  \<open>getWorkPercent\<close> returns the \<open>Bath\<close> percentage exactly at the minutes that follow \<open>Begin\<close>
  by no more than \<open>End\<close> does, midnight included; with equal ends it returns it all day.
\<close>

theorem getWorkPercent_window:
  assumes "m_workBegin p < 1440" "m_workEnd p < 1440" "h < 24" "m < 60"
  shows "getWorkPercent (h, m) p =
    (if m_workBegin p = m_workEnd p \<or>
        (int (h * 60 + m) - uint (m_workBegin p)) mod 1440 \<le> (uint (m_workEnd p) - uint (m_workBegin p)) mod 1440
     then m_workBath p else m_workDefault p)"
proof -
  let ?t = "int (h * 60 + m)"
  have t: "0 \<le> ?t" "?t < 1440" using assms by auto
  have ub: "uint (m_workBegin p) < 1440" "uint (m_workEnd p) < 1440"
    using assms(1,2) by (simp_all add: word_less_def)
  note pc = work_percent_cases[OF refl refl refl t(2)]
  show ?thesis
  proof (cases "m_workBegin p = m_workEnd p")
    case True
    then show ?thesis by (auto simp: pc simp del: of_nat_add)
  next
    case False
    then have ne: "uint (m_workBegin p) \<noteq> uint (m_workEnd p)" by (simp add: word_uint_eq_iff)
    show ?thesis
      unfolding pc using False cyclic_window[OF _ ub(1) _ ub(2) t ne] by simp
  qed
qed

theorem getWorkPercent_window_witness:
  "getWorkPercent (23, 30) (new_Projects\<lparr>m_workBegin := 1200, m_workEnd := 360, m_workBath := Fin 80\<rparr>) = Fin 80"
proof -
  let ?p = "new_Projects\<lparr>m_workBegin := 1200, m_workEnd := 360, m_workBath := Fin 80\<rparr>"
  have "getWorkPercent (23, 30) ?p =
    (if m_workBegin ?p = m_workEnd ?p \<or>
        (int (23 * 60 + 30) - uint (m_workBegin ?p)) mod 1440 \<le> (uint (m_workEnd ?p) - uint (m_workBegin ?p)) mod 1440
     then m_workBath ?p else m_workDefault ?p)"
    by (rule getWorkPercent_window) (simp_all add: new_Projects_def)
  then show ?thesis by (simp add: new_Projects_def)
qed

subsection \<open>What loading establishes\<close>

definition projects_wf :: "Projects \<Rightarrow> bool" where
  "projects_wf p \<longleftrightarrow> m_workBegin p < 1440 \<and> m_workEnd p < 1440 \<and>
     percent_ok (m_workBath p) \<and> percent_ok (m_workDefault p)"

lemma new_Projects_wf: "projects_wf new_Projects"
  by (simp add: projects_wf_def new_Projects_def percent_ok_def)

lemma get_num2_bound: "get_num2 hi s = Some (n, r) \<Longrightarrow> 9 \<le> hi \<Longrightarrow> n \<le> hi"
  by (induction hi s rule: get_num2.induct)
    (auto simp: is_digit_def digit_val_def Let_def split: if_splits)

lemma get_time_HM_bound: "get_time_HM s = Some (h, m) \<Longrightarrow> h \<le> 23 \<and> m \<le> 59"
  by (auto simp: get_time_HM_def dest!: get_num2_bound split: option.splits list.splits if_splits)

lemma load_minutes_bound:
  assumes "load_minutes xa e old = Some (r, v)" "old < 1440"
  shows "v < 1440"
proof -
  have "(of_nat (h * 60 + m) :: size_t) < 1440" if "h \<le> 23" "m \<le> 59" for h m
  proof -
    have "h * 60 + m < 1440" using that by simp
    then show ?thesis by (simp add: word_less_def minutes_uint del: of_nat_add)
  qed
  then show ?thesis
    using assms by (auto simp: load_minutes_def dest!: get_time_HM_bound split: option.splits simp del: of_nat_add)
qed

lemma clamp_percent_ok: "percent_ok (fl_clamp v (Fin 0) (Fin 100))"
  by (cases v) (auto simp: fl_clamp_def percent_ok_def)

lemma load_percent_ok: "load_percent xa e old = Some v \<Longrightarrow> percent_ok old \<Longrightarrow> percent_ok v"
  by (auto simp: load_percent_def clamp_percent_ok split: option.splits)

lemma loadWorkTime_wf:
  "loadWorkTime xa e p = Some (r, p') \<Longrightarrow> projects_wf p \<Longrightarrow> projects_wf p'"
  by (auto simp: loadWorkTime_def projects_wf_def Let_def
      dest: load_minutes_bound load_percent_ok split: option.splits prod.splits bool.splits)

lemma loadWorkTime_items: "loadWorkTime xa e p = Some (r, p') \<Longrightarrow> m_items p' = m_items p"
  by (auto simp: loadWorkTime_def Let_def split: option.splits prod.splits bool.splits)

lemma load_items_frame:
  "m_workBegin (fold (load_item su ab sep xa) es p) = m_workBegin p"
  "m_workEnd (fold (load_item su ab sep xa) es p) = m_workEnd p"
  "m_workBath (fold (load_item su ab sep xa) es p) = m_workBath p"
  "m_workDefault (fold (load_item su ab sep xa) es p) = m_workDefault p"
  by (induction es arbitrary: p) (simp_all add: load_item_def Let_def)

lemma load_items_lookup:
  "m_items (fold (load_item su ab sep xa) es p) n =
     (case filter (\<lambda>e. m_name (read_item su ab sep xa e) = n) es of
        [] \<Rightarrow> m_items p n
      | fs \<Rightarrow> Some (read_item su ab sep xa (last fs)))"
  by (induction es arbitrary: p) (auto simp: load_item_def Let_def split: list.splits)

text \<open>
  C37: Loading keeps the settings well formed on every path, failed loads included: the window
  ends are minutes of a day and each percentage lies between 0 and 100 (or is a NaN, which
  \<open>std::clamp\<close> lets through).
\<close>

theorem loadFromFile_wf:
  assumes "projects_wf p" "loadFromFile su ab sep xa xml_load filename p = Some (r, p')"
  shows "projects_wf p'"
proof -
  have "projects_wf (fold (load_item su ab sep xa) es p)" for es
    using assms(1) by (simp add: projects_wf_def load_items_frame)
  then show ?thesis
    using assms by (auto simp: loadFromFile_def Let_def intro: loadWorkTime_wf split: option.splits)
qed

text \<open>
  After a load that succeeds, looking a project up returns the last \<open>Project\<close> element of
  that name of the file; a name without an element keeps what the table had.
\<close>

theorem loadFromFile_lookup:
  assumes "loadFromFile su ab sep xa xml_load filename p = Some (True, p')"
    and "xml_load filename = Some doc" "FirstChildElement xa doc ''Config'' = Some cfg"
  shows "getProject p' n =
     (case filter (\<lambda>e. m_name (read_item su ab sep xa e) = n) (children xa cfg ''Project'') of
        [] \<Rightarrow> getProject p n
      | fs \<Rightarrow> Some (read_item su ab sep xa (last fs)))"
proof -
  have "m_items p' = m_items (fold (load_item su ab sep xa) (children xa cfg ''Project'') p)"
    using assms by (auto simp: loadFromFile_def Let_def dest: loadWorkTime_items)
  then show ?thesis by (simp add: getProject_def load_items_lookup split: list.split)
qed

definition sample_config :: xml where
  "sample_config = XElem [] [] None [XElem ''Config'' [] None
     [XElem ''Project'' [(''Name'', ''game''), (''Path'', ''D''), (''WorkDir'', ''T'')] None [],
      XElem ''Project'' [(''Name'', ''game''), (''Path'', ''E''), (''WorkDir'', ''U'')] None [],
      XElem ''WorkTime'' [] None [XElem ''Begin'' [] (Some ''9:30'') []]]]"

lemma sample_load:
  "loadFromFile sample_su (\<lambda>x. x) (\<lambda>x. x) tree_xml (\<lambda>_. Some sample_config) ''f'' new_Projects =
     Some (True, new_Projects\<lparr>m_items := [''game'' \<mapsto> \<lparr>m_name = ''game'', m_path = ''E'', m_workPath = ''U''\<rparr>],
       m_workBegin := 570\<rparr>)"
  by (simp add: loadFromFile_def sample_config_def tree_xml_def FirstChildElement_def load_item_def read_item_def
      loadWorkTime_def load_minutes_def load_percent_def get_time_HM_def is_space_def is_digit_def digit_val_def
      sample_su_def replace_all.simps new_Projects_def numeral_eq_Suc)

theorem loadFromFile_wf_witness:
  "projects_wf (new_Projects\<lparr>m_items := [''game'' \<mapsto> \<lparr>m_name = ''game'', m_path = ''E'', m_workPath = ''U''\<rparr>],
       m_workBegin := 570\<rparr>)"
  using loadFromFile_wf[OF new_Projects_wf sample_load] .

theorem loadFromFile_lookup_witness:
  "getProject (new_Projects\<lparr>m_items := [''game'' \<mapsto> \<lparr>m_name = ''game'', m_path = ''E'', m_workPath = ''U''\<rparr>],
       m_workBegin := 570\<rparr>) ''game'' = Some \<lparr>m_name = ''game'', m_path = ''E'', m_workPath = ''U''\<rparr>"
proof -
  have cfg: "FirstChildElement tree_xml sample_config ''Config'' = Some (hd (xkids sample_config))"
    by (simp add: FirstChildElement_def tree_xml_def sample_config_def)
  show ?thesis
    unfolding loadFromFile_lookup[OF sample_load refl cfg]
    by (simp add: sample_config_def tree_xml_def read_item_def sample_su_def replace_all.simps)
qed

end
