(* ===== verification/Console_Tasks.thy ===== *)
theory Console_Tasks
  imports "HOL-Library.Sublist" Messages Process_App Project
begin

text \<open>
  \<open>console/console.h\<close> and the configuration part of \<open>console/console.cpp\<close>: the variables of a
  task, the task table entry \<open>TaskInfo\<close>, and the generation of the task table from the build
  set (\<open>taskGenerator\<close>, \<open>loadConfig\<close>).
\<close>

subsection \<open>std::string and std::filesystem::path\<close>

datatype cpp_exn = out_of_range | filesystem_error

definition string_find :: "char \<Rightarrow> string \<Rightarrow> nat option" where
  "string_find c s = (if c \<in> set s then Some (length (takeWhile (\<lambda>x. x \<noteq> c) s)) else None)"

definition string_rfind :: "char \<Rightarrow> string \<Rightarrow> nat option" where
  "string_rfind c s =
     (if c \<in> set s then Some (length s - 1 - length (takeWhile (\<lambda>x. x \<noteq> c) (rev s))) else None)"

text \<open>\<open>s.substr(pos)\<close> throws when \<open>pos\<close> is past the end.\<close>

definition string_substr :: "string \<Rightarrow> size_t \<Rightarrow> cpp_exn + string" where
  "string_substr s pos = (if length s < unat pos then Inl out_of_range else Inr (drop (unat pos) s))"

text \<open>\<open>path::filename\<close> on Windows: what follows the last separator of the part after the rt.\<close>

definition is_slash :: "char \<Rightarrow> bool" where
  "is_slash c \<longleftrightarrow> c = CHR 0x5C \<or> c = CHR ''/''"

definition is_drive_letter :: "char \<Rightarrow> bool" where
  "is_drive_letter c \<longleftrightarrow> c \<in> set ''ABCDEFGHIJKLMNOPQRSTUVWXYZabcdefghijklmnopqrstuvwxyz''"

fun after_root_name :: "string \<Rightarrow> string" where
  "after_root_name (a # b # s) =
     (if is_drive_letter a \<and> b = CHR '':'' then s
      else if \<not> is_slash a then a # b # s
      else (case s of
          c # d # r \<Rightarrow>
            if is_slash d \<and> (r = [] \<or> \<not> is_slash (hd r)) \<and>
               (is_slash b \<and> (c = CHR ''?'' \<or> c = CHR ''.'') \<or> b = CHR ''?'' \<and> c = CHR ''?'')
            then d # r
            else if is_slash b \<and> \<not> is_slash c then dropWhile (\<lambda>x. \<not> is_slash x) (d # r)
            else a # b # s
        | [c] \<Rightarrow> if is_slash b \<and> \<not> is_slash c then [] else a # b # s
        | [] \<Rightarrow> a # b # s))"
| "after_root_name s = s"

definition path_filename :: "string \<Rightarrow> string" where
  "path_filename s =
     rev (takeWhile (\<lambda>c. \<not> is_slash c) (rev (dropWhile is_slash (after_root_name s))))"

subsection \<open>TaskVariables\<close>

record TaskVariables =
  PName :: string
  PDir :: string
  SDir :: string
  ODir :: string
  WDir :: string
  SFile :: string
  OFile :: string
  SourceFile :: string
  SourceFileName :: string
  OutputFile :: string

definition TaskVariables_replace :: "su_string \<Rightarrow> TaskVariables \<Rightarrow> string \<Rightarrow> string" where
  "TaskVariables_replace su v str =
     (let out = str;
          out = String_replace su out ''$(pname)'' (PName v) True;
          out = String_replace su out ''$(pdir)'' (PDir v) True;
          out = String_replace su out ''$(sdir)'' (SDir v) True;
          out = String_replace su out ''$(wdir)'' (WDir v) True;
          out = String_replace su out ''$(sfile)'' (SFile v) True;
          out = String_replace su out ''$(ofile)'' (OFile v) True;
          out = String_replace su out ''$(sourcefile)'' (SourceFile v) True;
          out = String_replace su out ''$(sourcefilename)'' (SourceFileName v) True;
          out = String_replace su out ''$(outputfile)'' (OutputFile v) True
      in out)"

subsection \<open>TaskInfo\<close>

text \<open>A node pointer is the number of the node; \<open>None\<close> is the null pointer.\<close>

record TaskInfo =
  m_vars :: TaskVariables
  m_message :: Master_Task
  m_node :: "nat option"
  m_exitCode :: i32
  m_result :: ExitCodeResult
  m_doneIp :: string

definition empty_vars :: TaskVariables where
  "empty_vars = \<lparr>PName = '''', PDir = '''', SDir = '''', ODir = '''', WDir = '''', SFile = '''',
     OFile = '''', SourceFile = '''', SourceFileName = '''', OutputFile = ''''\<rparr>"

definition new_TaskInfo :: "u32 \<Rightarrow> TaskInfo" where
  "new_TaskInfo i = \<lparr>m_vars = empty_vars, m_message = Master_Task_default\<lparr>tk_id := Some i\<rparr>,
     m_node = None, m_exitCode = 0, m_result = NoInit, m_doneIp = ''''\<rparr>"

text \<open>
  The copy constructor and the assignment copy the variables and the message only; a freshly
  constructed copy has the default values elsewhere.
\<close>

definition TaskInfo_copyFrom :: "TaskInfo \<Rightarrow> TaskInfo \<Rightarrow> TaskInfo" where
  "TaskInfo_copyFrom self mti = self\<lparr>m_vars := m_vars mti, m_message := m_message mti\<rparr>"

definition TaskInfo_copy :: "TaskInfo \<Rightarrow> TaskInfo" where
  "TaskInfo_copy mti =
     TaskInfo_copyFrom \<lparr>m_vars = empty_vars, m_message = Master_Task_default, m_node = None,
       m_exitCode = 0, m_result = NoInit, m_doneIp = ''''\<rparr> mti"

subsection \<open>taskGenerator\<close>

abbreviation backslashes :: "su_string \<Rightarrow> string \<Rightarrow> string" where
  "backslashes su s \<equiv> String_replace su s ''/'' [CHR 0x5C] True"

text \<open>The loop over the directory entries whose lower-cased path ends with the msk.\<close>

fun match_entries ::
  "su_string \<Rightarrow> TaskVariables \<Rightarrow> string \<Rightarrow> string \<Rightarrow> string list \<Rightarrow> u32 \<Rightarrow> TaskInfo list
     \<Rightarrow> cpp_exn + (TaskInfo list \<times> u32)" where
  "match_entries su vars outputFile msk [] idn out = Inr (out, idn)"
| "match_entries su vars outputFile msk (entry # es) idn out =
     (let filename = String_tolower su entry in
      case string_substr filename (of_nat (length filename) - of_nat (length msk)) of
        Inl e \<Rightarrow> Inl e
      | Inr tail \<Rightarrow>
          if tail = msk then
            let idn = idn + 1;
                mti = new_TaskInfo idn;
                mti = mti\<lparr>m_vars := vars\<lparr>SourceFile := filename, OutputFile := outputFile\<rparr>\<rparr>
            in match_entries su vars outputFile msk es idn (out @ [TaskInfo_copy mti])
          else match_entries su vars outputFile msk es idn out)"

text \<open>Steps 1 to 4 of the second loop, for one task.\<close>

definition finish_task :: "su_string \<Rightarrow> string \<Rightarrow> string \<Rightarrow> string \<Rightarrow> bool \<Rightarrow> TaskInfo \<Rightarrow> TaskInfo" where
  "finish_task su application params workingDir isAbortOnError task =
     (let v = m_vars task;
          v = v\<lparr>SourceFile := TaskVariables_replace su v (SourceFile v)\<rparr>;
          v = v\<lparr>SourceFileName := String_rawFilename su (path_filename (SourceFile v))\<rparr>;
          v = v\<lparr>OutputFile := TaskVariables_replace su v (OutputFile v)\<rparr>;
          curCommandline = TaskVariables_replace su v params;
          curWorkingDir = TaskVariables_replace su v workingDir;
          sourceFile = String_replace su (SourceFile v) (PDir v) ''$(pdir)'' True;
          outputFile = String_replace su (OutputFile v) (PDir v) ''$(pdir)'' True;
          curCommandline = String_replace su curCommandline (PDir v) ''$(pdir)'' True;
          curWorkingDir = String_replace su curWorkingDir (PDir v) ''$(pdir)'' True
      in task\<lparr>m_vars := v,
              m_message := (m_message task)
                \<lparr>tk_project := Some (PName v), tk_sourceFile := Some sourceFile,
                 tk_outputFile := Some outputFile,
                 tk_application := Some (TaskVariables_replace su v application),
                 tk_commandline := Some curCommandline, tk_workingDir := Some curWorkingDir,
                 tk_abortOnError := Some isAbortOnError\<rparr>\<rparr>)"

text \<open>
  The first part of \<open>taskGenerator\<close>: the tasks of one element before their variables are
  expanded. \<open>dir_iter dir\<close> lists the paths of the directory entries, \<open>None\<close> when
  \<open>fs::directory_iterator\<close> throws.
\<close>

definition collect_tasks ::
  "su_string \<Rightarrow> (string \<Rightarrow> string list option) \<Rightarrow> string \<Rightarrow> string \<Rightarrow> TaskVariables \<Rightarrow> u32
     \<Rightarrow> cpp_exn + (TaskInfo list \<times> u32)" where
  "collect_tasks su dir_iter sourceFile outputFile vars idn =
     (if string_find (CHR ''*'') sourceFile \<noteq> None then
        let sourceFile = TaskVariables_replace su vars sourceFile;
            posLastSlash = string_rfind (CHR 0x5C) sourceFile;
            dir = (case posLastSlash of Some p \<Rightarrow> take p sourceFile | None \<Rightarrow> ''.'' @ [CHR 0x5C]);
            rawMask = (case posLastSlash of
                Some p \<Rightarrow> string_substr sourceFile (of_nat p + 2) | None \<Rightarrow> Inr sourceFile)
        in case rawMask of
             Inl e \<Rightarrow> Inl e
           | Inr m \<Rightarrow>
               (case dir_iter dir of
                  None \<Rightarrow> Inl filesystem_error
                | Some entries \<Rightarrow>
                    match_entries su vars outputFile (String_tolower su m) entries idn [])
      else
        let idn = idn + 1;
            mti = (new_TaskInfo idn)\<lparr>m_vars := vars\<lparr>SourceFile := sourceFile, OutputFile := outputFile\<rparr>\<rparr>
        in Inr ([TaskInfo_copy mti], idn))"

text \<open>
  A normal return is always \<open>true\<close>; the result is the extended task vector and the last id.
\<close>

definition taskGenerator ::
  "su_string \<Rightarrow> 'x xml_api \<Rightarrow> (string \<Rightarrow> string list option) \<Rightarrow> 'x \<Rightarrow> TaskVariables
     \<Rightarrow> TaskInfo list \<Rightarrow> u32 \<Rightarrow> cpp_exn + (TaskInfo list \<times> u32)" where
  "taskGenerator su xa dir_iter element vars tasks idn =
     (let sourceFile = getAttributeString xa element ''SourceFile'' '''' True;
          outputFile = getAttributeString xa element ''OutputFile'' '''' True;
          application = getAttributeString xa element ''Application'' '''' True;
          params = getAttributeString xa element ''Params'' '''' True;
          workingDir = getAttributeString xa element ''WorkingDir'' '''' True;
          isAbortOnError = getAttributeBool xa element ''AbortOnError'' True;
          sourceFile = backslashes su sourceFile;
          outputFile = backslashes su outputFile;
          application = backslashes su application;
          params = backslashes su params;
          workingDir = backslashes su workingDir
      in case collect_tasks su dir_iter sourceFile outputFile vars idn of
           Inl e \<Rightarrow> Inl e
         | Inr (out, idn) \<Rightarrow>
             Inr (tasks @ map TaskInfo_copy
                    (map (finish_task su application params workingDir isAbortOnError) out), idn))"

subsection \<open>loadConfig\<close>

text \<open>The inner loop over the \<open>Task\<close> elements of a project.\<close>

fun load_tasks ::
  "su_string \<Rightarrow> 'x xml_api \<Rightarrow> (string \<Rightarrow> string list option) \<Rightarrow> TaskVariables \<Rightarrow> 'x list
     \<Rightarrow> TaskInfo list \<times> u32 \<Rightarrow> cpp_exn + (TaskInfo list \<times> u32)" where
  "load_tasks su xa di prjVars [] st = Inr st"
| "load_tasks su xa di prjVars (e # es) st =
     (case taskGenerator su xa di e prjVars (fst st) (snd st) of
        Inl x \<Rightarrow> Inl x
      | Inr st' \<Rightarrow> load_tasks su xa di prjVars es st')"

text \<open>The outer loop over the \<open>Project\<close> elements; an unknown project is skipped.\<close>

fun load_projects ::
  "su_string \<Rightarrow> 'x xml_api \<Rightarrow> (string \<Rightarrow> string list option) \<Rightarrow> Projects \<Rightarrow> TaskVariables \<Rightarrow> 'x list
     \<Rightarrow> TaskInfo list \<times> u32 \<Rightarrow> cpp_exn + (TaskInfo list \<times> u32)" where
  "load_projects su xa di projects vars [] st = Inr st"
| "load_projects su xa di projects vars (p # ps) st =
     (let prjName = getAttributeString xa p ''Name'' '''' True in
      case getProject projects prjName of
        None \<Rightarrow> load_projects su xa di projects vars ps st
      | Some prj \<Rightarrow>
          let prjVars = vars\<lparr>PName := prjName, PDir := m_path prj\<rparr> in
          case load_tasks su xa di prjVars (children xa p ''Task'') st of
            Inl x \<Rightarrow> Inl x
          | Inr st' \<Rightarrow> load_projects su xa di projects vars ps st')"

text \<open>
  \<open>xml_load\<close> is \<open>doc.LoadFile\<close>: the document element, or \<open>None\<close> unless \<open>XML_SUCCESS\<close>. The
  result is the returned boolean and the task vector.
\<close>

definition loadConfig ::
  "su_string \<Rightarrow> 'x xml_api \<Rightarrow> (string \<Rightarrow> 'x option) \<Rightarrow> (string \<Rightarrow> string list option)
     \<Rightarrow> string \<Rightarrow> Projects \<Rightarrow> TaskVariables \<Rightarrow> TaskInfo list \<Rightarrow> cpp_exn + (bool \<times> TaskInfo list)" where
  "loadConfig su xa xml_load di filename projects vars tasks =
     (case xml_load filename of
        None \<Rightarrow> Inr (False, tasks)
      | Some doc \<Rightarrow>
          (case FirstChildElement xa doc ''BuildSet'' of
             None \<Rightarrow> Inr (False, tasks)
           | Some rt \<Rightarrow>
               (case load_projects su xa di projects vars (children xa rt ''Project'') (tasks, 0) of
                  Inl x \<Rightarrow> Inl x
                | Inr (tasks', _) \<Rightarrow> Inr (tasks' \<noteq> [], tasks'))))"

subsection \<open>What the generator produces\<close>

text \<open>A task nobody has worked on, and a message that lacks nothing but the file contents.\<close>

definition task_fresh :: "TaskInfo \<Rightarrow> bool" where
  "task_fresh t \<longleftrightarrow> m_node t = None \<and> m_exitCode t = 0 \<and> m_result t = NoInit \<and> m_doneIp t = ''''"

definition message_ready :: "Master_Task \<Rightarrow> bool" where
  "message_ready m \<longleftrightarrow> Task_IsInitialized (m\<lparr>tk_inputData := Some []\<rparr>)"

abbreviation task_id :: "TaskInfo \<Rightarrow> u32 option" where
  "task_id t \<equiv> tk_id (m_message t)"

text \<open>Ids counting up from \<open>i + 1\<close>.\<close>

definition ids_from :: "u32 \<Rightarrow> TaskInfo list \<Rightarrow> bool" where
  "ids_from i ts \<longleftrightarrow> map task_id ts = map (\<lambda>k. Some (i + of_nat k + 1)) [0..<length ts]"

definition generated :: "u32 \<Rightarrow> TaskInfo list \<Rightarrow> bool" where
  "generated i ts \<longleftrightarrow> ids_from i ts \<and> (\<forall>t \<in> set ts. task_fresh t \<and> message_ready (m_message t))"

lemma ids_from_append:
  "ids_from i (xs @ ys) \<longleftrightarrow> ids_from i xs \<and> ids_from (i + of_nat (length xs)) ys"
proof -
  have "map (\<lambda>k. Some (i + of_nat k + 1)) [length xs..<length xs + length ys] =
        map (\<lambda>k. Some (i + of_nat (length xs) + of_nat k + 1)) [0..<length ys]"
    by (rule nth_equalityI) (auto simp: algebra_simps)
  then show ?thesis
    by (simp add: ids_from_def upt_add_eq_append[of 0 "length xs" "length ys", simplified])
qed

lemma ids_from_Nil [simp]: "ids_from i []"
  by (simp add: ids_from_def)

lemma ids_from_single [simp]: "ids_from i [t] \<longleftrightarrow> task_id t = Some (i + 1)"
  by (simp add: ids_from_def)

lemma generated_append:
  "generated i (xs @ ys) \<longleftrightarrow> generated i xs \<and> generated (i + of_nat (length xs)) ys"
  by (auto simp: generated_def ids_from_append)

lemma copy_simps [simp]:
  "m_vars (TaskInfo_copy t) = m_vars t" "m_message (TaskInfo_copy t) = m_message t"
  "task_fresh (TaskInfo_copy t)"
  by (simp_all add: TaskInfo_copy_def TaskInfo_copyFrom_def task_fresh_def)

text \<open>Copying loses nothing while no task has been handed out.\<close>

lemma copy_fresh: "task_fresh t \<Longrightarrow> TaskInfo_copy t = t"
  by (cases t) (simp add: TaskInfo_copy_def TaskInfo_copyFrom_def task_fresh_def)

lemma match_entries_ids:
  "match_entries su vars outp msk es i out = Inr (out', i') \<Longrightarrow>
     \<exists>new. out' = out @ new \<and> ids_from i new \<and> i' = i + of_nat (length new)"
proof (induction su vars outp msk es i out rule: match_entries.induct)
  case (1 su vars outp msk i out)
  then show ?case by simp
next
  case (2 su vars outp msk e es i out)
  let ?f = "String_tolower su e"
  obtain tail where tail: "string_substr ?f (of_nat (length ?f) - of_nat (length msk)) = Inr tail"
    using "2.prems" by (auto simp: Let_def split: sum.splits)
  show ?case
  proof (cases "tail = msk")
    case True
    define t where "t = TaskInfo_copy ((new_TaskInfo (i + 1))\<lparr>m_vars := vars\<lparr>SourceFile := ?f, OutputFile := outp\<rparr>\<rparr>)"
    have "match_entries su vars outp msk es (i + 1) (out @ [t]) = Inr (out', i')"
      using "2.prems" tail True by (simp add: Let_def t_def)
    from "2.IH"(1)[OF refl tail True refl refl refl this[unfolded t_def]]
    obtain new where new: "out' = (out @ [t]) @ new" "ids_from (i + 1) new" "i' = i + 1 + of_nat (length new)"
      by (auto simp: t_def)
    have "ids_from i (t # new)"
      using new(2) ids_from_append[of i "[t]" new] by (simp add: t_def new_TaskInfo_def)
    with new show ?thesis by (intro exI[of _ "t # new"]) simp
  next
    case False
    then show ?thesis using "2.prems" "2.IH"(2)[OF refl tail False] tail by (simp add: Let_def)
  qed
qed

lemma finish_task_simps [simp]:
  "task_id (finish_task su ap pa wd ab t) = task_id t"
  "message_ready (m_message (finish_task su ap pa wd ab t)) \<longleftrightarrow> task_id t \<noteq> None"
  by (auto simp: finish_task_def Let_def message_ready_def Task_IsInitialized_def)

lemma generated_finish:
  assumes "ids_from i out"
  shows "generated i (map TaskInfo_copy (map (finish_task su ap pa wd ab) out))"
proof -
  have "task_id t \<noteq> None" if "t \<in> set out" for t
    using assms that unfolding ids_from_def
    by (metis (no_types, lifting) imageE image_eqI list.set_map option.distinct(1))
  with assms show ?thesis by (auto simp: generated_def ids_from_def o_def)
qed

lemma collect_tasks_ids:
  "collect_tasks su di sf outp vars i = Inr (out, i') \<Longrightarrow> ids_from i out \<and> i' = i + of_nat (length out)"
  by (auto simp: collect_tasks_def Let_def new_TaskInfo_def dest!: match_entries_ids
      split: sum.splits option.splits if_splits)

lemma taskGenerator_generated:
  assumes "taskGenerator su xa di e vars tasks i = Inr (tasks', i')"
  shows "\<exists>new. tasks' = tasks @ new \<and> generated i new \<and> i' = i + of_nat (length new)"
  using assms
  by (fastforce simp: taskGenerator_def Let_def generated_finish simp del: map_map
      dest!: collect_tasks_ids split: sum.splits)

lemma load_tasks_generated:
  "load_tasks su xa di vars es (ts, i) = Inr (ts', i') \<Longrightarrow>
     \<exists>new. ts' = ts @ new \<and> generated i new \<and> i' = i + of_nat (length new)"
proof (induction es arbitrary: ts i)
  case Nil
  then show ?case by (simp add: generated_def)
next
  case (Cons e es)
  obtain ts1 i1 where g: "taskGenerator su xa di e vars ts i = Inr (ts1, i1)"
    and l: "load_tasks su xa di vars es (ts1, i1) = Inr (ts', i')"
    using Cons.prems by (auto split: sum.splits)
  obtain n1 where "ts1 = ts @ n1" "generated i n1" "i1 = i + of_nat (length n1)"
    using taskGenerator_generated[OF g] by blast
  moreover obtain n2 where "ts' = ts1 @ n2" "generated i1 n2" "i' = i1 + of_nat (length n2)"
    using Cons.IH[OF l] by blast
  ultimately show ?case by (intro exI[of _ "n1 @ n2"]) (simp add: generated_append)
qed

lemma load_projects_generated:
  "load_projects su xa di prj vars ps (ts, i) = Inr (ts', i') \<Longrightarrow>
     \<exists>new. ts' = ts @ new \<and> generated i new \<and> i' = i + of_nat (length new)"
proof (induction ps arbitrary: ts i)
  case Nil
  then show ?case by (simp add: generated_def)
next
  case (Cons p ps)
  show ?case
  proof (cases "getProject prj (getAttributeString xa p ''Name'' [] True)")
    case None
    then show ?thesis using Cons by (simp add: Let_def)
  next
    case (Some it)
    then obtain vs ts1 i1 where g: "load_tasks su xa di vs (children xa p ''Task'') (ts, i) = Inr (ts1, i1)"
      and l: "load_projects su xa di prj vars ps (ts1, i1) = Inr (ts', i')"
      using Cons.prems by (auto simp: Let_def split: sum.splits)
    obtain n1 where "ts1 = ts @ n1" "generated i n1" "i1 = i + of_nat (length n1)"
      using load_tasks_generated[OF g] by blast
    moreover obtain n2 where "ts' = ts1 @ n2" "generated i1 n2" "i' = i1 + of_nat (length n2)"
      using Cons.IH[OF l] by blast
    ultimately show ?thesis by (intro exI[of _ "n1 @ n2"]) (simp add: generated_append)
  qed
qed

lemma loadConfig_generated:
  assumes "loadConfig su xa xml_load di filename prj vars [] = Inr (r, ts)"
  shows "r \<longleftrightarrow> ts \<noteq> []" and "generated 0 ts"
  using assms
  by (auto simp: loadConfig_def generated_def dest!: load_projects_generated
      split: option.splits sum.splits)


lemma generated_id:
  assumes "generated i ts" "t \<in> set ts"
  shows "task_id t \<noteq> None"
proof -
  have "task_id t \<in> set (map task_id ts)" using assms(2) by simp
  then show ?thesis using assms(1) unfolding generated_def ids_from_def by auto
qed

lemma generated_distinct:
  assumes "generated i ts" "length ts < 2 ^ 32"
  shows "distinct (map task_id ts)"
proof -
  have "inj_on (\<lambda>k. Some (i + of_nat k + 1)) {0..<length ts}"
  proof (rule inj_onI)
    fix a b assume ab: "a \<in> {0..<length ts}" "b \<in> {0..<length ts}"
      "Some (i + of_nat a + 1) = Some (i + of_nat b + 1)"
    then have "(of_nat a :: u32) = of_nat b" by simp
    then show "a = b"
      using ab assms(2) by (subst (asm) of_nat_word_inj) auto
  qed
  then show ?thesis using assms(1) by (simp add: generated_def ids_from_def distinct_map)
qed

text \<open>
  C35: The task table that \<open>loadConfig\<close> builds numbers its tasks 1, 2, 3, ... across all projects
  and elements; no two ids are equal (as long as the 32-bit counter does not wrap); no task is
  assigned or done; every message has all its required fields but the file contents, which the
  server adds when it sends the task. The result is true exactly when there is a task.
\<close>

theorem loadConfig_table:
  assumes "loadConfig su xa xml_load di filename prj vars [] = Inr (r, ts)"
  shows "(r \<longleftrightarrow> ts \<noteq> []) \<and> map task_id ts = map (\<lambda>k. Some (of_nat (k + 1))) [0..<length ts] \<and>
    (length ts < 2 ^ 32 \<longrightarrow> distinct (map task_id ts)) \<and>
    (\<forall>t \<in> set ts. task_fresh t \<and> message_ready (m_message t))"
proof -
  note g = loadConfig_generated[OF assms]
  have "map task_id ts = map (\<lambda>k. Some (of_nat (k + 1))) [0..<length ts]"
    using g(2) by (simp add: generated_def ids_from_def add.commute)
  with g generated_distinct[OF g(2)] show ?thesis by (simp add: generated_def)
qed

subsection \<open>Wildcards\<close>

lemma substr_suffix:
  assumes "length m \<le> length f" "length f < 2 ^ 64"
  shows "string_substr f (of_nat (length f) - of_nat (length m)) = Inr (drop (length f - length m) f)"
proof -
  have "(of_nat (length f) - of_nat (length m) :: size_t) = of_nat (length f - length m)"
    using assms(1) by simp
  moreover have "unat (of_nat (length f - length m) :: size_t) = length f - length m"
    using assms by (intro unat_of_nat_small) simp
  ultimately show ?thesis by (simp add: string_substr_def)
qed

text \<open>For a path shorter than the mask the difference of the sizes wraps, and \<open>substr\<close> throws.\<close>

lemma substr_short:
  assumes "length f < length m" "length m < 2 ^ 64"
  shows "string_substr f (of_nat (length f) - of_nat (length m)) = Inl out_of_range"
proof -
  let ?d = "length m - length f"
  have "(of_nat (2 ^ 64 - ?d) :: size_t) = of_nat (2 ^ 64) - of_nat ?d" using assms by (intro of_nat_diff) simp
  also have "\<dots> = of_nat (length f) - of_nat (length m)" using assms(1) by (simp add: of_nat_diff)
  finally have "(of_nat (length f) - of_nat (length m) :: size_t) = of_nat (2 ^ 64 - ?d)" by simp
  moreover have "unat (of_nat (2 ^ 64 - ?d) :: size_t) = 2 ^ 64 - ?d" using assms by (intro unat_of_nat_small) simp
  ultimately have "unat (of_nat (length f) - of_nat (length m) :: size_t) = 2 ^ 64 - ?d" by (simp only:)
  moreover have "length f < 2 ^ 64 - ?d" using assms by linarith
  ultimately show ?thesis by (simp only: string_substr_def if_True)
qed

lemma drop_eq_suffix: "length m \<le> length f \<Longrightarrow> drop (length f - length m) f = m \<longleftrightarrow> suffix m f"
  by (metis append_take_drop_id length_append diff_diff_cancel append_eq_conv_conj length_drop suffix_def
      add_diff_cancel_right')

text \<open>The directory loop selects exactly the entries whose lower-cased path ends with the mask.\<close>

lemma match_entries_filter:
  assumes "\<forall>e \<in> set es. length msk \<le> length (String_tolower su e) \<and> length (String_tolower su e) < 2 ^ 64"
  shows "\<exists>new. match_entries su vars outp msk es i out = Inr (out @ new, i + of_nat (length new)) \<and>
    map (\<lambda>t. SourceFile (m_vars t)) new = filter (suffix msk) (map (String_tolower su) es)"
  using assms
proof (induction es arbitrary: i out)
  case Nil
  then show ?case by simp
next
  case (Cons e es)
  let ?f = "String_tolower su e"
  have sub: "string_substr ?f (of_nat (length ?f) - of_nat (length msk)) = Inr (drop (length ?f - length msk) ?f)"
    and eq: "drop (length ?f - length msk) ?f = msk \<longleftrightarrow> suffix msk ?f"
    using Cons.prems substr_suffix[of msk ?f] drop_eq_suffix[of msk ?f] by auto
  show ?case
  proof (cases "suffix msk ?f")
    case True
    define t where "t = TaskInfo_copy ((new_TaskInfo (i + 1))\<lparr>m_vars := vars\<lparr>SourceFile := ?f, OutputFile := outp\<rparr>\<rparr>)"
    obtain new where "match_entries su vars outp msk es (i + 1) (out @ [t]) =
        Inr ((out @ [t]) @ new, i + 1 + of_nat (length new))"
      "map (\<lambda>t. SourceFile (m_vars t)) new = filter (suffix msk) (map (String_tolower su) es)"
      using Cons.IH[of "i + 1" "out @ [t]"] Cons.prems by auto
    then show ?thesis
      using sub eq True by (intro exI[of _ "t # new"]) (simp add: t_def add.assoc)
  next
    case False
    then show ?thesis using Cons.IH[of i out] Cons.prems sub eq by simp
  qed
qed

text \<open>The first entry that is too short ends the loop with the exception, whatever was selected before.\<close>

lemma match_entries_short:
  assumes "\<exists>e \<in> set es. length (String_tolower su e) < length msk" "length msk < 2 ^ 64"
    and "\<forall>e \<in> set es. length (String_tolower su e) < 2 ^ 64"
  shows "match_entries su vars outp msk es i out = Inl out_of_range"
  using assms(1,3)
proof (induction es arbitrary: i out)
  case Nil
  then show ?case by simp
next
  case (Cons e es)
  show ?case
  proof (cases "length (String_tolower su e) < length msk")
    case True
    then show ?thesis by (simp add: Let_def substr_short[OF True assms(2)])
  next
    case False
    then show ?thesis using Cons by (simp add: Let_def substr_suffix)
  qed
qed

lemma rfind_last:
  assumes "c \<notin> set r"
  shows "string_rfind c (d @ c # r) = Some (length d)"
proof -
  have "takeWhile (\<lambda>x. x \<noteq> c) (rev (d @ c # r)) = rev r"
    using assms by (subst rev_append) (auto simp: takeWhile_append)
  then show ?thesis by (simp add: string_rfind_def)
qed

lemma rfind_None: "c \<notin> set s \<Longrightarrow> string_rfind c s = None"
  by (simp add: string_rfind_def)

text \<open>
  C36: A wildcard source \<open>dir\*suffix\<close> (after expansion; the character behind the last backslash
  is taken as the star) makes one task for each entry of \<open>dir\<close> whose lower-cased path ends with
  the lower-cased suffix, in directory order and with consecutive ids, provided that no path is
  shorter than the suffix. One path that is shorter, of whatever file of the directory, makes
  the whole call throw \<open>std::out_of_range\<close>: the difference of the sizes wraps.
\<close>

theorem wildcard_tasks:
  assumes star: "CHR ''*'' \<in> set sf"
    and pat: "TaskVariables_replace su vars sf = d @ [CHR 0x5C, c] @ m" "CHR 0x5C \<notin> set (c # m)"
    and len: "length d + 2 < 2 ^ 64" "length (String_tolower su m) < 2 ^ 64"
    and dir: "di d = Some es"
    and es: "\<forall>e \<in> set es. length (String_tolower su e) < 2 ^ 64"
  shows "if \<exists>e \<in> set es. length (String_tolower su e) < length (String_tolower su m)
    then collect_tasks su di sf outp vars i = Inl out_of_range
    else \<exists>out. collect_tasks su di sf outp vars i = Inr (out, i + of_nat (length out)) \<and>
      map (\<lambda>t. SourceFile (m_vars t)) out =
        filter (suffix (String_tolower su m)) (map (String_tolower su) es)"
proof -
  have r: "string_rfind (CHR 0x5C) (d @ [CHR 0x5C, c] @ m) = Some (length d)"
    using rfind_last[of "CHR 0x5C" "c # m" d] pat(2) by simp
  have "unat (of_nat (length d + 2) :: size_t) = length d + 2"
    by (rule unat_of_nat_small) (use len in simp)
  then have "unat (of_nat (length d) + 2 :: size_t) = length d + 2"
    by (simp only: of_nat_add of_nat_numeral)
  then have "string_substr (d @ [CHR 0x5C, c] @ m) (of_nat (length d) + 2) = Inr m"
    by (simp add: string_substr_def)
  then have collect: "collect_tasks su di sf outp vars i = match_entries su vars outp (String_tolower su m) es i []"
    using star dir r by (simp add: collect_tasks_def string_find_def pat(1))
  show ?thesis
  proof (cases "\<exists>e \<in> set es. length (String_tolower su e) < length (String_tolower su m)")
    case True
    then show ?thesis using match_entries_short[OF True len(2) es] by (simp add: collect)
  next
    case False
    then show ?thesis
      unfolding if_not_P[OF False] collect
      using match_entries_filter[of es "String_tolower su m" su vars outp i "[]"] es by (simp add: not_less)
  qed
qed

text \<open>
  A wildcard source without a directory, such as \<open>*.c\<close>, never makes a task: the mask keeps
  the star, and no file path contains one.
\<close>

theorem wildcard_without_directory:
  assumes star: "CHR ''*'' \<in> set sf" "CHR ''*'' \<in> set (String_tolower su (TaskVariables_replace su vars sf))"
    and pat: "CHR 0x5C \<notin> set (TaskVariables_replace su vars sf)"
    and dir: "di (''.'' @ [CHR 0x5C]) = Some es"
    and es: "\<forall>e \<in> set es. CHR ''*'' \<notin> set (String_tolower su e) \<and>
      length (String_tolower su (TaskVariables_replace su vars sf)) \<le> length (String_tolower su e) \<and>
      length (String_tolower su e) < 2 ^ 64"
  shows "collect_tasks su di sf outp vars i = Inr ([], i)"
proof -
  let ?m = "String_tolower su (TaskVariables_replace su vars sf)"
  have "\<not> suffix ?m f" if "f \<in> set (map (String_tolower su) es)" for f
    using that es star(2) by (auto dest: set_mono_suffix)
  then have "filter (suffix ?m) (map (String_tolower su) es) = []" by (simp add: filter_empty_conv)
  moreover have "\<forall>e \<in> set es. length ?m \<le> length (String_tolower su e) \<and> length (String_tolower su e) < 2 ^ 64"
    using es by blast
  ultimately show ?thesis
    using star(1) dir match_entries_filter[of es ?m su vars outp i "[]"]
    by (auto simp: collect_tasks_def string_find_def rfind_None[OF pat])
qed

subsection \<open>Witnesses\<close>

definition sample_projects :: Projects where
  "sample_projects = new_Projects\<lparr>m_items := [''g'' \<mapsto> \<lparr>m_name = ''g'', m_path = ''D'', m_workPath = ''T''\<rparr>]\<rparr>"

definition sample_build :: xml where
  "sample_build = XElem [] [] None [XElem ''BuildSet'' [] None
     [XElem ''Project'' [(''Name'', ''nosuch'')] None [XElem ''Task'' [(''SourceFile'', ''z'')] None []],
      XElem ''Project'' [(''Name'', ''g'')] None
        [XElem ''Task'' [(''SourceFile'', ''a'')] None [], XElem ''Task'' [(''SourceFile'', ''b'')] None []]]]"

lemma sample_loadConfig:
  "\<exists>ts. loadConfig plain_su tree_xml (\<lambda>_. Some sample_build) (\<lambda>_. None) ''x'' sample_projects empty_vars [] = Inr (True, ts)
     \<and> length ts = 2"
  by (simp add: loadConfig_def sample_build_def tree_xml_def FirstChildElement_def sample_projects_def getProject_def
      taskGenerator_def collect_tasks_def plain_su_def sample_su_def string_find_def new_Projects_def Let_def)

theorem loadConfig_table_witness:
  "\<exists>ts. loadConfig plain_su tree_xml (\<lambda>_. Some sample_build) (\<lambda>_. None) ''x'' sample_projects empty_vars [] = Inr (True, ts)
     \<and> map task_id ts = [Some 1, Some 2]"
proof -
  obtain ts where ts: "loadConfig plain_su tree_xml (\<lambda>_. Some sample_build) (\<lambda>_. None) ''x'' sample_projects empty_vars []
     = Inr (True, ts)" "length ts = 2" using sample_loadConfig by blast
  with loadConfig_table[OF ts(1)] show ?thesis by (simp add: numeral_2_eq_2)
qed

theorem wildcard_tasks_witness:
  "(\<exists>out. collect_tasks plain_su (\<lambda>d. if d = ''d'' then Some [''da.c'', ''db.h'', ''de.c''] else None)
      [CHR ''d'', CHR 0x5C, CHR ''*'', CHR ''.'', CHR ''c''] ''o'' empty_vars 4 = Inr (out, 4 + of_nat (length out))
    \<and> map (\<lambda>t. SourceFile (m_vars t)) out = [''da.c'', ''de.c'']) \<and>
   collect_tasks plain_su (\<lambda>d. if d = ''d'' then Some [''da.c'', ''e''] else None)
      [CHR ''d'', CHR 0x5C, CHR ''*'', CHR ''.'', CHR ''c''] ''o'' empty_vars 4 = Inl out_of_range"
proof -
  let ?sf = "[CHR ''d'', CHR 0x5C, CHR ''*'', CHR ''.'', CHR ''c'']"
  let ?es = "[''da.c'', ''db.h'', ''de.c'']"
  have lower: "String_tolower plain_su s = s" for s by (simp add: plain_su_def sample_su_def)
  have pat: "CHR ''*'' \<in> set ?sf" "TaskVariables_replace plain_su empty_vars ?sf = ''d'' @ [CHR 0x5C, CHR ''*''] @ ''.c''"
    by (simp_all add: TaskVariables_replace_def plain_su_def sample_su_def)
  have "filter (suffix ''.c'') ?es = [''da.c'', ''de.c'']" by (simp add: suffix_to_prefix)
  then show ?thesis
    using wildcard_tasks[OF pat, of "\<lambda>d. if d = ''d'' then Some ?es else None" ?es "''o''" 4]
      wildcard_tasks[OF pat, of "\<lambda>d. if d = ''d'' then Some [''da.c'', ''e''] else None" "[''da.c'', ''e'']" "''o''" 4]
    by (simp add: lower)
qed

theorem wildcard_without_directory_witness:
  "collect_tasks plain_su (\<lambda>_. Some [''.a.c'']) ''*.c'' ''o'' empty_vars 0 = Inr ([], 0)"
  by (rule wildcard_without_directory[where es = "[''.a.c'']"])
    (simp_all add: TaskVariables_replace_def plain_su_def sample_su_def)

end
