(* ===== verification/Server.thy ===== *)
theory Server
  imports Node Console_Tasks
begin

text \<open>
  \<open>console/tcp_protobufserver.h\<close>, \<open>.cpp\<close>: the master's server. It hands the tasks of the table
  to the connected daemons, one task per free core, and records their results. Connection
  handling is the base class \<open>su::Net::TcpServer\<close> of the submodule; it calls the handlers
  modelled here, in an order the step relation \<open>server_step\<close> leaves open.

  A node pointer is a number; \<open>nodes\<close> maps it to the object. Each handler runs in the server
  thread; the per-task mutexes make every access to a task atomic.
\<close>

subsection \<open>State and environment\<close>

record 'w server =
  m_tasks :: "TaskInfo list"
  m_clients :: "nat list"
  nodes :: "nat \<Rightarrow> node"
  files :: 'w

record 'w server_env =
  se_codec :: codec
  se_fs :: "'w su_fs"
  se_send :: pn_send

subsection \<open>sendTasksToSlave\<close>

text \<open>
  The packet for a task: its message with the contents of the source file. \<open>mutable_inputdata\<close>
  sets the field even when loading fails.
\<close>

definition task_packet :: "'w su_fs \<Rightarrow> 'w \<Rightarrow> TaskInfo \<Rightarrow> Master_Task" where
  "task_packet fs w t = (m_message t)\<lparr>tk_inputData := Some (snd (fs_load fs w (SourceFile (m_vars t))))\<rparr>"

fun send_loop ::
  "'w server_env \<Rightarrow> nat \<Rightarrow> 'w \<Rightarrow> node \<Rightarrow> TaskInfo list \<Rightarrow> bool \<times> node \<times> TaskInfo list" where
  "send_loop env n w nd [] = (True, nd, [])"
| "send_loop env n w nd (t # ts) =
     (if m_node t \<noteq> None \<or> m_result t \<noteq> NoInit then
        (case send_loop env n w nd ts of (r, nd', ts') \<Rightarrow> (r, nd', t # ts'))
      else
        let msg = task_packet (se_fs env) w t in
        if \<not> Task_IsInitialized msg then (False, nd, t # ts)
        else
          let t = t\<lparr>m_node := Some n\<rparr>;
              pkt = \<lparr>mp_task = Some msg, mp_system = None\<rparr>;
              nd = snd (TcpProtobufNode_send (se_send env) nd (master_message (se_codec env) pkt));
              nd = nd\<lparr>m_freeCores := m_freeCores nd - 1\<rparr>
          in (True, nd, t # ts))"

definition sendTasksToSlave :: "'w server_env \<Rightarrow> nat \<Rightarrow> 'w server \<Rightarrow> bool \<times> 'w server" where
  "sendTasksToSlave env n s =
     (if sint (m_freeCores (nodes s n)) \<le> 0 then (True, s)
      else case send_loop env n (files s) (nodes s n) (m_tasks s) of
             (r, nd, ts) \<Rightarrow> (r, s\<lparr>m_tasks := ts, nodes := (nodes s)(n := nd)\<rparr>))"

subsection \<open>applyResultFromSlave\<close>

definition apply_result :: "'w su_fs \<Rightarrow> string \<Rightarrow> Slave_Result \<Rightarrow> TaskInfo \<Rightarrow> 'w \<Rightarrow> TaskInfo \<times> 'w" where
  "apply_result fs fid r t w =
     (let t = t\<lparr>m_exitCode := get_or 0 (rs_exit_code r), m_result := get_or 0 (rs_process_code r),
                m_doneIp := fid, m_node := None\<rparr>
      in if m_exitCode t = 0 \<and> m_result t = Exited \<and> rs_outputData r \<noteq> None then
           (case fs_save fs w (OutputFile (m_vars t)) (get_or [] (rs_outputData r)) of
              (code, w') \<Rightarrow> (t\<lparr>m_exitCode := code\<rparr>, w'))
         else (t, w))"

fun apply_loop ::
  "'w su_fs \<Rightarrow> nat \<Rightarrow> string \<Rightarrow> Slave_Result \<Rightarrow> TaskInfo list \<Rightarrow> 'w \<Rightarrow> bool \<times> TaskInfo list \<times> 'w" where
  "apply_loop fs n fid r [] w = (False, [], w)"
| "apply_loop fs n fid r (t # ts) w =
     (if m_node t \<noteq> Some n \<or> get_or 0 (rs_id r) \<noteq> get_or 0 (task_id t) then
        (case apply_loop fs n fid r ts w of (b, ts', w') \<Rightarrow> (b, t # ts', w'))
      else (case apply_result fs fid r t w of (t', w') \<Rightarrow> (True, t' # ts, w')))"

definition applyResultFromSlave :: "'w server_env \<Rightarrow> nat \<Rightarrow> Slave_Result \<Rightarrow> 'w server \<Rightarrow> bool \<times> 'w server" where
  "applyResultFromSlave env n r s =
     (case apply_loop (se_fs env) n (fullId (nodes s n)) r (m_tasks s) (files s) of
        (b, ts, w) \<Rightarrow> (b, s\<lparr>m_tasks := ts, files := w\<rparr>))"

subsection \<open>Callbacks\<close>

definition onClientDisconnected :: "nat \<Rightarrow> 'w server \<Rightarrow> 'w server" where
  "onClientDisconnected n s =
     s\<lparr>m_tasks := map (\<lambda>t. if m_node t \<noteq> Some n then t else t\<lparr>m_node := None\<rparr>) (m_tasks s)\<rparr>"

text \<open>One pass of the loop of \<open>onRecvFromNode\<close>, for a packet that is initialized.\<close>

definition handle_packet :: "'w server_env \<Rightarrow> nat \<Rightarrow> Slave_Packet \<Rightarrow> 'w server \<Rightarrow> 'w server" where
  "handle_packet env n p s =
     (let s = (case sp_info p of
                 None \<Rightarrow> s
               | Some i \<Rightarrow>
                   snd (sendTasksToSlave env n
                     (s\<lparr>nodes := (nodes s)(n := (nodes s n)\<lparr>m_freeCores := get_or 0 (inf_task_count i)\<rparr>)\<rparr>)))
      in case sp_result p of
           None \<Rightarrow> s
         | Some r \<Rightarrow> snd (applyResultFromSlave env n r s))"

definition extractRecvPacket :: "nat \<Rightarrow> 'w server \<Rightarrow> 'w server" where
  "extractRecvPacket n s = s\<lparr>nodes := (nodes s)(n := (nodes s n)\<lparr>recvPackets := tl (recvPackets (nodes s n))\<rparr>)\<rparr>"

lemma send_loop_recv [fdb_simps]:
  "recvPackets (fst (snd (send_loop env n w nd ts))) = recvPackets nd"
  by (induction ts) (auto simp: Let_def split: prod.splits)

lemma sendTasksToSlave_recv [simp, fdb_simps]:
  "recvPackets (nodes (snd (sendTasksToSlave env n s)) k) = recvPackets (nodes s k)"
  using send_loop_recv[of env n "files s" "nodes s n" "m_tasks s"]
  by (auto simp: sendTasksToSlave_def split: prod.splits)

lemma applyResultFromSlave_nodes [simp, fdb_simps]:
  "nodes (snd (applyResultFromSlave env n r s)) = nodes s"
  by (simp add: applyResultFromSlave_def split: prod.splits)

lemma handle_packet_recv [simp, fdb_simps]:
  "recvPackets (nodes (handle_packet env n p s) k) = recvPackets (nodes s k)"
  by (simp add: handle_packet_def Let_def split: option.splits)

text \<open>The loop ends: each pass takes a packet off the queue, and no handler adds one.\<close>

function onRecvFromNode :: "'w server_env \<Rightarrow> nat \<Rightarrow> 'w server \<Rightarrow> bool \<times> 'w server" where
  "onRecvFromNode env n s =
     (case recvPackets (nodes s n) of
        [] \<Rightarrow> (True, s)
      | raw # _ \<Rightarrow>
          let s = extractRecvPacket n s;
              packet = dec_slave (se_codec env) raw
          in if \<not> Slave_IsInitialized packet then (False, s)
             else onRecvFromNode env n (handle_packet env n packet s))"
  by pat_completeness auto
termination
  by (relation "measure (\<lambda>(env, n, s). length (recvPackets (nodes s n)))")
    (auto simp: extractRecvPacket_def)

declare onRecvFromNode.simps [simp del]

definition newClient :: "string \<Rightarrow> node" where
  "newClient fid = new_TcpProtobufNode fid"

text \<open>\<open>base\<close> is the effect of \<open>su::Net::TcpServer::doWork()\<close>.\<close>

definition doWork :: "'w server_env \<Rightarrow> ('w server \<Rightarrow> 'w server) \<Rightarrow> 'w server \<Rightarrow> 'w server" where
  "doWork env base s =
     (let s = base s in fold (\<lambda>n s. snd (sendTasksToSlave env n s)) (m_clients s) s)"

definition closeAllClients :: "'w server_env \<Rightarrow> 'w server \<Rightarrow> 'w server" where
  "closeAllClients env s =
     (let packet = \<lparr>mp_task = None, mp_system = Some \<lparr>sys_close = Some True\<rparr>\<rparr> in
      fold (\<lambda>n s. s\<lparr>nodes := (nodes s)(n :=
              snd (TcpProtobufNode_send (se_send env) (nodes s n) (master_message (se_codec env) packet)))\<rparr>)
        (m_clients s) s)"

subsection \<open>The two searches over the task table\<close>

definition free_task :: "TaskInfo \<Rightarrow> bool" where
  "free_task t \<longleftrightarrow> m_node t = None \<and> m_result t = NoInit"

definition result_for :: "nat \<Rightarrow> Slave_Result \<Rightarrow> TaskInfo \<Rightarrow> bool" where
  "result_for n r t \<longleftrightarrow> m_node t = Some n \<and> get_or 0 (rs_id r) = get_or 0 (task_id t)"

definition sent_node :: "'w server_env \<Rightarrow> 'w \<Rightarrow> node \<Rightarrow> TaskInfo \<Rightarrow> node" where
  "sent_node env w nd t =
     (let nd' = snd (TcpProtobufNode_send (se_send env) nd
            (master_message (se_codec env) \<lparr>mp_task = Some (task_packet (se_fs env) w t), mp_system = None\<rparr>))
      in nd'\<lparr>m_freeCores := m_freeCores nd' - 1\<rparr>)"

lemma sent_node_simps [simp, fdb_simps]:
  "m_freeCores (sent_node env w nd t) = m_freeCores nd - 1"
  "recvPackets (sent_node env w nd t) = recvPackets nd"
  "fullId (sent_node env w nd t) = fullId nd"
  by (simp_all add: sent_node_def Let_def)

lemma send_loop_none: "\<forall>t \<in> set ts. \<not> free_task t \<Longrightarrow> send_loop env n w nd ts = (True, nd, ts)"
  by (induction ts) (auto simp: free_task_def)

lemma send_loop_first:
  assumes "\<forall>x \<in> set xs. \<not> free_task x" "free_task t"
  shows "send_loop env n w nd (xs @ t # ys) =
    (if Task_IsInitialized (task_packet (se_fs env) w t)
     then (True, sent_node env w nd t, xs @ t\<lparr>m_node := Some n\<rparr> # ys)
     else (False, nd, xs @ t # ys))"
  using assms
  by (induction xs) (auto simp: free_task_def sent_node_def Let_def split: prod.splits)

lemma apply_loop_none: "\<forall>t \<in> set ts. \<not> result_for n r t \<Longrightarrow> apply_loop fs n fid r ts w = (False, ts, w)"
  by (induction ts) (auto simp: result_for_def)

lemma apply_loop_first:
  assumes "\<forall>x \<in> set xs. \<not> result_for n r x" "result_for n r t"
  shows "apply_loop fs n fid r (xs @ t # ys) w =
    (True, xs @ fst (apply_result fs fid r t w) # ys, snd (apply_result fs fid r t w))"
  using assms by (induction xs) (auto simp: result_for_def split: prod.splits)

lemma apply_result_simps [simp]:
  "m_node (fst (apply_result fs fid r t w)) = None"
  "m_result (fst (apply_result fs fid r t w)) = get_or 0 (rs_process_code r)"
  "m_message (fst (apply_result fs fid r t w)) = m_message t"
  "m_vars (fst (apply_result fs fid r t w)) = m_vars t"
  "m_doneIp (fst (apply_result fs fid r t w)) = fid"
  by (simp_all add: apply_result_def Let_def split: prod.splits)

text \<open>Case analysis on what \<open>sendTasksToSlave\<close> and \<open>applyResultFromSlave\<close> do.\<close>

lemma sendTasksToSlave_cases:
  obtains (idle) b where "sendTasksToSlave env n s = (b, s)"
  | (sent) xs t ys where "0 < sint (m_freeCores (nodes s n))" "m_tasks s = xs @ t # ys" "free_task t"
      "\<forall>x \<in> set xs. \<not> free_task x" "Task_IsInitialized (task_packet (se_fs env) (files s) t)"
      "sendTasksToSlave env n s = (True, s\<lparr>m_tasks := xs @ t\<lparr>m_node := Some n\<rparr> # ys,
         nodes := (nodes s)(n := sent_node env (files s) (nodes s n) t)\<rparr>)"
proof (cases "sint (m_freeCores (nodes s n)) \<le> 0 \<or> (\<forall>t \<in> set (m_tasks s). \<not> free_task t)")
  case True
  then show ?thesis
    by (intro idle[of True]) (auto simp: sendTasksToSlave_def send_loop_none)
next
  case False
  then obtain xs t ys where split: "m_tasks s = xs @ t # ys" "free_task t" "\<forall>x \<in> set xs. \<not> free_task x"
    using split_list_first_prop[of "m_tasks s" free_task] by blast
  show ?thesis
  proof (cases "Task_IsInitialized (task_packet (se_fs env) (files s) t)")
    case True
    with False split show ?thesis
      by (intro sent[of xs t ys]) (simp_all add: sendTasksToSlave_def send_loop_first)
  next
    case notinit: False
    with False split show ?thesis
      by (intro idle[of False]) (simp add: sendTasksToSlave_def send_loop_first)
  qed
qed

lemma applyResultFromSlave_cases:
  obtains (wrong) "\<forall>t \<in> set (m_tasks s). \<not> result_for n r t" "applyResultFromSlave env n r s = (False, s)"
  | (applied) xs t ys where "m_tasks s = xs @ t # ys" "result_for n r t" "\<forall>x \<in> set xs. \<not> result_for n r x"
      "applyResultFromSlave env n r s =
         (True, s\<lparr>m_tasks := xs @ fst (apply_result (se_fs env) (fullId (nodes s n)) r t (files s)) # ys,
                  files := snd (apply_result (se_fs env) (fullId (nodes s n)) r t (files s))\<rparr>)"
proof (cases "\<forall>t \<in> set (m_tasks s). \<not> result_for n r t")
  case True
  then show ?thesis
    by (intro wrong) (simp_all add: applyResultFromSlave_def apply_loop_none)
next
  case False
  then obtain xs t ys where "m_tasks s = xs @ t # ys" "result_for n r t" "\<forall>x \<in> set xs. \<not> result_for n r x"
    using split_list_first_prop[of "m_tasks s" "result_for n r"] by blast
  then show ?thesis
    by (intro applied[of xs t ys]) (simp_all add: applyResultFromSlave_def apply_loop_first)
qed

subsection \<open>Abstract specification: a pool of tasks\<close>

text \<open>
  What the server promises, without messages, files and queues: a task is pending, assigned to
  one node, or done for good; an assignment ends in a result or is taken back.
\<close>

datatype status = Pending | Assigned nat | Done i32 i32

inductive pool_step :: "status list \<Rightarrow> status list \<Rightarrow> bool" where
  assign: "i < length st \<Longrightarrow> st ! i = Pending \<Longrightarrow> pool_step st (st[i := Assigned n])"
| finish: "i < length st \<Longrightarrow> st ! i = Assigned n \<Longrightarrow> pool_step st (st[i := Done r c])"
| release: "i < length st \<Longrightarrow> st ! i = Assigned n \<Longrightarrow> pool_step st (st[i := Pending])"

abbreviation pool_steps :: "status list \<Rightarrow> status list \<Rightarrow> bool" where
  "pool_steps \<equiv> pool_step\<^sup>*\<^sup>*"

lemma pool_steps_length: "pool_steps st st' \<Longrightarrow> length st' = length st"
  by (induction rule: rtranclp_induct) (auto elim: pool_step.cases)

lemma pool_steps_done: "pool_steps st st' \<Longrightarrow> i < length st \<Longrightarrow> st ! i = Done r c \<Longrightarrow> st' ! i = Done r c"
proof (induction rule: rtranclp_induct)
  case base
  then show ?case by simp
next
  case (step y z)
  then show ?case by (auto simp: nth_list_update elim!: pool_step.cases)
qed

definition status_of :: "TaskInfo \<Rightarrow> status" where
  "status_of t = (if m_result t \<noteq> NoInit then Done (m_result t) (m_exitCode t)
                  else case m_node t of None \<Rightarrow> Pending | Some n \<Rightarrow> Assigned n)"

abbreviation pool :: "'w server \<Rightarrow> status list" where
  "pool s \<equiv> map status_of (m_tasks s)"

subsection \<open>Invariant\<close>

text \<open>
  A node that a task points to is connected, and the task has no result yet: no dangling
  pointer, no finished task that is still assigned. Ids identify tasks and messages are complete.
\<close>

definition server_inv :: "'w server \<Rightarrow> bool" where
  "server_inv s \<longleftrightarrow>
     (\<forall>t \<in> set (m_tasks s). task_id t \<noteq> None \<and> message_ready (m_message t) \<and>
        (\<forall>n. m_node t = Some n \<longrightarrow> n \<in> set (m_clients s) \<and> m_result t = NoInit)) \<and>
     distinct (map task_id (m_tasks s)) \<and> distinct (m_clients s)"

text \<open>
  What happens to a task: a result, once there, stays together with the name of the daemon, and
  a new result comes with a name.
\<close>

definition named_result :: "TaskInfo \<Rightarrow> TaskInfo \<Rightarrow> bool" where
  "named_result t t' \<longleftrightarrow>
     (if m_result t = NoInit then m_result t' = NoInit \<or> m_doneIp t' \<noteq> []
      else m_result t' = m_result t \<and> m_doneIp t' = m_doneIp t \<and> m_exitCode t' = m_exitCode t)"

lemma named_result_refl [simp]: "named_result t t"
  by (simp add: named_result_def)

lemma named_results_refl [simp]: "list_all2 named_result ts ts"
  by (simp add: list.rel_refl)

lemma named_results_trans:
  "list_all2 named_result ts ts' \<Longrightarrow> list_all2 named_result ts' ts'' \<Longrightarrow> list_all2 named_result ts ts''"
  by (erule list_all2_trans[where ?P2.0 = named_result, rotated]) (auto simp: named_result_def split: if_splits)

text \<open>
  What a handler working for node \<open>n\<close> does to a good state: it keeps the invariant, the set of
  clients and the other nodes, and acts on the tasks as the abstract pool allows.
\<close>

definition handles :: "nat \<Rightarrow> 'w server \<Rightarrow> 'w server \<Rightarrow> bool" where
  "handles n s s' \<longleftrightarrow> (server_inv s \<and> n \<in> set (m_clients s) \<longrightarrow>
     server_inv s' \<and> m_clients s' = m_clients s \<and> pool_steps (pool s) (pool s') \<and>
     map m_vars (m_tasks s') = map m_vars (m_tasks s) \<and>
     map m_message (m_tasks s') = map m_message (m_tasks s) \<and>
     fullId (nodes s' n) = fullId (nodes s n) \<and>
     (fullId (nodes s n) \<noteq> [] \<longrightarrow> list_all2 named_result (m_tasks s) (m_tasks s')) \<and>
     (\<forall>k. k \<noteq> n \<longrightarrow> nodes s' k = nodes s k))"

lemma handles_refl: "handles n s s"
  by (simp add: handles_def)

lemma handles_trans: "handles n s s' \<Longrightarrow> handles n s' s'' \<Longrightarrow> handles n s s''"
  unfolding handles_def by (auto intro: rtranclp_trans named_results_trans)

lemma message_ready_init:
  "message_ready (m_message t) \<Longrightarrow> Task_IsInitialized (task_packet fs w t)"
  by (simp add: message_ready_def task_packet_def Task_IsInitialized_def)

lemma sendTasksToSlave_handles: "handles n s (snd (sendTasksToSlave env n s))"
proof (cases rule: sendTasksToSlave_cases[where s = s and n = n and env = env])
  case (idle b)
  then show ?thesis by (simp add: handles_refl)
next
  case (sent xs t ys)
  let ?s = "snd (sendTasksToSlave env n s)"
  have "pool ?s = (pool s)[length xs := Assigned n]" and "length xs < length (pool s)"
    and "pool s ! length xs = Pending"
    using sent by (auto simp: status_of_def free_task_def list_update_append nth_append)
  then have "pool_steps (pool s) (pool ?s)"
    using pool_step.assign[of "length xs" "pool s" n] by simp
  then show ?thesis
    using sent by (auto simp: handles_def server_inv_def free_task_def list_all2_append named_result_def)
qed

lemma applyResultFromSlave_handles: "handles n s (snd (applyResultFromSlave env n r s))"
proof (cases rule: applyResultFromSlave_cases[where s = s and n = n and r = r and env = env])
  case wrong
  then show ?thesis by (simp add: handles_refl)
next
  case (applied xs t ys)
  let ?s = "snd (applyResultFromSlave env n r s)"
  let ?t = "fst (apply_result (se_fs env) (fullId (nodes s n)) r t (files s))"
  have p: "pool ?s = (pool s)[length xs := status_of ?t]" and l: "length xs < length (pool s)"
    and nd: "m_node t = Some n"
    using applied by (auto simp: list_update_append result_for_def)
  have "pool_steps (pool s) (pool ?s)" if "server_inv s"
  proof -
    have "m_result t = NoInit" using that applied(1) nd by (auto simp: server_inv_def)
    then have a: "pool s ! length xs = Assigned n"
      using applied(1) nd by (simp add: status_of_def nth_append)
    have "status_of ?t = Pending \<or> (\<exists>r c. status_of ?t = Done r c)"
      by (simp add: status_of_def)
    then have "pool_step (pool s) (pool ?s)"
      unfolding p using pool_step.release[OF l a] pool_step.finish[OF l a] by metis
    then show ?thesis by blast
  qed
  moreover have "named_result t ?t" if "server_inv s" "fullId (nodes s n) \<noteq> []"
    using that applied(1) nd by (auto simp: named_result_def server_inv_def)
  ultimately show ?thesis
    using applied by (auto simp: handles_def server_inv_def list_all2_append)
qed

lemma set_cores_handles:
  "handles n s (s\<lparr>nodes := (nodes s)(n := (nodes s n)\<lparr>m_freeCores := c\<rparr>)\<rparr>)"
  by (simp add: handles_def server_inv_def)

lemma extract_handles: "handles n s (extractRecvPacket n s)"
  by (simp add: handles_def server_inv_def extractRecvPacket_def)

lemma handle_packet_handles: "handles n s (handle_packet env n p s)"
proof -
  let ?set = "\<lambda>i. s\<lparr>nodes := (nodes s)(n := (nodes s n)\<lparr>m_freeCores := get_or 0 (inf_task_count i)\<rparr>)\<rparr>"
  have info: "handles n s (snd (sendTasksToSlave env n (?set i)))" for i
    by (rule handles_trans[OF set_cores_handles sendTasksToSlave_handles])
  show ?thesis
    unfolding handle_packet_def Let_def
    by (auto split: option.splits
        intro: info handles_refl applyResultFromSlave_handles handles_trans[OF info applyResultFromSlave_handles])
qed

lemma onRecvFromNode_handles: "handles n s (snd (onRecvFromNode env n s))"
proof (induction env n s rule: onRecvFromNode.induct)
  case (1 env n s)
  show ?case
  proof (cases "recvPackets (nodes s n)")
    case Nil
    then show ?thesis by (subst onRecvFromNode.simps) (simp add: handles_refl)
  next
    case (Cons raw rest)
    then show ?thesis
      using "1.IH"[OF Cons refl refl] handles_trans[OF extract_handles handles_trans[OF handle_packet_handles]]
      by (subst onRecvFromNode.simps) (auto simp: Let_def extract_handles)
  qed
qed

subsection \<open>Steps of the server\<close>

text \<open>
  The events of a run, in any order: a client connects (the base class stores the node that
  \<open>newClient\<close> made), packets arrive in a node's queue, a queue is processed, \<open>doWork\<close> offers
  tasks to a client, a client disconnects, the files change from outside, and the main thread
  clears the \<open>m_doneIp\<close> of a task it has counted.
\<close>

inductive net_step :: "'w server_env \<Rightarrow> 'w server \<Rightarrow> 'w server \<Rightarrow> bool" for env where
  accept: "n \<notin> set (m_clients s) \<Longrightarrow>
     net_step env s (s\<lparr>m_clients := m_clients s @ [n], nodes := (nodes s)(n := newClient fid)\<rparr>)"
| receive: "n \<in> set (m_clients s) \<Longrightarrow>
     net_step env s (s\<lparr>nodes := (nodes s)(n := (nodes s n)\<lparr>recvPackets := recvPackets (nodes s n) @ ps\<rparr>)\<rparr>)"
| process: "n \<in> set (m_clients s) \<Longrightarrow> net_step env s (snd (onRecvFromNode env n s))"
| offer: "n \<in> set (m_clients s) \<Longrightarrow> net_step env s (snd (sendTasksToSlave env n s))"
| disconnect: "n \<in> set (m_clients s) \<Longrightarrow>
     net_step env s ((onClientDisconnected n s)\<lparr>m_clients := remove1 n (m_clients s)\<rparr>)"
| outside: "net_step env s (s\<lparr>files := w\<rparr>)"

inductive_cases net_stepE: "net_step env s s'"

inductive server_step :: "'w server_env \<Rightarrow> 'w server \<Rightarrow> 'w server \<Rightarrow> bool" for env where
  net: "net_step env s s' \<Longrightarrow> server_step env s s'"
| counted: "m_tasks s = xs @ t # ys \<Longrightarrow> server_step env s (s\<lparr>m_tasks := xs @ t\<lparr>m_doneIp := []\<rparr> # ys\<rparr>)"

abbreviation server_steps :: "'w server_env \<Rightarrow> 'w server \<Rightarrow> 'w server \<Rightarrow> bool" where
  "server_steps env \<equiv> (server_step env)\<^sup>*\<^sup>*"

inductive_cases server_stepE: "server_step env s s'"

lemma pool_step_append: "pool_step st st' \<Longrightarrow> pool_step (st @ ys) (st' @ ys)"
proof (induction rule: pool_step.induct)
  case (assign i st n)
  then show ?case using pool_step.assign[of i "st @ ys" n] by (simp add: nth_append list_update_append)
next
  case (finish i st n r c)
  then show ?case using pool_step.finish[of i "st @ ys" n r c] by (simp add: nth_append list_update_append)
next
  case (release i st n)
  then show ?case using pool_step.release[of i "st @ ys" n] by (simp add: nth_append list_update_append)
qed

lemma pool_steps_append: "pool_steps st st' \<Longrightarrow> pool_steps (st @ ys) (st' @ ys)"
  by (induction rule: rtranclp_induct) (auto intro: pool_step_append rtranclp.rtrancl_into_rtrancl)

lemma release_last:
  "pool_steps (st @ [status_of t]) (st @ [status_of (if m_node t \<noteq> Some n then t else t\<lparr>m_node := None\<rparr>)])"
proof (cases "m_node t = Some n \<and> m_result t = NoInit")
  case True
  then show ?thesis
    using pool_step.release[of "length st" "st @ [status_of t]" n] by (auto simp: status_of_def)
next
  case False
  then have "status_of (if m_node t \<noteq> Some n then t else t\<lparr>m_node := None\<rparr>) = status_of t"
    by (auto simp: status_of_def split: option.splits)
  then show ?thesis by simp
qed

lemma disconnect_pool:
  "pool_steps (map status_of ts)
     (map status_of (map (\<lambda>t. if m_node t \<noteq> Some n then t else t\<lparr>m_node := None\<rparr>) ts))"
proof (induction ts rule: rev_induct)
  case Nil
  then show ?case by simp
next
  case (snoc t ts)
  from rtranclp_trans[OF pool_steps_append[OF snoc.IH] release_last]
  show ?case by simp
qed

lemma net_step_sound:
  assumes "net_step env s s'" "server_inv s"
  shows "server_inv s' \<and> pool_steps (pool s) (pool s') \<and>
    map m_message (m_tasks s') = map m_message (m_tasks s)"
  using assms(1)
proof cases
  case (process n)
  then show ?thesis using onRecvFromNode_handles[of n s env] assms(2) by (simp add: handles_def)
next
  case (offer n)
  then show ?thesis using sendTasksToSlave_handles[of n s env] assms(2) by (simp add: handles_def)
next
  case (disconnect n)
  have "pool_steps (pool s) (pool s')"
    using disconnect disconnect_pool[of "m_tasks s" n] by (simp add: onClientDisconnected_def)
  moreover have "server_inv s'"
    using disconnect assms(2)
    by (auto simp: server_inv_def onClientDisconnected_def o_def if_distrib cong: if_cong)
  ultimately show ?thesis using disconnect by (simp add: onClientDisconnected_def o_def)
qed (use assms(2) in \<open>auto simp: server_inv_def\<close>)

lemma net_step_named:
  assumes "net_step env s s'" "server_inv s" "\<forall>n \<in> set (m_clients s). fullId (nodes s n) \<noteq> []"
  shows "list_all2 named_result (m_tasks s) (m_tasks s')"
  using assms(1)
proof cases
  case (process n)
  then show ?thesis using onRecvFromNode_handles[of n s env] assms(2,3) by (simp add: handles_def)
next
  case (offer n)
  then show ?thesis using sendTasksToSlave_handles[of n s env] assms(2,3) by (simp add: handles_def)
next
  case (disconnect n)
  have "named_result t (if m_node t \<noteq> Some n then t else t\<lparr>m_node := None\<rparr>)" for t
    by (simp add: named_result_def)
  then show ?thesis using disconnect by (simp add: onClientDisconnected_def list_all2_conv_all_nth)
qed simp_all

lemma server_step_sound:
  assumes "server_step env s s'" "server_inv s"
  shows "server_inv s' \<and> pool_steps (pool s) (pool s') \<and>
    map m_message (m_tasks s') = map m_message (m_tasks s)"
  using assms(1)
proof cases
  case net
  then show ?thesis using net_step_sound assms(2) by blast
next
  case (counted xs t ys)
  then have "pool s' = pool s" by (simp add: status_of_def)
  with counted assms(2) show ?thesis by (auto simp: server_inv_def)
qed

text \<open>
  The contract the rest of the master relies on: steps keep a good state good and act on the
  tasks as the pool allows. Its consequences for whole runs are proved once.
\<close>

locale task_pool =
  fixes step :: "'s \<Rightarrow> 's \<Rightarrow> bool" and good :: "'s \<Rightarrow> bool" and pool_of :: "'s \<Rightarrow> status list"
  assumes step_good: "step s s' \<Longrightarrow> good s \<Longrightarrow> good s'"
    and step_pool: "step s s' \<Longrightarrow> good s \<Longrightarrow> pool_steps (pool_of s) (pool_of s')"
begin

lemma run_sound: "step\<^sup>*\<^sup>* s s' \<Longrightarrow> good s \<Longrightarrow> good s' \<and> pool_steps (pool_of s) (pool_of s')"
  by (induction rule: rtranclp_induct) (auto intro: step_good rtranclp_trans step_pool)

lemma run_length: "step\<^sup>*\<^sup>* s s' \<Longrightarrow> good s \<Longrightarrow> length (pool_of s') = length (pool_of s)"
  using run_sound pool_steps_length by blast

lemma run_done_final:
  "step\<^sup>*\<^sup>* s s' \<Longrightarrow> good s \<Longrightarrow> i < length (pool_of s) \<Longrightarrow> pool_of s ! i = Done r c \<Longrightarrow> pool_of s' ! i = Done r c"
  using run_sound pool_steps_done by blast

end

interpretation srv: task_pool "server_step env" server_inv pool for env
  using server_step_sound by unfold_locales blast+

subsection \<open>Properties of the server\<close>

text \<open>
  C1: The server implements the abstract task pool: every run of handlers, in any order, keeps
  the invariant (no pointer to a node that is gone, no finished task still assigned) and changes
  the tasks only by assigning a pending task, by recording the result of an assigned task, or by
  taking an assignment back.
\<close>

theorem server_refines_pool:
  assumes "server_steps env s s'" "server_inv s"
  shows "server_inv s' \<and> pool_steps (pool s) (pool s')"
  using assms by (rule srv.run_sound)

text \<open>
  C7: A result is final: whatever daemons and the network do afterwards, a task that has a
  result keeps the result and its exit code.
\<close>

theorem result_is_final:
  assumes "server_steps env s s'" "server_inv s"
    and "i < length (m_tasks s)" "m_result (m_tasks s ! i) \<noteq> NoInit"
  shows "i < length (m_tasks s') \<and> m_result (m_tasks s' ! i) = m_result (m_tasks s ! i) \<and>
    m_exitCode (m_tasks s' ! i) = m_exitCode (m_tasks s ! i)"
proof -
  have l: "length (m_tasks s') = length (m_tasks s)"
    using srv.run_length[OF assms(1,2)] by simp
  have "pool s ! i = Done (m_result (m_tasks s ! i)) (m_exitCode (m_tasks s ! i))"
    using assms(3,4) by (simp add: status_of_def)
  from srv.run_done_final[OF assms(1,2) _ this] assms(3) l
  have "status_of (m_tasks s' ! i) = Done (m_result (m_tasks s ! i)) (m_exitCode (m_tasks s ! i))"
    by simp
  then show ?thesis
    using assms(3) l by (auto simp: status_of_def split: if_splits option.splits)
qed

text \<open>
  When a client has a free core and some task is neither assigned nor done,
  \<open>sendTasksToSlave\<close> takes the first such task, marks it with the client, sends the client one
  packet - the task's message with the contents of its source file - and counts one core less.
  It always succeeds: the failure branch for an incomplete message is unreachable.
\<close>

theorem sendTasksToSlave_sends_first:
  assumes "server_inv s" "0 < sint (m_freeCores (nodes s n))"
    and "m_tasks s = xs @ t # ys" "\<forall>x \<in> set xs. \<not> free_task x" "free_task t"
    and "0 < length (enc_master (se_codec env) \<lparr>mp_task = Some (task_packet (se_fs env) (files s) t), mp_system = None\<rparr>)"
    and "length (enc_master (se_codec env) \<lparr>mp_task = Some (task_packet (se_fs env) (files s) t), mp_system = None\<rparr>) < 2 ^ 64"
  shows "\<exists>s'. sendTasksToSlave env n s = (True, s') \<and>
    m_tasks s' = xs @ t\<lparr>m_node := Some n\<rparr> # ys \<and>
    m_freeCores (nodes s' n) = m_freeCores (nodes s n) - 1 \<and>
    sentPackets (nodes s' n) = sentPackets (nodes s n) @
      [enc_master (se_codec env) \<lparr>mp_task = Some (task_packet (se_fs env) (files s) t), mp_system = None\<rparr>] \<and>
    (\<forall>k. k \<noteq> n \<longrightarrow> nodes s' k = nodes s k) \<and> m_clients s' = m_clients s \<and> files s' = files s"
proof -
  let ?m = "task_packet (se_fs env) (files s) t"
  let ?p = "\<lparr>mp_task = Some ?m, mp_system = None\<rparr>"
  have init: "Task_IsInitialized ?m"
    using assms(1,3) by (intro message_ready_init) (simp add: server_inv_def)
  have "sentPackets (sent_node env (files s) (nodes s n) t) = sentPackets (nodes s n) @ [enc_master (se_codec env) ?p]"
    using size_t_nonzero[OF assms(6,7)] init
    by (simp add: sent_node_def Let_def send_appends master_message_def ml_ByteSizeLong_def Master_IsInitialized_def)
  then show ?thesis
    using assms(2) init send_loop_first[OF assms(4,5), of env n "files s" "nodes s n" ys]
    by (simp add: sendTasksToSlave_def assms(3))
qed

text \<open>Tasks that point to a node.\<close>

definition assigned_to :: "nat \<Rightarrow> 'w server \<Rightarrow> nat" where
  "assigned_to n s = length (filter (\<lambda>t. m_node t = Some n) (m_tasks s))"

text \<open>
  C34: Handing out tasks never exceeds the announced cores: each offer to a client keeps the sum
  of its assigned tasks and its free cores, and never makes the free cores negative.
\<close>

theorem offer_keeps_budget:
  assumes "0 \<le> sint (m_freeCores (nodes s n))" and "sendTasksToSlave env n s = (r, s')"
  shows "int (assigned_to n s') + sint (m_freeCores (nodes s' n)) =
           int (assigned_to n s) + sint (m_freeCores (nodes s n)) \<and>
         0 \<le> sint (m_freeCores (nodes s' n))"
proof (cases rule: sendTasksToSlave_cases[where s = s and n = n and env = env])
  case (idle b)
  then show ?thesis using assms by simp
next
  case (sent xs t ys)
  have "sint (m_freeCores (nodes s n) - 1) = sint (m_freeCores (nodes s n)) - 1"
    using sent(1) by (rule sint_pred)
  then show ?thesis
    using sent assms by (auto simp: assigned_to_def free_task_def)
qed

text \<open>
  C26: A result is applied to the task with its id that is assigned to the sending client, and to
  no other: the task gets the exit code, the process code and the client's name and is
  unassigned; on success with output data the file is written and its status becomes the exit
  code. A result for a task the client does not hold changes nothing.
\<close>

theorem applyResultFromSlave_spec:
  shows "(\<exists>xs t ys. m_tasks s = xs @ t # ys \<and> result_for n r t \<and> filter (result_for n r) xs = [] \<and>
     (let fin = t\<lparr>m_exitCode := get_or 0 (rs_exit_code r), m_result := get_or 0 (rs_process_code r),
                   m_doneIp := fullId (nodes s n), m_node := None\<rparr>;
          saved = fs_save (se_fs env) (files s) (OutputFile (m_vars t)) (get_or [] (rs_outputData r))
      in applyResultFromSlave env n r s =
        (if get_or 0 (rs_exit_code r) = 0 \<and> get_or 0 (rs_process_code r) = Exited \<and> rs_outputData r \<noteq> None
         then (True, s\<lparr>m_tasks := xs @ fin\<lparr>m_exitCode := fst saved\<rparr> # ys, files := snd saved\<rparr>)
         else (True, s\<lparr>m_tasks := xs @ fin # ys\<rparr>))))
   \<or> (filter (result_for n r) (m_tasks s) = [] \<and> applyResultFromSlave env n r s = (False, s))"
proof (cases rule: applyResultFromSlave_cases[where s = s and n = n and r = r and env = env])
  case wrong
  then show ?thesis by (simp add: filter_empty_conv)
next
  case (applied xs t ys)
  then show ?thesis
    by (intro disjI1 exI[of _ xs] exI[of _ t] exI[of _ ys])
      (auto simp: apply_result_def Let_def filter_empty_conv split: prod.splits)
qed

text \<open>
  A disconnect loses no work: the tasks of the client that have no result become free again,
  no task points to the client any more, and every other task is as before.
\<close>

theorem disconnect_frees_tasks:
  assumes "server_inv s" "i < length (m_tasks s)"
  shows "m_node (m_tasks (onClientDisconnected n s) ! i) \<noteq> Some n \<and>
    (if m_node (m_tasks s ! i) = Some n
     then free_task (m_tasks (onClientDisconnected n s) ! i)
     else m_tasks (onClientDisconnected n s) ! i = m_tasks s ! i)"
  using assms nth_mem[OF assms(2)]
  by (auto simp: onClientDisconnected_def free_task_def server_inv_def)

subsection \<open>Witnesses\<close>

text \<open>A master with two tasks, the first of them assigned to the connected daemon 7.\<close>

definition sample_msg :: "u32 \<Rightarrow> Master_Task" where
  "sample_msg i = \<lparr>tk_id = Some i, tk_project = Some ''g'', tk_outputFile = Some ''o'', tk_application = Some ''a'',
     tk_commandline = Some '''', tk_workingDir = Some '''', tk_sourceFile = Some ''s'', tk_inputData = None,
     tk_abortOnError = Some False\<rparr>"

definition sample_task :: "u32 \<Rightarrow> TaskInfo" where
  "sample_task i = (new_TaskInfo i)\<lparr>m_message := sample_msg i\<rparr>"

definition sample_env :: "(string \<rightharpoonup> string) server_env" where
  "sample_env = \<lparr>se_codec = sample_codec, se_fs = map_fs, se_send = (\<lambda>_ _. 1)\<rparr>"

definition sample_server :: "(string \<rightharpoonup> string) server" where
  "sample_server = \<lparr>m_tasks = [(sample_task 1)\<lparr>m_node := Some 7\<rparr>, sample_task 2], m_clients = [7],
     nodes = (\<lambda>_. (newClient ''ip'')\<lparr>m_freeCores := 3, recvPackets := [[2]]\<rparr>), files = Map.empty\<rparr>"

lemmas sample_defs = sample_msg_def sample_task_def sample_codec_def sample_env_def sample_server_def
  newClient_def new_TcpProtobufNode_def new_TaskInfo_def map_fs_def

lemma sample_server_inv: "server_inv sample_server"
  by (simp add: server_inv_def sample_defs message_ready_def Task_IsInitialized_def)

text \<open>The state after the daemon's result has been processed.\<close>

lemma sample_processed:
  "m_result (m_tasks (snd (onRecvFromNode sample_env 7 sample_server)) ! 0) = Exited"
  by (simp add: onRecvFromNode.simps sample_defs extractRecvPacket_def handle_packet_def Slave_IsInitialized_def
      Result_IsInitialized_def applyResultFromSlave_def apply_result_def)

lemma sample_run: "server_steps sample_env sample_server (snd (onRecvFromNode sample_env 7 sample_server))"
  by (rule r_into_rtranclp, rule server_step.net, rule net_step.process) (simp add: sample_server_def)

theorem server_refines_pool_witness:
  "server_inv (snd (onRecvFromNode sample_env 7 sample_server)) \<and>
   pool_steps (pool sample_server) (pool (snd (onRecvFromNode sample_env 7 sample_server)))"
  using server_refines_pool[OF sample_run sample_server_inv] .

theorem result_is_final_witness:
  "m_result (m_tasks ((onClientDisconnected 7 (snd (onRecvFromNode sample_env 7 sample_server)))
      \<lparr>m_clients := []\<rparr>) ! 0) = Exited"
proof -
  let ?s = "snd (onRecvFromNode sample_env 7 sample_server)"
  let ?t = "(onClientDisconnected 7 ?s)\<lparr>m_clients := remove1 7 (m_clients ?s)\<rparr>"
  have h: "server_inv ?s \<and> m_clients ?s = [7] \<and> length (m_tasks ?s) = 2"
    using onRecvFromNode_handles[of 7 sample_server sample_env] sample_server_inv
      srv.run_length[OF sample_run sample_server_inv]
    by (simp add: handles_def sample_server_def)
  have "server_step sample_env ?s ?t" by (rule server_step.net, rule net_step.disconnect) (simp add: h)
  then have "server_steps sample_env ?s ?t" by blast
  from result_is_final[OF this, of 0] h sample_processed show ?thesis by simp
qed

theorem sendTasksToSlave_sends_first_witness:
  "\<exists>s'. sendTasksToSlave sample_env 7 sample_server = (True, s') \<and> m_freeCores (nodes s' 7) = 2"
  using sendTasksToSlave_sends_first[OF sample_server_inv, of 7 "[(sample_task 1)\<lparr>m_node := Some 7\<rparr>]" "sample_task 2" "[]" sample_env]
  by (auto simp: sample_defs free_task_def)

theorem offer_keeps_budget_witness:
  "int (assigned_to 7 (snd (sendTasksToSlave sample_env 7 sample_server))) +
     sint (m_freeCores (nodes (snd (sendTasksToSlave sample_env 7 sample_server)) 7)) = 4"
proof -
  have n: "m_freeCores (nodes sample_server 7) = 3" by (simp add: sample_defs)
  have a: "assigned_to 7 sample_server = 1" by (simp add: sample_defs assigned_to_def)
  show ?thesis
    using offer_keeps_budget[of sample_server 7 sample_env] n a by (simp add: prod_eq_iff)
qed

theorem disconnect_frees_tasks_witness:
  "free_task (m_tasks (onClientDisconnected 7 sample_server) ! 0)"
  using disconnect_frees_tasks[OF sample_server_inv, of 0 7] by (simp add: sample_defs)

end
