(* ===== verification/Client.thy ===== *)
theory Client
  imports Node Process_App Project Samples
begin

text \<open>
  \<open>daemon/tcp_protobufclient.h\<close>, \<open>.cpp\<close>: the daemon's end of a connection. It runs the tasks it
  receives as processes, and reports each finished process together with its free cores. The
  base class \<open>su::Net::TcpClient\<close> is in the submodule: of it the model keeps whether
  \<open>disconnect()\<close> was called and how often the keep-alive timer was restarted.
\<close>

subsection \<open>State and environment\<close>

text \<open>\<open>TcpProtobufClient::Task\<close>; \<open>'p\<close> is the type of process objects.\<close>

record 'p client_task =
  ct_process :: 'p
  ct_id :: u32
  ct_sourceFile :: string
  ct_outputFile :: string
  ct_abortOnError :: bool

record ('w, 'p) client =
  cl_node :: node
  cl_tasks :: "'p client_task list"
  cl_world :: 'w
  cl_connected :: bool
  cl_keepAlive :: nat

text \<open>\<open>ce_now\<close> reads the local time, \<open>ce_hw\<close> is the number of hardware threads.\<close>

record ('w, 'p) client_env =
  ce_codec :: codec
  ce_fs :: "'w su_fs"
  ce_send :: pn_send
  ce_proc :: "('w, 'p) proc_api"
  ce_su :: su_string
  ce_projects :: Projects
  ce_hw :: i32
  ce_now :: "'w \<Rightarrow> nat \<times> nat"

definition free_cores :: "('w, 'p) client_env \<Rightarrow> 'w \<Rightarrow> u32" where
  "free_cores env w = getFreeCore (ce_hw env) (ce_now env w) (ce_projects env)"

definition disconnect :: "('w, 'p) client \<Rightarrow> ('w, 'p) client" where
  "disconnect c = c\<lparr>cl_connected := False\<rparr>"

definition client_send :: "('w, 'p) client_env \<Rightarrow> Slave_Packet \<Rightarrow> ('w, 'p) client \<Rightarrow> size_t \<times> ('w, 'p) client" where
  "client_send env p c =
     (case TcpProtobufNode_send (ce_send env) (cl_node c) (slave_message (ce_codec env) p) of
        (r, nd) \<Rightarrow> (r, c\<lparr>cl_node := nd\<rparr>))"

subsection \<open>doWork\<close>

text \<open>
  The packet for a finished task. The core count subtracts all tasks of the list, the finished
  one included. \<open>mutable_outputdata\<close> sets the field even when loading fails.
\<close>

definition result_packet :: "('w, 'p) client_env \<Rightarrow> ('w, 'p) client \<Rightarrow> 'p client_task \<Rightarrow> Slave_Packet" where
  "result_packet env c t =
     (case pa_exitCode (ce_proc env) (cl_world c) (ct_process t) of
        (resultCode, stored) \<Rightarrow>
          \<lparr>sp_info = Some \<lparr>inf_task_count = Some (free_cores env (cl_world c) - of_nat (length (cl_tasks c)))\<rparr>,
           sp_result = Some
             \<lparr>rs_id = Some (ct_id t), rs_exit_code = Some (get_or 0 stored),
              rs_process_code = Some resultCode, rs_outputFile = Some (ct_outputFile t),
              rs_outputData = Some (snd (fs_load (ce_fs env) (cl_world c) (ct_outputFile t)))\<rparr>\<rparr>)"

definition task_failed :: "('w, 'p) client_env \<Rightarrow> 'w \<Rightarrow> 'p client_task \<Rightarrow> bool" where
  "task_failed env w t =
     (case pa_exitCode (ce_proc env) w (ct_process t) of
        (resultCode, stored) \<Rightarrow> resultCode \<noteq> Exited \<or> get_or 0 stored \<noteq> 0)"

definition remove_files :: "('w, 'p) client_env \<Rightarrow> 'p client_task \<Rightarrow> 'w \<Rightarrow> 'w" where
  "remove_files env t w =
     fs_deleteFile (ce_fs env) (fs_deleteFile (ce_fs env) w (ct_sourceFile t)) (ct_outputFile t)"

text \<open>
  The loop over the task vector by index. After \<open>erase\<close> the code decrements the index, which the
  loop increments again: the wrapped decrement of index 0 comes back to 0, so the index stays.
  A \<open>break\<close> leaves the finished task in the vector.
\<close>

function doWork_loop :: "('w, 'p) client_env \<Rightarrow> nat \<Rightarrow> ('w, 'p) client \<Rightarrow> ('w, 'p) client" where
  "doWork_loop env ii c =
     (if ii < length (cl_tasks c) then
        let task = cl_tasks c ! ii in
        if pa_isRunning (ce_proc env) (cl_world c) (ct_process task) then
          doWork_loop env (Suc ii) (c\<lparr>cl_keepAlive := cl_keepAlive c + 1\<rparr>)
        else
          let packet = result_packet env c task in
          if \<not> Slave_IsInitialized packet then disconnect c
          else
            case client_send env packet c of
              (sent, c') \<Rightarrow>
                if sent = 0 then disconnect c'
                else if task_failed env (cl_world c) task \<and> ct_abortOnError task then disconnect c'
                else doWork_loop env ii
                       (c'\<lparr>cl_world := remove_files env task (cl_world c),
                           cl_tasks := take ii (cl_tasks c) @ drop (Suc ii) (cl_tasks c)\<rparr>)
      else c)"
  by pat_completeness auto
termination
  by (relation "measure (\<lambda>(env, ii, c). length (cl_tasks c) - ii)") auto

declare doWork_loop.simps [simp del]

text \<open>\<open>base\<close> is the effect of \<open>su::Net::TcpClient::doWork()\<close>.\<close>

definition client_doWork ::
  "('w, 'p) client_env \<Rightarrow> (('w, 'p) client \<Rightarrow> ('w, 'p) client) \<Rightarrow> ('w, 'p) client \<Rightarrow> ('w, 'p) client" where
  "client_doWork env base c = doWork_loop env 0 (base c)"

subsection \<open>onConnect\<close>

definition onConnect :: "('w, 'p) client_env \<Rightarrow> ('w, 'p) client \<Rightarrow> bool \<times> ('w, 'p) client" where
  "onConnect env c =
     (let packet = \<lparr>sp_info = Some \<lparr>inf_task_count = Some (free_cores env (cl_world c))\<rparr>, sp_result = None\<rparr>
      in (True, snd (client_send env packet c)))"

subsection \<open>runTaskProcess\<close>

definition runTaskProcess ::
  "('w, 'p) client_env \<Rightarrow> Master_Task \<Rightarrow> ('w, 'p) client \<Rightarrow> bool \<times> ('w, 'p) client" where
  "runTaskProcess env packet c =
     (let prjname = get_or [] (tk_project packet);
          workingdir = get_or [] (tk_workingDir packet);
          application = get_or [] (tk_application packet);
          commandline = get_or [] (tk_commandline packet);
          outputfile = get_or [] (tk_outputFile packet);
          sourcefile = get_or [] (tk_sourceFile packet)
      in case getProject (ce_projects env) prjname of
           None \<Rightarrow> (False, c)
         | Some prj \<Rightarrow>
             let workingdir = String_replace (ce_su env) workingdir ''$(pdir)'' (m_path prj) True;
                 application = String_replace (ce_su env) application ''$(pdir)'' (m_path prj) True;
                 commandline = String_replace (ce_su env) commandline ''$(pdir)'' (m_workPath prj) True;
                 sourcefile = String_replace (ce_su env) sourcefile ''$(pdir)'' (m_workPath prj) True;
                 outputfile = String_replace (ce_su env) outputfile ''$(pdir)'' (m_workPath prj) True
             in case fs_save (ce_fs env) (cl_world c) sourcefile (get_or [] (tk_inputData packet)) of
                  (result, w) \<Rightarrow>
                    if result \<noteq> fs_OK (ce_fs env) then (False, c\<lparr>cl_world := w\<rparr>)
                    else
                      case pa_start (ce_proc env) w application commandline workingdir of
                        (p, w') \<Rightarrow>
                          (True, c\<lparr>cl_world := w',
                             cl_tasks := cl_tasks c @
                               [\<lparr>ct_process = p, ct_id = get_or 0 (tk_id packet), ct_sourceFile = sourcefile,
                                 ct_outputFile = outputfile,
                                 ct_abortOnError = get_or False (tk_abortOnError packet)\<rparr>]\<rparr>))"

lemma runTaskProcess_node [simp, fdb_simps]: "cl_node (snd (runTaskProcess env m c)) = cl_node c"
  by (simp add: runTaskProcess_def Let_def split: option.splits prod.splits)

lemma run_opt_node:
  "(case m of None \<Rightarrow> (True, c) | Some t \<Rightarrow> runTaskProcess env t c) = (ok, c') \<Longrightarrow> cl_node c' = cl_node c"
  by (cases m) (auto dest: arg_cong[where f = "\<lambda>x. cl_node (snd x)"])

subsection \<open>onRecvFromNode\<close>

definition set_queue :: "bytes list \<Rightarrow> ('w, 'p) client \<Rightarrow> ('w, 'p) client" where
  "set_queue q c = c\<lparr>cl_node := (cl_node c)\<lparr>recvPackets := q\<rparr>\<rparr>"

lemma set_queue_simps [simp]:
  "recvPackets (cl_node (set_queue q c)) = q" "cl_tasks (set_queue q c) = cl_tasks c"
  "cl_world (set_queue q c) = cl_world c" "sentPackets (cl_node (set_queue q c)) = sentPackets (cl_node c)"
  by (simp_all add: set_queue_def)

definition close_requested :: "Master_Packet \<Rightarrow> bool" where
  "close_requested p = (case mp_system p of None \<Rightarrow> False | Some sy \<Rightarrow> sys_close sy \<noteq> None \<and> get_or False (sys_close sy))"

function client_onRecv :: "('w, 'p) client_env \<Rightarrow> ('w, 'p) client \<Rightarrow> bool \<times> ('w, 'p) client" where
  "client_onRecv env c =
     (case recvPackets (cl_node c) of
        [] \<Rightarrow> (True, c)
      | raw # rest \<Rightarrow>
          let c = set_queue rest c;
              packet = dec_master (ce_codec env) raw
          in if \<not> Master_IsInitialized packet then (False, c)
             else
               case (case mp_task packet of None \<Rightarrow> (True, c) | Some m \<Rightarrow> runTaskProcess env m c) of
                 (ok, c') \<Rightarrow>
                   if \<not> ok then (False, set_queue [] c')
                   else if close_requested packet then (False, c')
                   else client_onRecv env c')"
  by pat_completeness auto
termination
  by (relation "measure (\<lambda>(env, c). length (recvPackets (cl_node c)))") (auto dest!: run_opt_node[OF sym])

declare client_onRecv.simps [simp del]

subsection \<open>The work loop as a list program\<close>

lemma result_packet_initialized [simp]: "Slave_IsInitialized (result_packet env c t)"
  by (simp add: result_packet_def Slave_IsInitialized_def Info_IsInitialized_def Result_IsInitialized_def
      split: prod.splits)

lemma client_send_simps [simp, fdb_simps]:
  "cl_tasks (snd (client_send env p c)) = cl_tasks c" "cl_world (snd (client_send env p c)) = cl_world c"
  "cl_connected (snd (client_send env p c)) = cl_connected c"
  "cl_keepAlive (snd (client_send env p c)) = cl_keepAlive c"
  by (simp_all add: client_send_def split: prod.splits)

text \<open>
  The reference program: walk over the tasks once, keep those that run in \<open>kept\<close>, report and
  drop the others, stop at the first failure.
\<close>

fun work_through ::
  "('w, 'p) client_env \<Rightarrow> 'p client_task list \<Rightarrow> 'p client_task list \<Rightarrow> ('w, 'p) client \<Rightarrow> ('w, 'p) client" where
  "work_through env kept [] c = c"
| "work_through env kept (t # ts) c =
     (if pa_isRunning (ce_proc env) (cl_world c) (ct_process t) then
        work_through env (kept @ [t]) ts (c\<lparr>cl_keepAlive := cl_keepAlive c + 1\<rparr>)
      else
        let packet = result_packet env c t;
            sent = fst (client_send env packet c);
            c' = snd (client_send env packet c)
        in if sent = 0 \<or> task_failed env (cl_world c) t \<and> ct_abortOnError t then disconnect c'
           else work_through env kept ts
                  (c'\<lparr>cl_world := remove_files env t (cl_world c), cl_tasks := kept @ ts\<rparr>))"

lemma doWork_loop_work_through:
  "cl_tasks c = kept @ ts \<Longrightarrow> doWork_loop env (length kept) c = work_through env kept ts c"
proof (induction env kept ts c rule: work_through.induct)
  case (1 env kept c)
  then show ?case by (subst doWork_loop.simps) simp
next
  case (2 env kept t ts c)
  have at: "cl_tasks c ! length kept = t" "length kept < length (cl_tasks c)"
    and rest: "take (length kept) (cl_tasks c) = kept" "drop (Suc (length kept)) (cl_tasks c) = ts"
    using "2.prems" by simp_all
  show ?case
  proof (cases "pa_isRunning (ce_proc env) (cl_world c) (ct_process t)")
    case True
    then show ?thesis
      using "2.IH"(1)[OF True] "2.prems" at by (subst doWork_loop.simps) (simp add: Let_def)
  next
    case False
    note IH = "2.IH"(2)[OF False refl refl refl]
    show ?thesis
      using False at rest IH
      by (subst doWork_loop.simps) (auto simp: Let_def split_beta)
  qed
qed

text \<open>
  C6: The index loop of \<open>doWork\<close>, which erases elements of the vector it runs over, visits every
  task exactly once: it equals the program that walks down the task list.
\<close>

theorem doWork_visits_each_task_once:
  "client_doWork env base c = work_through env [] (cl_tasks (base c)) (base c)"
  using doWork_loop_work_through[of "base c" "[]" "cl_tasks (base c)" env] by (simp add: client_doWork_def)

subsection \<open>What is reported\<close>

text \<open>
  Two things the work loop relies on: the network takes the result packets of these tasks, which
  have a size that \<open>size_t\<close> can hold, and deleting temporary files has no influence on the
  processes.
\<close>

definition packet_fits :: "('w, 'p) client_env \<Rightarrow> Slave_Packet \<Rightarrow> bool" where
  "packet_fits env p \<longleftrightarrow> 0 < length (enc_slave (ce_codec env) p) \<and> length (enc_slave (ce_codec env) p) < 2 ^ 64"

definition sends_ok :: "('w, 'p) client_env \<Rightarrow> 'p client_task list \<Rightarrow> bool" where
  "sends_ok env ts \<longleftrightarrow> (\<forall>nd bs. ce_send env nd bs \<noteq> 0) \<and>
     (\<forall>c. \<forall>t \<in> set ts. packet_fits env (result_packet env c t))"

definition processes_ignore_files :: "('w, 'p) client_env \<Rightarrow> bool" where
  "processes_ignore_files env \<longleftrightarrow> (\<forall>w f p.
     pa_isRunning (ce_proc env) (fs_deleteFile (ce_fs env) w f) p = pa_isRunning (ce_proc env) w p \<and>
     pa_exitCode (ce_proc env) (fs_deleteFile (ce_fs env) w f) p = pa_exitCode (ce_proc env) w p)"

lemma client_send_ok:
  assumes "\<forall>nd bs. ce_send env nd bs \<noteq> 0" "packet_fits env p" "Slave_IsInitialized p"
  shows "fst (client_send env p c) \<noteq> 0"
    and "sentPackets (cl_node (snd (client_send env p c))) = sentPackets (cl_node c) @ [enc_slave (ce_codec env) p]"
  using assms size_t_nonzero[of "length (enc_slave (ce_codec env) p)"]
  by (auto simp: packet_fits_def client_send_def TcpProtobufNode_send_def slave_message_def ml_ByteSizeLong_def)

lemma sends_ok_result:
  assumes "sends_ok env ts" "t \<in> set ts"
  shows "fst (client_send env (result_packet env c t) c') \<noteq> 0"
    and "sentPackets (cl_node (snd (client_send env (result_packet env c t) c'))) =
           sentPackets (cl_node c') @ [enc_slave (ce_codec env) (result_packet env c t)]"
  using client_send_ok[of env "result_packet env c t"] assms by (auto simp: sends_ok_def)

text \<open>
  \<open>reports env ts ps\<close>: the packets \<open>ps\<close> carry the results of the tasks \<open>ts\<close>, one each and in
  the same order, with the identifier and the output file the task was given.
\<close>

definition reported_as :: "'p client_task \<Rightarrow> Slave_Packet \<Rightarrow> bool" where
  "reported_as t p \<longleftrightarrow> (case sp_result p of None \<Rightarrow> False
     | Some r \<Rightarrow> rs_id r = Some (ct_id t) \<and> rs_outputFile r = Some (ct_outputFile t))"

lemma reported_as_result [simp]: "reported_as t (result_packet env c t)"
  by (simp add: reported_as_def result_packet_def split: prod.splits)

definition reports :: "('w, 'p) client_env \<Rightarrow> 'p client_task list \<Rightarrow> bytes list \<Rightarrow> bool" where
  "reports env ts bs \<longleftrightarrow> (\<exists>ps. bs = map (enc_slave (ce_codec env)) ps \<and> list_all2 reported_as ts ps)"

lemma reports_Nil [simp]: "reports env [] []"
  by (simp add: reports_def)

lemma reports_Cons: "reported_as t p \<Longrightarrow> reports env ts bs \<Longrightarrow> reports env (t # ts) (enc_slave (ce_codec env) p # bs)"
  unfolding reports_def by (metis list.simps(9) list_all2_Cons)

abbreviation running :: "('w, 'p) client_env \<Rightarrow> ('w, 'p) client \<Rightarrow> 'p client_task \<Rightarrow> bool" where
  "running env c t \<equiv> pa_isRunning (ce_proc env) (cl_world c) (ct_process t)"

text \<open>One finished task: its report goes out, its files are deleted and it is forgotten.\<close>

definition after_report ::
  "('w, 'p) client_env \<Rightarrow> 'p client_task list \<Rightarrow> 'p client_task list \<Rightarrow> 'p client_task \<Rightarrow> ('w, 'p) client \<Rightarrow> ('w, 'p) client" where
  "after_report env kept ts t c =
     (snd (client_send env (result_packet env c t) c))
       \<lparr>cl_world := remove_files env t (cl_world c), cl_tasks := kept @ ts\<rparr>"

lemma work_through_finished:
  assumes "sends_ok env (t # ts)" "processes_ignore_files env" "\<not> running env c t"
  shows "cl_tasks (after_report env kept ts t c) = kept @ ts"
    and "cl_world (after_report env kept ts t c) = remove_files env t (cl_world c)"
    and "cl_connected (after_report env kept ts t c) = cl_connected c"
    and "sentPackets (cl_node (after_report env kept ts t c)) =
           sentPackets (cl_node c) @ [enc_slave (ce_codec env) (result_packet env c t)]"
    and "pa_isRunning (ce_proc env) (remove_files env t (cl_world c)) = pa_isRunning (ce_proc env) (cl_world c)"
    and "task_failed env (remove_files env t (cl_world c)) = task_failed env (cl_world c)"
    and "\<not> (task_failed env (cl_world c) t \<and> ct_abortOnError t) \<Longrightarrow>
           work_through env kept (t # ts) c = work_through env kept ts (after_report env kept ts t c)"
  using assms sends_ok_result[OF assms(1), of t c c]
  by (auto simp: after_report_def processes_ignore_files_def remove_files_def task_failed_def fun_eq_iff Let_def)

lemma work_through_all:
  assumes "sends_ok env ts" "processes_ignore_files env"
    and "\<forall>t \<in> set ts. \<not> running env c t \<longrightarrow> \<not> (task_failed env (cl_world c) t \<and> ct_abortOnError t)"
    and "cl_tasks c = kept @ ts"
  shows "cl_tasks (work_through env kept ts c) = kept @ filter (running env c) ts \<and>
         (\<exists>bs. sentPackets (cl_node (work_through env kept ts c)) = sentPackets (cl_node c) @ bs \<and>
               reports env (filter (\<lambda>t. \<not> running env c t) ts) bs) \<and>
         cl_connected (work_through env kept ts c) = cl_connected c"
  using assms(1,3,4)
proof (induction ts arbitrary: kept c)
  case Nil
  then show ?case by simp
next
  case (Cons t ts)
  have ok: "sends_ok env ts" using Cons.prems(1) by (simp add: sends_ok_def)
  show ?case
  proof (cases "running env c t")
    case True
    then show ?thesis
      using Cons.IH[of "c\<lparr>cl_keepAlive := cl_keepAlive c + 1\<rparr>" "kept @ [t]"] Cons.prems ok by simp
  next
    case False
    let ?c = "after_report env kept ts t c"
    note step = work_through_finished[OF Cons.prems(1) assms(2) False]
    have eq: "work_through env kept (t # ts) c = work_through env kept ts ?c"
      using Cons.prems(2) False by (intro step(7)) auto
    obtain bs where "sentPackets (cl_node (work_through env kept ts ?c)) = sentPackets (cl_node ?c) @ bs"
      "reports env (filter (\<lambda>t. \<not> running env c t) ts) bs"
      and rest: "cl_tasks (work_through env kept ts ?c) = kept @ filter (running env c) ts"
      "cl_connected (work_through env kept ts ?c) = cl_connected c"
      using Cons.IH[of ?c kept] Cons.prems(2) ok step by auto
    then have "\<exists>bs. sentPackets (cl_node (work_through env kept ts ?c)) = sentPackets (cl_node c) @ bs \<and>
        reports env (filter (\<lambda>t. \<not> running env c t) (t # ts)) bs"
      using step(4) False
      by (intro exI[of _ "enc_slave (ce_codec env) (result_packet env c t) # bs"]) (simp add: reports_Cons)
    then show ?thesis unfolding eq using rest False by simp
  qed
qed

text \<open>
  C22: As long as packets go out and no failed task asks to abort, one \<open>doWork\<close> reports every
  finished task in one packet each, under its own identifier and in the order of the tasks,
  forgets exactly those tasks and keeps the running ones in order; the connection stays up.
\<close>

theorem doWork_reports_finished:
  assumes "sends_ok env (cl_tasks c)" "processes_ignore_files env"
    and "\<forall>t \<in> set (cl_tasks c). \<not> running env c t \<longrightarrow> \<not> (task_failed env (cl_world c) t \<and> ct_abortOnError t)"
  shows "cl_tasks (client_doWork env (\<lambda>c. c) c) = filter (running env c) (cl_tasks c) \<and>
         (\<exists>bs. sentPackets (cl_node (client_doWork env (\<lambda>c. c) c)) = sentPackets (cl_node c) @ bs \<and>
               reports env (filter (\<lambda>t. \<not> running env c t) (cl_tasks c)) bs) \<and>
         cl_connected (client_doWork env (\<lambda>c. c) c) = cl_connected c"
  using work_through_all[OF assms, of "[]"] doWork_loop_work_through[of c "[]" "cl_tasks c" env]
  by (simp add: client_doWork_def)

text \<open>
  The announcements that go with the results: with the \<open>i\<close>-th report \<open>i\<close> tasks are gone and the
  temporary files of those are deleted.
\<close>

definition announces ::
  "('w, 'p) client_env \<Rightarrow> 'w \<Rightarrow> nat \<Rightarrow> 'p client_task list \<Rightarrow> Slave_Packet list \<Rightarrow> bool" where
  "announces env w n fin ps \<longleftrightarrow> length ps = length fin \<and>
     (\<forall>i < length fin. sp_info (ps ! i) = Some \<lparr>inf_task_count =
        Some (free_cores env (fold (remove_files env) (take i fin) w) - of_nat (n - Suc i) - 1)\<rparr>)"

lemma announces_Nil [simp]: "announces env w n [] []"
  by (simp add: announces_def)

lemma announces_Cons:
  assumes "sp_info p = Some \<lparr>inf_task_count = Some (free_cores env w - of_nat n)\<rparr>" "0 < n"
    and "announces env (remove_files env t w) (n - 1) fin ps"
  shows "announces env w n (t # fin) (p # ps)"
proof -
  have "of_nat n = of_nat (n - 1) + (1 :: u32)" using assms(2) by (metis Suc_pred' of_nat_Suc add.commute)
  then show ?thesis using assms(1,3) by (auto simp: announces_def nth_Cons algebra_simps split: nat.splits)
qed

lemma result_packet_info:
  "sp_info (result_packet env c t) =
     Some \<lparr>inf_task_count = Some (free_cores env (cl_world c) - of_nat (length (cl_tasks c)))\<rparr>"
  by (simp add: result_packet_def split: prod.splits)

lemma work_through_announces:
  assumes "sends_ok env ts" "processes_ignore_files env"
    and "\<forall>t \<in> set ts. \<not> running env c t \<longrightarrow> \<not> (task_failed env (cl_world c) t \<and> ct_abortOnError t)"
    and "cl_tasks c = kept @ ts"
  shows "\<exists>ps. sentPackets (cl_node (work_through env kept ts c)) =
           sentPackets (cl_node c) @ map (enc_slave (ce_codec env)) ps \<and>
         list_all2 reported_as (filter (\<lambda>t. \<not> running env c t) ts) ps \<and>
         announces env (cl_world c) (length (cl_tasks c)) (filter (\<lambda>t. \<not> running env c t) ts) ps"
  using assms(1,3,4)
proof (induction ts arbitrary: kept c)
  case Nil
  then show ?case by simp
next
  case (Cons t ts)
  have ok: "sends_ok env ts" using Cons.prems(1) by (simp add: sends_ok_def)
  show ?case
  proof (cases "running env c t")
    case True
    then show ?thesis
      using Cons.IH[of "c\<lparr>cl_keepAlive := cl_keepAlive c + 1\<rparr>" "kept @ [t]"] Cons.prems ok by simp
  next
    case False
    let ?p = "result_packet env c t"
    let ?c = "after_report env kept ts t c"
    note step = work_through_finished[OF Cons.prems(1) assms(2) False]
    have eq: "work_through env kept (t # ts) c = work_through env kept ts ?c"
      using Cons.prems(2) False by (intro step(7)) auto
    obtain ps where "sentPackets (cl_node (work_through env kept ts ?c)) =
        sentPackets (cl_node ?c) @ map (enc_slave (ce_codec env)) ps"
      "list_all2 reported_as (filter (\<lambda>t. \<not> running env c t) ts) ps"
      "announces env (remove_files env t (cl_world c)) (length (kept @ ts)) (filter (\<lambda>t. \<not> running env c t) ts) ps"
      using Cons.IH[of ?c kept] Cons.prems(2) ok step by auto
    then show ?thesis
      unfolding eq using step(4) False Cons.prems(3) announces_Cons[OF result_packet_info, of c env t]
      by (intro exI[of _ "?p # ps"]) auto
  qed
qed

text \<open>
  C33: With every result the daemon announces one core too few. Whatever the number of its tasks, as
  long as packets go out and no failed task asks to abort, each report of one \<open>doWork\<close> announces
  the cores of that moment minus the tasks that are left once the reported one is forgotten minus
  one: the core that the finished task has just given back is not offered. A daemon with one core
  announces none although it becomes idle.
\<close>

theorem announced_cores_one_short:
  assumes "sends_ok env (cl_tasks c)" "processes_ignore_files env"
    and "\<forall>t \<in> set (cl_tasks c). \<not> running env c t \<longrightarrow> \<not> (task_failed env (cl_world c) t \<and> ct_abortOnError t)"
    and fin: "fin = filter (\<lambda>t. \<not> running env c t) (cl_tasks c)"
  shows "\<exists>ps. sentPackets (cl_node (client_doWork env (\<lambda>c. c) c)) =
           sentPackets (cl_node c) @ map (enc_slave (ce_codec env)) ps \<and>
         list_all2 reported_as fin ps \<and>
         (\<forall>i < length fin. sp_info (ps ! i) = Some \<lparr>inf_task_count =
            Some (free_cores env (fold (remove_files env) (take i fin) (cl_world c)) -
                  of_nat (length (cl_tasks c) - Suc i) - 1)\<rparr>)"
  using work_through_announces[OF assms(1-3), of "[]"] doWork_loop_work_through[of c "[]" "cl_tasks c" env]
  unfolding fin announces_def by (auto simp: client_doWork_def)

subsection \<open>Receiving\<close>

text \<open>
  What it is to start one task: its project is known, its source is stored under the path of the
  daemon's project, the process of the job is the one that was started with the expanded
  application, command line and working directory, and the job keeps identifier, files and the
  abort flag of the packet.
\<close>

definition job_started ::
  "('w, 'p) client_env \<Rightarrow> Master_Task \<Rightarrow> 'w \<Rightarrow> 'p client_task \<Rightarrow> 'w \<Rightarrow> bool" where
  "job_started env m w t w' \<longleftrightarrow> (\<exists>prj w1.
     getProject (ce_projects env) (get_or [] (tk_project m)) = Some prj \<and>
     fs_save (ce_fs env) w (ct_sourceFile t) (get_or [] (tk_inputData m)) = (fs_OK (ce_fs env), w1) \<and>
     pa_start (ce_proc env) w1
       (String_replace (ce_su env) (get_or [] (tk_application m)) ''$(pdir)'' (m_path prj) True)
       (String_replace (ce_su env) (get_or [] (tk_commandline m)) ''$(pdir)'' (m_workPath prj) True)
       (String_replace (ce_su env) (get_or [] (tk_workingDir m)) ''$(pdir)'' (m_path prj) True) = (ct_process t, w') \<and>
     ct_id t = get_or 0 (tk_id m) \<and>
     ct_sourceFile t = String_replace (ce_su env) (get_or [] (tk_sourceFile m)) ''$(pdir)'' (m_workPath prj) True \<and>
     ct_outputFile t = String_replace (ce_su env) (get_or [] (tk_outputFile m)) ''$(pdir)'' (m_workPath prj) True \<and>
     ct_abortOnError t = get_or False (tk_abortOnError m))"

text \<open>The tasks of a queue started one after the other, each in the world the one before left.\<close>

inductive jobs_started ::
  "('w, 'p) client_env \<Rightarrow> Master_Task list \<Rightarrow> 'w \<Rightarrow> 'p client_task list \<Rightarrow> 'w \<Rightarrow> bool"
  for env where
  none: "jobs_started env [] w [] w"
| one: "job_started env m w t w1 \<Longrightarrow> jobs_started env ms w1 ts w' \<Longrightarrow> jobs_started env (m # ms) w (t # ts) w'"

inductive_simps jobs_started_Nil [simp]: "jobs_started env [] w ts w'"
inductive_simps jobs_started_Cons: "jobs_started env (m # ms) w ts w'"

definition ordered :: "Master_Packet \<Rightarrow> Master_Task list" where
  "ordered p = (case mp_task p of None \<Rightarrow> [] | Some m \<Rightarrow> [m])"

lemma runTaskProcess_True:
  "runTaskProcess env m c = (True, c') \<longleftrightarrow>
     (\<exists>t w'. job_started env m (cl_world c) t w' \<and> c' = c\<lparr>cl_world := w', cl_tasks := cl_tasks c @ [t]\<rparr>)"
proof
  assume "runTaskProcess env m c = (True, c')"
  then show "\<exists>t w'. job_started env m (cl_world c) t w' \<and> c' = c\<lparr>cl_world := w', cl_tasks := cl_tasks c @ [t]\<rparr>"
    unfolding runTaskProcess_def job_started_def Let_def
    by (auto split: option.splits prod.splits if_splits intro!: exI)
next
  assume "\<exists>t w'. job_started env m (cl_world c) t w' \<and> c' = c\<lparr>cl_world := w', cl_tasks := cl_tasks c @ [t]\<rparr>"
  then show "runTaskProcess env m c = (True, c')"
    by (auto simp: runTaskProcess_def job_started_def Let_def)
qed

text \<open>The client after it has started the jobs \<open>ts\<close> with \<open>q\<close> left in the queue.\<close>

definition with_jobs :: "bytes list \<Rightarrow> 'p client_task list \<Rightarrow> 'w \<Rightarrow> ('w, 'p) client \<Rightarrow> ('w, 'p) client" where
  "with_jobs q ts w c = (set_queue q c)\<lparr>cl_world := w, cl_tasks := cl_tasks c @ ts\<rparr>"

lemma with_jobs_simps [simp]:
  "cl_world (with_jobs q ts w c) = w" "recvPackets (cl_node (with_jobs q ts w c)) = q"
  "with_jobs q' ts' w' (with_jobs q ts w c) = with_jobs q' (ts @ ts') w' c"
  "recvPackets (cl_node c) = q \<Longrightarrow> with_jobs q [] (cl_world c) c = c"
  by (simp_all add: with_jobs_def set_queue_def)

lemma run_opt_True:
  "(case mp_task p of None \<Rightarrow> (True, set_queue q c) | Some m \<Rightarrow> runTaskProcess env m (set_queue q c)) = (True, c') \<longleftrightarrow>
     (\<exists>ts w'. jobs_started env (ordered p) (cl_world c) ts w' \<and> c' = with_jobs q ts w' c)"
  by (auto simp: ordered_def runTaskProcess_True jobs_started_Cons with_jobs_def set_queue_def split: option.splits)

lemma client_onRecv_Nil: "recvPackets (cl_node c) = [] \<Longrightarrow> client_onRecv env c = (True, c)"
  by (subst client_onRecv.simps) simp

lemma client_onRecv_True:
  assumes "recvPackets (cl_node c) = raw # rest"
  shows "client_onRecv env c = (True, d) \<longleftrightarrow>
    Master_IsInitialized (dec_master (ce_codec env) raw) \<and> \<not> close_requested (dec_master (ce_codec env) raw) \<and>
    (\<exists>ts w'. jobs_started env (ordered (dec_master (ce_codec env) raw)) (cl_world c) ts w' \<and>
       client_onRecv env (with_jobs rest ts w' c) = (True, d))"
proof -
  let ?p = "dec_master (ce_codec env) raw"
  obtain ok c' where run: "(case mp_task ?p of None \<Rightarrow> (True, set_queue rest c)
      | Some m \<Rightarrow> runTaskProcess env m (set_queue rest c)) = (ok, c')" by fastforce
  have "client_onRecv env c = (True, d) \<longleftrightarrow>
      Master_IsInitialized ?p \<and> ok \<and> \<not> close_requested ?p \<and> client_onRecv env c' = (True, d)"
    using assms run by (simp add: client_onRecv.simps[of env c] Let_def)
  moreover have "ok \<and> c' = x \<longleftrightarrow>
      (\<exists>ts w'. jobs_started env (ordered ?p) (cl_world c) ts w' \<and> x = with_jobs rest ts w' c)" for x
    using run_opt_True[where p = ?p and q = rest and c = c and env = env and c' = x] unfolding run by simp
  ultimately show ?thesis by metis
qed

lemma jobs_started_append:
  "jobs_started env (ms @ ms') w ts w' \<longleftrightarrow>
     (\<exists>ts1 w1 ts2. jobs_started env ms w ts1 w1 \<and> jobs_started env ms' w1 ts2 w' \<and> ts = ts1 @ ts2)"
  by (induction ms arbitrary: w ts) (auto simp: jobs_started_Cons, metis append_Cons, blast)

text \<open>
  C30: \<open>onRecvFromNode\<close> keeps the connection exactly when every packet of the queue is complete and
  does not ask to close and every task packet can be started. Then it has stored the source and
  started the process of every task packet, in the order of the queue and each in the world that
  the one before left, and the jobs with those processes are appended to the task list; the queue
  is empty and nothing else of the client has changed.
\<close>

theorem onRecv_starts_every_task:
  "client_onRecv env c = (True, d) \<longleftrightarrow>
     (\<forall>raw \<in> set (recvPackets (cl_node c)). Master_IsInitialized (dec_master (ce_codec env) raw) \<and>
        \<not> close_requested (dec_master (ce_codec env) raw)) \<and>
     (\<exists>jobs w'. jobs_started env (concat (map (ordered \<circ> dec_master (ce_codec env)) (recvPackets (cl_node c))))
          (cl_world c) jobs w' \<and>
        d = c\<lparr>cl_node := (cl_node c)\<lparr>recvPackets := []\<rparr>, cl_world := w', cl_tasks := cl_tasks c @ jobs\<rparr>)"
proof -
  have "client_onRecv env c = (True, d) \<longleftrightarrow>
      (\<forall>raw \<in> set q. Master_IsInitialized (dec_master (ce_codec env) raw) \<and>
         \<not> close_requested (dec_master (ce_codec env) raw)) \<and>
      (\<exists>ts w'. jobs_started env (concat (map (ordered \<circ> dec_master (ce_codec env)) q)) (cl_world c) ts w' \<and>
         d = with_jobs [] ts w' c)"
    if "q = recvPackets (cl_node c)" for q
    using that
  proof (induction q arbitrary: c)
    case Nil
    then show ?case using client_onRecv_Nil[of c env] by (auto simp: with_jobs_def set_queue_def)
  next
    case (Cons raw rest)
    show ?case
      unfolding client_onRecv_True[OF Cons.prems[symmetric]] by (auto simp: Cons.IH jobs_started_append) blast
  qed
  from this[OF refl] show ?thesis by (simp add: with_jobs_def set_queue_def)
qed

text \<open>
  A task is accepted only for a project that the daemon knows, and only once its source file
  is stored: otherwise \<open>runTaskProcess\<close> returns false and starts nothing. An accepted task gets
  the paths of the daemon's project in place of \<open>$(pdir)\<close>.
\<close>

theorem runTaskProcess_spec:
  "case getProject (ce_projects env) (get_or [] (tk_project m)) of
     None \<Rightarrow> runTaskProcess env m c = (False, c)
   | Some prj \<Rightarrow>
       (let src = String_replace (ce_su env) (get_or [] (tk_sourceFile m)) ''$(pdir)'' (m_workPath prj) True;
            saved = fs_save (ce_fs env) (cl_world c) src (get_or [] (tk_inputData m))
        in fst (runTaskProcess env m c) = (fst saved = fs_OK (ce_fs env)) \<and>
           (if fst saved = fs_OK (ce_fs env)
            then \<exists>t. cl_tasks (snd (runTaskProcess env m c)) = cl_tasks c @ [t] \<and>
                   ct_id t = get_or 0 (tk_id m) \<and> ct_sourceFile t = src \<and>
                   ct_outputFile t =
                     String_replace (ce_su env) (get_or [] (tk_outputFile m)) ''$(pdir)'' (m_workPath prj) True
            else cl_tasks (snd (runTaskProcess env m c)) = cl_tasks c \<and>
                 cl_world (snd (runTaskProcess env m c)) = snd saved))"
  by (auto simp: runTaskProcess_def Let_def split: option.splits prod.splits)

subsection \<open>A failed task that must abort\<close>

text \<open>
  C31: When the first stopped task failed and carries \<open>abortOnError\<close>, \<open>doWork\<close> sends its result and
  drops the connection, and leaves all tasks in the list: the files of none of them are removed.
\<close>

theorem abort_disconnects:
  assumes "sends_ok env [t]" "cl_tasks c = pre @ t # post" "\<forall>t' \<in> set pre. running env c t'"
    and "\<not> running env c t" "task_failed env (cl_world c) t" "ct_abortOnError t"
  shows "\<not> cl_connected (client_doWork env (\<lambda>c. c) c) \<and>
    cl_tasks (client_doWork env (\<lambda>c. c) c) = cl_tasks c \<and> cl_world (client_doWork env (\<lambda>c. c) c) = cl_world c \<and>
    (\<exists>b. sentPackets (cl_node (client_doWork env (\<lambda>c. c) c)) = sentPackets (cl_node c) @ [b] \<and> reports env [t] [b])"
proof -
  have "\<not> cl_connected (work_through env kept (pre @ t # post) c) \<and>
      cl_tasks (work_through env kept (pre @ t # post) c) = cl_tasks c \<and>
      cl_world (work_through env kept (pre @ t # post) c) = cl_world c \<and>
      (\<exists>b. sentPackets (cl_node (work_through env kept (pre @ t # post) c)) = sentPackets (cl_node c) @ [b] \<and>
           reports env [t] [b])" for kept
    using assms(3-6)
  proof (induction pre arbitrary: kept c)
    case Nil
    then show ?case
      using sends_ok_result(2)[OF assms(1), of t c c] reports_Cons[of t "result_packet env c t" env "[]" "[]"]
      by (auto simp: Let_def disconnect_def)
  next
    case (Cons x pre)
    from Cons.IH[of "c\<lparr>cl_keepAlive := cl_keepAlive c + 1\<rparr>" "kept @ [x]"] Cons.prems show ?case by simp
  qed
  from this[of "[]"] show ?thesis
    using doWork_loop_work_through[of c "[]" "cl_tasks c" env] assms(2) by (simp add: client_doWork_def)
qed

subsection \<open>Witnesses\<close>

definition sample_object :: AppObject where
  "sample_object = fst (pa_start (AppObject_api plain_su exited_win) 0 ''cc'' '''' '''')"

definition sample_job :: "u32 \<Rightarrow> bool \<Rightarrow> AppObject client_task" where
  "sample_job i ab = \<lparr>ct_process = sample_object, ct_id = i, ct_sourceFile = ''s'', ct_outputFile = ''o'', ct_abortOnError = ab\<rparr>"

definition client_projects :: Projects where
  "client_projects = new_Projects\<lparr>m_items := [''g'' \<mapsto> \<lparr>m_name = ''g'', m_path = ''p'', m_workPath = ''w''\<rparr>]\<rparr>"

definition sample_cenv :: "(u32, AppObject) client_env" where
  "sample_cenv = \<lparr>ce_codec = sample_codec\<lparr>dec_master := (\<lambda>_. \<lparr>mp_task = Some
       \<lparr>tk_id = Some 5, tk_project = Some ''g'', tk_outputFile = Some ''o'', tk_application = Some ''a'',
        tk_commandline = Some ''c'', tk_workingDir = Some ''d'', tk_sourceFile = Some ''s'',
        tk_inputData = Some ''i'', tk_abortOnError = Some False\<rparr>, mp_system = None\<rparr>)\<rparr>,
     ce_fs = null_fs, ce_send = (\<lambda>_ _. 1), ce_proc = AppObject_api plain_su exited_win, ce_su = plain_su,
     ce_projects = client_projects, ce_hw = 4, ce_now = (\<lambda>_. (12, 0))\<rparr>"

definition sample_client :: "AppObject client_task list \<Rightarrow> u32 \<Rightarrow> (u32, AppObject) client" where
  "sample_client ts w = \<lparr>cl_node = (new_TcpProtobufNode ''n'')\<lparr>recvPackets := [[1]]\<rparr>, cl_tasks = ts, cl_world = w,
     cl_connected = True, cl_keepAlive = 0\<rparr>"

lemma sample_object_simp:
  "sample_object = \<lparr>m_processInfo = \<lparr>hProcess = 1, hThread = 2, dwProcessId = 77, dwThreadId = 78\<rparr>,
     m_nativePath = ''cc'', m_commandLine = '''', m_workingDirectory = '''', m_launchMode = NoConsole, m_success = True\<rparr>"
  by (simp add: sample_object_def AppObject_api_def AppObject_execute_def create_process_def new_AppObject_def exited_win_def Let_def)

lemmas sample_client_defs = sample_job_def sample_cenv_def sample_client_def sample_codec_def
  new_TcpProtobufNode_def null_fs_def client_projects_def

lemma sample_sends_ok: "sends_ok sample_cenv ts"
  by (simp add: sends_ok_def packet_fits_def sample_client_defs)

lemma sample_ignores_files: "processes_ignore_files sample_cenv"
  by (simp add: processes_ignore_files_def sample_client_defs)

lemma sample_running [simp]:
  "pa_isRunning (ce_proc sample_cenv) w sample_object \<longleftrightarrow> w = 259"
  "pa_exitCode (ce_proc sample_cenv) w sample_object = (if w = 259 then (StillRunning, None) else (Exited, Some w))"
  by (simp_all add: sample_cenv_def AppObject_api_def isRunning_def getProcessExitCode_def sample_object_simp exited_win_def)

lemma sample_client_simps [simp]:
  "cl_tasks (sample_client ts w) = ts" "cl_world (sample_client ts w) = w" "cl_connected (sample_client ts w)"
  "sentPackets (cl_node (sample_client ts w)) = []" "recvPackets (cl_node (sample_client ts w)) = [[1]]"
  "ct_process (sample_job i ab) = sample_object" "ct_abortOnError (sample_job i ab) = ab" "ct_id (sample_job i ab) = i"
  by (simp_all add: sample_client_defs)

lemma sample_failed [simp]: "task_failed sample_cenv w (sample_job i ab) \<longleftrightarrow> w \<noteq> 0"
  by (simp add: task_failed_def)

theorem doWork_reports_finished_witness:
  "cl_tasks (client_doWork sample_cenv (\<lambda>c. c) (sample_client [sample_job 1 False, sample_job 2 True] 0)) = [] \<and>
   cl_connected (client_doWork sample_cenv (\<lambda>c. c) (sample_client [sample_job 1 False, sample_job 2 True] 0))"
  using doWork_reports_finished[OF sample_sends_ok sample_ignores_files,
      of "sample_client [sample_job 1 False, sample_job 2 True] 0"]
  by simp

theorem announced_cores_one_short_witness:
  "\<exists>p q. sentPackets (cl_node (client_doWork sample_cenv (\<lambda>c. c) (sample_client [sample_job 1 False, sample_job 2 False] 0))) =
       [enc_slave sample_codec p, enc_slave sample_codec q] \<and>
     sp_info p = Some \<lparr>inf_task_count = Some (free_cores sample_cenv 0 - 2)\<rparr> \<and>
     sp_info q = Some \<lparr>inf_task_count = Some (free_cores sample_cenv 0 - 1)\<rparr>"
proof -
  have enc: "enc_slave (ce_codec sample_cenv) = enc_slave sample_codec" by (simp add: sample_cenv_def)
  have keep: "remove_files sample_cenv t w = w" for t w by (simp add: remove_files_def sample_cenv_def null_fs_def)
  let ?c = "sample_client [sample_job 1 False, sample_job 2 False] 0"
  obtain ps where ps: "sentPackets (cl_node (client_doWork sample_cenv (\<lambda>c. c) ?c)) =
      sentPackets (cl_node ?c) @ map (enc_slave (ce_codec sample_cenv)) ps"
    "list_all2 reported_as [sample_job 1 False, sample_job 2 False] ps"
    "\<forall>i < 2. sp_info (ps ! i) = Some \<lparr>inf_task_count =
       Some (free_cores sample_cenv (fold (remove_files sample_cenv)
         (take i [sample_job 1 False, sample_job 2 False]) 0) - of_nat (2 - Suc i) - 1)\<rparr>"
    using announced_cores_one_short[OF sample_sends_ok sample_ignores_files,
        of ?c "[sample_job 1 False, sample_job 2 False]"]
    by auto
  moreover from ps(2) obtain p q where "ps = [p, q]" by (auto simp: list_all2_Cons1)
  ultimately show ?thesis
    using ps(3)[rule_format, of 0] ps(3)[rule_format, of 1] enc
    by (intro exI[of _ p] exI[of _ q]) (simp add: keep)
qed

theorem onRecv_starts_every_task_witness:
  "\<exists>d t. client_onRecv sample_cenv (sample_client [] 0) = (True, d) \<and> cl_tasks d = [t] \<and> ct_id t = 5 \<and>
     pa_start (ce_proc sample_cenv) 0 ''a'' ''c'' ''d'' = (ct_process t, cl_world d)"
proof -
  obtain d where d: "client_onRecv sample_cenv (sample_client [] 0) = (True, d)"
    by (simp add: client_onRecv.simps sample_client_defs Let_def Master_IsInitialized_def Task_IsInitialized_def
        runTaskProcess_def getProject_def close_requested_def set_queue_def AppObject_api_def AppObject_execute_def create_process_def
        exited_win_def)
  from d[unfolded onRecv_starts_every_task] d show ?thesis
    by (auto simp: ordered_def jobs_started_Cons job_started_def sample_client_defs getProject_def plain_su_def)
qed

theorem abort_disconnects_witness:
  "\<not> cl_connected (client_doWork sample_cenv (\<lambda>c. c) (sample_client [sample_job 1 True] 7))"
  using abort_disconnects[of sample_cenv "sample_job 1 True" "sample_client [sample_job 1 True] 7" "[]" "[]"]
  by (simp add: sample_sends_ok)

end
