(* ===== verification/Udp_Daemon.thy ===== *)
theory Udp_Daemon
  imports Client Globals "HOL-Library.Monad_Syntax"
begin

text \<open>
  \<open>protocol/whoishere.h\<close> and \<open>daemon/udp_daemonserver.h\<close>, \<open>.cpp\<close>: a master announces itself
  with a multicast datagram, and an idle daemon answers by connecting to it. The base class
  \<open>su::Net::UdpServer\<close>, the checksum and the connection machinery of \<open>su::Net::TcpClient\<close> are in
  the submodule: the queue of datagrams and the state of the connection are part of the model's
  state, the checksum and the address formatting are parameters.
\<close>

subsection \<open>The announcement\<close>

text \<open>\<open>NetPacket::WhoIsHere\<close>: \<open>project\<close> is the 64 byte array.\<close>

record WhoIsHere =
  magic :: u32
  version :: u16
  masterPort :: u16
  masterIP :: u32
  project :: bytes
  crc32 :: u32

text \<open>
  Its image in memory on the little-endian targets of the program. No member needs padding
  before it, so the offsets are 0, 4, 6, 8, 12 and 76, and \<open>sizeof(WhoIsHere)\<close> is 80.
\<close>

definition WhoIsHere_head :: "WhoIsHere \<Rightarrow> bytes" where
  "WhoIsHere_head p = le_bytes 4 (magic p) @ le_bytes 2 (version p) @ le_bytes 2 (masterPort p) @
     le_bytes 4 (masterIP p) @ project p"

definition WhoIsHere_image :: "WhoIsHere \<Rightarrow> bytes" where
  "WhoIsHere_image p = WhoIsHere_head p @ le_bytes 4 (crc32 p)"

abbreviation sizeof_WhoIsHere :: nat where
  "sizeof_WhoIsHere \<equiv> 80"

text \<open>
  A read of \<open>n\<close> bytes at an offset of a buffer; \<open>None\<close> stands for the undefined behaviour of a read
  that goes beyond its end. A number is read from its little-endian image.
\<close>

definition read_bytes :: "bytes \<Rightarrow> nat \<Rightarrow> nat \<Rightarrow> bytes option" where
  "read_bytes raw off n = (if off + n \<le> length raw then Some (take n (drop off raw)) else None)"

definition read_member :: "bytes \<Rightarrow> nat \<Rightarrow> nat \<Rightarrow> 'a::len word option" where
  "read_member raw off n = map_option (\<lambda>bs. of_nat (le_value bs)) (read_bytes raw off n)"

text \<open>
  The members of a buffer that is cast to \<open>WhoIsHere*\<close>. The cast does not look at the size of the
  buffer. The handler reads \<open>crc32\<close> first, the last member of the structure, so it makes no
  difference that the other members are read here at once.
\<close>

definition WhoIsHere_cast :: "bytes \<Rightarrow> WhoIsHere option" where
  "WhoIsHere_cast raw = do {
     c \<leftarrow> read_member raw 76 4;
     m \<leftarrow> read_member raw 0 4;
     v \<leftarrow> read_member raw 4 2;
     port \<leftarrow> read_member raw 6 2;
     ip \<leftarrow> read_member raw 8 4;
     prj \<leftarrow> read_bytes raw 12 64;
     Some \<lparr>magic = m, version = v, masterPort = port, masterIP = ip, project = prj, crc32 = c\<rparr>
   }"

text \<open>It has a value exactly for the buffers that hold a whole structure.\<close>

lemma WhoIsHere_cast_eq:
  "WhoIsHere_cast raw =
     (if length raw < sizeof_WhoIsHere then None
      else Some \<lparr>magic = of_nat (le_value (take 4 raw)), version = of_nat (le_value (take 2 (drop 4 raw))),
                 masterPort = of_nat (le_value (take 2 (drop 6 raw))), masterIP = of_nat (le_value (take 4 (drop 8 raw))),
                 project = take 64 (drop 12 raw), crc32 = of_nat (le_value (take 4 (drop 76 raw)))\<rparr>)"
  by (simp add: WhoIsHere_cast_def read_member_def read_bytes_def)

text \<open>
  A pointer into a buffer read as a C string: up to the first zero byte, which may lie behind the
  array the pointer names; undefined when the buffer ends first.
\<close>

definition c_string :: "bytes \<Rightarrow> string option" where
  "c_string bs = (if 0 \<in> set bs then Some (map char_of_byte (takeWhile (\<lambda>b. b \<noteq> 0) bs)) else None)"

subsection \<open>State\<close>

datatype Status = Idle | Connectig | Working

datatype link_status = Link_Connecting | Link_Connected | Link_Closed

text \<open>
  \<open>m_client\<close>: the connection state that \<open>isConnecting()\<close> and \<open>isConnected()\<close> report, and the
  address given to \<open>connect\<close>.
\<close>

record tcp_link =
  lk_status :: link_status
  lk_ip :: string
  lk_port :: u16

record datagram =
  dg_addr :: u32
  dg_raw :: bytes

record udp_daemon =
  m_status :: Status
  m_client :: "tcp_link option"
  ud_packets :: "datagram list"

record udp_env =
  ue_crc :: "bytes \<Rightarrow> u32"
  ue_ipToString :: "u32 \<Rightarrow> string"
  ue_projects :: Projects
  ue_hw :: i32

definition new_UdpDaemonServer :: udp_daemon where
  "new_UdpDaemonServer = \<lparr>m_status = Idle, m_client = None, ud_packets = []\<rparr>"

subsection \<open>doWork\<close>

text \<open>
  \<open>base\<close> is the effect of \<open>su::Net::UdpServer::doWork()\<close>. \<open>close()\<close> and the deletion of the
  client leave nothing of it.
\<close>

definition udp_doWork :: "(udp_daemon \<Rightarrow> udp_daemon) \<Rightarrow> udp_daemon \<Rightarrow> udp_daemon" where
  "udp_doWork base s0 =
     (let s = base s0 in
      if m_status s = Idle then s
      else
        case m_client s of
          None \<Rightarrow> s\<lparr>m_status := Idle\<rparr>
        | Some c \<Rightarrow>
            if lk_status c = Link_Connecting then s
            else if lk_status c = Link_Connected then
              (if m_status s = Connectig then s\<lparr>m_status := Working\<rparr> else s)
            else s\<lparr>m_client := None, m_status := Idle\<rparr>)"

subsection \<open>onRecvFromNode\<close>

text \<open>\<open>connect_to\<close>: \<open>make_unique\<close>, \<open>run(0)\<close> and \<open>connect(hostIp, hostPort)\<close>.\<close>

definition connect_to :: "udp_env \<Rightarrow> WhoIsHere \<Rightarrow> tcp_link" where
  "connect_to env p = \<lparr>lk_status = Link_Connecting, lk_ip = ue_ipToString env (masterIP p), lk_port = masterPort p\<rparr>"

function udp_onRecv :: "udp_env \<Rightarrow> nat \<times> nat \<Rightarrow> udp_daemon \<Rightarrow> udp_daemon option" where
  "udp_onRecv env now s =
     (case ud_packets s of
        [] \<Rightarrow> Some s
      | data # rest \<Rightarrow>
          if m_status s \<noteq> Idle then Some (s\<lparr>ud_packets := []\<rparr>)
          else
            let s = s\<lparr>ud_packets := rest\<rparr> in
            case WhoIsHere_cast (dg_raw data) of
              None \<Rightarrow> None
            | Some packet \<Rightarrow>
                case read_bytes (dg_raw data) 0 (sizeof_WhoIsHere - 4) of
                  None \<Rightarrow> None
                | Some covered \<Rightarrow>
                    if crc32 packet \<noteq> ue_crc env covered then udp_onRecv env now s
                    else
                      case c_string (drop 12 (dg_raw data)) of
                        None \<Rightarrow> None
                      | Some prjname \<Rightarrow>
                          if getProject (ue_projects env) prjname = None then udp_onRecv env now s
                          else if dg_addr data \<noteq> masterIP packet then udp_onRecv env now s
                          else if getFreeCore (ue_hw env) now (ue_projects env) = 0 then udp_onRecv env now s
                          else udp_onRecv env now
                                 (s\<lparr>m_client := Some (connect_to env packet), m_status := Connectig, ud_packets := []\<rparr>))"
  by pat_completeness auto
termination
  by (relation "measure (\<lambda>(env, now, s). length (ud_packets s))") auto

declare udp_onRecv.simps [simp del]

subsection \<open>Which announcement is taken\<close>

text \<open>
  The specification: an announcement is taken when its checksum is right, it names a project of
  this daemon, it comes from the address it names, and there is a core to offer. Magic number and
  version play no role.
\<close>

definition readable :: "datagram \<Rightarrow> bool" where
  "readable d \<longleftrightarrow> sizeof_WhoIsHere \<le> length (dg_raw d) \<and> 0 \<in> set (drop 12 (dg_raw d))"

definition announcement :: "datagram \<Rightarrow> WhoIsHere" where
  "announcement d = the (WhoIsHere_cast (dg_raw d))"

definition acceptable :: "udp_env \<Rightarrow> nat \<times> nat \<Rightarrow> datagram \<Rightarrow> bool" where
  "acceptable env now d \<longleftrightarrow> readable d \<and>
     crc32 (announcement d) = ue_crc env (take 76 (dg_raw d)) \<and>
     getProject (ue_projects env) (the (c_string (drop 12 (dg_raw d)))) \<noteq> None \<and>
     dg_addr d = masterIP (announcement d) \<and>
     getFreeCore (ue_hw env) now (ue_projects env) \<noteq> 0"

definition taken :: "udp_env \<Rightarrow> datagram \<Rightarrow> udp_daemon \<Rightarrow> udp_daemon" where
  "taken env d s = s\<lparr>m_client := Some (connect_to env (announcement d)), m_status := Connectig, ud_packets := []\<rparr>"

lemma covered_bytes: "WhoIsHere_cast raw = Some p \<Longrightarrow> read_bytes raw 0 76 = Some (take 76 raw)"
  by (simp add: WhoIsHere_cast_eq read_bytes_def split: if_splits)

lemma readableD:
  "readable d \<Longrightarrow> WhoIsHere_cast (dg_raw d) = Some (announcement d)"
  "readable d \<Longrightarrow> \<exists>n. c_string (drop 12 (dg_raw d)) = Some n"
  by (auto simp: readable_def announcement_def WhoIsHere_cast_eq c_string_def)

lemma not_readableD:
  "WhoIsHere_cast (dg_raw d) = Some p \<Longrightarrow> c_string (drop 12 (dg_raw d)) = Some n \<Longrightarrow> readable d \<and> p = announcement d"
  by (auto simp: readable_def announcement_def WhoIsHere_cast_eq c_string_def split: if_splits)

lemma udp_onRecv_Nil: "ud_packets s = [] \<Longrightarrow> udp_onRecv env now s = Some s"
  by (subst udp_onRecv.simps) simp

lemma udp_onRecv_busy: "m_status s \<noteq> Idle \<Longrightarrow> udp_onRecv env now s = Some (s\<lparr>ud_packets := []\<rparr>)"
  by (subst udp_onRecv.simps) (simp split: list.splits)

lemma udp_onRecv_readable:
  assumes "m_status s = Idle" "ud_packets s = d # rest" "readable d"
  shows "udp_onRecv env now s =
    (if acceptable env now d then Some (taken env d s) else udp_onRecv env now (s\<lparr>ud_packets := rest\<rparr>))"
  using assms readableD[OF assms(3)]
  by (subst udp_onRecv.simps)
    (auto simp: Let_def acceptable_def taken_def covered_bytes udp_onRecv_busy split: option.splits)

lemma udp_onRecv_unreadable:
  assumes "m_status s = Idle" "ud_packets s = d # rest" "\<not> readable d" "udp_onRecv env now s = Some s'"
  shows "udp_onRecv env now (s\<lparr>ud_packets := rest\<rparr>) = Some s'"
proof (cases "WhoIsHere_cast (dg_raw d)")
  case None
  then show ?thesis using assms by (simp add: udp_onRecv.simps[of env now s] Let_def)
next
  case (Some p)
  then have "c_string (drop 12 (dg_raw d)) = None" using assms(3) not_readableD by (metis option.exhaust)
  then show ?thesis using assms(1,2,4) Some covered_bytes[OF Some]
    by (simp add: udp_onRecv.simps[of env now s] Let_def split: if_splits)
qed

lemma udp_onRecv_Some:
  assumes "udp_onRecv env now s = Some s'" "m_status s = Idle"
  shows "s' = s\<lparr>ud_packets := []\<rparr> \<or> (\<exists>d \<in> set (ud_packets s). acceptable env now d \<and> s' = taken env d s)"
  using assms
proof (induction "ud_packets s" arbitrary: s)
  case Nil
  then show ?case using udp_onRecv_Nil[of s env now] by simp
next
  case (Cons d rest)
  let ?t = "s\<lparr>ud_packets := rest\<rparr>"
  have step: "udp_onRecv env now ?t = Some s' \<Longrightarrow> ?case"
    using Cons.hyps(1)[of ?t] Cons.hyps(2)[symmetric] Cons.prems(2) by (auto simp: taken_def)
  show ?case
  proof (cases "acceptable env now d")
    case True
    then have "s' = taken env d s"
      using Cons.prems udp_onRecv_readable[OF Cons.prems(2) Cons.hyps(2)[symmetric], of env now]
      by (simp add: acceptable_def)
    moreover have "d \<in> set (ud_packets s)" by (simp flip: Cons.hyps(2))
    ultimately show ?thesis using True by blast
  next
    case False
    then have "udp_onRecv env now ?t = Some s'"
      using Cons.prems udp_onRecv_readable[OF Cons.prems(2) Cons.hyps(2)[symmetric], of env now]
        udp_onRecv_unreadable[OF Cons.prems(2) Cons.hyps(2)[symmetric], of env now s']
      by (cases "readable d") simp_all
    then show ?thesis by (rule step)
  qed
qed

text \<open>
  C20: An idle daemon takes the first acceptable announcement of its queue and connects to the
  address in it; the rest of the queue is dropped. Without an acceptable announcement it stays
  idle with an empty queue. The handler always returns on readable datagrams.
\<close>

theorem idle_daemon_takes_first:
  assumes "m_status s = Idle" "\<forall>d \<in> set (ud_packets s). readable d"
  shows "udp_onRecv env now s = Some (case find (acceptable env now) (ud_packets s) of
           None \<Rightarrow> s\<lparr>ud_packets := []\<rparr> | Some d \<Rightarrow> taken env d s)"
  using assms
proof (induction "ud_packets s" arbitrary: s)
  case Nil
  then show ?case using udp_onRecv_Nil[of s env now] by simp
next
  case (Cons d rest)
  have "udp_onRecv env now s =
      (if acceptable env now d then Some (taken env d s) else udp_onRecv env now (s\<lparr>ud_packets := rest\<rparr>))"
    using Cons by (intro udp_onRecv_readable) (simp_all flip: Cons.hyps(2))
  moreover have "taken env e (s\<lparr>ud_packets := rest\<rparr>) = taken env e s" for e by (simp add: taken_def)
  ultimately show ?case
    using Cons.hyps(1)[of "s\<lparr>ud_packets := rest\<rparr>"] Cons.prems
    by (simp flip: Cons.hyps(2) split: option.splits)
qed

text \<open>
  What the handler does with one datagram that it cannot read: a datagram shorter than the
  structure is read beyond its end. One that is long enough but has no zero byte from the project
  name on is harmless as long as its checksum is wrong.
\<close>

lemma udp_onRecv_None_step:
  assumes "m_status s = Idle" "ud_packets s = d # rest"
  shows "udp_onRecv env now s = None \<longleftrightarrow>
    length (dg_raw d) < sizeof_WhoIsHere \<or>
    crc32 (announcement d) = ue_crc env (take 76 (dg_raw d)) \<and> 0 \<notin> set (drop 12 (dg_raw d)) \<or>
    \<not> acceptable env now d \<and> udp_onRecv env now (s\<lparr>ud_packets := rest\<rparr>) = None"
proof (cases "readable d")
  case True
  then show ?thesis
    using udp_onRecv_readable[OF assms True, of env now] by (auto simp: readable_def)
next
  case False
  then have "\<not> acceptable env now d" by (simp add: acceptable_def)
  then show ?thesis
    using assms False covered_bytes[of "dg_raw d" "announcement d"]
    by (subst udp_onRecv.simps)
      (auto simp: Let_def readable_def announcement_def WhoIsHere_cast_eq c_string_def)
qed

text \<open>
  C38: Which datagrams make an idle daemon read beyond a buffer: those shorter than the structure,
  which is cast without a check of the size, and those with a right checksum whose project name is
  not terminated within the datagram. The handler is undefined exactly when such a datagram
  stands in the queue before every acceptable announcement; in all other cases it returns.
\<close>

theorem onRecv_undefined_iff:
  assumes "m_status s = Idle"
  shows "udp_onRecv env now s = None \<longleftrightarrow>
    (\<exists>pre d post. ud_packets s = pre @ d # post \<and> (\<forall>e \<in> set pre. \<not> acceptable env now e) \<and>
       (length (dg_raw d) < sizeof_WhoIsHere \<or>
        crc32 (announcement d) = ue_crc env (take 76 (dg_raw d)) \<and> 0 \<notin> set (drop 12 (dg_raw d))))"
  using assms
proof (induction "ud_packets s" arbitrary: s)
  case Nil
  then show ?case using udp_onRecv_Nil[of s env now] by simp
next
  case (Cons d rest)
  note step = udp_onRecv_None_step[OF Cons.prems Cons.hyps(2)[symmetric], of env now]
  have IH: "udp_onRecv env now (s\<lparr>ud_packets := rest\<rparr>) = None \<longleftrightarrow>
      (\<exists>pre d post. rest = pre @ d # post \<and> (\<forall>e \<in> set pre. \<not> acceptable env now e) \<and>
         (length (dg_raw d) < sizeof_WhoIsHere \<or>
          crc32 (announcement d) = ue_crc env (take 76 (dg_raw d)) \<and> 0 \<notin> set (drop 12 (dg_raw d))))"
    using Cons.hyps(1)[of "s\<lparr>ud_packets := rest\<rparr>"] Cons.prems by simp
  show ?case
    unfolding step IH Cons.hyps(2)[symmetric] Cons_eq_append_conv by (auto 0 4)
qed

subsection \<open>Announcements that a master builds\<close>

lemma length_head: "length (project p) = 64 \<Longrightarrow> length (WhoIsHere_head p) = 76"
  by (simp add: WhoIsHere_head_def)

lemma WhoIsHere_cast_image:
  assumes "length (project p) = 64"
  shows "WhoIsHere_cast (WhoIsHere_image p) = Some p"
  using assms
  by (simp add: WhoIsHere_cast_eq WhoIsHere_image_def WhoIsHere_head_def drop_append
      word_of_le_bytes del: take_append) (simp add: take_append word_of_le_bytes)

lemma c_string_terminated:
  "CHR 0x00 \<notin> set n \<Longrightarrow> c_string (map byte_of_char n @ 0 # rest) = Some n"
proof -
  assume n: "CHR 0x00 \<notin> set n"
  then have "takeWhile (\<lambda>b. b \<noteq> 0) (map byte_of_char n @ 0 # rest) = map byte_of_char n"
    by (subst takeWhile_append2) auto
  then show ?thesis by (simp add: c_string_def)
qed

text \<open>
  The interface between master and daemon: an announcement that carries a terminated project name
  and its own checksum is read back by the daemon as it was built.
\<close>

lemma built_announcement:
  fixes p a defines "d \<equiv> \<lparr>dg_addr = a, dg_raw = WhoIsHere_image p\<rparr>"
  assumes p: "project p = map byte_of_char n @ 0 # rest" "length (project p) = 64" "CHR 0x00 \<notin> set n"
  shows "readable d" "announcement d = p" "c_string (drop 12 (dg_raw d)) = Some n" "take 76 (dg_raw d) = WhoIsHere_head p"
proof -
  have drop: "drop 12 (dg_raw d) = map byte_of_char n @ 0 # rest @ le_bytes 4 (crc32 p)"
    using p(1) by (simp add: d_def WhoIsHere_image_def WhoIsHere_head_def)
  show "c_string (drop 12 (dg_raw d)) = Some n" using c_string_terminated p(3) drop by simp
  show "take 76 (dg_raw d) = WhoIsHere_head p" using length_head[OF p(2)] by (simp add: d_def WhoIsHere_image_def)
  show "announcement d = p" using WhoIsHere_cast_image[OF p(2)] by (simp add: announcement_def d_def)
  show "readable d" using length_head[OF p(2)] drop by (simp add: readable_def) (simp add: d_def WhoIsHere_image_def)
qed

subsection \<open>The daemon as a state machine\<close>

text \<open>
  Datagrams arrive, the handlers run, and the connection is established or lost by the network
  thread.
\<close>

inductive udp_step :: "udp_env \<Rightarrow> udp_daemon \<Rightarrow> udp_daemon \<Rightarrow> bool" for env where
  arrive: "udp_step env s (s\<lparr>ud_packets := ud_packets s @ [d]\<rparr>)"
| recv: "udp_onRecv env now s = Some s' \<Longrightarrow> udp_step env s s'"
| work: "udp_step env s (udp_doWork (\<lambda>s. s) s)"
| connected: "m_client s = Some c \<Longrightarrow> lk_status c = Link_Connecting \<Longrightarrow>
    udp_step env s (s\<lparr>m_client := Some (c\<lparr>lk_status := Link_Connected\<rparr>)\<rparr>)"
| closed: "m_client s = Some c \<Longrightarrow> udp_step env s (s\<lparr>m_client := Some (c\<lparr>lk_status := Link_Closed\<rparr>)\<rparr>)"

inductive_cases udp_stepE: "udp_step env s s'"

definition daemon_inv :: "udp_daemon \<Rightarrow> bool" where
  "daemon_inv s \<longleftrightarrow> (m_status s = Idle \<longleftrightarrow> m_client s = None) \<and>
     (\<forall>c. m_status s = Working \<longrightarrow> m_client s = Some c \<longrightarrow> lk_status c \<noteq> Link_Connecting)"

lemma daemon_inv_doWork [fdb_inv]: "daemon_inv s \<Longrightarrow> daemon_inv (udp_doWork (\<lambda>s. s) s)"
  by (auto simp: daemon_inv_def udp_doWork_def Let_def split: option.splits)

lemma daemon_inv_onRecv [fdb_inv]:
  assumes "daemon_inv s" "udp_onRecv env now s = Some s'"
  shows "daemon_inv s'"
  using assms udp_onRecv_Some[OF assms(2)] udp_onRecv_busy[of s env now]
  by (cases "m_status s = Idle") (auto simp: daemon_inv_def taken_def)

lemma daemon_inv_step: "udp_step env s s' \<Longrightarrow> daemon_inv s \<Longrightarrow> daemon_inv s'"
  by (erule udp_stepE) (auto intro: fdb_inv, auto simp: daemon_inv_def)

lemma daemon_inv_steps: "(udp_step env)\<^sup>*\<^sup>* s s' \<Longrightarrow> daemon_inv s \<Longrightarrow> daemon_inv s'"
  by (induction rule: rtranclp_induct) (auto intro: daemon_inv_step)

lemma daemon_inv_new [simp]: "daemon_inv new_UdpDaemonServer"
  by (simp add: daemon_inv_def new_UdpDaemonServer_def)

abbreviation reachable_daemon :: "udp_env \<Rightarrow> udp_daemon \<Rightarrow> bool" where
  "reachable_daemon env s \<equiv> (udp_step env)\<^sup>*\<^sup>* new_UdpDaemonServer s"

text \<open>
  In every reachable state the daemon is idle exactly when it has no connection object, and a
  daemon that works has a connection that is past connecting.
\<close>

theorem daemon_invariant: "reachable_daemon env s \<Longrightarrow> daemon_inv s"
  using daemon_inv_steps by simp

text \<open>
  C28: One master at a time: as long as a connection is not closed, no step replaces it or
  changes its address, whatever datagrams arrive.
\<close>

theorem one_master_at_a_time:
  assumes "reachable_daemon env s" "m_client s = Some c" "lk_status c \<noteq> Link_Closed" "udp_step env s s'"
  shows "\<exists>c'. m_client s' = Some c' \<and> lk_ip c' = lk_ip c \<and> lk_port c' = lk_port c"
proof -
  have inv: "daemon_inv s" using assms(1) daemon_inv_steps by simp
  then have busy: "m_status s \<noteq> Idle" using assms(2) by (auto simp: daemon_inv_def)
  show ?thesis
    using assms(4) busy assms(2,3)
    by (cases rule: udp_step.cases)
      (auto simp: udp_onRecv_busy udp_doWork_def Let_def intro: link_status.exhaust[of "lk_status c"])
qed

text \<open>
  A daemon opens a connection only to a master whose announcement is in its queue and is
  acceptable: it knows the project, the sender is the master itself, and a core is free.
\<close>

theorem connects_only_if_acceptable:
  assumes "reachable_daemon env s" "m_client s = None" "udp_step env s s'" "m_client s' = Some c"
  shows "\<exists>d \<in> set (ud_packets s). \<exists>now. acceptable env now d \<and> c = connect_to env (announcement d)"
proof -
  have "daemon_inv s" using assms(1) daemon_inv_steps by simp
  then have idle: "m_status s = Idle" using assms(2) by (auto simp: daemon_inv_def)
  show ?thesis
    using assms(3)
  proof (cases rule: udp_step.cases)
    case (recv now)
    then show ?thesis using udp_onRecv_Some[OF recv idle] assms(2,4) unfolding taken_def by (auto simp del: split_paired_Ex)
  qed (use assms idle in \<open>auto simp: udp_doWork_def Let_def\<close>)
qed

text \<open>
  C29: After the connection is lost, the next \<open>doWork\<close> makes a reachable daemon idle again, ready
  to take the next announcement.
\<close>

theorem closed_connection_returns_to_idle:
  assumes "reachable_daemon env s" "m_client s = Some c" "lk_status c = Link_Closed"
  shows "m_status (udp_doWork (\<lambda>s. s) s) = Idle \<and> m_client (udp_doWork (\<lambda>s. s) s) = None"
proof -
  have "daemon_inv s" using assms(1) daemon_inv_steps by simp
  then show ?thesis using assms(2,3) by (auto simp: daemon_inv_def udp_doWork_def Let_def)
qed

subsection \<open>Witnesses\<close>

text \<open>A checksum that adds the bytes, a daemon with eight threads and one project.\<close>

definition sample_uenv :: udp_env where
  "sample_uenv = \<lparr>ue_crc = (\<lambda>bs. sum_list (map ucast bs)), ue_ipToString = (\<lambda>_. ''10.0.0.1''),
     ue_projects = client_projects\<lparr>m_workBath := Fin 100\<rparr>, ue_hw = 8\<rparr>"

definition sample_announcement :: WhoIsHere where
  "sample_announcement = (let p = \<lparr>magic = udpMagicNumber, version = 0x0100, masterPort = 1290, masterIP = 7,
      project = map byte_of_char ''g'' @ 0 # replicate 62 0, crc32 = 0\<rparr>
    in p\<lparr>crc32 := ue_crc sample_uenv (WhoIsHere_head p)\<rparr>)"

definition sample_datagram :: datagram where
  "sample_datagram = \<lparr>dg_addr = 7, dg_raw = WhoIsHere_image sample_announcement\<rparr>"

lemma sample_built: 
  "readable sample_datagram" "announcement sample_datagram = sample_announcement"
  "c_string (drop 12 (dg_raw sample_datagram)) = Some ''g''"
  "take 76 (dg_raw sample_datagram) = WhoIsHere_head sample_announcement"
  using built_announcement[where p = sample_announcement and a = 7 and rest = "replicate 62 0" and n = "''g''"]
  by (simp_all add: sample_datagram_def) (simp_all add: sample_announcement_def Let_def)

lemma sample_free: "getFreeCore (ue_hw sample_uenv) (12, 0) (ue_projects sample_uenv) \<noteq> 0"
proof -
  have "uint (getFreeCore 8 (12, 0) (client_projects\<lparr>m_workBath := Fin 100\<rparr>)) = 5"
    using free_core_exact[of 8 "(12, 0)" "client_projects\<lparr>m_workBath := Fin 100\<rparr>" 100]
    by (simp add: usable_threads_def getWorkPercent_def client_projects_def new_Projects_def)
  then show ?thesis by (auto simp: sample_uenv_def)
qed

lemma sample_acceptable: "acceptable sample_uenv (12, 0) sample_datagram"
  using sample_built sample_free
  by (simp add: acceptable_def)
    (simp add: sample_announcement_def sample_datagram_def Let_def WhoIsHere_head_def getProject_def sample_uenv_def
      client_projects_def)

definition sample_waiting :: udp_daemon where
  "sample_waiting = new_UdpDaemonServer\<lparr>ud_packets := [sample_datagram]\<rparr>"

lemma sample_waiting_reachable: "reachable_daemon sample_uenv sample_waiting"
  using udp_step.arrive[of sample_uenv new_UdpDaemonServer sample_datagram]
  by (simp add: sample_waiting_def new_UdpDaemonServer_def r_into_rtranclp)

lemma sample_recv: "udp_step sample_uenv sample_waiting (taken sample_uenv sample_datagram sample_waiting)"
  by (rule udp_step.recv[of _ "(12, 0)"], subst udp_onRecv_readable[of _ sample_datagram "[]"])
    (simp_all add: sample_waiting_def new_UdpDaemonServer_def sample_acceptable sample_built)

lemma sample_taken_reachable: "reachable_daemon sample_uenv (taken sample_uenv sample_datagram sample_waiting)"
  using sample_waiting_reachable sample_recv by (rule rtranclp.rtrancl_into_rtrancl)

lemma sample_taken_client:
  "m_client (taken sample_uenv sample_datagram sample_waiting) = Some (connect_to sample_uenv sample_announcement)"
  by (simp add: taken_def sample_built)

theorem idle_daemon_takes_first_witness:
  "udp_onRecv sample_uenv (12, 0) sample_waiting = Some (taken sample_uenv sample_datagram sample_waiting)"
  using idle_daemon_takes_first[of sample_waiting sample_uenv "(12, 0)"] sample_acceptable sample_built(1)
  by (simp add: sample_waiting_def new_UdpDaemonServer_def)

theorem onRecv_undefined_iff_witness:
  "udp_onRecv sample_uenv (12, 0) (new_UdpDaemonServer\<lparr>ud_packets := [\<lparr>dg_addr = 0, dg_raw = [1]\<rparr>]\<rparr>) = None \<and>
   udp_onRecv sample_uenv (12, 0) sample_waiting \<noteq> None"
proof -
  have idle: "m_status (new_UdpDaemonServer\<lparr>ud_packets := ds\<rparr>) = Idle" for ds by (simp add: new_UdpDaemonServer_def)
  have "m_status sample_waiting = Idle" "ud_packets sample_waiting = [sample_datagram]"
    by (simp_all add: sample_waiting_def new_UdpDaemonServer_def)
  then show ?thesis
    using onRecv_undefined_iff[OF idle, of sample_uenv "(12, 0)" "[\<lparr>dg_addr = 0, dg_raw = [1]\<rparr>]"]
      onRecv_undefined_iff[of sample_waiting sample_uenv "(12, 0)"] sample_built(1)
    by (auto simp: readable_def Cons_eq_append_conv)
qed

theorem daemon_invariant_witness: "daemon_inv (taken sample_uenv sample_datagram sample_waiting)"
  by (rule daemon_invariant[OF sample_taken_reachable])

theorem one_master_at_a_time_witness:
  "\<exists>c'. m_client (udp_doWork (\<lambda>s. s) (taken sample_uenv sample_datagram sample_waiting)) = Some c' \<and>
     lk_ip c' = ''10.0.0.1'' \<and> lk_port c' = 1290"
  using one_master_at_a_time[OF sample_taken_reachable sample_taken_client _ udp_step.work]
  by (simp add: connect_to_def sample_uenv_def sample_announcement_def Let_def)

theorem connects_only_if_acceptable_witness:
  "\<exists>d \<in> set (ud_packets sample_waiting). \<exists>now. acceptable sample_uenv now d \<and>
     connect_to sample_uenv sample_announcement = connect_to sample_uenv (announcement d)"
  by (rule connects_only_if_acceptable[OF sample_waiting_reachable _ sample_recv sample_taken_client])
    (simp add: sample_waiting_def new_UdpDaemonServer_def)

theorem closed_connection_returns_to_idle_witness:
  "m_status (udp_doWork (\<lambda>s. s) ((taken sample_uenv sample_datagram sample_waiting)
     \<lparr>m_client := Some ((connect_to sample_uenv sample_announcement)\<lparr>lk_status := Link_Closed\<rparr>)\<rparr>)) = Idle"
  using closed_connection_returns_to_idle[OF rtranclp.rtrancl_into_rtrancl[OF sample_taken_reachable
        udp_step.closed[OF sample_taken_client]]]
  by simp

end
