(* ===== verification/Console_Main.thy ===== *)
theory Console_Main
  imports "HOL-Library.AList" Server Udp_Daemon
begin

text \<open>
  \<open>console/console.cpp\<close>, \<open>sendBroadcast\<close> and \<open>main\<close>: the master announces itself, lets the
  server hand out the tasks and counts their results until all tasks have one or no daemon
  answers any more.
\<close>

subsection \<open>sendBroadcast\<close>

text \<open>
  \<open>strncpy_s(dest, destsz, src, count)\<close> of the C runtime: the first \<open>count\<close> characters of \<open>src\<close>,
  at most up to its terminating zero, and a zero. When that does not fit, the invalid parameter
  handler ends the program: \<open>None\<close>. The rest of \<open>dest\<close> keeps its contents.
\<close>

definition strncpy_s :: "bytes \<Rightarrow> string \<Rightarrow> nat \<Rightarrow> bytes option" where
  "strncpy_s dest src count =
     (let s = map byte_of_char (take count (takeWhile (\<lambda>c. c \<noteq> CHR 0x00) src))
      in if length s < length dest then Some (s @ 0 # drop (Suc (length s)) dest) else None)"

record bc_env =
  bc_crc :: "bytes \<Rightarrow> u32"
  bc_localIps :: "u32 list"
  bc_updSend :: "bytes list \<Rightarrow> bytes \<Rightarrow> i32"

definition build_packet :: "bc_env \<Rightarrow> string \<Rightarrow> u32 \<Rightarrow> WhoIsHere option" where
  "build_packet env prjName addr =
     (case strncpy_s (replicate 64 0) prjName (Suc (length prjName)) of
        None \<Rightarrow> None
      | Some name \<Rightarrow>
          let packet = \<lparr>magic = udpMagicNumber, version = 0x0100, masterPort = tcpDefaultPort, masterIP = addr,
                        project = name, crc32 = 0\<rparr>
          in Some (packet\<lparr>crc32 := bc_crc env (WhoIsHere_head packet)\<rparr>))"

text \<open>
  The loop over the local addresses. The result is the number of failed sends and the datagrams
  given to \<open>updSend\<close> so far; what \<open>updSend\<close> returns may depend on them.
\<close>

fun broadcast_loop :: "bc_env \<Rightarrow> string \<Rightarrow> u32 list \<Rightarrow> size_t \<times> bytes list \<Rightarrow> (size_t \<times> bytes list) option" where
  "broadcast_loop env prjName [] st = Some st"
| "broadcast_loop env prjName (addr # as) (fault, sent) =
     (case build_packet env prjName addr of
        None \<Rightarrow> None
      | Some packet \<Rightarrow>
          let raw = WhoIsHere_image packet;
              bytesSent = bc_updSend env sent raw;
              fault = (if (scast bytesSent :: size_t) \<noteq> of_nat sizeof_WhoIsHere then fault + 1 else fault)
          in broadcast_loop env prjName as (fault, sent @ [raw]))"

definition sendBroadcast :: "bc_env \<Rightarrow> string \<Rightarrow> (bool \<times> bytes list) option" where
  "sendBroadcast env prjName =
     (case broadcast_loop env prjName (bc_localIps env) (0, []) of
        None \<Rightarrow> None
      | Some (fault, sent) \<Rightarrow> Some (fault = 0, sent))"

subsection \<open>Counting results\<close>

record ItemSlaveInfo =
  is_success :: size_t
  is_errors :: size_t

type_synonym slave_infos = "(string \<times> ItemSlaveInfo) list"

text \<open>\<open>info[ip]\<close> of the \<open>unordered_map\<close>: a missing entry is created with zeros.\<close>

definition info_at :: "slave_infos \<Rightarrow> string \<Rightarrow> ItemSlaveInfo" where
  "info_at info ip = (case map_of info ip of None \<Rightarrow> \<lparr>is_success = 0, is_errors = 0\<rparr> | Some v \<Rightarrow> v)"

definition add_error :: "string \<Rightarrow> slave_infos \<Rightarrow> slave_infos" where
  "add_error ip info = AList.update ip ((info_at info ip)\<lparr>is_errors := is_errors (info_at info ip) + 1\<rparr>) info"

definition add_success :: "string \<Rightarrow> slave_infos \<Rightarrow> slave_infos" where
  "add_success ip info = AList.update ip ((info_at info ip)\<lparr>is_success := is_success (info_at info ip) + 1\<rparr>) info"

text \<open>The body of the loop over the tasks; the boolean says whether the task has a result.\<close>

definition count_task :: "TaskInfo \<Rightarrow> slave_infos \<Rightarrow> bool \<times> TaskInfo \<times> slave_infos" where
  "count_task task info =
     (if m_result task = NoInit then (False, task, info)
      else if m_doneIp task = [] then (True, task, info)
      else
        let info = (if m_result task = NotStarted then add_error (m_doneIp task) info else info);
            info = (if m_result task = Exited
                    then (if m_exitCode task \<noteq> 0 then add_error (m_doneIp task) info
                          else add_success (m_doneIp task) info)
                    else info)
        in (True, task\<lparr>m_doneIp := []\<rparr>, info))"

definition totals :: "slave_infos \<Rightarrow> size_t \<times> size_t" where
  "totals info = (sum_list (map (is_errors \<circ> snd) info), sum_list (map (is_success \<circ> snd) info))"

subsection \<open>main: the loop\<close>

text \<open>
  The main thread runs beside the server thread. It locks one task at a time, so a pass over the
  tasks interleaves with the handlers of the server. Where the main thread is: at the head of the
  loop, in the pass (the next index, and \<open>isFinished\<close> so far), behind the loop, or back from
  \<open>main\<close> with an exit code. \<open>con_expired\<close> is what \<open>workTimer.isFinished()\<close> says: a timer of the
  submodule that, once it has run out, stays so until it is restarted.
\<close>

datatype pc = Head | Pass nat bool | Closing | Returned i32

record 'w console =
  con_server :: "'w server"
  con_info :: slave_infos
  con_counts :: "size_t \<times> size_t"
  con_expired :: bool
  con_pc :: pc

definition loop_head :: "'w console \<Rightarrow> 'w console" where
  "loop_head c =
     (let c = (if m_clients (con_server c) \<noteq> [] then c\<lparr>con_expired := False\<rparr> else c)
      in if con_expired c then c\<lparr>con_pc := Closing\<rparr> else c\<lparr>con_pc := Pass 0 True\<rparr>)"

definition loop_visit :: "nat \<Rightarrow> bool \<Rightarrow> 'w console \<Rightarrow> 'w console" where
  "loop_visit k fin c =
     (case count_task (m_tasks (con_server c) ! k) (con_info c) of
        (has_result, t, info) \<Rightarrow>
          c\<lparr>con_server := (con_server c)\<lparr>m_tasks := (m_tasks (con_server c))[k := t]\<rparr>, con_info := info,
            con_pc := Pass (Suc k) (fin \<and> has_result)\<rparr>)"

definition loop_end :: "bool \<Rightarrow> 'w console \<Rightarrow> 'w console" where
  "loop_end fin c = c\<lparr>con_counts := totals (con_info c), con_pc := (if fin then Closing else Head)\<rparr>"

definition main_return :: "'w server_env \<Rightarrow> 'w console \<Rightarrow> 'w console" where
  "main_return env c = c\<lparr>con_server := closeAllClients env (con_server c),
     con_pc := Returned (if con_expired c then 1 else 0)\<rparr>"

definition clients_named :: "'w server \<Rightarrow> bool" where
  "clients_named s \<longleftrightarrow> (\<forall>n \<in> set (m_clients s). fullId (nodes s n) \<noteq> [])"

text \<open>Connected nodes have a name, \<open>fullId()\<close>: this is what the network step assumes.\<close>

inductive console_step :: "'w server_env \<Rightarrow> 'w console \<Rightarrow> 'w console \<Rightarrow> bool" for env where
  network: "net_step env (con_server c) s' \<Longrightarrow> clients_named s' \<Longrightarrow> console_step env c (c\<lparr>con_server := s'\<rparr>)"
| expire: "console_step env c (c\<lparr>con_expired := True\<rparr>)"
| head: "con_pc c = Head \<Longrightarrow> console_step env c (loop_head c)"
| visit: "con_pc c = Pass k fin \<Longrightarrow> k < length (m_tasks (con_server c)) \<Longrightarrow> console_step env c (loop_visit k fin c)"
| pass_end: "con_pc c = Pass k fin \<Longrightarrow> \<not> k < length (m_tasks (con_server c)) \<Longrightarrow> console_step env c (loop_end fin c)"
| return: "con_pc c = Closing \<Longrightarrow> console_step env c (main_return env c)"

inductive_cases console_stepE: "console_step env c c'"

subsection \<open>main: the way to the loop\<close>

text \<open>
  The options as \<open>cl.getOption\<close> and \<open>cl.getApplication\<close> return them, and what the other calls
  answer. \<open>None\<close> is the undefined behaviour or abort of a callee, \<open>Inl\<close> an exit code.
\<close>

record console_args =
  arg_application :: string
  arg_config :: string
  arg_sdir :: string
  arg_odir :: string
  arg_wdir :: string
  arg_sfile :: string
  arg_ofile :: string

record 'x main_env =
  me_su :: su_string
  me_absolute :: "string \<Rightarrow> string"
  me_addSeparator :: "string \<Rightarrow> string"
  me_xml :: "'x xml_api"
  me_load :: "string \<Rightarrow> 'x option"
  me_dir :: "string \<Rightarrow> string list option"
  me_bc :: bc_env
  me_wsa_ok :: bool
  me_server_started :: bool

definition task_variables :: "su_string \<Rightarrow> console_args \<Rightarrow> TaskVariables" where
  "task_variables su a = empty_vars\<lparr>SDir := String_tolower su (arg_sdir a), ODir := String_tolower su (arg_odir a),
     WDir := String_tolower su (arg_wdir a), SFile := String_tolower su (arg_sfile a),
     OFile := String_tolower su (arg_ofile a)\<rparr>"

definition console_start :: "'x main_env \<Rightarrow> 'w \<Rightarrow> console_args \<Rightarrow> (i32 + 'w console) option" where
  "console_start me w a =
     (if arg_config a = [] then Some (Inl 0)
      else
        case loadFromFile (me_su me) (me_absolute me) (me_addSeparator me) (me_xml me) (me_load me)
               (String_filenamePath (me_su me) (arg_application a) @ [CHR 0x5C] @ fileProjects) new_Projects of
          None \<Rightarrow> None
        | Some (ok, projects) \<Rightarrow>
            if \<not> ok then Some (Inl 1)
            else
              case loadConfig (me_su me) (me_xml me) (me_load me) (me_dir me) (arg_config a) projects
                     (task_variables (me_su me) a) [] of
                Inl _ \<Rightarrow> None
              | Inr (ok, tasks) \<Rightarrow>
                  if \<not> ok \<or> \<not> me_wsa_ok me \<or> \<not> me_server_started me then Some (Inl 1)
                  else
                    case sendBroadcast (me_bc me) (PName (m_vars (hd tasks))) of
                      None \<Rightarrow> None
                    | Some (ok, _) \<Rightarrow>
                        if \<not> ok then Some (Inl 1)
                        else Some (Inr \<lparr>con_server = \<lparr>m_tasks = tasks, m_clients = [], nodes = (\<lambda>_. newClient []), files = w\<rparr>,
                               con_info = [], con_counts = (0, 0), con_expired = False, con_pc = Head\<rparr>))"

subsection \<open>Announcements reach the daemons\<close>

lemma strncpy_s_fits:
  assumes "CHR 0x00 \<notin> set n" "strncpy_s (replicate m 0) n (Suc (length n)) = Some b"
  shows "length n < m" "b = map byte_of_char n @ 0 # replicate (m - Suc (length n)) 0" "length b = m"
proof -
  have "takeWhile (\<lambda>c. c \<noteq> CHR 0x00) n = n" using assms(1) by (auto simp: takeWhile_eq_all_conv)
  from assms(2) this have "length n < m \<and> b = map byte_of_char n @ 0 # replicate (m - Suc (length n)) 0"
    unfolding strncpy_s_def Let_def by (auto simp del: takeWhile_eq_all_conv split: if_splits)
  then show "length n < m" "b = map byte_of_char n @ 0 # replicate (m - Suc (length n)) 0" "length b = m" by auto
qed

lemma broadcast_loop_sent:
  "broadcast_loop env n as (f, sent) = Some (f', sent') \<Longrightarrow>
     \<exists>ps. sent' = sent @ map WhoIsHere_image ps \<and> list_all2 (\<lambda>a p. build_packet env n a = Some p) as ps"
proof (induction as arbitrary: f sent)
  case (Cons a as)
  from Cons.prems obtain p f1 where p: "build_packet env n a = Some p"
    and "broadcast_loop env n as (f1, sent @ [WhoIsHere_image p]) = Some (f', sent')"
    by (auto simp: Let_def split: option.splits)
  from Cons.IH[OF this(2)] obtain ps where "sent' = (sent @ [WhoIsHere_image p]) @ map WhoIsHere_image ps"
    "list_all2 (\<lambda>a p. build_packet env n a = Some p) as ps" by blast
  with p show ?case by (intro exI[of _ "p # ps"]) simp
qed simp

lemma build_packet_accepted:
  fixes a defines "d p \<equiv> \<lparr>dg_addr = a, dg_raw = WhoIsHere_image p\<rparr>"
  assumes "build_packet bc n a = Some p" "CHR 0x00 \<notin> set n" "ue_crc env = bc_crc bc"
    and "getProject (ue_projects env) n \<noteq> None" "getFreeCore (ue_hw env) now (ue_projects env) \<noteq> 0"
  shows "acceptable env now (d p)"
    and "connect_to env (announcement (d p)) = \<lparr>lk_status = Link_Connecting, lk_ip = ue_ipToString env a, lk_port = tcpDefaultPort\<rparr>"
proof -
  obtain b where b: "strncpy_s (replicate 64 0) n (Suc (length n)) = Some b"
    using assms(2) by (auto simp: build_packet_def split: option.splits)
  note fits = strncpy_s_fits[OF assms(3) b]
  have p: "project p = map byte_of_char n @ 0 # replicate (64 - Suc (length n)) 0" "length (project p) = 64"
    "masterIP p = a" "masterPort p = tcpDefaultPort" "crc32 p = bc_crc bc (WhoIsHere_head p)"
    using assms(2) b fits by (auto simp: build_packet_def Let_def WhoIsHere_head_def)
  note built = built_announcement[OF p(1,2) assms(3), of a, folded d_def]
  show "acceptable env now (d p)"
    using built p(3,5) assms(4-6) by (simp add: acceptable_def) (simp add: d_def)
  show "connect_to env (announcement (d p)) = \<lparr>lk_status = Link_Connecting, lk_ip = ue_ipToString env a, lk_port = tcpDefaultPort\<rparr>"
    using built p by (simp add: connect_to_def)
qed

text \<open>
  C19: What \<open>sendBroadcast\<close> sends is what a daemon accepts: it sends one datagram per local
  address, and a daemon that shares the checksum, knows the project, has a core free and receives
  the datagram from that address takes it and connects to that address at the default TCP port.
\<close>

theorem broadcast_is_accepted:
  assumes "sendBroadcast bc n = Some (ok, sent)" "CHR 0x00 \<notin> set n" "ue_crc env = bc_crc bc"
    and "getProject (ue_projects env) n \<noteq> None" "getFreeCore (ue_hw env) now (ue_projects env) \<noteq> 0"
  shows "length sent = length (bc_localIps bc) \<and>
    (\<forall>i < length sent. let d = \<lparr>dg_addr = bc_localIps bc ! i, dg_raw = sent ! i\<rparr> in
       acceptable env now d \<and>
       connect_to env (announcement d) =
         \<lparr>lk_status = Link_Connecting, lk_ip = ue_ipToString env (bc_localIps bc ! i), lk_port = tcpDefaultPort\<rparr>)"
proof -
  obtain f where "broadcast_loop bc n (bc_localIps bc) (0, []) = Some (f, sent)"
    using assms(1) by (auto simp: sendBroadcast_def split: option.splits)
  from broadcast_loop_sent[OF this] obtain ps where ps: "sent = map WhoIsHere_image ps"
    "list_all2 (\<lambda>a p. build_packet bc n a = Some p) (bc_localIps bc) ps" by auto
  then show ?thesis
    using build_packet_accepted[OF _ assms(2-5)] by (auto simp: Let_def list_all2_conv_all_nth)
qed

text \<open>
  A project name of 64 characters or more ends the master: \<open>strncpy_s\<close> does not truncate.
\<close>

theorem long_project_name_aborts:
  assumes "64 \<le> length n" "CHR 0x00 \<notin> set n" "bc_localIps bc \<noteq> []"
  shows "sendBroadcast bc n = None"
proof -
  obtain a as where as: "bc_localIps bc = a # as" using assms(3) by (cases "bc_localIps bc") auto
  have "strncpy_s (replicate 64 0) n (Suc (length n)) = None"
    using strncpy_s_fits(1)[OF assms(2), of 64] assms(1) by (metis not_le option.exhaust)
  then have "build_packet bc n a = None" by (simp add: build_packet_def)
  then show ?thesis by (simp add: sendBroadcast_def as)
qed

subsection \<open>Every result is counted once\<close>

definition info_total :: "slave_infos \<Rightarrow> size_t" where
  "info_total info = sum_list (map (\<lambda>(_, v). is_errors v + is_success v) info)"

lemma info_total_totals: "fst (totals info) + snd (totals info) = info_total info"
  by (induction info) (auto simp: totals_def info_total_def algebra_simps)

lemma info_total_update:
  "info_total (AList.update ip v info) + (is_errors (info_at info ip) + is_success (info_at info ip)) =
     info_total info + (is_errors v + is_success v)"
  by (induction info) (auto simp: info_total_def info_at_def algebra_simps)

lemma info_total_add [simp]:
  "info_total (add_error ip info) = info_total info + 1" "info_total (add_success ip info) = info_total info + 1"
  using info_total_update[of ip "(info_at info ip)\<lparr>is_errors := is_errors (info_at info ip) + 1\<rparr>" info]
    info_total_update[of ip "(info_at info ip)\<lparr>is_success := is_success (info_at info ip) + 1\<rparr>" info]
  by (simp_all add: add_error_def add_success_def algebra_simps)

text \<open>Tasks that the totals account for: a definite result that the main thread has seen.\<close>

definition definite :: "TaskInfo \<Rightarrow> bool" where
  "definite t \<longleftrightarrow> m_result t = NotStarted \<or> m_result t = Exited"

definition seen :: "TaskInfo \<Rightarrow> bool" where
  "seen t \<longleftrightarrow> m_result t \<noteq> NoInit \<and> m_doneIp t = []"

definition n_counted :: "TaskInfo list \<Rightarrow> size_t" where
  "n_counted ts = of_nat (length (filter (\<lambda>t. seen t \<and> definite t) ts))"

lemma named_result_counted:
  "named_result t t' \<Longrightarrow> seen t \<Longrightarrow> seen t' \<and> definite t' = definite t"
  "named_result t t' \<Longrightarrow> \<not> seen t \<Longrightarrow> \<not> seen t'"
  by (auto simp: named_result_def seen_def definite_def split: if_splits)

lemma n_counted_simps [simp]:
  "n_counted [] = 0" "n_counted (t # ts) = n_counted ts + (if seen t \<and> definite t then 1 else 0)"
  "n_counted (ts @ us) = n_counted ts + n_counted us"
  by (simp_all add: n_counted_def)

lemma named_results_counted: "list_all2 named_result ts ts' \<Longrightarrow> n_counted ts' = n_counted ts"
proof (induction rule: list_all2_induct)
  case (Cons t ts t' ts')
  then have "(seen t' \<and> definite t') = (seen t \<and> definite t)" using named_result_counted by blast
  with Cons show ?case by simp
qed simp

lemma count_task_cases:
  assumes "count_task t info = (b, t', info')"
  shows "b \<longleftrightarrow> m_result t \<noteq> NoInit" "b \<Longrightarrow> seen t'" "m_result t' = m_result t" "m_exitCode t' = m_exitCode t"
    "info_total info' = info_total info + (if m_result t \<noteq> NoInit \<and> \<not> seen t \<and> definite t then 1 else 0)"
    "m_node t' = m_node t" "m_message t' = m_message t" "\<not> b \<Longrightarrow> t' = t" "m_vars t' = m_vars t"
  using assms by (auto simp: count_task_def seen_def definite_def Let_def split: if_splits)

lemma n_counted_visit:
  assumes "k < length ts" "count_task (ts ! k) info = (b, t', info')" "info_total info = n_counted ts"
  shows "info_total info' = n_counted (ts[k := t'])"
proof -
  let ?P = "\<lambda>t. seen t \<and> definite t"
  have old: "n_counted ts = n_counted (take k ts) + n_counted (drop (Suc k) ts) + (if ?P (ts ! k) then 1 else 0)"
    using id_take_nth_drop[OF assms(1)] n_counted_simps(2,3)
    by (metis (no_types, lifting) add.assoc)
  have "n_counted (ts[k := t']) = n_counted (take k ts) + n_counted (drop (Suc k) ts) + (if ?P t' then 1 else 0)"
    using assms(1) by (simp add: upd_conv_take_nth_drop)
  moreover have "?P t' \<longleftrightarrow> m_result (ts ! k) \<noteq> NoInit \<and> definite (ts ! k)"
    using count_task_cases(1-3,8)[OF assms(2)] by (auto simp: definite_def seen_def)
  ultimately show ?thesis
    using count_task_cases(5)[OF assms(2)] assms(3) old by (auto simp: seen_def)
qed

text \<open>
  The invariant of a run. In a pass whose \<open>isFinished\<close> is still true, every task before the
  index has a result that is counted; behind the loop, unless the timer ran out, that holds of
  all tasks, and the printed totals are up to date.
\<close>

definition all_seen :: "'w console \<Rightarrow> bool" where
  "all_seen c \<longleftrightarrow> (\<forall>t \<in> set (m_tasks (con_server c)). seen t) \<and>
     fst (con_counts c) + snd (con_counts c) = info_total (con_info c)"

definition console_inv :: "'w console \<Rightarrow> bool" where
  "console_inv c \<longleftrightarrow> server_inv (con_server c) \<and> clients_named (con_server c) \<and>
     info_total (con_info c) = n_counted (m_tasks (con_server c)) \<and>
     (case con_pc c of
        Head \<Rightarrow> True
      | Pass k fin \<Rightarrow> fin \<longrightarrow> (\<forall>i < k. i < length (m_tasks (con_server c)) \<longrightarrow> seen (m_tasks (con_server c) ! i))
      | Closing \<Rightarrow> con_expired c \<or> all_seen c
      | Returned r \<Rightarrow> r = 0 \<longrightarrow> all_seen c)"

lemma named_results_seen:
  "list_all2 named_result ts ts' \<Longrightarrow> i < length ts \<Longrightarrow> seen (ts ! i) \<Longrightarrow> seen (ts' ! i)"
  by (auto simp: list_all2_conv_all_nth dest: named_result_counted(1))

lemma console_inv_network:
  assumes "console_inv c" "net_step env (con_server c) s'" "clients_named s'"
  shows "console_inv (c\<lparr>con_server := s'\<rparr>)"
proof -
  have inv: "server_inv (con_server c)" "clients_named (con_server c)" using assms(1) by (auto simp: console_inv_def)
  have named: "list_all2 named_result (m_tasks (con_server c)) (m_tasks s')"
    using net_step_named[OF assms(2) inv(1)] inv(2) by (simp add: clients_named_def)
  have "seen t" if "\<forall>t \<in> set (m_tasks (con_server c)). seen t" "t \<in> set (m_tasks s')" for t
    using that named named_results_seen[OF named] by (metis in_set_conv_nth list_all2_lengthD)
  then have "all_seen c \<Longrightarrow> all_seen (c\<lparr>con_server := s'\<rparr>)" by (simp add: all_seen_def)
  moreover have "server_inv s'" using net_step_sound[OF assms(2) inv(1)] by blast
  ultimately show ?thesis
    using assms(1,3) named_results_counted[OF named] named_results_seen[OF named] list_all2_lengthD[OF named]
    by (auto simp: console_inv_def split: pc.splits)
qed

lemma server_inv_task:
  assumes "server_inv s" "k < length (m_tasks s)" "m_node t = m_node (m_tasks s ! k)"
    "m_message t = m_message (m_tasks s ! k)" "m_result t = m_result (m_tasks s ! k)"
  shows "server_inv (s\<lparr>m_tasks := (m_tasks s)[k := t]\<rparr>)"
proof -
  let ?P = "\<lambda>t. task_id t \<noteq> None \<and> message_ready (m_message t) \<and>
    (\<forall>n. m_node t = Some n \<longrightarrow> n \<in> set (m_clients s) \<and> m_result t = NoInit)"
  have inv: "\<forall>t \<in> set (m_tasks s). ?P t" "distinct (map task_id (m_tasks s))" "distinct (m_clients s)"
    using assms(1) by (simp_all add: server_inv_def)
  have "?P (m_tasks s ! k)" using inv(1) assms(2) nth_mem by blast
  then have "?P t" using assms(3-5) by simp
  moreover have "set ((m_tasks s)[k := t]) \<subseteq> insert t (set (m_tasks s))"
    by (rule set_update_subset_insert)
  ultimately have "\<forall>x \<in> set ((m_tasks s)[k := t]). ?P x" using inv(1) by blast
  moreover have "map task_id ((m_tasks s)[k := t]) = map task_id (m_tasks s)"
    using assms(2,4) by (intro nth_equalityI) (auto simp: nth_list_update)
  ultimately show ?thesis using inv(2,3) unfolding server_inv_def by simp
qed

lemma console_inv_visit:
  assumes "console_inv c" "con_pc c = Pass k fin" "k < length (m_tasks (con_server c))"
  shows "console_inv (loop_visit k fin c)"
proof -
  obtain b t info where ct: "count_task (m_tasks (con_server c) ! k) (con_info c) = (b, t, info)"
    by (metis prod_cases3)
  note cc = count_task_cases[OF ct]
  have "server_inv ((con_server c)\<lparr>m_tasks := (m_tasks (con_server c))[k := t]\<rparr>)"
    using assms(1,3) cc by (intro server_inv_task) (auto simp: console_inv_def)
  moreover have "info_total info = n_counted ((m_tasks (con_server c))[k := t])"
    using assms(1) by (intro n_counted_visit[OF assms(3) ct]) (simp add: console_inv_def)
  moreover have "seen ((m_tasks (con_server c))[k := t] ! i)" if "fin" "b" "i < Suc k" for i
    using assms cc(2) that by (auto simp: console_inv_def nth_list_update less_Suc_eq)
  ultimately show ?thesis
    using assms(1) ct by (auto simp: console_inv_def loop_visit_def clients_named_def)
qed

lemma closeAllClients_frame:
  "m_tasks (closeAllClients env s) = m_tasks s" "m_clients (closeAllClients env s) = m_clients s"
  "fullId (nodes (closeAllClients env s) n) = fullId (nodes s n)"
proof -
  let ?f = "\<lambda>n s. s\<lparr>nodes := (nodes s)(n := snd (TcpProtobufNode_send (se_send env) (nodes s n)
      (master_message (se_codec env) \<lparr>mp_task = None, mp_system = Some \<lparr>sys_close = Some True\<rparr>\<rparr>)))\<rparr>"
  have "m_tasks (fold ?f ns s) = m_tasks s \<and> m_clients (fold ?f ns s) = m_clients s \<and>
      fullId (nodes (fold ?f ns s) n) = fullId (nodes s n)" for ns
    by (induction ns arbitrary: s) auto
  then show "m_tasks (closeAllClients env s) = m_tasks s" "m_clients (closeAllClients env s) = m_clients s"
    "fullId (nodes (closeAllClients env s) n) = fullId (nodes s n)"
    by (auto simp: closeAllClients_def Let_def)
qed

lemma console_inv_step: "console_step env c c' \<Longrightarrow> console_inv c \<Longrightarrow> console_inv c'"
proof (induction rule: console_step.induct)
  case (pass_end c k fin)
  then show ?case
    by (auto simp: console_inv_def loop_end_def all_seen_def info_total_totals in_set_conv_nth)
next
  case (return c)
  then show ?case
    by (auto simp: console_inv_def main_return_def all_seen_def closeAllClients_frame server_inv_def clients_named_def)
next
  case (network c s')
  then show ?case by (simp add: console_inv_network)
next
  case (visit c k fin)
  then show ?case by (simp add: console_inv_visit)
qed (auto simp: loop_head_def console_inv_def all_seen_def Let_def split: pc.splits)

lemma console_inv_steps: "(console_step env)\<^sup>*\<^sup>* c c' \<Longrightarrow> console_inv c \<Longrightarrow> console_inv c'"
  by (induction rule: rtranclp_induct) (auto intro: console_inv_step)

text \<open>The state in which \<open>main\<close> enters its loop is good.\<close>

lemma console_start_inv:
  assumes "console_start me w a = Some (Inr c)" "length (m_tasks (con_server c)) < 2 ^ 32"
  shows "console_inv c" "con_pc c = Head" "m_tasks (con_server c) \<noteq> []" "con_info c = []"
proof -
  from assms(1) obtain projects tasks where
    lc: "loadConfig (me_su me) (me_xml me) (me_load me) (me_dir me) (arg_config a) projects
           (task_variables (me_su me) a) [] = Inr (True, tasks)"
    and c: "c = \<lparr>con_server = \<lparr>m_tasks = tasks, m_clients = [], nodes = (\<lambda>_. newClient []), files = w\<rparr>,
              con_info = [], con_counts = (0, 0), con_expired = False, con_pc = Head\<rparr>"
    by (auto simp: console_start_def split: option.splits sum.splits prod.splits if_splits)
  note g = loadConfig_generated[OF lc]
  have "n_counted tasks = 0" "distinct (map task_id tasks)"
    using g generated_distinct[OF g(2)] assms(2)
    by (auto simp: c n_counted_def filter_empty_conv generated_def task_fresh_def seen_def)
  moreover have "\<forall>t \<in> set tasks. task_id t \<noteq> None" using generated_id[OF g(2)] by blast
  ultimately have "server_inv \<lparr>m_tasks = tasks, m_clients = [], nodes = (\<lambda>_. newClient []), files = w\<rparr>"
    using g by (auto simp: server_inv_def generated_def task_fresh_def)
  with \<open>n_counted tasks = 0\<close> show "console_inv c" "con_pc c = Head" "m_tasks (con_server c) \<noteq> []" "con_info c = []"
    using g by (auto simp: c console_inv_def clients_named_def info_total_def)
qed

text \<open>
  C2: When \<open>main\<close> returns 0, every task of the table has a result, however the network events
  interleaved with the main loop; and the totals it reports (errors plus successes) are the
  number of tasks whose process was not started or has exited.
\<close>

theorem exit_zero_all_done:
  assumes "console_start me w a = Some (Inr c0)" "length (m_tasks (con_server c0)) < 2 ^ 32"
    and "(console_step env)\<^sup>*\<^sup>* c0 c" "con_pc c = Returned 0"
  shows "(\<forall>t \<in> set (m_tasks (con_server c)). m_result t \<noteq> NoInit) \<and>
    fst (con_counts c) + snd (con_counts c) = of_nat (length (filter definite (m_tasks (con_server c))))"
proof -
  have "console_inv c" using console_inv_steps[OF assms(3)] console_start_inv(1)[OF assms(1,2)] by blast
  then have "all_seen c" and total: "info_total (con_info c) = n_counted (m_tasks (con_server c))"
    using assms(4) by (auto simp: console_inv_def)
  moreover have "filter (\<lambda>t. seen t \<and> definite t) (m_tasks (con_server c)) = filter definite (m_tasks (con_server c))"
    using \<open>all_seen c\<close> by (intro filter_cong) (auto simp: all_seen_def)
  ultimately show ?thesis by (auto simp: all_seen_def seen_def n_counted_def)
qed

text \<open>
  C27: The main thread counts every result once: at any moment of a run, the totals over the
  daemons are the number of definite results that the main thread has marked as counted, although
  the server thread changes the tasks between its steps.
\<close>

theorem results_counted_once:
  assumes "console_start me w a = Some (Inr c0)" "length (m_tasks (con_server c0)) < 2 ^ 32"
    and "(console_step env)\<^sup>*\<^sup>* c0 c"
  shows "fst (totals (con_info c)) + snd (totals (con_info c)) =
    of_nat (length (filter (\<lambda>t. seen t \<and> definite t) (m_tasks (con_server c))))"
  using console_inv_steps[OF assms(3)] console_start_inv(1)[OF assms(1,2)]
  by (simp add: console_inv_def info_total_totals n_counted_def)

subsection \<open>Witnesses\<close>

definition sample_bc :: bc_env where
  "sample_bc = \<lparr>bc_crc = ue_crc sample_uenv, bc_localIps = [7, 9], bc_updSend = (\<lambda>_ _. 80)\<rparr>"

lemma sample_broadcast: "\<exists>sent. sendBroadcast sample_bc ''g'' = Some (True, sent)"
  by (simp add: sendBroadcast_def sample_bc_def build_packet_def strncpy_s_def Let_def)

theorem broadcast_is_accepted_witness:
  "\<exists>sent. sendBroadcast sample_bc ''g'' = Some (True, sent) \<and> length sent = 2 \<and>
     acceptable sample_uenv (12, 0) \<lparr>dg_addr = 9, dg_raw = sent ! 1\<rparr>"
proof -
  obtain sent where s: "sendBroadcast sample_bc ''g'' = Some (True, sent)" using sample_broadcast by blast
  have g: "getProject (ue_projects sample_uenv) ''g'' \<noteq> None"
    by (simp add: getProject_def sample_uenv_def client_projects_def)
  from broadcast_is_accepted[OF s _ _ g sample_free] s show ?thesis
    by (auto simp: sample_bc_def Let_def)
qed

theorem long_project_name_aborts_witness: "sendBroadcast sample_bc (replicate 64 (CHR ''x'')) = None"
  by (rule long_project_name_aborts) (simp_all add: sample_bc_def)

text \<open>A whole run: one task, one daemon that takes it and returns it.\<close>

definition run_me :: "xml main_env" where
  "run_me = \<lparr>me_su = plain_su, me_absolute = (\<lambda>x. x), me_addSeparator = (\<lambda>x. x), me_xml = tree_xml,
     me_load = (\<lambda>f. if f = ''b'' then Some (XElem [] [] None [XElem ''BuildSet'' [] None
                       [XElem ''Project'' [(''Name'', ''g'')] None [XElem ''Task'' [(''SourceFile'', ''a'')] None []]]])
                    else Some (XElem [] [] None [XElem ''Config'' [] None
                       [XElem ''Project'' [(''Name'', ''g'')] None [], XElem ''WorkTime'' [] None []]])),
     me_dir = (\<lambda>_. None), me_bc = sample_bc, me_wsa_ok = True, me_server_started = True\<rparr>"

definition run_args :: console_args where
  "run_args = \<lparr>arg_application = [], arg_config = ''b'', arg_sdir = [], arg_odir = [], arg_wdir = [], arg_sfile = [],
     arg_ofile = []\<rparr>"

definition run_env :: "(string \<rightharpoonup> string) server_env" where
  "run_env = \<lparr>se_codec = sample_codec\<lparr>dec_slave := (\<lambda>bs. if bs = [1]
       then \<lparr>sp_info = Some \<lparr>inf_task_count = Some 1\<rparr>, sp_result = None\<rparr>
       else \<lparr>sp_info = None, sp_result = Some \<lparr>rs_id = Some 1, rs_exit_code = Some 0,
              rs_process_code = Some Exited, rs_outputFile = None, rs_outputData = Some ''obj''\<rparr>\<rparr>)\<rparr>,
     se_fs = map_fs, se_send = (\<lambda>_ _. 1)\<rparr>"

definition run_con :: "(string \<rightharpoonup> string) server \<Rightarrow> (string \<rightharpoonup> string) console" where
  "run_con s = \<lparr>con_server = s, con_info = [], con_counts = (0, 0), con_expired = False, con_pc = Head\<rparr>"

definition run_projects :: Projects where
  "run_projects = new_Projects\<lparr>m_items := [''g'' \<mapsto>
     read_item plain_su (\<lambda>x. x) (\<lambda>x. x) tree_xml (XElem ''Project'' [(''Name'', ''g'')] None [])]\<rparr>"

lemma run_load:
  "loadFromFile plain_su (\<lambda>x. x) (\<lambda>x. x) tree_xml (me_load run_me) (CHR 0x5C # fileProjects) new_Projects =
     Some (True, run_projects)"
  by (simp add: run_me_def loadFromFile_def tree_xml_def FirstChildElement_def run_projects_def
      load_item_def read_item_def loadWorkTime_def plain_su_def sample_su_def new_Projects_def fileProjects_def
      load_minutes_def load_percent_def)

lemma run_config:
  "\<exists>t. loadConfig plain_su tree_xml (me_load run_me) (\<lambda>_. None) ''b'' run_projects (task_variables plain_su run_args) [] =
     Inr (True, [t]) \<and> PName (m_vars t) = ''g''"
  by (simp add: run_me_def loadConfig_def tree_xml_def FirstChildElement_def run_projects_def getProject_def
      taskGenerator_def collect_tasks_def string_find_def plain_su_def sample_su_def new_Projects_def Let_def
      read_item_def TaskInfo_copy_def TaskInfo_copyFrom_def finish_task_def)

lemma run_start:
  "\<exists>t. console_start run_me Map.empty run_args = Some (Inr (run_con
       \<lparr>m_tasks = [t], m_clients = [], nodes = (\<lambda>_. newClient []), files = Map.empty\<rparr>)) \<and>
     task_fresh t \<and> task_id t = Some 1 \<and> message_ready (m_message t)"
proof -
  obtain t where t: "loadConfig plain_su tree_xml (me_load run_me) (\<lambda>_. None) ''b'' run_projects
      (task_variables plain_su run_args) [] = Inr (True, [t])" "PName (m_vars t) = ''g''"
    using run_config by blast
  obtain sent where "sendBroadcast sample_bc ''g'' = Some (True, sent)" using sample_broadcast by blast
  moreover have "me_su run_me = plain_su" "me_xml run_me = tree_xml" "me_dir run_me = (\<lambda>_. None)" "me_bc run_me = sample_bc"
    "me_wsa_ok run_me" "me_server_started run_me" "me_absolute run_me = (\<lambda>x. x)" "me_addSeparator run_me = (\<lambda>x. x)"
    "arg_config run_args = ''b''" "String_filenamePath plain_su (arg_application run_args) = []"
    by (simp_all add: run_me_def run_args_def plain_su_def sample_su_def)
  ultimately have "console_start run_me Map.empty run_args = Some (Inr (run_con
       \<lparr>m_tasks = [t], m_clients = [], nodes = (\<lambda>_. newClient []), files = Map.empty\<rparr>))"
    using t run_load by (simp add: console_start_def run_con_def)
  with loadConfig_generated(2)[OF t(1)] show ?thesis by (auto simp: generated_def)
qed

text \<open>The network part of the run, then one pass of the loop.\<close>

lemma run_network:
  assumes "task_fresh t" "task_id t = Some 1" "message_ready (m_message t)"
  shows "\<exists>s t'. (console_step run_env)\<^sup>*\<^sup>*
      (run_con \<lparr>m_tasks = [t], m_clients = [], nodes = (\<lambda>_. newClient []), files = Map.empty\<rparr>) (run_con s) \<and>
    m_tasks s = [t'] \<and> m_result t' = Exited \<and> m_exitCode t' = 0 \<and> m_doneIp t' = ''ip''"
proof -
  let ?s0 = "\<lparr>m_tasks = [t], m_clients = [], nodes = (\<lambda>_. newClient []), files = Map.empty :: string \<rightharpoonup> string\<rparr>"
  let ?s1 = "?s0\<lparr>m_clients := [7], nodes := (nodes ?s0)(7 := newClient ''ip'')\<rparr>"
  let ?s2 = "?s1\<lparr>nodes := (nodes ?s1)(7 := (nodes ?s1 7)\<lparr>recvPackets := [[1], [2]]\<rparr>)\<rparr>"
  let ?s3 = "snd (onRecvFromNode run_env 7 ?s2)"
  have step: "console_step run_env (run_con s) (run_con s')" if "net_step run_env s s'" "clients_named s'" for s s'
    using console_step.network[of run_env "run_con s" s'] that by (simp add: run_con_def)
  have "console_step run_env (run_con ?s0) (run_con ?s1)"
    using net_step.accept[of 7 ?s0 run_env "''ip''"]
    by (intro step) (simp_all add: clients_named_def newClient_def new_TcpProtobufNode_def)
  moreover have "console_step run_env (run_con ?s1) (run_con ?s2)"
    using net_step.receive[of 7 ?s1 run_env "[[1], [2]]"]
    by (intro step) (simp_all add: clients_named_def newClient_def new_TcpProtobufNode_def)
  moreover have inv: "server_inv ?s2" using assms by (simp add: server_inv_def task_fresh_def)
  have "console_step run_env (run_con ?s2) (run_con ?s3)"
    using onRecvFromNode_handles[of 7 ?s2 run_env] inv net_step.process[of 7 ?s2 run_env]
    by (intro step) (simp_all add: handles_def clients_named_def newClient_def new_TcpProtobufNode_def)
  moreover have "\<exists>t'. m_tasks ?s3 = [t'] \<and> m_result t' = Exited \<and> m_exitCode t' = 0 \<and> m_doneIp t' = ''ip''"
    using assms message_ready_init[OF assms(3)]
    by (simp add: onRecvFromNode.simps extractRecvPacket_def handle_packet_def Let_def run_env_def
        newClient_def new_TcpProtobufNode_def Slave_IsInitialized_def Info_IsInitialized_def Result_IsInitialized_def
        sendTasksToSlave_def task_fresh_def applyResultFromSlave_def apply_result_def map_fs_def sample_codec_def
        TcpProtobufNode_send_def master_message_def ml_ByteSizeLong_def Master_IsInitialized_def)
  ultimately show ?thesis by (meson rtranclp.rtrancl_into_rtrancl rtranclp.rtrancl_refl)
qed

lemma run_loop:
  assumes "m_tasks s = [t]" "m_result t = Exited" "m_exitCode t = 0" "m_doneIp t = ''ip''"
  shows "\<exists>c. (console_step run_env)\<^sup>*\<^sup>* (run_con s) c \<and> con_pc c = Returned 0 \<and> con_counts c = (0, 1) \<and>
    length (m_tasks (con_server c)) = 1"
proof -
  let ?c1 = "(run_con s)\<lparr>con_pc := Pass 0 True\<rparr>"
  let ?c2 = "loop_visit 0 True ?c1"
  let ?c3 = "loop_end True ?c2"
  let ?c4 = "main_return run_env ?c3"
  have c1: "loop_head (run_con s) = ?c1" by (simp add: loop_head_def run_con_def)
  have c2: "con_pc ?c2 = Pass 1 True" "m_tasks (con_server ?c2) = [t\<lparr>m_doneIp := []\<rparr>]"
    "con_info ?c2 = [(''ip'', \<lparr>is_success = 1, is_errors = 0\<rparr>)]" "\<not> con_expired ?c2"
    using assms by (simp_all add: loop_visit_def count_task_def run_con_def add_success_def info_at_def)
  have "console_step run_env (run_con s) ?c1"
    using console_step.head[of "run_con s" run_env] c1 by (simp add: run_con_def)
  moreover have "console_step run_env ?c1 ?c2"
    by (rule console_step.visit) (simp_all add: run_con_def assms(1))
  moreover have "console_step run_env ?c2 ?c3" by (rule console_step.pass_end[OF c2(1)]) (simp add: c2)
  moreover have "console_step run_env ?c3 ?c4" by (rule console_step.return) (simp add: loop_end_def)
  moreover have "con_pc ?c4 = Returned 0 \<and> con_counts ?c4 = (0, 1) \<and> length (m_tasks (con_server ?c4)) = 1"
    using c2 by (simp add: main_return_def loop_end_def totals_def closeAllClients_frame)
  ultimately show ?thesis by (meson rtranclp.rtrancl_into_rtrancl rtranclp.rtrancl_refl)
qed

lemma run_exists:
  "\<exists>c0 c. console_start run_me Map.empty run_args = Some (Inr c0) \<and> length (m_tasks (con_server c0)) < 2 ^ 32 \<and>
     (console_step run_env)\<^sup>*\<^sup>* c0 c \<and> con_pc c = Returned 0 \<and> con_counts c = (0, 1) \<and> length (m_tasks (con_server c)) = 1"
proof -
  obtain t where t: "console_start run_me Map.empty run_args = Some (Inr (run_con
       \<lparr>m_tasks = [t], m_clients = [], nodes = (\<lambda>_. newClient []), files = Map.empty\<rparr>))"
     "task_fresh t" "task_id t = Some 1" "message_ready (m_message t)" using run_start by blast
  from run_network[OF t(2-4)] obtain s t' where s: "(console_step run_env)\<^sup>*\<^sup>*
      (run_con \<lparr>m_tasks = [t], m_clients = [], nodes = (\<lambda>_. newClient []), files = Map.empty\<rparr>) (run_con s)"
    "m_tasks s = [t']" "m_result t' = Exited" "m_exitCode t' = 0" "m_doneIp t' = ''ip''" by blast
  from run_loop[OF s(2-5)] obtain c where c: "(console_step run_env)\<^sup>*\<^sup>* (run_con s) c" "con_pc c = Returned 0"
    "con_counts c = (0, 1)" "length (m_tasks (con_server c)) = 1" by blast
  show ?thesis
    using t(1) rtranclp_trans[OF s(1) c(1)] c(2-4)
    by (intro exI conjI) (assumption | simp add: run_con_def)+
qed

theorem exit_zero_all_done_witness:
  "\<exists>c0 c. (console_step run_env)\<^sup>*\<^sup>* c0 c \<and> con_pc c = Returned 0 \<and>
     (\<forall>t \<in> set (m_tasks (con_server c)). m_result t \<noteq> NoInit) \<and> length (filter definite (m_tasks (con_server c))) = 1"
proof -
  obtain c0 c where run: "console_start run_me Map.empty run_args = Some (Inr c0)" "length (m_tasks (con_server c0)) < 2 ^ 32"
    "(console_step run_env)\<^sup>*\<^sup>* c0 c" "con_pc c = Returned 0" "con_counts c = (0, 1)" "length (m_tasks (con_server c)) = 1"
    using run_exists by blast
  note all = exit_zero_all_done[OF run(1-4)]
  have "length (filter definite (m_tasks (con_server c))) \<le> 1" using run(6) length_filter_le by metis
  then have "length (filter definite (m_tasks (con_server c))) = 1" using all run(5) by (auto simp: le_Suc_eq)
  with run all show ?thesis by blast
qed

theorem results_counted_once_witness:
  "\<exists>c :: (string \<rightharpoonup> string) console. con_pc c = Returned 0 \<and> fst (totals (con_info c)) + snd (totals (con_info c)) =
     of_nat (length (filter (\<lambda>t. seen t \<and> definite t) (m_tasks (con_server c))))"
proof -
  obtain c0 c where run: "console_start run_me Map.empty run_args = Some (Inr c0)" "length (m_tasks (con_server c0)) < 2 ^ 32"
    "(console_step run_env)\<^sup>*\<^sup>* c0 c" "con_pc c = Returned 0"
    using run_exists by blast
  from results_counted_once[OF run(1-3)] run(4) show ?thesis by blast
qed

end
