(* ===== verification/Daemon_Main.thy ===== *)
theory Daemon_Main
  imports Udp_Daemon
begin

text \<open>
  \<open>daemon/window.cpp\<close> and \<open>daemon/daemon.cpp\<close>: the notification icon with its menu, the message
  loop that ends when the user chooses "Exit", and the daemon's \<open>main\<close>. The Windows API is a
  parameter; of its effects the model keeps the icon and the number of menus shown.
\<close>

subsection \<open>Messages\<close>

text \<open>Documented values of the Windows SDK, and the constants of the source.\<close>

abbreviation (input) WM_CREATE :: u32 where "WM_CREATE \<equiv> 0x0001"
abbreviation (input) WM_COMMAND :: u32 where "WM_COMMAND \<equiv> 0x0111"
abbreviation (input) WM_USER :: u32 where "WM_USER \<equiv> 0x0400"
abbreviation (input) WM_RBUTTONUP :: u64 where "WM_RBUTTONUP \<equiv> 0x0205"

definition WM_FDB_NOTIFYMESSAGE :: u32 where "WM_FDB_NOTIFYMESSAGE = WM_USER + 1"
definition ID_TASK_ICON :: u32 where "ID_TASK_ICON = 100"
definition ID_MENU_ITEM_EXIT :: u16 where "ID_MENU_ITEM_EXIT = 103"

record message =
  msg_message :: u32
  msg_wParam :: u64
  msg_lParam :: u64

record window =
  g_appName :: string
  g_finish :: bool
  w_icon :: "string option"
  w_menus :: nat

subsection \<open>Notification icon\<close>

text \<open>
  \<open>szTip\<close> holds 128 characters; \<open>strcpy_s\<close> into the array ends the program when the text does
  not fit: \<open>None\<close>.
\<close>

definition createNotifyIcon :: "string \<Rightarrow> window \<Rightarrow> window option" where
  "createNotifyIcon hitText w = (if length hitText < 128 then Some (w\<lparr>w_icon := Some hitText\<rparr>) else None)"

definition deleteNotifyIcon :: "window \<Rightarrow> window" where
  "deleteNotifyIcon w = w\<lparr>w_icon := None\<rparr>"

definition changeNotifyIconHint :: "string \<Rightarrow> window \<Rightarrow> window option" where
  "changeNotifyIconHint hitText w =
     (if length hitText < 128 then Some (w\<lparr>w_icon := map_option (\<lambda>_. hitText) (w_icon w)\<rparr>) else None)"

definition showMenu :: "window \<Rightarrow> bool \<times> window" where
  "showMenu w = (True, w\<lparr>w_menus := w_menus w + 1\<rparr>)"

subsection \<open>Window procedure and message loop\<close>

text \<open>\<open>defproc\<close> is the result of \<open>DefWindowProc\<close>.\<close>

definition WindowProc :: "(message \<Rightarrow> u64) \<Rightarrow> message \<Rightarrow> window \<Rightarrow> u64 \<times> window" where
  "WindowProc defproc m w =
     (if msg_message m = WM_CREATE then (0, w)
      else if msg_message m = WM_FDB_NOTIFYMESSAGE then
        (if msg_lParam m = WM_RBUTTONUP then (0, snd (showMenu w)) else (defproc m, w))
      else if msg_message m = WM_COMMAND then
        (0, if msg_lParam m = 0 \<and> (ucast (msg_wParam m) :: u16) = ID_MENU_ITEM_EXIT then w\<lparr>g_finish := True\<rparr> else w)
      else (defproc m, w))"

text \<open>
  The messages that \<open>GetMessage\<close> delivers; \<open>None\<close> is \<open>WM_QUIT\<close>. The result is \<open>None\<close> when the
  loop is still waiting after the last message.
\<close>

fun message_loop :: "(message \<Rightarrow> u64) \<Rightarrow> message option list \<Rightarrow> window \<Rightarrow> window option" where
  "message_loop defproc [] w = None"
| "message_loop defproc (None # ms) w = Some w"
| "message_loop defproc (Some m # ms) w =
     (let w = snd (WindowProc defproc m w)
      in if g_finish w then Some w else message_loop defproc ms w)"

text \<open>Outer \<open>None\<close>: the thread has not returned from \<open>createWindow\<close>.\<close>

definition createWindow ::
  "(message \<Rightarrow> u64) \<Rightarrow> bool \<Rightarrow> bool \<Rightarrow> string \<Rightarrow> message option list \<Rightarrow> window \<Rightarrow> window option" where
  "createWindow defproc registered created winName ms w =
     (if \<not> registered then Some w
      else
        let w = w\<lparr>g_appName := winName\<rparr> in
        if \<not> created then Some w
        else
          case createNotifyIcon winName w of
            None \<Rightarrow> None
          | Some w \<Rightarrow> map_option deleteNotifyIcon (message_loop defproc ms w))"

subsection \<open>main\<close>

record daemon_run =
  dr_exit :: i32
  dr_server :: bool

text \<open>
  \<open>loaded\<close> is the result of \<open>projects.loadFromFile\<close>, \<open>net_ok\<close> that of \<open>initWinSock2\<close>;
  \<open>win\<close> is what the window thread runs. \<open>main\<close> returns once that thread has been joined;
  \<open>dr_server\<close> says whether the UDP server was started.
\<close>

definition daemon_main :: "string \<Rightarrow> bool \<Rightarrow> bool \<Rightarrow> window option \<Rightarrow> daemon_run option" where
  "daemon_main configFile loaded net_ok win =
     (if configFile = [] then Some \<lparr>dr_exit = 0, dr_server = False\<rparr>
      else if \<not> loaded then Some \<lparr>dr_exit = 1, dr_server = False\<rparr>
      else if \<not> net_ok then Some \<lparr>dr_exit = 1, dr_server = False\<rparr>
      else case win of None \<Rightarrow> None | Some _ \<Rightarrow> Some \<lparr>dr_exit = 0, dr_server = True\<rparr>)"

subsection \<open>The daemon runs until "Exit"\<close>

definition exit_command :: "message \<Rightarrow> bool" where
  "exit_command m \<longleftrightarrow> msg_message m = WM_COMMAND \<and> msg_lParam m = 0 \<and> (ucast (msg_wParam m) :: u16) = ID_MENU_ITEM_EXIT"

lemma WindowProc_finish:
  "g_finish (snd (WindowProc defproc m w)) \<longleftrightarrow> g_finish w \<or> exit_command m"
  by (auto simp: WindowProc_def exit_command_def showMenu_def WM_FDB_NOTIFYMESSAGE_def)

lemma WindowProc_icon [simp]: "w_icon (snd (WindowProc defproc m w)) = w_icon w"
  by (simp add: WindowProc_def showMenu_def)

lemma message_loop_returns:
  "\<not> g_finish w \<Longrightarrow> message_loop defproc ms w \<noteq> None \<longleftrightarrow>
     (\<exists>x \<in> set ms. x = None \<or> (\<exists>m. x = Some m \<and> exit_command m))"
  by (induction defproc ms w rule: message_loop.induct) (auto simp: Let_def WindowProc_finish)

lemma message_loop_icon: "message_loop defproc ms w = Some w' \<Longrightarrow> w_icon w' = w_icon w"
  by (induction defproc ms w rule: message_loop.induct) (auto simp: Let_def split: if_splits)

text \<open>
  C39: Once its window exists, the daemon ends exactly when the menu command "Exit" or \<open>WM_QUIT\<close>
  arrives, with exit code 0 and the icon removed; no other message ends it.
\<close>

theorem daemon_runs_until_exit:
  assumes "configFile \<noteq> []" "\<not> g_finish w" "length winName < 128"
  shows "(daemon_main configFile True True (createWindow defproc True True winName ms w) \<noteq> None \<longleftrightarrow>
      (\<exists>x \<in> set ms. x = None \<or> (\<exists>m. x = Some m \<and> exit_command m))) \<and>
    (\<forall>w'. createWindow defproc True True winName ms w = Some w' \<longrightarrow> w_icon w' = None \<and>
      daemon_main configFile True True (Some w') = Some \<lparr>dr_exit = 0, dr_server = True\<rparr>)"
  using assms message_loop_returns[of "w\<lparr>g_appName := winName, w_icon := Some winName\<rparr>" defproc ms]
  by (auto simp: daemon_main_def createWindow_def createNotifyIcon_def deleteNotifyIcon_def split: option.splits)

theorem daemon_runs_until_exit_witness:
  "daemon_main ''c'' True True (createWindow (\<lambda>_. 0) True True ''t''
     [Some \<lparr>msg_message = 0x401, msg_wParam = 0, msg_lParam = 0x205\<rparr>,
      Some \<lparr>msg_message = 0x111, msg_wParam = 103, msg_lParam = 0\<rparr>]
     \<lparr>g_appName = [], g_finish = False, w_icon = None, w_menus = 0\<rparr>) \<noteq> None"
proof -
  let ?w = "\<lparr>g_appName = [], g_finish = False, w_icon = None, w_menus = 0\<rparr>"
  let ?ms = "[Some \<lparr>msg_message = 0x401, msg_wParam = 0, msg_lParam = 0x205\<rparr>,
      Some \<lparr>msg_message = 0x111, msg_wParam = 103, msg_lParam = 0\<rparr>]"
  have "\<exists>x \<in> set ?ms. x = None \<or> (\<exists>m. x = Some m \<and> exit_command m)"
    by (simp add: exit_command_def ID_MENU_ITEM_EXIT_def)
  with daemon_runs_until_exit[of "''c''" ?w "''t''" "\<lambda>_. 0" ?ms] show ?thesis by simp
qed

end
