(* ===== verification/Bits.thy ===== *)
theory Bits
  imports Prelude
begin

text \<open>
  \<open>absl/numeric/internal/bits.h\<close> and \<open>absl/numeric/bits.h\<close>: counting and rotating bits. The model
  follows the portable branches, which are complete in the header; the other branches call an
  instruction of the machine. Counts of type \<open>int\<close> are natural numbers here, they are at most 64.
\<close>

subsection \<open>Rotation\<close>

text \<open>
  The shift distances are reduced modulo the width, so neither shift is undefined. A negative
  distance is reduced in two's complement.
\<close>

definition RotateLeft :: "'a::len word \<Rightarrow> int \<Rightarrow> 'a word" where
  "RotateLeft x s = push_bit (nat (s mod int LENGTH('a))) x OR drop_bit (nat ((- s) mod int LENGTH('a))) x"

definition RotateRight :: "'a::len word \<Rightarrow> int \<Rightarrow> 'a word" where
  "RotateRight x s = drop_bit (nat (s mod int LENGTH('a))) x OR push_bit (nat ((- s) mod int LENGTH('a))) x"

definition rotl :: "'a::len word \<Rightarrow> int \<Rightarrow> 'a word" where
  "rotl x s = RotateLeft x s"

definition rotr :: "'a::len word \<Rightarrow> int \<Rightarrow> 'a word" where
  "rotr x s = RotateRight x s"

subsection \<open>Counting zeroes\<close>

text \<open>The string literal with its terminating zero.\<close>

definition clz_table :: "nat list" where
  "clz_table = [4, 3, 2, 2, 1, 1, 1, 1, 0, 0, 0, 0, 0, 0, 0, 0]"

definition halve :: "nat \<Rightarrow> nat \<times> 'a::len word \<Rightarrow> nat \<times> 'a word" where
  "halve n zx = (case zx of (zeroes, x) \<Rightarrow> if drop_bit n x \<noteq> 0 then (zeroes - n, drop_bit n x) else (zeroes, x))"

definition CountLeadingZeroes32 :: "u32 \<Rightarrow> nat" where
  "CountLeadingZeroes32 x =
     (case halve 4 (halve 8 (halve 16 (28, x))) of (zeroes, x) \<Rightarrow> clz_table ! unat x + zeroes)"

definition CountLeadingZeroes16 :: "u16 \<Rightarrow> nat" where
  "CountLeadingZeroes16 x = CountLeadingZeroes32 (ucast x) - 16"

definition CountLeadingZeroes64 :: "u64 \<Rightarrow> nat" where
  "CountLeadingZeroes64 x =
     (case halve 4 (halve 8 (halve 16 (halve 32 (60, x)))) of (zeroes, x) \<Rightarrow> clz_table ! unat x + zeroes)"

definition ctz_test :: "'a::len word \<Rightarrow> 'a word \<Rightarrow> nat \<Rightarrow> nat \<Rightarrow> nat" where
  "ctz_test x m n c = (if x AND m \<noteq> 0 then c - n else c)"

definition CountTrailingZeroesNonzero32 :: "u32 \<Rightarrow> nat" where
  "CountTrailingZeroesNonzero32 x0 =
     (let x = x0 AND (NOT x0 + 1) in
      ctz_test x 0x55555555 1 (ctz_test x 0x33333333 2 (ctz_test x 0x0F0F0F0F 4
        (ctz_test x 0x00FF00FF 8 (ctz_test x 0x0000FFFF 16 31)))))"

definition CountTrailingZeroesNonzero64 :: "u64 \<Rightarrow> nat" where
  "CountTrailingZeroesNonzero64 x0 =
     (let x = x0 AND (NOT x0 + 1) in
      ctz_test x 0x5555555555555555 1 (ctz_test x 0x3333333333333333 2 (ctz_test x 0x0F0F0F0F0F0F0F0F 4
        (ctz_test x 0x00FF00FF00FF00FF 8 (ctz_test x 0x0000FFFF0000FFFF 16 (ctz_test x 0x00000000FFFFFFFF 32 63))))))"

definition CountTrailingZeroesNonzero16 :: "u16 \<Rightarrow> nat" where
  "CountTrailingZeroesNonzero16 x = CountTrailingZeroesNonzero32 (ucast x)"

text \<open>The overloads that \<open>countl_zero\<close> and \<open>countr_zero\<close> select for 32 and 64 bits.\<close>

definition countl_zero32 :: "u32 \<Rightarrow> nat" where "countl_zero32 x = CountLeadingZeroes32 x"
definition countl_zero64 :: "u64 \<Rightarrow> nat" where "countl_zero64 x = CountLeadingZeroes64 x"
definition countl_one32 :: "u32 \<Rightarrow> nat" where "countl_one32 x = countl_zero32 (NOT x)"
definition countr_zero32 :: "u32 \<Rightarrow> nat" where "countr_zero32 x = (if x = 0 then 32 else CountTrailingZeroesNonzero32 x)"
definition countr_zero64 :: "u64 \<Rightarrow> nat" where "countr_zero64 x = (if x = 0 then 64 else CountTrailingZeroesNonzero64 x)"
definition countr_one32 :: "u32 \<Rightarrow> nat" where "countr_one32 x = countr_zero32 (NOT x)"

subsection \<open>Powers of two\<close>

definition has_single_bit :: "'a::len word \<Rightarrow> bool" where
  "has_single_bit x \<longleftrightarrow> x \<noteq> 0 \<and> x AND (x - 1) = 0"

definition bit_width32 :: "u32 \<Rightarrow> nat" where "bit_width32 x = 32 - countl_zero32 x"
definition bit_width64 :: "u64 \<Rightarrow> nat" where "bit_width64 x = 64 - countl_zero64 x"

definition bit_floor32 :: "u32 \<Rightarrow> u32" where
  "bit_floor32 x = (if x = 0 then 0 else push_bit (bit_width32 x - 1) 1)"

definition BitCeilNonPowerOf2_32 :: "u32 \<Rightarrow> u32" where
  "BitCeilNonPowerOf2_32 x = push_bit (32 - CountLeadingZeroes32 x) 1"

definition bit_ceil32 :: "u32 \<Rightarrow> u32" where
  "bit_ceil32 x = (if has_single_bit x then push_bit (bit_width32 x - 1) 1 else BitCeilNonPowerOf2_32 x)"

subsection \<open>Leading zeroes\<close>

lemma clz_table_spec:
  assumes "1 \<le> v" "v < 16"
  shows "\<exists>j < 4. 2 ^ j \<le> v \<and> v < 2 ^ (j + 1) \<and> clz_table ! v = 3 - j"
proof -
  have "v = 1 \<or> v = 2 \<or> v = 3 \<or> v = 4 \<or> v = 5 \<or> v = 6 \<or> v = 7 \<or> v = 8 \<or> v = 9 \<or> v = 10 \<or> v = 11 \<or>
      v = 12 \<or> v = 13 \<or> v = 14 \<or> v = 15" using assms by presburger
  then show ?thesis
    by (elim disjE)
      (simp_all add: clz_table_def numeral_nat less_Suc_eq ex_disj_distrib conj_disj_distribR)
qed

lemma halve_spec:
  assumes "halve n (z, x) = (z', x')" "n < LENGTH('a)" "unat (x :: 'a::len word) < 2 ^ (2 * n)"
    "unat x0 div 2 ^ s = unat x" "n + s \<le> z + s"
  shows "unat x' < 2 ^ n" "\<exists>s'. z' + s' = z + s \<and> unat x0 div 2 ^ s' = unat x'" "x \<noteq> 0 \<Longrightarrow> x' \<noteq> 0"
proof -
  have d: "unat (drop_bit n x) = unat x div 2 ^ n" unfolding unat_drop_bit_eq by (simp add: drop_bit_eq_div)
  have z: "drop_bit n x \<noteq> 0 \<longleftrightarrow> 2 ^ n \<le> unat x"
    using d by (metis div_eq_0_iff not_le power_not_zero unat_eq_zero zero_neq_numeral)
  show "unat x' < 2 ^ n"
    using assms(1,3) d z by (auto simp: halve_def less_mult_imp_div_less mult_2 power_add split: if_splits)
  show "x \<noteq> 0 \<Longrightarrow> x' \<noteq> 0" using assms(1) by (auto simp: halve_def split: if_splits)
  show "\<exists>s'. z' + s' = z + s \<and> unat x0 div 2 ^ s' = unat x'"
  proof (cases "drop_bit n x \<noteq> 0")
    case True
    then have "z' = z - n" "x' = drop_bit n x" using assms(1) by (auto simp: halve_def)
    moreover have "unat x0 div 2 ^ (s + n) = unat x div 2 ^ n" using assms(4) by (simp add: power_add div_mult2_eq)
    ultimately show ?thesis using d assms(5) by (intro exI[of _ "s + n"]) auto
  next
    case False
    then show ?thesis using assms(1,4) by (auto simp: halve_def)
  qed
qed

lemma clz_final:
  assumes "unat x' < 16" "z + s = w" "unat x0 div 2 ^ s = unat (x' :: 'a::len word)" "x' \<noteq> 0"
  shows "clz_table ! unat x' + z \<le> w + 3 \<and>
    2 ^ (w + 3 - (clz_table ! unat x' + z)) \<le> unat (x0 :: 'b::len word) \<and>
    unat x0 < 2 ^ (w + 4 - (clz_table ! unat x' + z))"
proof -
  have "1 \<le> unat x'" using assms(4) by (simp add: unat_gt_0 Suc_le_eq)
  from clz_table_spec[OF this assms(1)] obtain j where
    j: "j < 4" "2 ^ j \<le> unat x'" "unat x' < 2 ^ (j + 1)" "clz_table ! unat x' = 3 - j" by blast
  have e: "w + 3 - (clz_table ! unat x' + z) = s + j" "w + 4 - (clz_table ! unat x' + z) = s + (j + 1)"
    using assms(2) j(1,4) by auto
  have "2 ^ (s + j) \<le> unat x0"
    using j(2) assms(3) by (metis power_add mult.commute div_times_less_eq_dividend le_trans mult_le_mono1)
  moreover have "unat x0 < 2 ^ (s + (j + 1))"
    using j(3) assms(3) by (metis power_add mult.commute less_mult_imp_div_less div_less_iff_less_mult zero_less_numeral zero_less_power)
  ultimately show ?thesis using e assms(2) j(1,4) by auto
qed

lemma CountLeadingZeroes32_bounds:
  assumes "x \<noteq> 0"
  shows "CountLeadingZeroes32 x \<le> 31" "2 ^ (31 - CountLeadingZeroes32 x) \<le> unat x"
    "unat x < 2 ^ (32 - CountLeadingZeroes32 x)"
proof -
  obtain z1 x1 where h1: "halve 16 (28, x) = (z1, x1)" by fastforce
  obtain z2 x2 where h2: "halve 8 (z1, x1) = (z2, x2)" by fastforce
  obtain z3 x3 where h3: "halve 4 (z2, x2) = (z3, x3)" by fastforce
  have "unat x < 2 ^ (2 * 16)" using unat_less[of x] by simp
  from halve_spec[OF h1 _ this, of x 0] assms obtain s1 where s1: "unat x1 < 2 ^ 16" "z1 + s1 = 28" "unat x div 2 ^ s1 = unat x1" "x1 \<noteq> 0"
    by auto
  have "12 \<le> z1" using h1 by (auto simp: halve_def split: if_splits)
  with halve_spec[OF h2 _ _ s1(3)] s1 obtain s2 where s2: "unat x2 < 2 ^ 8" "z2 + s2 = 28" "unat x div 2 ^ s2 = unat x2" "x2 \<noteq> 0"
    by auto
  have "4 \<le> z2" using h2 \<open>12 \<le> z1\<close> by (auto simp: halve_def split: if_splits)
  with halve_spec[OF h3 _ _ s2(3)] s2 obtain s3 where s3: "unat x3 < 16" "z3 + s3 = 28" "unat x div 2 ^ s3 = unat x3" "x3 \<noteq> 0"
    by auto
  from clz_final[OF s3] show "CountLeadingZeroes32 x \<le> 31" "2 ^ (31 - CountLeadingZeroes32 x) \<le> unat x"
    "unat x < 2 ^ (32 - CountLeadingZeroes32 x)"
    by (simp_all add: CountLeadingZeroes32_def h1 h2 h3)
qed

lemma CountLeadingZeroes64_bounds:
  assumes "x \<noteq> 0"
  shows "CountLeadingZeroes64 x \<le> 63" "2 ^ (63 - CountLeadingZeroes64 x) \<le> unat x"
    "unat x < 2 ^ (64 - CountLeadingZeroes64 x)"
proof -
  obtain z0 x0 where h0: "halve 32 (60, x) = (z0, x0)" by fastforce
  obtain z1 x1 where h1: "halve 16 (z0, x0) = (z1, x1)" by fastforce
  obtain z2 x2 where h2: "halve 8 (z1, x1) = (z2, x2)" by fastforce
  obtain z3 x3 where h3: "halve 4 (z2, x2) = (z3, x3)" by fastforce
  have "unat x < 2 ^ (2 * 32)" using unat_less[of x] by simp
  from halve_spec[OF h0 _ this, of x 0] assms obtain s0 where s0: "unat x0 < 2 ^ 32" "z0 + s0 = 60" "unat x div 2 ^ s0 = unat x0" "x0 \<noteq> 0"
    by auto
  have z0: "28 \<le> z0" using h0 by (auto simp: halve_def split: if_splits)
  with halve_spec[OF h1 _ _ s0(3)] s0 obtain s1 where s1: "unat x1 < 2 ^ 16" "z1 + s1 = 60" "unat x div 2 ^ s1 = unat x1" "x1 \<noteq> 0"
    by auto
  have z1: "12 \<le> z1" using h1 z0 by (auto simp: halve_def split: if_splits)
  with halve_spec[OF h2 _ _ s1(3)] s1 obtain s2 where s2: "unat x2 < 2 ^ 8" "z2 + s2 = 60" "unat x div 2 ^ s2 = unat x2" "x2 \<noteq> 0"
    by auto
  have "4 \<le> z2" using h2 z1 by (auto simp: halve_def split: if_splits)
  with halve_spec[OF h3 _ _ s2(3)] s2 obtain s3 where s3: "unat x3 < 16" "z3 + s3 = 60" "unat x div 2 ^ s3 = unat x3" "x3 \<noteq> 0"
    by auto
  from clz_final[OF s3] show "CountLeadingZeroes64 x \<le> 63" "2 ^ (63 - CountLeadingZeroes64 x) \<le> unat x"
    "unat x < 2 ^ (64 - CountLeadingZeroes64 x)"
    by (simp_all add: CountLeadingZeroes64_def h0 h1 h2 h3)
qed

lemma clz_zero [simp]: "CountLeadingZeroes32 0 = 32" "CountLeadingZeroes64 0 = 64"
  by (simp_all add: CountLeadingZeroes32_def CountLeadingZeroes64_def halve_def clz_table_def)

subsection \<open>The lowest set bit\<close>

lemma lowest_bit:
  fixes x :: "'a::len word"
  assumes "x \<noteq> 0"
  obtains k where "k < LENGTH('a)" "bit x k" "\<forall>i < k. \<not> bit x i"
proof -
  obtain n where "bit x n" using assms by (auto simp: bit_eq_iff)
  then have "bit x (LEAST n. bit x n)" by (rule LeastI)
  then show thesis using that[of "LEAST n. bit x n"] not_less_Least[of _ "bit x"] bit_imp_le_length by blast
qed

lemma minus_one_lowest:
  fixes x :: "'a::len word"
  assumes "bit x k" "\<forall>i < k. \<not> bit x i"
  shows "x - 1 = unset_bit k x OR mask k"
proof -
  have k: "k < LENGTH('a)" using assms(1) by (rule bit_imp_le_length)
  have "x = unset_bit k x OR push_bit k 1"
    by (rule bit_word_eqI) (use assms(1) k in \<open>auto simp: bit_simps\<close>)
  moreover have "unset_bit k x OR push_bit k 1 = unset_bit k x + push_bit k 1"
    by (rule disjunctive_add[symmetric]) (auto simp: bit_simps)
  ultimately have "x - 1 = unset_bit k x + mask k"
    by (metis (no_types, lifting) add_diff_eq mask_eq_exp_minus_1 mult_1 push_bit_eq_mult)
  also have "\<dots> = unset_bit k x OR mask k"
    by (rule disjunctive_add) (use assms(2) in \<open>auto simp: bit_simps\<close>)
  finally show ?thesis .
qed

lemma isolate_lowest:
  fixes x :: "'a::len word"
  assumes "bit x k" "\<forall>i < k. \<not> bit x i"
  shows "x AND (NOT x + 1) = push_bit k 1" "x AND (x - 1) = unset_bit k x"
proof -
  have k: "k < LENGTH('a)" using assms(1) by (rule bit_imp_le_length)
  have "NOT x + 1 = - x" by (simp add: minus_eq_not_plus_1)
  then have n: "bit (NOT x + 1) n \<longleftrightarrow> n < LENGTH('a) \<and> \<not> bit (unset_bit k x OR mask k) n" for n
    by (simp add: bit_minus_iff minus_one_lowest[OF assms])
  show "x AND (NOT x + 1) = push_bit k 1"
    by (rule bit_word_eqI) (use assms k in \<open>auto simp: bit_and_iff n, auto simp: bit_simps\<close>)
  show "x AND (x - 1) = unset_bit k x"
    unfolding minus_one_lowest[OF assms]
    by (rule bit_word_eqI) (use assms in \<open>auto simp: bit_simps\<close>)
qed

lemma has_single_bit_iff:
  fixes x :: "'a::len word"
  shows "has_single_bit x \<longleftrightarrow> (\<exists>k < LENGTH('a). x = push_bit k 1)"
proof (cases "x = 0")
  case True
  then show ?thesis by (simp add: has_single_bit_def)
next
  case False
  then obtain k where k: "k < LENGTH('a)" "bit x k" "\<forall>i < k. \<not> bit x i" by (rule lowest_bit)
  have "x = push_bit k 1" if "unset_bit k x = 0"
  proof (rule bit_word_eqI)
    fix n assume "n < LENGTH('a)"
    have "bit (unset_bit k x) n = False" using that by simp
    then show "bit x n \<longleftrightarrow> bit (push_bit k 1 :: 'a word) n" using k by (auto simp: bit_simps)
  qed
  moreover have "unset_bit k x = 0" if "x = push_bit j 1" for j
  proof -
    have "j = k" using that k(2) by (auto simp: bit_simps)
    then show ?thesis using that by (intro bit_word_eqI) (auto simp: bit_simps)
  qed
  ultimately show ?thesis
    using False k(1) isolate_lowest(2)[OF k(2,3)] by (auto simp: has_single_bit_def)
qed

lemma has_single_bitI: "k < LENGTH('a) \<Longrightarrow> has_single_bit (push_bit k 1 :: 'a::len word)"
  by (auto simp: has_single_bit_iff)

lemma ctz32_power: "k < 32 \<Longrightarrow> CountTrailingZeroesNonzero32 (2 ^ k) = k"
  unfolding numeral_nat less_Suc_eq
  by (elim disjE) (simp_all add: ctz_test_def CountTrailingZeroesNonzero32_def)

lemma ctz64_power: "k < 64 \<Longrightarrow> CountTrailingZeroesNonzero64 (2 ^ k) = k"
  unfolding numeral_nat less_Suc_eq
  by (elim disjE) (simp_all add: ctz_test_def CountTrailingZeroesNonzero64_def)

lemma isolate_power: "k < LENGTH('a) \<Longrightarrow> (2 ^ k :: 'a::len word) AND (NOT (2 ^ k) + 1) = 2 ^ k"
  using isolate_lowest(1)[of "2 ^ k :: 'a word" k] by (simp add: bit_simps push_bit_eq_mult)

lemma CountTrailingZeroesNonzero32_eq:
  assumes "bit x k" "\<forall>i < k. \<not> bit x i"
  shows "CountTrailingZeroesNonzero32 x = k"
proof -
  have k: "k < 32" using bit_imp_le_length[OF assms(1)] by simp
  have "CountTrailingZeroesNonzero32 x = CountTrailingZeroesNonzero32 (2 ^ k)"
    using isolate_lowest(1)[OF assms] isolate_power[of k, where 'a = 32] k
    by (simp only: CountTrailingZeroesNonzero32_def push_bit_eq_mult mult_1) simp
  then show ?thesis using ctz32_power[OF k] by simp
qed

lemma CountTrailingZeroesNonzero64_eq:
  assumes "bit x k" "\<forall>i < k. \<not> bit x i"
  shows "CountTrailingZeroesNonzero64 x = k"
proof -
  have k: "k < 64" using bit_imp_le_length[OF assms(1)] by simp
  have "CountTrailingZeroesNonzero64 x = CountTrailingZeroesNonzero64 (2 ^ k)"
    using isolate_lowest(1)[OF assms] isolate_power[of k, where 'a = 64] k
    by (simp only: CountTrailingZeroesNonzero64_def push_bit_eq_mult mult_1) simp
  then show ?thesis using ctz64_power[OF k] by simp
qed

subsection \<open>Rounding to powers of two\<close>

lemma bit_width32_bounds:
  assumes "x \<noteq> 0"
  shows "0 < bit_width32 x" "bit_width32 x \<le> 32" "2 ^ (bit_width32 x - 1) \<le> unat x" "unat x < 2 ^ bit_width32 x"
  using CountLeadingZeroes32_bounds[OF assms] by (auto simp: bit_width32_def countl_zero32_def Suc_diff_le)

lemma bit_floor32_spec:
  assumes "x \<noteq> 0"
  shows "has_single_bit (bit_floor32 x)" "unat (bit_floor32 x) \<le> unat x" "unat x < 2 * unat (bit_floor32 x)"
proof -
  note b = bit_width32_bounds[OF assms]
  have e: "bit_floor32 x = push_bit (bit_width32 x - 1) 1" using assms by (simp add: bit_floor32_def)
  have v: "unat (push_bit (bit_width32 x - 1) 1 :: u32) = 2 ^ (bit_width32 x - 1)"
    using b(1,2) by (simp add: push_bit_eq_mult unat_power_lower)
  show "has_single_bit (bit_floor32 x)"
    unfolding e by (rule has_single_bitI) (use b(1,2) in simp)
  show "unat (bit_floor32 x) \<le> unat x" "unat x < 2 * unat (bit_floor32 x)"
    unfolding e v using b by (auto simp flip: power_Suc)
qed

text \<open>
  The bit counting routines, which use shifts and a table, give the floor and the ceiling to a
  power of two: \<open>bit_floor\<close> is the largest power of two up to the argument, \<open>bit_ceil\<close> the smallest
  one from the argument on, as long as it fits the type.
\<close>

theorem bit_floor_ceil_correct:
  assumes "x \<noteq> 0"
  shows "has_single_bit (bit_floor32 x) \<and> unat (bit_floor32 x) \<le> unat x \<and> unat x < 2 * unat (bit_floor32 x) \<and>
    (unat x \<le> 2 ^ 31 \<longrightarrow> has_single_bit (bit_ceil32 x) \<and> unat x \<le> unat (bit_ceil32 x) \<and> unat (bit_ceil32 x) < 2 * unat x)"
proof -
  note b = bit_width32_bounds[OF assms]
  have "has_single_bit (bit_ceil32 x) \<and> unat x \<le> unat (bit_ceil32 x) \<and> unat (bit_ceil32 x) < 2 * unat x"
    if small: "unat x \<le> 2 ^ 31"
  proof (cases "has_single_bit x")
    case True
    then obtain k where k: "k < 32" "x = push_bit k 1" by (auto simp: has_single_bit_iff)
    then have "unat x = 2 ^ k" by (simp add: push_bit_eq_mult unat_power_lower)
    then have "bit_width32 x - 1 = k"
      using b k(1) by (metis One_nat_def Suc_pred le_antisym less_Suc_eq_le one_less_numeral_iff power_increasing_iff
          power_strict_increasing_iff semiring_norm(76))
    then have "bit_ceil32 x = x" using True k(2) by (simp add: bit_ceil32_def)
    then show ?thesis using True \<open>unat x = 2 ^ k\<close> by simp
  next
    case False
    have "bit_width32 x < 32"
    proof (rule ccontr)
      assume "\<not> bit_width32 x < 32"
      then have "bit_width32 x = 32" using b(2) by simp
      then have "unat x = 2 ^ 31" using b(3) small by simp
      then have "x = push_bit 31 1" by (simp add: word_unat_eq_iff)
      then show False using False has_single_bitI[of 31, where 'a = 32] by simp
    qed
    moreover have e: "bit_ceil32 x = push_bit (bit_width32 x) 1"
      using False by (simp add: bit_ceil32_def BitCeilNonPowerOf2_32_def bit_width32_def countl_zero32_def)
    ultimately have "unat (bit_ceil32 x) = 2 ^ bit_width32 x" by (simp add: push_bit_eq_mult unat_power_lower)
    moreover have "x \<noteq> push_bit (bit_width32 x - 1) 1" using False b(1,2) by (auto simp: has_single_bit_iff)
    then have "unat x \<noteq> 2 ^ (bit_width32 x - 1)"
      using b(1,2) by (auto simp: word_unat_eq_iff push_bit_eq_mult unat_power_lower)
    then have "2 ^ bit_width32 x < 2 * unat x" using b(1,3) by (cases "bit_width32 x") auto
    ultimately show ?thesis
      using e b(4) \<open>bit_width32 x < 32\<close> by (auto simp: has_single_bit_iff)
  qed
  then show ?thesis using bit_floor32_spec[OF assms] by blast
qed

theorem bit_floor_ceil_correct_witness: "unat (bit_floor32 6) \<le> 6 \<and> 6 \<le> unat (bit_ceil32 6)"
  using bit_floor_ceil_correct[of 6] by simp

end
