(* ===== verification/Varint.thy ===== *)
theory Varint
  imports Bits
begin

text \<open>
  Variable-length integers of the protobuf wire format: the writers of
  \<open>google/protobuf/io/coded_stream.h\<close>, the ZigZag transform of \<open>wire_format_lite.h\<close>, and the
  optimised readers of \<open>parse_context.h\<close> and \<open>varint_shuffle.h\<close>, against a reference decoder.

  Memory at a pointer is the list of the bytes from there on. A reader returns how many bytes it
  consumed, \<open>None\<close> for the null pointer, and the value.
\<close>

subsection \<open>Reference: groups of seven bits, least significant first\<close>

definition continues :: "byte \<Rightarrow> bool" where
  "continues b \<longleftrightarrow> bit b 7"

fun varint_value :: "bytes \<Rightarrow> 'a::len word" where
  "varint_value [] = 0"
| "varint_value (b # bs) = ucast (take_bit 7 b) OR push_bit 7 (varint_value bs)"

text \<open>The first byte without a continuation bit ends the number; at most \<open>m\<close> bytes are allowed.\<close>

definition parse_varint :: "nat \<Rightarrow> bytes \<Rightarrow> (nat \<times> 'a::len word) option" where
  "parse_varint m bs =
     (let n = length (takeWhile continues bs)
      in if n < m \<and> n < length bs then Some (Suc n, varint_value (take (Suc n) bs)) else None)"

lemma bit_varint_value:
  "bit (varint_value bs :: 'a::len word) k \<longleftrightarrow> k < LENGTH('a) \<and> k div 7 < length bs \<and> bit (bs ! (k div 7)) (k mod 7)"
proof (induction bs arbitrary: k)
  case (Cons b bs)
  show ?case
  proof (cases "k < 7")
    case True
    then show ?thesis by (auto simp: bit_simps)
  next
    case False
    then have "k div 7 = Suc ((k - 7) div 7)" "(k - 7) mod 7 = k mod 7"
      by (simp_all add: le_div_geq le_mod_geq)
    moreover have "\<not> bit (take_bit 7 b) k" using False by (simp add: bit_simps)
    ultimately show ?thesis using False Cons[of "k - 7"] by (auto simp: bit_simps)
  qed
qed simp

text \<open>How many bytes a reader takes, stated by the bytes themselves.\<close>

lemma takeWhile_continues:
  assumes "\<forall>i < n. continues (bs ! i)" "n < length bs" "\<not> continues (bs ! n)"
  shows "length (takeWhile continues bs) = n"
  using assms
proof (induction bs arbitrary: n)
  case (Cons b bs)
  then show ?case
  proof (cases n)
    case (Suc m)
    with Cons.prems have "continues b" "\<forall>i < m. continues (bs ! i)" by (auto dest: spec[of _ 0] spec[of _ "Suc _"])
    then show ?thesis using Cons Suc by simp
  qed simp
qed simp

lemma parse_varint_ends:
  assumes "\<forall>i < n. continues (bs ! i)" "n < length bs" "\<not> continues (bs ! n)" "n < m"
  shows "parse_varint m bs = Some (Suc n, varint_value (take (Suc n) bs))"
  using assms takeWhile_continues[OF assms(1-3)] by (simp add: parse_varint_def)

lemma length_takeWhile_ge: "\<forall>i < m. P (xs ! i) \<Longrightarrow> m \<le> length xs \<Longrightarrow> m \<le> length (takeWhile P xs)"
proof (induction xs arbitrary: m)
  case (Cons x xs)
  then show ?case
  proof (cases m)
    case (Suc n)
    with Cons.prems have "P x" "\<forall>i < n. P (xs ! i)" by (auto dest: spec[of _ 0] spec[of _ "Suc _"])
    then show ?thesis using Cons.IH[of n] Cons.prems Suc by simp
  qed simp
qed simp

lemma parse_varint_long:
  assumes "\<forall>i < m. continues (bs ! i)" "m \<le> length bs"
  shows "parse_varint m bs = None"
  using length_takeWhile_ge[OF assms] by (simp add: parse_varint_def)

subsection \<open>Writers\<close>

text \<open>
  \<open>UnsafeVarint\<close> is a template over the unsigned types of 32 and 64 bits; the result is the list
  of the bytes written.
\<close>

function UnsafeVarint :: "'a::len word \<Rightarrow> bytes" where
  "UnsafeVarint v = (if 0x80 \<le> unat v then (ucast v OR 0x80) # UnsafeVarint (drop_bit 7 v) else [ucast v])"
  by pat_completeness auto
termination
proof (relation "measure unat")
  fix v :: "'a word"
  assume "0x80 \<le> unat v"
  moreover have "unat (drop_bit 7 v) = unat v div 2 ^ 7" unfolding unat_drop_bit_eq by (simp add: drop_bit_eq_div)
  ultimately show "(drop_bit 7 v, v) \<in> measure unat" by simp
qed simp

declare UnsafeVarint.simps [simp del]

lemma unat_drop_7: "unat (drop_bit 7 v) = unat v div 128"
  unfolding unat_drop_bit_eq by (simp add: drop_bit_eq_div)

text \<open>The same loop once more, for sizes.\<close>

function UnsafeWriteSize :: "u32 \<Rightarrow> bytes" where
  "UnsafeWriteSize value =
     (if 0x80 \<le> value then (ucast value OR 0x80) # UnsafeWriteSize (drop_bit 7 value) else [ucast value])"
  by pat_completeness auto
termination
proof (relation "measure unat")
  fix v :: u32
  assume "0x80 \<le> v"
  then have "128 \<le> unat v" by (simp add: word_le_nat_alt)
  then show "(drop_bit 7 v, v) \<in> measure unat" by (simp add: unat_drop_7)
qed simp

declare UnsafeWriteSize.simps [simp del]

lemma UnsafeWriteSize_eq: "UnsafeWriteSize v = UnsafeVarint v"
proof (induction v rule: UnsafeWriteSize.induct)
  case (1 v)
  have "0x80 \<le> v \<longleftrightarrow> 0x80 \<le> unat v" by (simp add: word_le_nat_alt)
  then show ?case
    using 1 by (subst UnsafeWriteSize.simps, subst UnsafeVarint.simps) simp
qed

lemma continues_low [simp]: "unat v < 128 \<Longrightarrow> \<not> continues (ucast v)"
proof -
  assume "unat v < 128"
  then have "drop_bit 7 v = 0" using unat_drop_7[of v] by (simp add: unat_eq_zero)
  then have "\<not> bit (drop_bit 7 v) 0" by simp
  then show ?thesis by (auto simp: continues_def bit_simps)
qed

lemma continues_high [simp]: "continues (b OR 0x80)"
  by (simp add: continues_def bit_simps)

lemma take_bit_7_high [simp]: "take_bit 7 (b OR 0x80 :: byte) = take_bit 7 b"
  by (simp add: take_bit_or)

lemma varint_value_step:
  fixes v :: "'a::len word"
  shows "ucast (take_bit 7 (ucast v :: byte)) OR push_bit 7 (drop_bit 7 v) = v"
proof (rule bit_word_eqI)
  fix n assume "n < LENGTH('a)"
  then show "bit (ucast (take_bit 7 (ucast v :: byte)) OR push_bit 7 (drop_bit 7 v) :: 'a word) n \<longleftrightarrow> bit v n"
    by (cases "n < 7") (auto simp: bit_simps)
qed

lemma varint_value_low:
  fixes v :: "'a::len word"
  assumes "unat v < 128"
  shows "ucast (take_bit 7 (ucast v :: byte)) = v"
proof (rule bit_word_eqI)
  fix n assume n: "n < LENGTH('a)"
  have "\<not> bit v n" if "7 \<le> n"
  proof -
    have "drop_bit 7 v = 0" using assms unat_drop_7[of v] by (simp add: unat_eq_zero)
    then have "\<not> bit (drop_bit 7 v) (n - 7)" by simp
    then show ?thesis using that by (simp add: bit_simps)
  qed
  then show "bit (ucast (take_bit 7 (ucast v :: byte)) :: 'a word) n \<longleftrightarrow> bit v n"
    using n by (cases "n < 7") (auto simp: bit_simps)
qed

lemma UnsafeVarint_value: "varint_value (UnsafeVarint v) = v"
proof (induction v rule: UnsafeVarint.induct)
  case (1 v)
  then show ?case
    by (subst UnsafeVarint.simps) (simp add: varint_value_step varint_value_low)
qed

lemma UnsafeVarint_shape:
  "\<exists>bs b. UnsafeVarint v = bs @ [b] \<and> (\<forall>x \<in> set bs. continues x) \<and> \<not> continues b"
proof (induction v rule: UnsafeVarint.induct)
  case (1 v)
  show ?case
  proof (cases "0x80 \<le> unat v")
    case True
    from 1[OF True] obtain bs b where "UnsafeVarint (drop_bit 7 v) = bs @ [b]" "\<forall>x \<in> set bs. continues x" "\<not> continues b" by blast
    with True show ?thesis
      by (subst UnsafeVarint.simps) (auto intro!: exI[of _ "(ucast v OR 0x80) # bs"])
  next
    case False
    then show ?thesis by (subst UnsafeVarint.simps) simp
  qed
qed

text \<open>The number of bytes: one for each started group of seven bits.\<close>

lemma length_UnsafeVarint_le: "0 < n \<Longrightarrow> length (UnsafeVarint v) \<le> n \<longleftrightarrow> unat v < 2 ^ (7 * n)"
proof (induction v arbitrary: n rule: UnsafeVarint.induct)
  case (1 v)
  show ?case
  proof (cases "0x80 \<le> unat v")
    case True
    have l: "length (UnsafeVarint v) = Suc (length (UnsafeVarint (drop_bit 7 v)))"
      using True by (subst UnsafeVarint.simps) simp
    have ne: "UnsafeVarint (drop_bit 7 v) \<noteq> []" using UnsafeVarint_shape[of "drop_bit 7 v"] by auto
    show ?thesis
    proof (cases "n = 1")
      case True
      then show ?thesis using l ne \<open>0x80 \<le> unat v\<close> by simp
    next
      case False
      then have "0 < n - 1" using 1 by simp
      moreover have "(2::nat) ^ (7 * n) = 128 * 2 ^ (7 * (n - 1))"
        using 1(2) by (cases n) (simp_all add: power_add)
      ultimately show ?thesis
        using l "1.IH"[OF True, of "n - 1"] by (auto simp: unat_drop_7 div_less_iff_less_mult mult.commute)
    qed
  next
    case False
    then have "unat v < 2 ^ 7" by simp
    moreover have "(2::nat) ^ 7 \<le> 2 ^ (7 * n)" using 1(2) by (intro power_increasing) auto
    ultimately show ?thesis using False 1(2) by (subst UnsafeVarint.simps) auto
  qed
qed

lemma length_UnsafeVarint_pos: "0 < length (UnsafeVarint v)"
  using UnsafeVarint_shape[of v] by auto

lemma length_UnsafeVarint_bound:
  "length (UnsafeVarint (v :: u32)) \<le> 5" "length (UnsafeVarint (w :: u64)) \<le> 10"
  using unat_less[of v] unat_less[of w] by (simp_all add: length_UnsafeVarint_le)

lemma parse_UnsafeVarint:
  assumes "length (UnsafeVarint v) \<le> m"
  shows "parse_varint m (UnsafeVarint v @ rest) = Some (length (UnsafeVarint v), v)"
proof -
  obtain bs b where s: "UnsafeVarint v = bs @ [b]" "\<forall>x \<in> set bs. continues x" "\<not> continues b"
    using UnsafeVarint_shape by blast
  then have "takeWhile continues (UnsafeVarint v @ rest) = bs" by simp
  then show ?thesis
    using s assms UnsafeVarint_value[of v] by (simp add: parse_varint_def)
qed

text \<open>
  What the varint writer writes is read back: the reference reader takes exactly the bytes
  written and returns the value, whatever follows them, as soon as it accepts that many bytes.
\<close>

theorem varint_roundtrip:
  assumes "length (UnsafeVarint v) \<le> m"
  shows "parse_varint m (UnsafeVarint v @ rest) = Some (length (UnsafeVarint v), v)"
  by (rule parse_UnsafeVarint[OF assms])

theorem varint_roundtrip_witness: "parse_varint 5 (UnsafeVarint (300 :: u32) @ [7]) = Some (length (UnsafeVarint (300 :: u32)), 300 :: u32)"
  using varint_roundtrip[of "300 :: u32" 5 "[7]"] length_UnsafeVarint_bound(1)[of 300] by simp

subsection \<open>Sizes\<close>

definition VarintSize32 :: "u32 \<Rightarrow> nat" where
  "VarintSize32 value = (let log2value = 31 - countl_zero32 (value OR 1) in (log2value * 9 + 73) div 64)"

definition VarintSize32PlusOne :: "u32 \<Rightarrow> nat" where
  "VarintSize32PlusOne value = (let log2value = 31 - countl_zero32 (value OR 1) in (log2value * 9 + 73 + 64) div 64)"

definition VarintSize64 :: "u64 \<Rightarrow> nat" where
  "VarintSize64 value = (let log2value = 63 - countl_zero64 (value OR 1) in (log2value * 9 + 73) div 64)"

definition VarintSize64PlusOne :: "u64 \<Rightarrow> nat" where
  "VarintSize64PlusOne value = (let log2value = 63 - countl_zero64 (value OR 1) in (log2value * 9 + 73 + 64) div 64)"

definition VarintSize32SignExtended :: "i32 \<Rightarrow> nat" where
  "VarintSize32SignExtended value = VarintSize64 (scast value)"

definition VarintSize32SignExtendedPlusOne :: "i32 \<Rightarrow> nat" where
  "VarintSize32SignExtendedPlusOne value = VarintSize64PlusOne (scast value)"

text \<open>The multiplication by 9/64 replaces the division by 7 for every logarithm that occurs.\<close>

lemma size_trick:
  assumes "l < (64 :: nat)"
  shows "(l * 9 + 73) div 64 = l div 7 + 1"
proof -
  have "\<forall>l \<in> {..<64 :: nat}. (l * 9 + 73) div 64 = l div 7 + 1" by code_simp
  then show ?thesis using assms by blast
qed

lemma unat_less_power_iff: "unat v < 2 ^ n \<longleftrightarrow> drop_bit n v = 0"
proof -
  have "unat (drop_bit n v) = unat v div 2 ^ n" unfolding unat_drop_bit_eq by (simp add: drop_bit_eq_div)
  then show ?thesis by (metis div_eq_0_iff power_not_zero unat_eq_zero zero_neq_numeral)
qed

lemma length_UnsafeVarint_or_1: "length (UnsafeVarint (v OR 1)) = length (UnsafeVarint v)"
proof -
  have "length (UnsafeVarint (v OR 1)) \<le> n \<longleftrightarrow> length (UnsafeVarint v) \<le> n" for n
  proof (cases "n = 0")
    case True
    then show ?thesis using length_UnsafeVarint_pos[of v] length_UnsafeVarint_pos[of "v OR 1"] by auto
  next
    case False
    then have "drop_bit (7 * n) (v OR 1) = drop_bit (7 * n) v"
      by (intro bit_word_eqI) (auto simp: bit_simps)
    then show ?thesis using False by (simp add: length_UnsafeVarint_le unat_less_power_iff)
  qed
  then show ?thesis by (meson le_antisym order_refl)
qed

lemma length_UnsafeVarint_log:
  assumes "2 ^ l \<le> unat v" "unat v < 2 ^ Suc l"
  shows "length (UnsafeVarint v) = l div 7 + 1"
proof (rule antisym)
  have "Suc l \<le> 7 * (l div 7 + 1)" by simp
  then have "(2::nat) ^ Suc l \<le> 2 ^ (7 * (l div 7 + 1))" by (rule power_increasing) simp
  then have "unat v < 2 ^ (7 * (l div 7 + 1))" by (rule less_le_trans[OF assms(2)])
  then show "length (UnsafeVarint v) \<le> l div 7 + 1" by (simp add: length_UnsafeVarint_le)
  have "\<not> length (UnsafeVarint v) \<le> l div 7"
  proof (cases "l div 7 = 0")
    case False
    moreover have "2 ^ (7 * (l div 7)) \<le> unat v"
      using assms(1) by (rule order_trans[rotated]) (intro power_increasing; linarith)
    ultimately show ?thesis by (simp add: length_UnsafeVarint_le)
  qed (use length_UnsafeVarint_pos[of v] in simp)
  then show "l div 7 + 1 \<le> length (UnsafeVarint v)" by simp
qed

lemma or_1_nonzero: "(v :: 'a::len word) OR 1 \<noteq> 0"
proof
  assume "v OR 1 = 0"
  then have "\<not> bit (v OR 1) 0" by simp
  then show False by (simp add: bit_simps)
qed

lemma VarintSize32_eq: "VarintSize32 v = length (UnsafeVarint v)"
proof -
  note b = CountLeadingZeroes32_bounds[OF or_1_nonzero[of v]]
  have "length (UnsafeVarint (v OR 1)) = (31 - countl_zero32 (v OR 1)) div 7 + 1"
    using b(2,3) Suc_diff_le[OF b(1)] by (intro length_UnsafeVarint_log) (simp_all add: countl_zero32_def flip: power_Suc)
  then show ?thesis
    using size_trick[of "31 - countl_zero32 (v OR 1)"] by (simp add: VarintSize32_def Let_def length_UnsafeVarint_or_1)
qed

lemma VarintSize64_eq: "VarintSize64 v = length (UnsafeVarint v)"
proof -
  note b = CountLeadingZeroes64_bounds[OF or_1_nonzero[of v]]
  have "length (UnsafeVarint (v OR 1)) = (63 - countl_zero64 (v OR 1)) div 7 + 1"
    using b(2,3) Suc_diff_le[OF b(1)] by (intro length_UnsafeVarint_log) (simp_all add: countl_zero64_def flip: power_Suc)
  then show ?thesis
    using size_trick[of "63 - countl_zero64 (v OR 1)"] by (simp add: VarintSize64_def Let_def length_UnsafeVarint_or_1)
qed

lemma VarintSize_PlusOne:
  "VarintSize32PlusOne v = VarintSize32 v + 1" "VarintSize64PlusOne w = VarintSize64 w + 1"
  by (simp_all add: VarintSize32PlusOne_def VarintSize32_def VarintSize64PlusOne_def VarintSize64_def Let_def)

text \<open>
  The size functions compute the number of bytes the writer writes, for every value of 32 and
  of 64 bits and for sign-extended ones: the multiplication by nine and the leading-zero count
  give the exact number of groups of seven bits.
\<close>

theorem varint_sizes_exact:
  "VarintSize32 v = length (UnsafeVarint v) \<and> VarintSize64 w = length (UnsafeVarint w)
   \<and> VarintSize32SignExtended i = length (UnsafeVarint (scast i :: u64))
   \<and> VarintSize32PlusOne v = length (UnsafeVarint v) + 1 \<and> VarintSize64PlusOne w = length (UnsafeVarint w) + 1
   \<and> VarintSize32SignExtendedPlusOne i = length (UnsafeVarint (scast i :: u64)) + 1"
  by (simp add: VarintSize32_eq VarintSize64_eq VarintSize_PlusOne VarintSize32SignExtended_def VarintSize32SignExtendedPlusOne_def)

subsection \<open>The ZigZag transform\<close>

text \<open>
  \<open>ZigZagEncode32\<close> and \<open>ZigZagEncode64\<close> exist twice, in \<open>wire_format_lite.h\<close> and as statics of the
  output stream in \<open>coded_stream.h\<close>, with the same text. The shift of the signed number is arithmetic.
\<close>

definition ZigZagEncode32 :: "i32 \<Rightarrow> u32" where
  "ZigZagEncode32 n = push_bit 1 n XOR signed_drop_bit 31 n"

definition ZigZagDecode32 :: "u32 \<Rightarrow> i32" where
  "ZigZagDecode32 n = drop_bit 1 n XOR (NOT (n AND 1) + 1)"

definition ZigZagEncode64 :: "i64 \<Rightarrow> u64" where
  "ZigZagEncode64 n = push_bit 1 n XOR signed_drop_bit 63 n"

definition ZigZagDecode64 :: "u64 \<Rightarrow> i64" where
  "ZigZagDecode64 n = drop_bit 1 n XOR (NOT (n AND 1) + 1)"

definition Eps_ZigZagEncode32 :: "i32 \<Rightarrow> u32" where
  "Eps_ZigZagEncode32 v = push_bit 1 v XOR signed_drop_bit 31 v"

definition Eps_ZigZagEncode64 :: "i64 \<Rightarrow> u64" where
  "Eps_ZigZagEncode64 v = push_bit 1 v XOR signed_drop_bit 63 v"

lemma negate_low_bit: "NOT ((n :: 'a::len word) AND 1) + 1 = (if bit n 0 then - 1 else 0)"
proof -
  have "n AND 1 = of_bool (bit n 0)" by (rule bit_word_eqI) (auto simp: bit_simps)
  then show ?thesis by (simp flip: minus_eq_not_plus_1)
qed

lemma bit_ZigZagEncode32: "bit (ZigZagEncode32 n) k \<longleftrightarrow> k < 32 \<and> ((0 < k \<and> bit n (k - 1)) \<noteq> bit n 31)"
  unfolding ZigZagEncode32_def bit_xor_iff bit_push_bit_iff bit_signed_drop_bit_iff
  by (auto simp: Suc_le_eq dest: bit_imp_le_length)

lemma bit_ZigZagEncode64: "bit (ZigZagEncode64 n) k \<longleftrightarrow> k < 64 \<and> ((0 < k \<and> bit n (k - 1)) \<noteq> bit n 63)"
  unfolding ZigZagEncode64_def bit_xor_iff bit_push_bit_iff bit_signed_drop_bit_iff
  by (auto simp: Suc_le_eq dest: bit_imp_le_length)

lemma ZigZagDecode_encode:
  "ZigZagDecode32 (ZigZagEncode32 i) = i" "ZigZagDecode64 (ZigZagEncode64 j) = j"
proof -
  show "ZigZagDecode32 (ZigZagEncode32 i) = i"
  proof (rule bit_word_eqI)
    fix k assume "k < LENGTH(32)"
    then show "bit (ZigZagDecode32 (ZigZagEncode32 i)) k \<longleftrightarrow> bit i k"
      unfolding ZigZagDecode32_def negate_low_bit bit_xor_iff bit_drop_bit_eq comp_def bit_ZigZagEncode32
      by (cases "k = 31") auto
  qed
  show "ZigZagDecode64 (ZigZagEncode64 j) = j"
  proof (rule bit_word_eqI)
    fix k assume "k < LENGTH(64)"
    then show "bit (ZigZagDecode64 (ZigZagEncode64 j)) k \<longleftrightarrow> bit j k"
      unfolding ZigZagDecode64_def negate_low_bit bit_xor_iff bit_drop_bit_eq comp_def bit_ZigZagEncode64
      by (cases "k = 63") auto
  qed
qed

lemma uint_zigzag:
  fixes n z :: "'a::len word"
  assumes "z = push_bit 1 n XOR (if sint n < 0 then - 1 else 0)"
  shows "uint z = (if 0 \<le> sint n then 2 * sint n else - 2 * sint n - 1)"
proof -
  have r: "- (2 ^ (LENGTH('a) - 1)) \<le> sint n" "sint n < 2 ^ (LENGTH('a) - 1)"
    using sint_range_size[of n] by (simp_all add: word_size)
  have t: "(2 :: int) ^ LENGTH('a) = 2 * 2 ^ (LENGTH('a) - 1)" by (cases "LENGTH('a)") auto
  have p: "push_bit 1 n = word_of_int (2 * sint n)"
  proof -
    have "push_bit 1 n = 2 * word_of_int (sint n)" unfolding push_bit_eq_mult by simp
    also have "\<dots> = word_of_int (2 * sint n)" by (simp only: of_int_mult of_int_numeral)
    finally show ?thesis .
  qed
  show ?thesis
  proof (cases "0 \<le> sint n")
    case True
    then have "z = word_of_int (2 * sint n)" using assms p by (simp only: not_less[symmetric] if_False xor.right_neutral)
    then have "uint z = 2 * sint n mod 2 ^ LENGTH('a)" by (simp only: uint_word_of_int)
    then show ?thesis using True r t by simp
  next
    case False
    then have "z = word_of_int (- (2 * sint n) - 1)" using assms p by (simp add: not_eq_complement)
    then have "uint z = (- (2 * sint n) - 1) mod 2 ^ LENGTH('a)" by (simp only: uint_word_of_int)
    also have "\<dots> = - (2 * sint n) - 1" using False r t by (intro mod_pos_pos_trivial) simp_all
    finally show ?thesis using False by simp
  qed
qed

lemma sint_less_0_iff: "sint (i :: i32) < 0 \<longleftrightarrow> bit i 31" "sint (j :: i64) < 0 \<longleftrightarrow> bit j 63"
  using bit_last_iff[of i] bit_last_iff[of j] by simp_all

lemma signed_shift_all: "signed_drop_bit 31 (i :: i32) = (if sint i < 0 then - 1 else 0)"
  "signed_drop_bit 63 (j :: i64) = (if sint j < 0 then - 1 else 0)"
  by (auto intro!: bit_word_eqI simp: bit_signed_drop_bit_iff sint_less_0_iff bit_simps Suc_le_eq split: if_splits)

text \<open>
  The ZigZag transform maps 0, -1, 1, -2, 2, ... to 0, 1, 2, 3, 4, ..., so numbers of small
  magnitude have short varints; decoding undoes it; the two copies of the encoder agree.
\<close>

theorem zigzag_correct:
  "uint (ZigZagEncode32 i) = (if 0 \<le> sint i then 2 * sint i else - 2 * sint i - 1)
   \<and> uint (ZigZagEncode64 j) = (if 0 \<le> sint j then 2 * sint j else - 2 * sint j - 1)
   \<and> ZigZagDecode32 (ZigZagEncode32 i) = i \<and> ZigZagDecode64 (ZigZagEncode64 j) = j
   \<and> Eps_ZigZagEncode32 i = ZigZagEncode32 i \<and> Eps_ZigZagEncode64 j = ZigZagEncode64 j"
proof -
  have "uint (ZigZagEncode32 i) = (if 0 \<le> sint i then 2 * sint i else - 2 * sint i - 1)"
    by (rule uint_zigzag) (simp only: ZigZagEncode32_def signed_shift_all)
  moreover have "uint (ZigZagEncode64 j) = (if 0 \<le> sint j then 2 * sint j else - 2 * sint j - 1)"
    by (rule uint_zigzag) (simp only: ZigZagEncode64_def signed_shift_all)
  moreover have "Eps_ZigZagEncode32 i = ZigZagEncode32 i" "Eps_ZigZagEncode64 j = ZigZagEncode64 j"
    by (simp_all only: Eps_ZigZagEncode32_def Eps_ZigZagEncode64_def ZigZagEncode32_def ZigZagEncode64_def)
  ultimately show ?thesis by (simp add: ZigZagDecode_encode)
qed

end
