(* ===== verification/Varint_Read.thy ===== *)
theory Varint_Read
  imports Varint
begin

text \<open>
  The inline readers of varints in \<open>google/protobuf/parse_context.h\<close> and
  \<open>google/protobuf/varint_shuffle.h\<close>: branch-free loads, rotations and sign-extension tricks, each
  proved equal to the reference reader \<^const>\<open>parse_varint\<close> of \<open>Varint\<close>.

  A reader gets the bytes from its pointer on. The callers guarantee that the slop bytes behind the
  buffer can be read, so the theorems assume that ten bytes (five for tags) are there. The result is
  \<open>None\<close> for a null pointer, else the number of bytes consumed and the value.
\<close>

subsection \<open>Little-endian loads\<close>

text \<open>\<open>EndianHelper<n>::Load\<close>: the \<open>n\<close> bytes at the pointer as a little-endian integer.\<close>

definition EndianHelper_Load :: "nat \<Rightarrow> bytes \<Rightarrow> 'a::len word" where
  "EndianHelper_Load n p = of_nat (le_value (take n p))"

definition UnalignedLoad16 :: "bytes \<Rightarrow> u16" where
  "UnalignedLoad16 p = EndianHelper_Load 2 p"

definition UnalignedLoad32 :: "bytes \<Rightarrow> u32" where
  "UnalignedLoad32 p = EndianHelper_Load 4 p"

definition UnalignedLoad64 :: "bytes \<Rightarrow> u64" where
  "UnalignedLoad64 p = EndianHelper_Load 8 p"

subsection \<open>The readers for 64-bit ARM\<close>

definition Ubfx7 :: "u64 \<Rightarrow> nat \<Rightarrow> u64" where
  "Ubfx7 data start = drop_bit start data AND 0x7f"

definition ExtractAndMergeTwoChunks :: "u64 \<Rightarrow> nat \<Rightarrow> u64" where
  "ExtractAndMergeTwoChunks data first_byte =
     (let first = Ubfx7 data (first_byte * 8); second = Ubfx7 data ((first_byte + 1) * 8)
      in first OR push_bit 7 second)"

text \<open>The pointer of the record is the offset from the pointer passed in.\<close>

record SlowPathEncodedInfo =
  sp_p :: nat
  last8 :: u64
  valid_bits :: nat
  valid_chunk_bits :: nat
  masked_cont_bits :: u64

definition ComputeLengthAndUpdateP :: "bytes \<Rightarrow> SlowPathEncodedInfo" where
  "ComputeLengthAndUpdateP p =
     (let l8 = UnalignedLoad64 (drop 2 p);
          masked = 0x8080808080808080 AND NOT l8;
          valid = countr_zero64 masked;
          set_continuation_bits = valid div 8
      in \<lparr> sp_p = set_continuation_bits + 3, last8 = l8, valid_bits = valid,
           valid_chunk_bits = valid - set_continuation_bits, masked_cont_bits = masked \<rparr>)"

definition VarintParseSlowArm64 :: "bytes \<Rightarrow> u64 \<Rightarrow> (nat \<times> u64) option" where
  "VarintParseSlowArm64 p first8 =
     (let info = ComputeLengthAndUpdateP p;
          merged_01 = ExtractAndMergeTwoChunks first8 0;
          merged_23 = ExtractAndMergeTwoChunks first8 2;
          merged_45 = ExtractAndMergeTwoChunks first8 4;
          result = merged_01 OR push_bit (2 * 7) merged_23 OR push_bit (4 * 7) merged_45;
          result_mask = push_bit (valid_chunk_bits info) 0xffffffffffffc000
      in if masked_cont_bits info = 0 then None
         else let result2 =
                (if valid_bits info AND 0x20 \<noteq> 0 then
                   let merged_67 = ExtractAndMergeTwoChunks first8 6;
                       merged_89 = ExtractAndMergeTwoChunks (last8 info) 6
                   in (result OR push_bit (6 * 7) merged_67) OR push_bit (8 * 7) merged_89
                 else result)
              in Some (sp_p info, result2 AND NOT result_mask))"

definition VarintParseSlowArm32 :: "bytes \<Rightarrow> u64 \<Rightarrow> (nat \<times> u32) option" where
  "VarintParseSlowArm32 p first8 =
     (let info = ComputeLengthAndUpdateP p;
          merged_12 = ExtractAndMergeTwoChunks first8 1;
          merged_34 = ExtractAndMergeTwoChunks first8 3;
          result = (Ubfx7 first8 0 OR push_bit (1 * 7) merged_12) OR push_bit (3 * 7) merged_34;
          result_mask = push_bit (valid_chunk_bits info) 0xffffffffffffc000;
          result2 = result AND NOT result_mask
      in if masked_cont_bits info = 0 then None else Some (sp_p info, ucast result2))"

definition VarintParse64_arm :: "bytes \<Rightarrow> (nat \<times> u64) option" where
  "VarintParse64_arm p =
     (let first8 = UnalignedLoad64 p in
      if first8 AND 0x80 = 0 then Some (1, ucast (ucast first8 :: byte))
      else if first8 AND 0x8000 = 0 then Some (2, Ubfx7 first8 0 OR push_bit 7 (Ubfx7 first8 8))
      else VarintParseSlowArm64 p first8)"

definition VarintParse32_arm :: "bytes \<Rightarrow> (nat \<times> u32) option" where
  "VarintParse32_arm p =
     (let first8 = UnalignedLoad64 p in
      if first8 AND 0x80 = 0 then Some (1, ucast (ucast first8 :: byte))
      else if first8 AND 0x8000 = 0 then Some (2, ucast (Ubfx7 first8 0 OR push_bit 7 (Ubfx7 first8 8)))
      else VarintParseSlowArm32 p first8)"

subsection \<open>The portable readers\<close>

text \<open>
  \<open>VarintParseSlow32\<close>, \<open>VarintParseSlow64\<close>, \<open>ReadTagFallback\<close> and \<open>ReadSizeFallback\<close> are compiled
  into the library and are parameters here; they get the pointer and what was read so far.
\<close>

definition VarintParse :: "(bytes \<Rightarrow> u32 \<Rightarrow> (nat \<times> 'a::len word) option) \<Rightarrow> bytes \<Rightarrow> (nat \<times> 'a word) option" where
  "VarintParse VarintParseSlow p =
     (let res = (ucast (p ! 0) :: u32) in
      if res AND 0x80 = 0 then Some (1, ucast res) else VarintParseSlow p res)"

definition ReadTag :: "(bytes \<Rightarrow> u32 \<Rightarrow> (nat \<times> u32) option) \<Rightarrow> bytes \<Rightarrow> (nat \<times> u32) option" where
  "ReadTag ReadTagFallback p =
     (let res = (ucast (p ! 0) :: u32) in
      if res < 128 then Some (1, res)
      else let second = (ucast (p ! 1) :: u32); res = res + push_bit 7 (second - 1)
           in if second < 128 then Some (2, res) else ReadTagFallback p res)"

definition ReadSize :: "(bytes \<Rightarrow> u32 \<Rightarrow> (nat \<times> u32) option) \<Rightarrow> bytes \<Rightarrow> (nat \<times> u32) option" where
  "ReadSize ReadSizeFallback p =
     (let res = (ucast (p ! 0) :: u32) in if res < 128 then Some (1, res) else ReadSizeFallback p res)"

text \<open>\<open>RotateLeft\<close> of \<open>parse_context.h\<close>: the distance is masked with the width minus one.\<close>

definition RotateLeft_T :: "u64 \<Rightarrow> int \<Rightarrow> u64" where
  "RotateLeft_T x s = push_bit (nat (s AND 63)) x OR drop_bit (nat ((- s) AND 63)) x"

definition RotRight7AndReplaceLowByte :: "u64 \<Rightarrow> byte \<Rightarrow> u64" where
  "RotRight7AndReplaceLowByte res b = (let res = RotateLeft_T res (- 7); res = res AND NOT 0xFF in res OR ucast b)"

definition ReadTagInlined :: "bytes \<Rightarrow> (nat \<times> u32) option" where
  "ReadTagInlined p =
     (let res = (ucast (p ! 0) :: u64) in
      if 128 \<le> res then
        let res = RotRight7AndReplaceLowByte res (p ! 1) in
        if res AND 0x80 \<noteq> 0 then
          let res = RotRight7AndReplaceLowByte res (p ! 2) in
          if res AND 0x80 \<noteq> 0 then
            let res = RotRight7AndReplaceLowByte res (p ! 3) in
            if res AND 0x80 \<noteq> 0 then
              let res = RotRight7AndReplaceLowByte res (p ! 4) in
              if res AND 0x80 \<noteq> 0 then None
              else Some (5, ucast (RotateLeft_T res 28))
            else Some (4, ucast (RotateLeft_T res 21))
          else Some (3, ucast (RotateLeft_T res 14))
        else Some (2, ucast (RotateLeft_T res 7))
      else Some (1, ucast res))"

text \<open>The number of bytes to advance and the value shifted left by one, with the continuation in bit 15.\<close>

definition DecodeTwoBytes :: "bytes \<Rightarrow> nat \<times> u32" where
  "DecodeTwoBytes p =
     (let value = (ucast (UnalignedLoad16 p) :: u32);
          x = (scast (ucast value :: byte) :: u32);
          value = value AND x;
          value = value + x
      in (if value < x then 2 else 1, value))"

text \<open>The loop of \<open>ParseBigVarint\<close> for \<open>i = 5 - k, ..., 4\<close>.\<close>

fun ParseBigVarint_loop :: "nat \<Rightarrow> bytes \<Rightarrow> u64 \<Rightarrow> (nat \<times> u64) option" where
  "ParseBigVarint_loop 0 p res = None"
| "ParseBigVarint_loop (Suc k) p res =
     (let i = 4 - k; (n, tmp) = DecodeTwoBytes (drop (2 * i) p);
          res = res + push_bit (14 * i - 1) (ucast tmp - 2)
      in if 0 \<le> sint (ucast tmp :: u16) then Some (2 * i + n, res) else ParseBigVarint_loop k p res)"

definition ParseBigVarint :: "bytes \<Rightarrow> (nat \<times> u64) option" where
  "ParseBigVarint p =
     (let (n, tmp) = DecodeTwoBytes p; res = (ucast (drop_bit 1 tmp) :: u64)
      in if 0 \<le> sint (ucast tmp :: u16) then Some (n, res) else ParseBigVarint_loop 4 p res)"

subsection \<open>Bits of a load\<close>

lemma bit_le_value: "bit (le_value bs) k \<longleftrightarrow> k div 8 < length bs \<and> bit (bs ! (k div 8)) (k mod 8)"
proof (induction bs arbitrary: k)
  case (Cons b bs)
  have d: "le_value (b # bs) = unat b OR push_bit 8 (le_value bs)"
  proof -
    have "unat b + push_bit 8 (le_value bs) = unat b OR push_bit 8 (le_value bs)"
      by (rule disjunctive_add) (auto simp: bit_simps dest: bit_imp_le_length)
    then show ?thesis by (simp add: push_bit_eq_mult mult.commute)
  qed
  show ?case
  proof (cases "k < 8")
    case True
    then show ?thesis unfolding d by (simp add: bit_simps)
  next
    case False
    then have e: "k div 8 = Suc ((k - 8) div 8)" "(k - 8) mod 8 = k mod 8"
      by (simp_all add: le_div_geq le_mod_geq)
    have "\<not> bit (unat b) k" using False by (auto simp: bit_simps dest: bit_imp_le_length)
    then show ?thesis unfolding d using False Cons[of "k - 8"] e by (simp add: bit_simps)
  qed
qed simp

lemma bit_UnalignedLoad64:
  "8 \<le> length p \<Longrightarrow> bit (UnalignedLoad64 p) k \<longleftrightarrow> k < 64 \<and> bit (p ! (k div 8)) (k mod 8)"
  by (auto simp: UnalignedLoad64_def EndianHelper_Load_def bit_of_nat_iff_bit bit_simps bit_le_value min_def)

lemma bit_UnalignedLoad16:
  "2 \<le> length p \<Longrightarrow> bit (UnalignedLoad16 p) k \<longleftrightarrow> k < 16 \<and> bit (p ! (k div 8)) (k mod 8)"
  by (auto simp: UnalignedLoad16_def EndianHelper_Load_def bit_of_nat_iff_bit bit_simps bit_le_value min_def)

lemma and_7f: "(x :: 'a::len word) AND 0x7f = take_bit 7 x"
proof -
  have "(0x7f :: 'a word) = mask 7" by (simp add: mask_eq_exp_minus_1)
  then show ?thesis by (simp only: take_bit_eq_mask)
qed

lemma Ubfx7_load:
  assumes "8 \<le> length p" "i < 8"
  shows "Ubfx7 (UnalignedLoad64 p) (i * 8) = ucast (take_bit 7 (p ! i))"
proof (rule bit_word_eqI)
  fix n assume "n < LENGTH(64)"
  show "bit (Ubfx7 (UnalignedLoad64 p) (i * 8)) n \<longleftrightarrow> bit (ucast (take_bit 7 (p ! i)) :: u64) n"
    using assms by (cases "n < 7") (auto simp: Ubfx7_def and_7f bit_simps bit_UnalignedLoad64)
qed

lemma varint_value_append: 
  "varint_value (xs @ ys) = (varint_value xs OR push_bit (7 * length xs) (varint_value ys) :: 'a::len word)"
proof (induction xs)
  case (Cons x xs)
  then show ?case by (simp add: push_bit_or push_bit_push_bit or.assoc add.commute)
qed simp

lemma take_bit_varint_value: "take_bit (7 * m) (varint_value bs :: 'a::len word) = varint_value (take m bs)"
proof (rule bit_word_eqI)
  fix k assume "k < LENGTH('a)"
  moreover have "k < 7 * m \<longleftrightarrow> k div 7 < m" by (auto simp: div_less_iff_less_mult mult.commute)
  ultimately show "bit (take_bit (7 * m) (varint_value bs) :: 'a word) k \<longleftrightarrow> bit (varint_value (take m bs) :: 'a word) k"
    by (auto simp: bit_simps bit_varint_value)
qed

lemma chunks_load:
  assumes "8 \<le> length p" "i < 7"
  shows "ExtractAndMergeTwoChunks (UnalignedLoad64 p) i = varint_value [p ! i, p ! Suc i]"
  using assms Ubfx7_load[of p i] Ubfx7_load[of p "Suc i"]
  by (simp add: ExtractAndMergeTwoChunks_def del: mult_Suc)

subsection \<open>The ARM readers are the reference reader\<close>

lemma bit_cont_mask: "bit (0x8080808080808080 :: u64) k \<longleftrightarrow> k < 64 \<and> k mod 8 = 7"
proof -
  have "(0x8080808080808080 :: u64) = UnalignedLoad64 [0x80, 0x80, 0x80, 0x80, 0x80, 0x80, 0x80, 0x80]"
    by (simp add: UnalignedLoad64_def EndianHelper_Load_def)
  moreover have "[0x80, 0x80, 0x80, 0x80, 0x80, 0x80, 0x80, 0x80] = replicate 8 (0x80 :: byte)" by code_simp
  ultimately have m: "(0x8080808080808080 :: u64) = UnalignedLoad64 (replicate 8 0x80)" by (simp only:)
  have b: "bit (0x80 :: byte) n \<longleftrightarrow> n = 7" for n
  proof -
    have "(0x80 :: byte) = 2 ^ 7" by simp
    then show ?thesis by (simp only: bit_simps) auto
  qed
  show ?thesis unfolding m using b[of "k mod 8"] by (auto simp: bit_UnalignedLoad64)
qed

lemma masked_bits:
  assumes "10 \<le> length p"
  shows "bit (0x8080808080808080 AND NOT (UnalignedLoad64 (drop 2 p))) k
    \<longleftrightarrow> k < 64 \<and> k mod 8 = 7 \<and> \<not> continues (p ! (k div 8 + 2))"
  unfolding bit_and_iff bit_not_iff bit_cont_mask continues_def
  using assms by (auto simp: bit_UnalignedLoad64 add.commute)

lemma ComputeLength_ends:
  assumes "10 \<le> length p" "j < 8" "\<forall>i < j. continues (p ! (i + 2))" "\<not> continues (p ! (j + 2))"
  shows "ComputeLengthAndUpdateP p = \<lparr> sp_p = j + 3, last8 = UnalignedLoad64 (drop 2 p), valid_bits = 8 * j + 7,
      valid_chunk_bits = 7 * j + 7, masked_cont_bits = 0x8080808080808080 AND NOT (UnalignedLoad64 (drop 2 p)) \<rparr>"
    "0x8080808080808080 AND NOT (UnalignedLoad64 (drop 2 p)) \<noteq> 0"
proof -
  let ?m = "0x8080808080808080 AND NOT (UnalignedLoad64 (drop 2 p))"
  have e: "(8 * j + 7) mod 8 = 7" "(8 * j + 7) div 8 = j" by presburger+
  have b: "bit ?m (8 * j + 7)" using assms by (simp only: masked_bits[OF assms(1)] e) simp
  have "\<forall>i < 8 * j + 7. \<not> bit ?m i"
  proof (intro allI impI notI)
    fix i assume i: "i < 8 * j + 7" "bit ?m i"
    then have "i mod 8 = 7" "\<not> continues (p ! (i div 8 + 2))" unfolding masked_bits[OF assms(1)] by blast+
    moreover from this have "i div 8 < j" using i(1) div_mult_mod_eq[of i 8] by linarith
    ultimately show False using assms(3) by blast
  qed
  then have z: "CountTrailingZeroesNonzero64 ?m = 8 * j + 7" by (rule CountTrailingZeroesNonzero64_eq[OF b])
  show nz: "?m \<noteq> 0"
  proof
    assume "?m = 0"
    then show False using b by (simp only: bit_0_eq) simp
  qed
  have c: "countr_zero64 ?m = 8 * j + 7" unfolding countr_zero64_def z using nz by (simp only: if_False)
  show "ComputeLengthAndUpdateP p = \<lparr> sp_p = j + 3, last8 = UnalignedLoad64 (drop 2 p), valid_bits = 8 * j + 7,
      valid_chunk_bits = 7 * j + 7, masked_cont_bits = ?m \<rparr>"
    unfolding ComputeLengthAndUpdateP_def Let_def c e(2) by simp
qed

lemma ComputeLength_long:
  assumes "10 \<le> length p" "\<forall>i < 8. continues (p ! (i + 2))"
  shows "masked_cont_bits (ComputeLengthAndUpdateP p) = 0"
proof -
  have "0x8080808080808080 AND NOT (UnalignedLoad64 (drop 2 p)) = 0"
  proof (rule bit_word_eqI)
    fix k assume "k < LENGTH(64)"
    then have "k div 8 < 8" by simp
    then show "bit (0x8080808080808080 AND NOT (UnalignedLoad64 (drop 2 p))) k \<longleftrightarrow> bit (0 :: u64) k"
      using assms(2) by (simp only: masked_bits[OF assms(1)] bit_0_eq) auto
  qed
  then show ?thesis by (simp add: ComputeLengthAndUpdateP_def Let_def)
qed

lemma result_mask: "x AND NOT (push_bit n 0xffffffffffffc000) = take_bit (n + 14) (x :: u64)"
proof -
  have "(0xffffffffffffc000 :: u64) = push_bit 14 (- 1)" unfolding push_bit_eq_mult by simp
  then have "NOT (push_bit n (0xffffffffffffc000 :: u64)) = NOT (push_bit (n + 14) (- 1))"
    by (simp only: push_bit_push_bit)
  also have "\<dots> = mask (n + 14)" by (intro bit_word_eqI) (auto simp: bit_simps)
  finally show ?thesis by (simp only: take_bit_eq_mask)
qed

lemma take_explicit:
  assumes "10 \<le> length p"
  shows "take 5 p = [p ! 0, p ! 1, p ! 2, p ! 3, p ! 4]"
    "take 6 p = [p ! 0, p ! 1, p ! 2, p ! 3, p ! 4, p ! 5]"
    "take 10 p = [p ! 0, p ! 1, p ! 2, p ! 3, p ! 4, p ! 5, p ! 6, p ! 7, p ! 8, p ! 9]"
proof -
  obtain b0 b1 b2 b3 b4 b5 b6 b7 b8 b9 q where "p = b0 # b1 # b2 # b3 # b4 # b5 # b6 # b7 # b8 # b9 # q"
    using assms by (auto simp: numeral_eq_Suc Suc_le_length_iff)
  then show "take 5 p = [p ! 0, p ! 1, p ! 2, p ! 3, p ! 4]"
    "take 6 p = [p ! 0, p ! 1, p ! 2, p ! 3, p ! 4, p ! 5]"
    "take 10 p = [p ! 0, p ! 1, p ! 2, p ! 3, p ! 4, p ! 5, p ! 6, p ! 7, p ! 8, p ! 9]"
    by simp_all
qed

text \<open>Two chunks at a time, then the pairs shifted into place.\<close>

lemma merged_value:
  "varint_value [a, b] OR push_bit 14 (varint_value [c, d]) OR push_bit 28 (varint_value [e, f]) 
    = (varint_value [a, b, c, d, e, f] :: 'a::len word)"
  "varint_value [a, b, c, d, e, f] OR push_bit 42 (varint_value [g, h]) OR push_bit 56 (varint_value [i, j])
    = (varint_value [a, b, c, d, e, f, g, h, i, j] :: 'a word)"
  "ucast (take_bit 7 a) OR push_bit 7 (varint_value [b, c]) OR push_bit 21 (varint_value [d, e])
    = (varint_value [a, b, c, d, e] :: 'a word)"
  using varint_value_append[of "[a, b]" "[c, d, e, f]", where 'a = 'a]
    varint_value_append[of "[c, d]" "[e, f]", where 'a = 'a]
    varint_value_append[of "[a, b, c, d, e, f]" "[g, h, i, j]", where 'a = 'a]
    varint_value_append[of "[g, h]" "[i, j]", where 'a = 'a]
    varint_value_append[of "[a]" "[b, c, d, e]", where 'a = 'a]
    varint_value_append[of "[b, c]" "[d, e]", where 'a = 'a]
  by (simp_all only: push_bit_or push_bit_push_bit or.assoc list.size append.simps varint_value.simps push_bit_of_0 or.right_neutral) 
    (simp_all add: push_bit_or push_bit_push_bit or.assoc)

lemma high_chunks:
  assumes "j < 8"
  shows "(8 * j + 7) AND 0x20 \<noteq> (0 :: nat) \<longleftrightarrow> 4 \<le> j"
proof -
  have "\<forall>j \<in> {..<8 :: nat}. (8 * j + 7) AND 0x20 \<noteq> (0 :: nat) \<longleftrightarrow> 4 \<le> j" by code_simp
  then show ?thesis using assms by blast
qed

lemma VarintParseSlowArm64_value:
  assumes "10 \<le> length p" "j < 8" "\<forall>i < j. continues (p ! (i + 2))" "\<not> continues (p ! (j + 2))"
  shows "VarintParseSlowArm64 p (UnalignedLoad64 p) = Some (j + 3, varint_value (take (j + 3) p))"
proof -
  note c = ComputeLength_ends[OF assms]
  have l: "8 \<le> length p" "8 \<le> length (drop 2 p)" using assms(1) by simp_all
  have low: "ExtractAndMergeTwoChunks (UnalignedLoad64 p) 0 OR push_bit (2 * 7) (ExtractAndMergeTwoChunks (UnalignedLoad64 p) 2)
      OR push_bit (4 * 7) (ExtractAndMergeTwoChunks (UnalignedLoad64 p) 4) = varint_value (take 6 p)"
    using merged_value(1)[of "p ! 0" "p ! 1" "p ! 2" "p ! 3" "p ! 4" "p ! 5", where 'a = 64] take_explicit(2)[OF assms(1)]
    by (simp add: chunks_load[OF l(1)] del: varint_value.simps)
  have high: "(varint_value (take 6 p) OR push_bit (6 * 7) (ExtractAndMergeTwoChunks (UnalignedLoad64 p) 6))
      OR push_bit (8 * 7) (ExtractAndMergeTwoChunks (UnalignedLoad64 (drop 2 p)) 6) = (varint_value (take 10 p) :: u64)"
    using merged_value(2)[of "p ! 0" "p ! 1" "p ! 2" "p ! 3" "p ! 4" "p ! 5" "p ! 6" "p ! 7" "p ! 8" "p ! 9", where 'a = 64]
      take_explicit[OF assms(1)] assms(1)
    by (simp add: chunks_load[OF l(1)] chunks_load[OF l(2)] or.assoc del: varint_value.simps)
  have "take_bit (7 * j + 7 + 14) (varint_value (take n p) :: u64) = varint_value (take (j + 3) p)" if "j + 3 \<le> n" for n
    using that take_bit_varint_value[of "j + 3" "take n p", where 'a = 64] by (simp add: min_def algebra_simps)
  then show ?thesis
    unfolding VarintParseSlowArm64_def c(1) Let_def low SlowPathEncodedInfo.simps high high_chunks[OF assms(2)] result_mask
    using c(2) assms(2) by (simp only: if_False) simp
qed

lemma ucast_varint_value: "ucast (varint_value bs :: u64) = (varint_value bs :: u32)"
  by (rule bit_word_eqI) (auto simp: bit_simps bit_varint_value)

lemma varint_value_take_5: "(varint_value (take (min 5 n) bs) :: u32) = varint_value (take n bs)"
proof (rule bit_word_eqI)
  fix k assume "k < LENGTH(32)"
  then have "k div 7 < 5" by simp
  then show "bit (varint_value (take (min 5 n) bs) :: u32) k \<longleftrightarrow> bit (varint_value (take n bs) :: u32) k"
    by (auto simp: bit_varint_value)
qed

lemma VarintParseSlowArm32_value:
  assumes "10 \<le> length p" "j < 8" "\<forall>i < j. continues (p ! (i + 2))" "\<not> continues (p ! (j + 2))"
  shows "VarintParseSlowArm32 p (UnalignedLoad64 p) = Some (j + 3, varint_value (take (j + 3) p))"
proof -
  note c = ComputeLength_ends[OF assms]
  have l: "8 \<le> length p" using assms(1) by simp
  have low: "(Ubfx7 (UnalignedLoad64 p) 0 OR push_bit (1 * 7) (ExtractAndMergeTwoChunks (UnalignedLoad64 p) 1))
      OR push_bit (3 * 7) (ExtractAndMergeTwoChunks (UnalignedLoad64 p) 3) = varint_value (take 5 p)"
    using merged_value(3)[of "p ! 0" "p ! 1" "p ! 2" "p ! 3" "p ! 4", where 'a = 64] take_explicit(1)[OF assms(1)]
      Ubfx7_load[OF l, of 0] 
    by (simp add: chunks_load[OF l] numeral_eq_Suc or.assoc del: varint_value.simps)
  have "take_bit (7 * j + 7 + 14) (varint_value (take 5 p) :: u64) = varint_value (take (min 5 (j + 3)) p)"
    using take_bit_varint_value[of "j + 3" "take 5 p", where 'a = 64] by (simp add: min.commute algebra_simps)
  then show ?thesis
    unfolding VarintParseSlowArm32_def c(1) Let_def low SlowPathEncodedInfo.simps result_mask
    using c(2) by (simp only: if_False ucast_varint_value varint_value_take_5)
qed

text \<open>The first two bytes are tested on the loaded word.\<close>

lemma load_tests:
  assumes "10 \<le> length p"
  shows "UnalignedLoad64 p AND 0x80 = 0 \<longleftrightarrow> \<not> continues (p ! 0)"
    "UnalignedLoad64 p AND 0x8000 = 0 \<longleftrightarrow> \<not> continues (p ! 1)"
proof -
  have b: "x AND 2 ^ n = 0 \<longleftrightarrow> \<not> bit x n" if "n < 64" for x :: u64 and n
    using that by (simp add: and_exp_eq_0_iff_not_bit)
  show "UnalignedLoad64 p AND 0x80 = 0 \<longleftrightarrow> \<not> continues (p ! 0)"
    using b[of 7 "UnalignedLoad64 p"] assms by (simp add: bit_UnalignedLoad64 continues_def)
  show "UnalignedLoad64 p AND 0x8000 = 0 \<longleftrightarrow> \<not> continues (p ! 1)"
    using b[of 15 "UnalignedLoad64 p"] assms by (simp add: bit_UnalignedLoad64 continues_def)
qed

text \<open>
  Every reader is compared with the reference by the index of the byte that ends the number:
  either one of the first \<open>m\<close> bytes does, or none.
\<close>

lemma first_end_cases:
  obtains (ends) n where "n < m" "\<forall>i < n. continues (p ! i)" "\<not> continues (p ! n)"
  | (long) "\<forall>i < m. continues (p ! i)"
proof (cases "\<exists>n < m. \<not> continues (p ! n)")
  case True
  then obtain n where "n < m" "\<not> continues (p ! n)" "\<forall>i < n. continues (p ! i)"
    using exists_least_iff[of "\<lambda>n. n < m \<and> \<not> continues (p ! n)"] by (metis order.strict_trans)
  then show ?thesis using ends by blast
qed (use long in blast)

lemma varint_value_one_two:
  "\<not> continues b \<Longrightarrow> varint_value [b] = (ucast b :: 'a::len word)"
  "varint_value [a, b] = (ucast (take_bit 7 a) OR push_bit 7 (ucast (take_bit 7 b)) :: 'a word)"
proof -
  assume "\<not> continues b"
  then have "take_bit 7 b = b"
    by (intro bit_word_eqI) (auto simp: bit_simps continues_def less_Suc_eq numeral_eq_Suc)
  then show "varint_value [b] = (ucast b :: 'a::len word)" by simp
qed simp

lemma low_byte_load: "8 \<le> length p \<Longrightarrow> ucast (UnalignedLoad64 p) = p ! 0"
  by (rule bit_word_eqI) (auto simp: bit_simps bit_UnalignedLoad64)

lemma VarintParse_arm_eq:
  assumes "10 \<le> length p"
  shows "VarintParse64_arm p = parse_varint 10 p \<and> VarintParse32_arm p = parse_varint 10 p"
proof -
  have l: "8 \<le> length p" using assms by simp
  note t = load_tests[OF assms]
  consider (one) "\<not> continues (p ! 0)" | (two) "continues (p ! 0)" "\<not> continues (p ! 1)" | (slow) "continues (p ! 0)" "continues (p ! 1)"
    by blast
  then show ?thesis
  proof cases
    case one
    have "take (Suc 0) p = [p ! 0]" using assms by (cases p) simp_all
    then have r: "parse_varint 10 p = Some (1, ucast (p ! 0) :: u64)" "parse_varint 10 p = Some (1, ucast (p ! 0) :: u32)"
      using parse_varint_ends[of 0 p 10, where 'a = 64] parse_varint_ends[of 0 p 10, where 'a = 32] one l
        varint_value_one_two(1)[OF one, where 'a = 64] varint_value_one_two(1)[OF one, where 'a = 32]
      by (cases p; auto simp del: varint_value.simps)+
    have "UnalignedLoad64 p AND 0x80 = 0" using t(1) one by blast
    then show ?thesis
      unfolding VarintParse64_arm_def VarintParse32_arm_def Let_def low_byte_load[OF l] by (simp add: r)
  next
    case two
    then have n: "UnalignedLoad64 p AND 0x80 \<noteq> 0" "UnalignedLoad64 p AND 0x8000 = 0" using t by blast+
    have "parse_varint 10 p = Some (Suc 1, varint_value (take (Suc 1) p) :: u64)"
      "parse_varint 10 p = Some (Suc 1, varint_value (take (Suc 1) p) :: u32)"
      using two assms by (intro parse_varint_ends; simp add: less_Suc_eq)+
    moreover have "take (Suc 1) p = [p ! 0, p ! 1]" using assms by (auto simp: numeral_eq_Suc Suc_le_length_iff)
    moreover have "ucast (varint_value [a, b] :: u64) = (varint_value [a, b] :: u32)" for a b by (rule ucast_varint_value)
    moreover have "Ubfx7 (UnalignedLoad64 p) 0 OR push_bit 7 (Ubfx7 (UnalignedLoad64 p) 8) = varint_value [p ! 0, p ! 1]"
      using Ubfx7_load[OF l, of 0] Ubfx7_load[OF l, of 1] by simp
    ultimately show ?thesis
      unfolding VarintParse64_arm_def VarintParse32_arm_def Let_def
      using n by (simp del: varint_value.simps)
  next
    case slow
    then have n: "UnalignedLoad64 p AND 0x80 \<noteq> 0" "UnalignedLoad64 p AND 0x8000 \<noteq> 0" using t by blast+
    have two: "\<forall>i < 2. continues (p ! i)" using slow by (simp add: numeral_2_eq_2 less_Suc_eq)
    show ?thesis
    proof (cases rule: first_end_cases[of 8 "drop 2 p"])
      case (ends j)
      then have e: "\<forall>i < j. continues (p ! (i + 2))" "\<not> continues (p ! (j + 2))" using assms by (simp_all add: add.commute)
      have c: "\<forall>i < j + 2. continues (p ! i)"
      proof (intro allI impI)
        fix i assume i: "i < j + 2"
        show "continues (p ! i)"
        proof (cases "i < 2")
          case False
          then obtain k where "i = k + 2" by (metis le_add_diff_inverse2 not_less)
          then show ?thesis using e(1) i by simp
        qed (use two in blast)
      qed
      have "parse_varint 10 p = Some (Suc (j + 2), varint_value (take (Suc (j + 2)) p) :: u64)"
        "parse_varint 10 p = Some (Suc (j + 2), varint_value (take (Suc (j + 2)) p) :: u32)"
        using ends(1) assms c e(2) by (intro parse_varint_ends; simp)+
      then show ?thesis
        using VarintParseSlowArm64_value[OF assms ends(1) e] VarintParseSlowArm32_value[OF assms ends(1) e] n
        by (simp add: VarintParse64_arm_def VarintParse32_arm_def Let_def numeral_3_eq_3)
    next
      case long
      then have e: "\<forall>i < 8. continues (p ! (i + 2))" using assms by (simp add: add.commute)
      have "\<forall>i < 10. continues (p ! i)"
      proof (intro allI impI)
        fix i :: nat assume i: "i < 10"
        show "continues (p ! i)"
        proof (cases "i < 2")
          case False
          then obtain k where "i = k + 2" by (metis le_add_diff_inverse2 not_less)
          then show ?thesis using e i by simp
        qed (use two in blast)
      qed
      then have "parse_varint 10 p = (None :: (nat \<times> u64) option)" "parse_varint 10 p = (None :: (nat \<times> u32) option)"
        using assms by (rule parse_varint_long)+
      then show ?thesis
        using ComputeLength_long[OF assms e] n
        by (simp add: VarintParse64_arm_def VarintParse32_arm_def VarintParseSlowArm64_def VarintParseSlowArm32_def Let_def)
    qed
  qed
qed

subsection \<open>Rotating tag reader\<close>

lemma RotateLeft_T_eq:
  assumes "0 < s" "s < 64"
  shows "RotateLeft_T x (int s) = push_bit s x OR drop_bit (64 - s) x"
    "RotateLeft_T x (- int s) = push_bit (64 - s) x OR drop_bit s x"
proof -
  have m: "a AND 63 = a mod 64" for a :: int
    using take_bit_eq_mask[of 6 a] by (simp add: take_bit_eq_mod mask_eq_exp_minus_1)
  have "int s mod 64 = int s" "(- int s) mod 64 = int (64 - s)"
    using assms by (simp_all add: zmod_zminus1_eq_if of_nat_diff)
  then show "RotateLeft_T x (int s) = push_bit s x OR drop_bit (64 - s) x"
    "RotateLeft_T x (- int s) = push_bit (64 - s) x OR drop_bit s x"
    by (simp_all only: RotateLeft_T_def m nat_int minus_minus)
qed

text \<open>
  After \<open>n\<close> rotations the low byte is the byte just read, the \<open>n\<close> earlier groups of seven bits
  are at the top, and nothing is between them.
\<close>

definition rotated :: "nat \<Rightarrow> bytes \<Rightarrow> u64 \<Rightarrow> bool" where
  "rotated n p res \<longleftrightarrow> (\<forall>k < 64. bit res k \<longleftrightarrow>
     (if k < 8 then bit (p ! n) k
      else if 64 - 7 * n \<le> k then bit (varint_value (take n p) :: u64) (k + 7 * n - 64) else False))"

lemma rotated_step:
  assumes "rotated n p res" "Suc n < length p" "n < 4" 
  shows "rotated (Suc n) p (RotRight7AndReplaceLowByte res (p ! Suc n))"
  unfolding rotated_def
proof (intro allI impI)
  fix k :: nat assume k: "k < 64"
  have e: "bit (RotRight7AndReplaceLowByte res (p ! Suc n)) k \<longleftrightarrow>
      (if k < 8 then bit (p ! Suc n) k else if k < 57 then bit res (k + 7) else bit res (k - 57))"
  proof -
    have ff: "bit (0xFF :: u64) k \<longleftrightarrow> k < 8"
    proof -
      have "(0xFF :: u64) = mask 8" by (simp add: mask_eq_exp_minus_1)
      then show ?thesis using k by (simp only: bit_mask_iff) simp
    qed
    have r: "RotateLeft_T res (- 7) = push_bit 57 res OR drop_bit 7 res" using RotateLeft_T_eq(2)[of 7 res] by simp
    show ?thesis
      unfolding RotRight7AndReplaceLowByte_def Let_def r bit_or_iff bit_and_iff bit_not_iff ff
      using k by (auto simp: bit_simps add.commute dest: bit_imp_le_length)
  qed
  show "bit (RotRight7AndReplaceLowByte res (p ! Suc n)) k \<longleftrightarrow>
      (if k < 8 then bit (p ! Suc n) k
       else if 64 - 7 * Suc n \<le> k then bit (varint_value (take (Suc n) p) :: u64) (k + 7 * Suc n - 64) else False)"
  proof (cases "k < 8 \<or> 57 \<le> k")
    case True
    have "k < 8 \<Longrightarrow> ?thesis" using e by simp
    moreover have ?thesis if k57: "57 \<le> k"
    proof -
      obtain m where m: "k = m + 57" using k57 by (metis le_add_diff_inverse2)
      then have d: "(k - 57 + 7 * n) div 7 = n" "(k - 57 + 7 * n) mod 7 = k - 57" using k by simp_all
      have "bit res (k - 57) \<longleftrightarrow> bit (p ! n) (k - 57)" using assms(1) k k57 unfolding rotated_def by auto
      moreover have "k + 7 * Suc n - 64 = k - 57 + 7 * n" using k57 by simp
      moreover have "k - 57 + 7 * n < 64" using k assms(3) by simp
      moreover have "64 - 7 * Suc n \<le> k" using k57 by (simp add: le_diff_conv)
      ultimately show ?thesis using e k57 k assms(2) d by (simp add: bit_varint_value del: mult_Suc_right)
    qed
    ultimately show ?thesis using True by blast
  next
    case False
    then have r: "bit res (k + 7) \<longleftrightarrow> 64 - 7 * n \<le> k + 7 \<and> bit (varint_value (take n p) :: u64) (k + 7 + 7 * n - 64)"
      using assms(1) k unfolding rotated_def by auto
    have "bit (varint_value (take (Suc n) p) :: u64) (k + 7 + 7 * n - 64) \<longleftrightarrow>
        bit (varint_value (take n p) :: u64) (k + 7 + 7 * n - 64)" if "64 - 7 * n \<le> k + 7"
    proof -
      have "(k + 7 + 7 * n - 64) div 7 < n" using False that by (simp add: div_less_iff_less_mult) linarith
      then show ?thesis using False by (auto simp: bit_varint_value)
    qed
    moreover have "k + 7 * Suc n - 64 = k + 7 + 7 * n - 64" "64 - 7 * Suc n \<le> k \<longleftrightarrow> 64 - 7 * n \<le> k + 7"
      using assms(3) by simp_all linarith
    ultimately show ?thesis using e r False by auto
  qed
qed

lemma rotated_0: "0 < length p \<Longrightarrow> rotated 0 p (ucast (p ! 0))"
  by (auto simp: rotated_def bit_simps dest: bit_imp_le_length)

lemma rotated_test: "rotated n p res \<Longrightarrow> res AND 0x80 \<noteq> 0 \<longleftrightarrow> continues (p ! n)"
  using and_exp_eq_0_iff_not_bit[of res 7] by (simp add: rotated_def continues_def)

lemma rotated_result:
  assumes "rotated n p res" "0 < n" "n < 5" "n < length p" "\<not> continues (p ! n)"
  shows "ucast (RotateLeft_T res (int (7 * n))) = (varint_value (take (Suc n) p) :: u32)"
proof (rule bit_word_eqI)
  fix k assume k: "k < LENGTH(32)"
  have r: "RotateLeft_T res (int (7 * n)) = push_bit (7 * n) res OR drop_bit (64 - 7 * n) res"
    using assms(2,3) by (intro RotateLeft_T_eq) simp_all
  show "bit (ucast (RotateLeft_T res (int (7 * n))) :: u32) k \<longleftrightarrow> bit (varint_value (take (Suc n) p) :: u32) k"
  proof (cases "k < 7 * n")
    case True
    then have "k div 7 < n" by (simp add: div_less_iff_less_mult mult.commute)
    moreover have "bit res (64 - 7 * n + k) \<longleftrightarrow> bit (varint_value (take n p) :: u64) k"
      using assms(1,3) True by (auto simp: rotated_def)
    ultimately show ?thesis using True k unfolding r by (auto simp: bit_simps bit_varint_value)
  next
    case False
    then obtain m where m: "k = 7 * n + m" by (metis le_iff_add not_less)
    have "bit res m \<longleftrightarrow> m < 7 \<and> bit (p ! n) m"
    proof -
      have "m < 64 - 7 * n" using m k assms(3) by simp
      then have "bit res m \<longleftrightarrow> m < 8 \<and> bit (p ! n) m" using assms(1) by (auto simp: rotated_def)
      then show ?thesis using assms(5) by (auto simp: continues_def less_Suc_eq numeral_eq_Suc)
    qed
    moreover have "\<not> bit res (64 - 7 * n + k)" using m assms(3) by (auto dest: bit_imp_le_length)
    moreover have "m < 7 \<Longrightarrow> (7 * n + m) div 7 = n \<and> (7 * n + m) mod 7 = m" by simp
    moreover have "\<not> m < 7 \<Longrightarrow> n < (7 * n + m) div 7" by simp
    ultimately show ?thesis using m k assms(4) unfolding r by (auto simp: bit_simps bit_varint_value)
  qed
qed

lemma low_less_128: "(128 :: u64) \<le> ucast b \<longleftrightarrow> continues b" "(ucast b :: u32) < 128 \<longleftrightarrow> \<not> continues b"
proof -
  have "unat b < 256" using unat_less[of b] by simp
  then have d: "continues b \<longleftrightarrow> 128 \<le> unat b"
  proof -
    have "continues b \<longleftrightarrow> odd (unat b div 128)"
      using bit_iff_odd[of "unat b" 7] by (simp add: continues_def bit_simps)
    moreover have "unat b div 128 = (if 128 \<le> unat b then 1 else 0)"
      using \<open>unat b < 256\<close> by (auto intro!: div_nat_eqI)
    ultimately show ?thesis by simp
  qed
  show "(128 :: u64) \<le> ucast b \<longleftrightarrow> continues b" "(ucast b :: u32) < 128 \<longleftrightarrow> \<not> continues b"
    unfolding d using \<open>unat b < 256\<close>
    by (simp_all add: word_le_nat_alt word_less_nat_alt unsigned_ucast_eq take_bit_nat_eq_self not_le)
qed

lemma ReadTagInlined_eq:
  assumes "5 \<le> length p"
  shows "ReadTagInlined p = parse_varint 5 p"
proof -
  let ?r0 = "ucast (p ! 0) :: u64"
  let ?r1 = "RotRight7AndReplaceLowByte ?r0 (p ! 1)"
  let ?r2 = "RotRight7AndReplaceLowByte ?r1 (p ! 2)"
  let ?r3 = "RotRight7AndReplaceLowByte ?r2 (p ! 3)"
  let ?r4 = "RotRight7AndReplaceLowByte ?r3 (p ! 4)"
  have r0: "rotated 0 p ?r0" using assms by (intro rotated_0) linarith
  have r1: "rotated 1 p ?r1" using rotated_step[OF r0] assms by simp
  have r2: "rotated 2 p ?r2" using rotated_step[OF r1] assms by (simp add: numeral_2_eq_2)
  have r3: "rotated 3 p ?r3" using rotated_step[OF r2] assms by (simp add: numeral_3_eq_3 numeral_2_eq_2)
  have r4: "rotated 4 p ?r4" using rotated_step[OF r3] assms by (simp add: eval_nat_numeral)
  note t = low_less_128(1) rotated_test[OF r1] rotated_test[OF r2] rotated_test[OF r3] rotated_test[OF r4]
  note res = rotated_result[OF r1] rotated_result[OF r2] rotated_result[OF r3] rotated_result[OF r4]
  show ?thesis
  proof (cases rule: first_end_cases[of 5 p])
    case (ends n)
    have ref: "parse_varint 5 p = Some (Suc n, varint_value (take (Suc n) p) :: u32)"
      using ends assms by (intro parse_varint_ends) simp_all
    have v: "ucast ?r0 = (ucast (p ! 0) :: u32)" by (rule bit_word_eqI) (auto simp: bit_simps)
    have z: "take (Suc 0) p = [p ! 0]" using assms by (cases p) simp_all
    from ends(1) consider "n = 0" | "n = 1" | "n = 2" | "n = 3" | "n = 4" by linarith
    then show ?thesis
      unfolding ReadTagInlined_def Let_def t
      using ends assms res ref varint_value_one_two(1)[of "p ! 0", where 'a = 32] z by cases (simp_all add: v less_Suc_eq eval_nat_numeral)
  next
    case long
    then have "parse_varint 5 p = (None :: (nat \<times> u32) option)" using assms by (rule parse_varint_long)
    then show ?thesis unfolding ReadTagInlined_def Let_def t using long by simp
  qed
qed

subsection \<open>Two bytes at a time\<close>

text \<open>\<open>DecodeTwoBytes\<close> in numbers: twice the value of the group or groups read, and whether the next byte counts.\<close>

lemma unat_bytes: "unat (b :: byte) < 256" "unat (take_bit 7 b) = unat b mod 128"
  using unat_less[of b] unfolding unsigned_take_bit_eq by (simp_all add: take_bit_eq_mod)

lemma continues_iff: "continues b \<longleftrightarrow> 128 \<le> unat b"
  using low_less_128(1)[of b] unat_bytes(1)[of b]
  by (simp add: word_le_nat_alt unsigned_ucast_eq take_bit_nat_eq_self)

lemma unat_load16: "2 \<le> length p \<Longrightarrow> unat (UnalignedLoad16 p) = unat (p ! 0) + 256 * unat (p ! 1)"
proof -
  assume "2 \<le> length p"
  then obtain a b q where p: "p = a # b # q" by (auto simp: numeral_2_eq_2 Suc_le_length_iff)
  have "unat a + 256 * unat b < 2 ^ 16" using unat_bytes(1)[of a] unat_bytes(1)[of b] by simp
  then show ?thesis using unat_of_nat_small[of "unat a + 256 * unat b", where 'a = 16]
    by (simp add: p UnalignedLoad16_def EndianHelper_Load_def)
qed

lemma DecodeTwoBytes_eq:
  assumes "2 \<le> length p"
  shows "DecodeTwoBytes p =
    (if continues (p ! 0) then (2, of_nat (2 * (unat (p ! 0) - 128) + 256 * unat (p ! 1)))
     else (1, of_nat (2 * unat (p ! 0))))"
proof -
  let ?v = "ucast (UnalignedLoad16 p) :: u32"
  have low: "ucast ?v = p ! 0" using assms
    by (intro bit_word_eqI) (auto simp: bit_simps bit_UnalignedLoad16)
  have v: "unat ?v = unat (p ! 0) + 256 * unat (p ! 1)"
    using unat_load16[OF assms] unat_less[of "UnalignedLoad16 p"] by (simp add: unsigned_ucast_eq take_bit_nat_eq_self)
  show ?thesis
  proof (cases "continues (p ! 0)")
    case False
    have "\<not> bit (p ! 0) n" if "7 \<le> n" for n
      using that False by (cases "n = 7") (auto simp: continues_def dest: bit_imp_le_length)
    then have x: "(scast (p ! 0) :: u32) = ucast (p ! 0)"
      using False by (intro bit_word_eqI) (auto simp: bit_simps continues_def min_def)
    have "n < 8" if "bit (p ! 0) n" for n using bit_imp_le_length[OF that] by simp
    then have a: "?v AND ucast (p ! 0) = (ucast (p ! 0) :: u32)"
      using assms by (intro bit_word_eqI) (fastforce simp: bit_simps bit_UnalignedLoad16)
    have s: "(ucast (p ! 0) :: u32) + ucast (p ! 0) = of_nat (2 * unat (p ! 0))"
      by simp
    have "\<not> (of_nat (2 * unat (p ! 0)) :: u32) < ucast (p ! 0)"
      using unat_bytes(1)[of "p ! 0"] by (simp only: word_less_nat_alt unsigned_ucast_eq unat_of_nat) (simp add: take_bit_nat_eq_self)
    then show ?thesis using False unfolding DecodeTwoBytes_def Let_def low x a s by simp
  next
    case True
    then have b0: "128 \<le> unat (p ! 0)" by (simp add: continues_iff)
    have x: "(scast (p ! 0) :: u32) = of_nat (2 ^ 32 - 256 + unat (p ! 0))"
    proof -
      have ff: "bit (NOT 0xFF :: u32) k \<longleftrightarrow> k < 32 \<and> 8 \<le> k" for k
      proof -
        have "(0xFF :: u32) = mask 8" by (simp add: mask_eq_exp_minus_1)
        then show ?thesis by (simp only: bit_not_iff bit_mask_iff) auto
      qed
      have "scast (p ! 0) = (ucast (p ! 0) OR NOT 0xFF :: u32)"
      proof (rule bit_word_eqI)
        fix n assume n: "n < LENGTH(32)"
        consider "n < 7" | "n = 7" | "8 \<le> n" by linarith
        then show "bit (scast (p ! 0) :: u32) n \<longleftrightarrow> bit (ucast (p ! 0) OR NOT 0xFF :: u32) n"
          unfolding bit_or_iff ff using True n by cases (simp_all add: bit_simps continues_def)
      qed
      also have "\<dots> = ucast (p ! 0) + NOT 0xFF"
        by (rule disjunctive_add[symmetric]) (auto simp only: ff, auto simp: bit_simps dest: bit_imp_le_length)
      also have "\<dots> = of_nat (2 ^ 32 - 256 + unat (p ! 0))" by simp
      finally show ?thesis .
    qed
    have a: "?v AND scast (p ! 0) = ?v"
      using assms True
      by (intro bit_word_eqI) (auto simp: bit_simps bit_UnalignedLoad16 continues_def min_def dest: bit_imp_le_length)
    have "?v = of_nat (unat (p ! 0) + 256 * unat (p ! 1))" by (simp only: v[symmetric] of_nat_unat ucast_id)
    then have "?v + scast (p ! 0) = of_nat (unat (p ! 0) + 256 * unat (p ! 1) + (2 ^ 32 - 256 + unat (p ! 0)))"
      by (simp only: x of_nat_add)
    also have "unat (p ! 0) + 256 * unat (p ! 1) + (2 ^ 32 - 256 + unat (p ! 0))
        = 2 ^ 32 + (2 * (unat (p ! 0) - 128) + 256 * unat (p ! 1))" using b0 by simp
    also have "(of_nat (2 ^ 32 + (2 * (unat (p ! 0) - 128) + 256 * unat (p ! 1))) :: u32)
        = of_nat (2 * (unat (p ! 0) - 128) + 256 * unat (p ! 1))" by (simp only: of_nat_add) simp
    finally have s: "?v + scast (p ! 0) = of_nat (2 * (unat (p ! 0) - 128) + 256 * unat (p ! 1))" .
    have "(of_nat (2 * (unat (p ! 0) - 128) + 256 * unat (p ! 1)) :: u32) < scast (p ! 0)"
      using unat_bytes(1)[of "p ! 0"] unat_bytes(1)[of "p ! 1"] unfolding x
      by (simp only: word_less_nat_alt unat_of_nat take_bit_nat_eq_self) (simp add: take_bit_nat_eq_self)
    then show ?thesis using True unfolding DecodeTwoBytes_def Let_def low a s by simp
  qed
qed

text \<open>The value of a varint as a sum, for arithmetic on words.\<close>

lemma varint_value_sum: "varint_value (b # bs) = (of_nat (unat b mod 128) + 128 * varint_value bs :: 'a::len word)"
proof -
  have "ucast (take_bit 7 b) OR push_bit 7 (varint_value bs) = (ucast (take_bit 7 b) + push_bit 7 (varint_value bs) :: 'a word)"
    by (rule disjunctive_add[symmetric]) (auto simp: bit_simps)
  moreover have "ucast (take_bit 7 b) = (of_nat (unat b mod 128) :: 'a word)"
    by (simp only: unat_bytes(2)[symmetric] of_nat_unat)
  ultimately show ?thesis by (simp add: push_bit_eq_mult mult.commute)
qed

lemma varint_value_snoc2:
  assumes "n + 1 < length p"
  shows "varint_value (take (n + 2) p) = (varint_value (take n p) + 2 ^ (7 * n) *
     (of_nat (unat (p ! n) mod 128) + 128 * of_nat (unat (p ! (n + 1)) mod 128)) :: 'a::len word)"
    "varint_value (take (n + 1) p) = (varint_value (take n p) + 2 ^ (7 * n) * of_nat (unat (p ! n) mod 128) :: 'a word)"
  using assms
proof (induction n arbitrary: p)
  case 0
  case 1
  then obtain a b q where "p = a # b # q" by (cases p rule: list.exhaust[case_product list.exhaust]) (auto simp: Suc_less_eq2 length_Suc_conv less_eq_Suc_le Suc_le_length_iff)
  then show ?case by (simp add: varint_value_sum del: varint_value.simps(2))
next
  case 0
  case 2
  then obtain a q where "p = a # q" by (cases p) auto
  then show ?case by (simp add: varint_value_sum del: varint_value.simps(2))
next
  case (Suc n)
  case 1
  then obtain a q where "p = a # q" by (cases p) auto
  then show ?case using Suc(1)[of q] 1 by (simp add: varint_value_sum power_add algebra_simps del: varint_value.simps(2))
next
  case (Suc n)
  case 2
  then obtain a q where "p = a # q" by (cases p) auto
  then show ?case using Suc(2)[of q] 2 by (simp add: varint_value_sum power_add algebra_simps del: varint_value.simps(2))
qed

text \<open>The test of bit 15 is the test that both bytes continue.\<close>

lemma DecodeTwoBytes_sign:
  assumes "2 \<le> length p" "DecodeTwoBytes p = (n, tmp)"
  shows "0 \<le> sint (ucast tmp :: u16) \<longleftrightarrow> \<not> (continues (p ! 0) \<and> continues (p ! 1))"
proof -
  have "0 \<le> sint (ucast tmp :: u16) \<longleftrightarrow> \<not> bit tmp 15"
    using bit_last_iff[of "ucast tmp :: u16"] by (auto simp: bit_simps)
  moreover have "bit tmp 15 \<longleftrightarrow> odd (unat tmp div 2 ^ 15)"
    using bit_iff_odd[of "unat tmp" 15] by (simp add: bit_simps)
  moreover note signs = calculation
  have u: "unat tmp = (if continues (p ! 0) then 2 * (unat (p ! 0) - 128) + 256 * unat (p ! 1) else 2 * unat (p ! 0))"
    using assms DecodeTwoBytes_eq[OF assms(1)] unat_bytes(1)[of "p ! 0"] unat_bytes(1)[of "p ! 1"]
    by (auto split: if_splits simp del: of_nat_add of_nat_mult intro!: unat_of_nat_small)
  have "odd (unat tmp div 2 ^ 15) \<longleftrightarrow> 2 ^ 15 \<le> unat tmp"
  proof -
    have "unat tmp < 2 ^ 16" using u unat_bytes(1)[of "p ! 0"] unat_bytes(1)[of "p ! 1"] by (auto split: if_splits)
    then have "unat tmp div 2 ^ 15 = (if 2 ^ 15 \<le> unat tmp then 1 else 0)" by (auto intro!: div_nat_eqI)
    then show ?thesis by simp
  qed
  moreover have "2 ^ 15 \<le> unat tmp \<longleftrightarrow> continues (p ! 0) \<and> continues (p ! 1)"
    using u unat_bytes(1)[of "p ! 0"] unat_bytes(1)[of "p ! 1"] by (auto simp: continues_iff split: if_splits)
  ultimately show ?thesis using signs by blast
qed

lemma two_byte_term:
  assumes "2 * T < 2 ^ 32" "0 < i"
  shows "push_bit (14 * i - 1) (ucast (of_nat (2 * T) :: u32) - 2 :: u64) = 2 ^ (14 * i) * (of_nat T - 1)"
proof -
  have "(ucast (of_nat (2 * T) :: u32) :: u64) = of_nat (unat (of_nat (2 * T) :: u32))" by (simp only: of_nat_unat)
  also have "\<dots> = 2 * of_nat T" using assms(1) unat_of_nat_small[of "2 * T", where 'a = 32] by (simp del: of_nat_mult) simp
  finally have u: "(ucast (of_nat (2 * T) :: u32) :: u64) = 2 * of_nat T" .
  have "(2 :: u64) ^ (14 * i) = 2 ^ (14 * i - 1) * 2" using assms(2) by (metis power_minus_mult mult_pos_pos zero_less_numeral)
  then show ?thesis unfolding u push_bit_eq_mult by (simp add: algebra_simps)
qed

text \<open>
  The invariant of the loop: two \<open>i\<close> bytes are read, all of them continue, and the sum still
  contains the continuation bit of the last one, which the next step subtracts.
\<close>

lemma ParseBigVarint_loop_eq:
  assumes "10 \<le> length p" "k \<le> 4" "i = 5 - k" "\<forall>j < 2 * i. continues (p ! j)"
    "res = varint_value (take (2 * i) p) + 2 ^ (14 * i)"
  shows "ParseBigVarint_loop k p res = parse_varint 10 p"
  using assms(2-)
proof (induction k arbitrary: i res)
  case 0
  then show ?case using assms(1) by (simp add: parse_varint_long)
next
  case (Suc k)
  then have i: "i = 4 - k" "0 < i" "i \<le> 4" by simp_all
  obtain n tmp where d: "DecodeTwoBytes (drop (2 * i) p) = (n, tmp)" by fastforce
  have l: "2 \<le> length (drop (2 * i) p)" using assms(1) i by simp
  have at: "drop (2 * i) p ! 0 = p ! (2 * i)" "drop (2 * i) p ! 1 = p ! (2 * i + 1)" using assms(1) i by simp_all
  note e = DecodeTwoBytes_eq[OF l, unfolded d at] and sg = DecodeTwoBytes_sign[OF l d, unfolded at]
  let ?r = "res + push_bit (14 * i - 1) (ucast tmp - 2)"
  have unf: "ParseBigVarint_loop (Suc k) p res =
      (if continues (p ! (2 * i)) \<and> continues (p ! (2 * i + 1)) then ParseBigVarint_loop k p ?r else Some (2 * i + n, ?r))"
    using d i by (simp add: sg Let_def)
  define T where "T = (if continues (p ! (2 * i)) then unat (p ! (2 * i)) - 128 + 128 * unat (p ! (2 * i + 1)) else unat (p ! (2 * i)))"
  have tmp: "n = (if continues (p ! (2 * i)) then 2 else 1)" "tmp = of_nat (2 * T)"
    using e by (auto simp: T_def split: if_splits)
  have T: "2 * T < 2 ^ 32"
    using unat_bytes(1)[of "p ! (2 * i)"] unat_bytes(1)[of "p ! (2 * i + 1)"] by (auto simp: T_def)
  have r: "?r = varint_value (take (2 * i) p) + 2 ^ (14 * i) * of_nat T"
    unfolding Suc.prems(4) tmp(2) two_byte_term[OF T i(2)] by (simp add: algebra_simps)
  have l': "2 * i + 1 < length p" using assms(1) i by simp
  note v = varint_value_snoc2[OF l', where 'a = 64]
  have m: "continues c \<Longrightarrow> unat c - 128 = unat c mod 128" "\<not> continues c \<Longrightarrow> unat c mod 128 = unat c" for c :: byte
    using unat_bytes(1)[of c] by (auto simp: continues_iff mod_if)
  have pw: "2 ^ (7 * (2 * i)) = (2 ^ (14 * i) :: u64)" by simp
  consider (one) "\<not> continues (p ! (2 * i))" | (two) "continues (p ! (2 * i))" "\<not> continues (p ! (2 * i + 1))"
    | (go) "continues (p ! (2 * i))" "continues (p ! (2 * i + 1))" by blast
  then show ?case
  proof cases
    case one
    have "?r = varint_value (take (2 * i + 1) p)" unfolding r v(2) pw using one by (simp add: T_def m(2))
    then show ?thesis
      using parse_varint_ends[of "2 * i" p 10, where 'a = 64] Suc.prems(3) one assms(1) i
      unfolding unf tmp(1) by simp
  next
    case two
    have "?r = varint_value (take (2 * i + 2) p)" unfolding r v(1) pw using two by (simp add: T_def m)
    moreover have "\<forall>j < 2 * i + 1. continues (p ! j)" using Suc.prems(3) two(1) by (simp add: less_Suc_eq)
    ultimately show ?thesis
      using parse_varint_ends[of "2 * i + 1" p 10, where 'a = 64] two assms(1) i
      unfolding unf tmp(1) by simp
  next
    case go
    have "unat (p ! (2 * i + 1)) = unat (p ! (2 * i + 1)) mod 128 + 128"
      using m(1)[OF go(2)] go(2) unfolding continues_iff by linarith
    then have "T = unat (p ! (2 * i)) mod 128 + 128 * (unat (p ! (2 * i + 1)) mod 128) + 16384"
      using m(1)[OF go(1)] go(1) unfolding T_def by (simp add: algebra_simps)
    then have "?r = varint_value (take (2 * (i + 1)) p) + 2 ^ (14 * (i + 1))"
      unfolding r using v(1) pw by (simp add: algebra_simps power_add)
    moreover have "\<forall>j < 2 * (i + 1). continues (p ! j)" using Suc.prems(3) go by (simp add: less_Suc_eq)
    moreover have "i + 1 = 5 - k" "k \<le> 4" using Suc.prems(1,2) by simp_all
    ultimately have "ParseBigVarint_loop k p ?r = parse_varint 10 p" by (intro Suc.IH[of "i + 1"])
    then show ?thesis using go unfolding unf by (simp only: simp_thms if_True)
  qed
qed

lemma ParseBigVarint_eq:
  assumes "10 \<le> length p"
  shows "ParseBigVarint p = parse_varint 10 p"
proof -
  have l: "2 \<le> length p" using assms by simp
  obtain n tmp where d: "DecodeTwoBytes p = (n, tmp)" by fastforce
  note e = DecodeTwoBytes_eq[OF l, unfolded d] and sg = DecodeTwoBytes_sign[OF l d]
  have l': "0 + 1 < length p" using assms by simp
  have v: "varint_value (take 2 p) = (of_nat (unat (p ! 0) mod 128) + 128 * of_nat (unat (p ! 1) mod 128) :: u64)"
    "varint_value (take (Suc 0) p) = (of_nat (unat (p ! 0) mod 128) :: u64)"
    using varint_value_snoc2[OF l', where 'a = 64] by (simp_all add: numeral_2_eq_2)
  define T where "T = (if continues (p ! 0) then unat (p ! 0) - 128 + 128 * unat (p ! 1) else unat (p ! 0))"
  have tmp: "n = (if continues (p ! 0) then 2 else 1)" "tmp = of_nat (2 * T)"
    using e by (auto simp: T_def split: if_splits)
  have T: "2 * T < 2 ^ 32"
    using unat_bytes(1)[of "p ! 0"] unat_bytes(1)[of "p ! 1"] by (auto simp: T_def)
  have r: "(ucast (drop_bit 1 tmp) :: u64) = of_nat T"
  proof -
    have "unat (drop_bit 1 tmp) = T"
      unfolding unat_drop_bit_eq tmp(2) using unat_of_nat_small[of "2 * T", where 'a = 32] T by (simp add: drop_bit_eq_div del: of_nat_mult)
    then show ?thesis by (metis of_nat_unat)
  qed
  have m: "continues c \<Longrightarrow> unat c - 128 = unat c mod 128" "\<not> continues c \<Longrightarrow> unat c mod 128 = unat c" for c :: byte
    using unat_bytes(1)[of c] by (auto simp: continues_iff mod_if)
  consider (one) "\<not> continues (p ! 0)" | (two) "continues (p ! 0)" "\<not> continues (p ! 1)" | (go) "continues (p ! 0)" "continues (p ! 1)"
    by blast
  then show ?thesis
  proof cases
    case one
    have "of_nat T = (varint_value (take (Suc 0) p) :: u64)" unfolding v(2) using one by (simp add: T_def m(2))
    then show ?thesis
      using parse_varint_ends[of 0 p 10, where 'a = 64] one l tmp(1) d r sg by (cases p) (simp_all add: ParseBigVarint_def)
  next
    case two
    have "of_nat T = (varint_value (take 2 p) :: u64)" unfolding v(1) using two by (simp add: T_def m)
    then show ?thesis
      using parse_varint_ends[of 1 p 10, where 'a = 64] two assms tmp(1) d r sg
      by (simp add: ParseBigVarint_def numeral_2_eq_2)
  next
    case go
    have "unat (p ! 1) = unat (p ! 1) mod 128 + 128" using m(1)[OF go(2)] go(2) unfolding continues_iff by linarith
    then have "T = unat (p ! 0) mod 128 + 128 * (unat (p ! 1) mod 128) + 16384"
      using m(1)[OF go(1)] go(1) unfolding T_def by (simp add: algebra_simps)
    then have "of_nat T = (varint_value (take (2 * 1) p) + 2 ^ (14 * 1) :: u64)" using v(1) by simp
    moreover have "\<forall>j < 2 * 1. continues (p ! j)" using go by (simp add: less_Suc_eq numeral_2_eq_2)
    ultimately have "ParseBigVarint_loop 4 p (of_nat T) = parse_varint 10 p"
      using ParseBigVarint_loop_eq[OF assms, of 4 1 "of_nat T"] by simp
    then show ?thesis using go d r sg by (simp add: ParseBigVarint_def)
  qed
qed

subsection \<open>Correctness of the readers\<close>

lemma byte_test: "(ucast b :: u32) AND 0x80 = 0 \<longleftrightarrow> \<not> continues b"
  using and_exp_eq_0_iff_not_bit[of "ucast b :: u32" 7] by (simp add: continues_def bit_simps)

lemma VarintParse_first:
  assumes "0 < length p" "0 < m" "\<not> continues (p ! 0)"
  shows "VarintParse slow p = parse_varint m p"
proof -
  have "take (Suc 0) p = [p ! 0]" using assms(1) by (cases p) simp_all
  moreover have "ucast (ucast (p ! 0) :: u32) = (ucast (p ! 0) :: 'a::len word)"
    by (rule bit_word_eqI) (auto simp: bit_simps dest: bit_imp_le_length)
  ultimately show ?thesis
    using parse_varint_ends[of 0 p m, where 'a = 'a] assms varint_value_one_two(1)[OF assms(3), where 'a = 'a]
    by (simp add: VarintParse_def byte_test del: varint_value.simps)
qed

lemma ReadTag_two:
  assumes "5 \<le> length p"
  shows "\<not> (continues (p ! 0) \<and> continues (p ! 1)) \<Longrightarrow> ReadTag fb p = parse_varint 5 p"
    "continues (p ! 0) \<Longrightarrow> continues (p ! 1) \<Longrightarrow> ReadTag fb p = fb p (varint_value (take 2 p) + 2 ^ 14)"
proof -
  have l: "0 + 1 < length p" using assms by simp
  have v: "varint_value (take 2 p) = (of_nat (unat (p ! 0) mod 128) + 128 * of_nat (unat (p ! 1) mod 128) :: u32)"
    "varint_value (take (Suc 0) p) = (of_nat (unat (p ! 0) mod 128) :: u32)"
    using varint_value_snoc2[OF l, where 'a = 32] by (simp_all add: numeral_2_eq_2)
  have m: "(ucast c :: u32) = of_nat (unat c mod 128) + (if continues c then 128 else 0)" for c :: byte
  proof -
    have "unat c = unat c mod 128 + (if continues c then 128 else 0)"
      using unat_bytes(1)[of c] by (auto simp: continues_iff mod_if)
    then have "of_nat (unat c) = (of_nat (unat c mod 128 + (if continues c then 128 else 0)) :: u32)" by (rule arg_cong)
    then show ?thesis by (simp split: if_splits)
  qed
  show "ReadTag fb p = parse_varint 5 p" if "\<not> (continues (p ! 0) \<and> continues (p ! 1))"
  proof (cases "continues (p ! 0)")
    case False
    have "varint_value (take (Suc 0) p) = (ucast (p ! 0) :: u32)" using m[of "p ! 0"] False v(2) by simp
    moreover have "parse_varint 5 p = Some (Suc 0, varint_value (take (Suc 0) p) :: u32)"
      using False l by (intro parse_varint_ends) auto
    ultimately show ?thesis using False by (simp add: ReadTag_def low_less_128)
  next
    case True
    then have c: "\<not> continues (p ! 1)" using that by blast
    have "ucast (p ! 0) + push_bit 7 (ucast (p ! 1) - 1) = (varint_value (take 2 p) :: u32)"
      using m[of "p ! 0"] m[of "p ! 1"] True c v(1) by (simp add: push_bit_eq_mult algebra_simps)
    then show ?thesis
      using parse_varint_ends[of 1 p 5, where 'a = 32] True c assms by (simp add: ReadTag_def low_less_128 numeral_2_eq_2)
  qed
  show "ReadTag fb p = fb p (varint_value (take 2 p) + 2 ^ 14)" if "continues (p ! 0)" "continues (p ! 1)"
  proof -
    have "ucast (p ! 0) + push_bit 7 (ucast (p ! 1) - 1) = (varint_value (take 2 p) + 2 ^ 14 :: u32)"
      using m[of "p ! 0"] m[of "p ! 1"] that v(1) by (simp add: push_bit_eq_mult algebra_simps)
    then show ?thesis using that by (simp add: ReadTag_def low_less_128)
  qed
qed

text \<open>
  C24: The optimised readers of 32- and 64-bit varints, the branch-reduced ones for ARM and the one
  that decodes two bytes at a time, consume the same bytes and return the same value as the
  reference reader for every ten readable bytes, and reject exactly the varints that do not end
  within ten bytes.
\<close>

theorem varint_readers_are_reference:
  assumes "10 \<le> length p"
  shows "VarintParse64_arm p = parse_varint 10 p \<and> VarintParse32_arm p = parse_varint 10 p
    \<and> ParseBigVarint p = parse_varint 10 p \<and> (\<not> continues (p ! 0) \<longrightarrow> VarintParse slow p = parse_varint 10 p)"
  using VarintParse_arm_eq[OF assms] ParseBigVarint_eq[OF assms] VarintParse_first[of p 10 slow] assms by fastforce

theorem varint_readers_are_reference_witness:
  "ParseBigVarint [0xAC, 2, 0, 0, 0, 0, 0, 0, 0, 0] = Some (2, 300)"
  using varint_readers_are_reference[of "[0xAC, 2, 0, 0, 0, 0, 0, 0, 0, 0]"]
  by (simp add: parse_varint_def continues_def)

text \<open>
  The two tag readers agree with the reference on at most five bytes: the rotating one always,
  the summing one for tags of one and two bytes, and for longer tags the latter hands its compiled
  continuation the value of the two groups with the second continuation bit still in it.
\<close>

theorem tag_readers_are_reference:
  assumes "5 \<le> length p"
  shows "ReadTagInlined p = parse_varint 5 p
    \<and> (\<not> (continues (p ! 0) \<and> continues (p ! 1)) \<longrightarrow> ReadTag fb p = parse_varint 5 p)
    \<and> (continues (p ! 0) \<and> continues (p ! 1) \<longrightarrow> ReadTag fb p = fb p (varint_value (take 2 p) + 2 ^ 14))"
  using ReadTagInlined_eq[OF assms] ReadTag_two[OF assms] by blast

theorem tag_readers_are_reference_witness:
  "ReadTagInlined [0x92, 3, 0, 0, 0] = Some (2, 402)"
  using tag_readers_are_reference[of "[0x92, 3, 0, 0, 0]"] by (simp add: parse_varint_def continues_def)

end
