(* ===== verification/Varint_Shuffle.thy ===== *)
theory Varint_Shuffle
  imports Varint_Read
begin

text \<open>
  \<open>google/protobuf/varint_shuffle.h\<close>: the varint parser that combines sign-extended, shifted bytes
  with bitwise AND. The parser is a template over the width of the number and the maximal number of
  bytes; both are arguments here. The result is \<open>None\<close> for the null pointer, else the number of
  bytes consumed and the accumulated \<open>res1\<close>.
\<close>

definition VarintShlByte :: "nat \<Rightarrow> byte \<Rightarrow> i64 \<Rightarrow> i64" where
  "VarintShlByte n b ones = push_bit (n * 7) (scast b) OR drop_bit (64 - n * 7) ones"

definition VarintShlAnd :: "nat \<Rightarrow> byte \<Rightarrow> i64 \<Rightarrow> i64 \<Rightarrow> bool \<times> i64" where
  "VarintShlAnd n b ones res = (let res = res AND VarintShlByte n b ones in (0 \<le> sint res, res))"

definition VarintShl :: "nat \<Rightarrow> byte \<Rightarrow> i64 \<Rightarrow> bool \<times> i64" where
  "VarintShl n b ones = (let res = VarintShlByte n b ones in (0 \<le> sint res, res))"

text \<open>The labels \<open>done2\<close> and \<open>limit2\<close>, and \<open>done1\<close> and \<open>limit1\<close>, are followed by the same statements.\<close>

definition done2 :: "nat \<Rightarrow> i64 \<Rightarrow> i64 \<Rightarrow> i64 \<Rightarrow> (nat \<times> i64) option" where
  "done2 p res1 res2 res3 = (let res2 = res2 AND res3 in Some (p, res1 AND res2))"

text \<open>The bytes 5 to 8 of a 32-bit varint are only tested for their continuation bit.\<close>

definition ends_here :: "byte \<Rightarrow> bool" where
  "ends_here b \<longleftrightarrow> b AND 0x80 = 0"

definition ShiftMix_tenth :: "bool \<Rightarrow> bytes \<Rightarrow> i64 \<Rightarrow> i64 \<Rightarrow> i64 \<Rightarrow> (nat \<times> i64) option" where
  "ShiftMix_tenth is64 p res1 res2 res3 =
     (if p ! 9 = 1 then done2 10 res1 res2 res3
      else if p ! 9 AND 0x80 \<noteq> 0 then None
      else if is64 \<and> p ! 9 AND 1 = 0 then done2 10 res1 res2 (res3 XOR push_bit 63 1)
      else done2 10 res1 res2 res3)"

definition ShiftMix_mid64 :: "nat \<Rightarrow> bytes \<Rightarrow> i64 \<Rightarrow> i64 \<Rightarrow> i64 \<Rightarrow> (nat \<times> i64) option" where
  "ShiftMix_mid64 limit p res1 res2 res3 =
     (let (ok, res2) = VarintShlAnd 5 (p ! 5) res1 res2 in
      if ok \<or> limit \<le> 6 then done2 6 res1 res2 res3 else
      let (ok, res3) = VarintShlAnd 6 (p ! 6) res1 res3 in
      if ok \<or> limit \<le> 7 then done2 7 res1 res2 res3 else
      let (ok, res2) = VarintShlAnd 7 (p ! 7) res1 res2 in
      if ok \<or> limit \<le> 8 then done2 8 res1 res2 res3 else
      let (ok, res3) = VarintShlAnd 8 (p ! 8) res1 res3 in
      if ok \<or> limit \<le> 9 then done2 9 res1 res2 res3 else
      ShiftMix_tenth True p res1 res2 res3)"

definition ShiftMix_mid32 :: "nat \<Rightarrow> bytes \<Rightarrow> i64 \<Rightarrow> i64 \<Rightarrow> i64 \<Rightarrow> (nat \<times> i64) option" where
  "ShiftMix_mid32 limit p res1 res2 res3 =
     (if ends_here (p ! 5) \<or> limit \<le> 6 then done2 6 res1 res2 res3
      else if ends_here (p ! 6) \<or> limit \<le> 7 then done2 7 res1 res2 res3
      else if ends_here (p ! 7) \<or> limit \<le> 8 then done2 8 res1 res2 res3
      else if ends_here (p ! 8) \<or> limit \<le> 9 then done2 9 res1 res2 res3
      else ShiftMix_tenth False p res1 res2 res3)"

definition ShiftMixParseVarint :: "bool \<Rightarrow> nat \<Rightarrow> bytes \<Rightarrow> (nat \<times> i64) option" where
  "ShiftMixParseVarint is64 limit p =
     (let res1 = scast (p ! 0) in
      if 0 \<le> sint res1 \<or> limit \<le> 1 then Some (1, res1) else
      let (ok, res2) = VarintShl 1 (p ! 1) res1 in
      if ok \<or> limit \<le> 2 then Some (2, res1 AND res2) else
      let (ok, res3) = VarintShl 2 (p ! 2) res1 in
      if ok \<or> limit \<le> 3 then done2 3 res1 res2 res3 else
      let (ok, res2) = VarintShlAnd 3 (p ! 3) res1 res2 in
      if ok \<or> limit \<le> 4 then done2 4 res1 res2 res3 else
      let (ok, res3) = VarintShlAnd 4 (p ! 4) res1 res3 in
      if ok \<or> limit \<le> 5 then done2 5 res1 res2 res3 else
      if is64 then ShiftMix_mid64 limit p res1 res2 res3 else ShiftMix_mid32 limit p res1 res2 res3)"

subsection \<open>Bits of the shifted bytes\<close>

text \<open>\<open>ones\<close> is the sign extension of a first byte that continues: 57 ones at the top.\<close>

lemma bit_VarintShlByte:
  assumes "continues c" "1 \<le> n" "n \<le> 8" "k < 64"
  shows "bit (VarintShlByte n b (scast c)) k \<longleftrightarrow> k < n * 7 \<or> bit b (min 7 (k - n * 7))"
proof (cases "k < n * 7")
  case True
  have "7 \<le> 64 - n * 7 + k" "64 - n * 7 + k < 64" using assms(2,3) True by simp_all
  then show ?thesis using True assms(1) by (auto simp: VarintShlByte_def bit_simps continues_def)
next
  case False
  have "\<not> bit (drop_bit (64 - n * 7) (scast c :: i64)) k"
    using False assms(2-4) by (auto simp: bit_drop_bit_eq dest!: bit_imp_le_length)
  then show ?thesis using False assms(4) by (auto simp: VarintShlByte_def bit_simps)
qed

lemma sign_VarintShlByte:
  "continues c \<Longrightarrow> 1 \<le> n \<Longrightarrow> n \<le> 8 \<Longrightarrow> bit (VarintShlByte n b (scast c)) 63 \<longleftrightarrow> continues b"
  by (subst bit_VarintShlByte) (auto simp: continues_def)

lemma sign_scast: "0 \<le> sint (scast b :: i64) \<longleftrightarrow> \<not> continues b"
  using sint_less_0_iff(2)[of "scast b"] by (auto simp: bit_simps continues_def not_less[symmetric])

text \<open>
  The conjunction of the first byte and the next \<open>m\<close> shifted bytes: every group of seven bits is
  in place, and the sign of the last byte fills what is above.
\<close>

fun mixed :: "bytes \<Rightarrow> nat \<Rightarrow> i64" where
  "mixed p 0 = scast (p ! 0)"
| "mixed p (Suc m) = mixed p m AND VarintShlByte (Suc m) (p ! Suc m) (scast (p ! 0))"

lemma bit_mixed:
  assumes "\<forall>i < m. continues (p ! i)" "m \<le> 8" "k < 64"
  shows "bit (mixed p m) k \<longleftrightarrow> (if k < m * 7 then bit (p ! (k div 7)) (k mod 7) else bit (p ! m) (min 7 (k - m * 7)))"
  using assms
proof (induction m)
  case 0
  then show ?case by (simp add: bit_simps)
next
  case (Suc m)
  have c0: "continues (p ! 0)" using Suc.prems(1) by blast
  have IH: "bit (mixed p m) k \<longleftrightarrow> (if k < m * 7 then bit (p ! (k div 7)) (k mod 7) else bit (p ! m) (min 7 (k - m * 7)))"
    using Suc by simp
  have cm: "bit (p ! m) 7" using Suc.prems(1) by (simp add: continues_def)
  note s = bit_VarintShlByte[OF c0, of "Suc m" k "p ! Suc m"]
  consider "k < m * 7" | "m * 7 \<le> k" "k < Suc m * 7" | "Suc m * 7 \<le> k" by linarith
  then show ?case
  proof cases
    case 2
    then obtain j where j: "k = m * 7 + j" "j < 7" by (metis add_less_cancel_left le_iff_add mult_Suc add.commute)
    then have "k div 7 = m" "k mod 7 = j" by simp_all
    then show ?thesis using 2 j IH s Suc.prems by (simp add: bit_and_iff)
  next
    case 3
    then have "7 \<le> k - m * 7" by simp
    then show ?thesis using 3 IH s Suc.prems cm by (simp add: bit_and_iff min_absorb1)
  qed (use IH s Suc.prems in \<open>simp add: bit_and_iff\<close>)
qed

lemma group_index: "j < 7 \<Longrightarrow> (m * 7 + j) div 7 = m \<and> (m * 7 + j) mod 7 = (j :: nat)"
  by simp

lemma mixed_numerals:
  "mixed p 1 = mixed p 0 AND VarintShlByte 1 (p ! 1) (scast (p ! 0))"
  "mixed p 2 = mixed p 1 AND VarintShlByte 2 (p ! 2) (scast (p ! 0))"
  "mixed p 3 = mixed p 2 AND VarintShlByte 3 (p ! 3) (scast (p ! 0))"
  "mixed p 4 = mixed p 3 AND VarintShlByte 4 (p ! 4) (scast (p ! 0))"
  "mixed p 5 = mixed p 4 AND VarintShlByte 5 (p ! 5) (scast (p ! 0))"
  "mixed p 6 = mixed p 5 AND VarintShlByte 6 (p ! 6) (scast (p ! 0))"
  "mixed p 7 = mixed p 6 AND VarintShlByte 7 (p ! 7) (scast (p ! 0))"
  "mixed p 8 = mixed p 7 AND VarintShlByte 8 (p ! 8) (scast (p ! 0))"
  by (simp_all add: eval_nat_numeral)

lemma mixed_value:
  assumes "\<forall>i < m. continues (p ! i)" "\<not> continues (p ! m)" "m \<le> 8" "m < length p"
  shows "mixed p m = varint_value (take (Suc m) p)"
proof (rule bit_word_eqI)
  fix k assume "k < LENGTH(64)"
  then have k: "k < 64" by simp
  consider "k < m * 7" | "m * 7 \<le> k" "k < Suc m * 7" | "Suc m * 7 \<le> k" by linarith
  then show "bit (mixed p m) k \<longleftrightarrow> bit (varint_value (take (Suc m) p) :: i64) k"
  proof cases
    case 1
    then have "k div 7 < m" by (simp add: div_less_iff_less_mult)
    then show ?thesis using 1 k assms bit_mixed[OF assms(1,3) k] by (simp add: bit_varint_value)
  next
    case 2
    then obtain j where j: "k = m * 7 + j" "j < 7" by (metis add_less_cancel_left le_iff_add mult_Suc add.commute)
    then have "k div 7 = m" "k mod 7 = j" by simp_all
    then show ?thesis using 2 j k assms bit_mixed[OF assms(1,3) k] by (simp add: bit_varint_value)
  next
    case 3
    then have "7 \<le> k - m * 7" "m < k div 7" by (simp_all add: less_eq_div_iff_mult_less_eq Suc_le_eq[symmetric])
    then show ?thesis using 3 k assms bit_mixed[OF assms(1,3) k] by (simp add: bit_varint_value continues_def min_absorb1)
  qed
qed

text \<open>Ten bytes: the sign bit came from the ninth and is corrected by the tenth.\<close>

lemma mixed_value_10:
  assumes "\<forall>i < 9. continues (p ! i)" "10 \<le> length p"
  shows "(if bit (p ! 9) 0 then mixed p 8 else unset_bit 63 (mixed p 8)) = varint_value (take 10 p)"
proof (rule bit_word_eqI)
  fix k assume "k < LENGTH(64)"
  then have k: "k < 64" by simp
  have c: "\<forall>i < 8. continues (p ! i)" "bit (p ! 8) 7" using assms(1) by (simp_all add: continues_def)
  note b = bit_mixed[OF c(1) order_refl k]
  consider "k < 56" | "56 \<le> k" "k < 63" | "k = 63" using k by linarith
  then show "bit (if bit (p ! 9) 0 then mixed p 8 else unset_bit 63 (mixed p 8)) k \<longleftrightarrow> bit (varint_value (take 10 p) :: i64) k"
  proof cases
    case 1
    then have "k div 7 < 8" by simp
    then show ?thesis using 1 k b assms(2) by (simp add: bit_varint_value bit_unset_bit_iff)
  next
    case 2
    then obtain j where j: "k = 56 + j" by (metis le_iff_add)
    then have "k div 7 = 8" "k mod 7 = j" "j < 7" using group_index[of j 8] 2 by simp_all
    then show ?thesis using 2 k j b assms(2) by (simp add: bit_varint_value bit_unset_bit_iff)
  next
    case 3
    then show ?thesis using b c(2) assms(2) by (simp add: bit_varint_value bit_unset_bit_iff)
  qed
qed

lemma sint_nonneg_iff: "0 \<le> sint (x :: i64) \<longleftrightarrow> \<not> bit x 63"
  using sint_less_0_iff(2)[of x] by (auto simp: not_less[symmetric])

lemma ends_here_iff: "ends_here b \<longleftrightarrow> \<not> continues b"
  using and_exp_eq_0_iff_not_bit[of b 7] by (simp add: ends_here_def continues_def)

lemma clear_sign: "bit (x :: i64) 63 \<Longrightarrow> x XOR push_bit 63 1 = unset_bit 63 x"
proof (rule bit_word_eqI)
  fix n assume "bit x 63" "n < LENGTH(64)"
  then show "bit (x XOR push_bit 63 1) n \<longleftrightarrow> bit (unset_bit 63 x) n"
    unfolding bit_xor_iff bit_push_bit_iff bit_1_iff bit_unset_bit_iff by (cases "n = 63") auto
qed

lemma unset_bit_and: "(a AND (b AND unset_bit n c)) = unset_bit n (a AND (b AND c :: i64))"
  by (rule bit_word_eqI) (auto simp: bit_simps)

lemmas ShiftMix_defs = ShiftMixParseVarint_def ShiftMix_mid64_def ShiftMix_mid32_def VarintShl_def VarintShlAnd_def
  done2_def Let_def prod.case sint_nonneg_iff bit_and_iff ends_here_iff

lemma ShiftMix64_ends:
  assumes "10 \<le> length p" "n < limit" "limit \<le> 10" "n \<le> 8" "\<forall>i < n. continues (p ! i)" "\<not> continues (p ! n)"
  shows "ShiftMixParseVarint True limit p = Some (Suc n, mixed p n)"
proof (cases "n = 0")
  case True
  then show ?thesis using assms by (simp add: ShiftMixParseVarint_def sign_scast)
next
  case False
  then have c0: "continues (p ! 0)" using assms(5) by blast
  then have s0: "bit (scast (p ! 0) :: i64) 63" using sign_scast sint_nonneg_iff by blast
  note s = sign_VarintShlByte[OF c0]
  consider "n = 1" | "n = 2" | "n = 3" | "n = 4" | "n = 5" | "n = 6" | "n = 7" | "n = 8" using False assms(4) by linarith
  then show ?thesis
    using assms(2,3,5,6) 
    by cases (simp_all add: ShiftMix_defs s s0 mixed_numerals and.commute and.left_commute and.assoc)
qed

lemma ShiftMix64_nine:
  assumes "\<forall>i < 9. continues (p ! i)"
  obtains res2 res3 where "ShiftMixParseVarint True 10 p = ShiftMix_tenth True p (scast (p ! 0)) res2 res3"
    "scast (p ! 0) AND (res2 AND res3) = mixed p 8" "bit res3 63"
proof
  have c0: "continues (p ! 0)" using assms by simp
  then have s0: "bit (scast (p ! 0) :: i64) 63" using sign_scast sint_nonneg_iff by blast
  note s = sign_VarintShlByte[OF c0]
  let ?s = "\<lambda>i. VarintShlByte i (p ! i) (scast (p ! 0))"
  show "ShiftMixParseVarint True 10 p =
      ShiftMix_tenth True p (scast (p ! 0)) (((?s 1 AND ?s 3) AND ?s 5) AND ?s 7) (((?s 2 AND ?s 4) AND ?s 6) AND ?s 8)"
    using assms by (simp add: ShiftMix_defs s s0)
  show "scast (p ! 0) AND ((((?s 1 AND ?s 3) AND ?s 5) AND ?s 7) AND (((?s 2 AND ?s 4) AND ?s 6) AND ?s 8)) = mixed p 8"
    by (simp add: mixed_numerals and.commute and.left_commute and.assoc)
  show "bit (((?s 2 AND ?s 4) AND ?s 6) AND ?s 8) 63" using assms by (simp add: bit_and_iff s)
qed

lemma and_0x80: "(b :: byte) AND 0x80 \<noteq> 0 \<longleftrightarrow> continues b"
  using ends_here_iff[of b] by (simp add: ends_here_def)

lemma low_bit_test: "(b :: byte) AND 1 = 0 \<longleftrightarrow> \<not> bit b 0"
  by (simp add: and_one_eq bit_0 even_iff_mod_2_eq_zero)

lemma ShiftMix64_ten:
  assumes "10 \<le> length p" "\<forall>i < 9. continues (p ! i)"
  shows "ShiftMixParseVarint True 10 p = (if continues (p ! 9) then None else Some (10, varint_value (take 10 p)))"
proof -
  obtain res2 res3 where r: "ShiftMixParseVarint True 10 p = ShiftMix_tenth True p (scast (p ! 0)) res2 res3"
    "scast (p ! 0) AND (res2 AND res3) = mixed p 8" "bit res3 63"
    by (rule ShiftMix64_nine[OF assms(2)])
  have "p ! 9 = 1 \<Longrightarrow> bit (p ! 9) 0 \<and> \<not> continues (p ! 9)" by (simp add: continues_def bit_1_iff)
  then show ?thesis
    using mixed_value_10[OF assms(2,1)] r(2) unset_bit_and[of "scast (p ! 0)" res2 63 res3]
    unfolding r(1) ShiftMix_tenth_def and_0x80 low_bit_test clear_sign[OF r(3)] done2_def Let_def
    by (auto split: if_splits)
qed

lemma ShiftMix32_ends:
  assumes "10 \<le> length p" "n < limit" "limit \<le> 10" "n \<le> 8" "\<forall>i < n. continues (p ! i)" "\<not> continues (p ! n)"
  shows "ShiftMixParseVarint False limit p = Some (Suc n, mixed p (min n 4))"
proof (cases "n = 0")
  case True
  then show ?thesis using assms by (simp add: ShiftMixParseVarint_def sign_scast)
next
  case False
  then have c0: "continues (p ! 0)" using assms(5) by blast
  then have s0: "bit (scast (p ! 0) :: i64) 63" using sign_scast sint_nonneg_iff by blast
  note s = sign_VarintShlByte[OF c0]
  consider "n = 1" | "n = 2" | "n = 3" | "n = 4" | "n = 5" | "n = 6" | "n = 7" | "n = 8" using False assms(4) by linarith
  then show ?thesis
    using assms(2,3,5,6)
    by cases (simp_all add: ShiftMix_defs s s0 mixed_numerals and.commute and.left_commute and.assoc)
qed

lemma ShiftMix32_ten:
  assumes "\<forall>i < 9. continues (p ! i)"
  shows "ShiftMixParseVarint False 10 p = (if continues (p ! 9) then None else Some (10, mixed p 4))"
proof -
  have c0: "continues (p ! 0)" using assms by simp
  then have s0: "bit (scast (p ! 0) :: i64) 63" using sign_scast sint_nonneg_iff by blast
  note s = sign_VarintShlByte[OF c0]
  have "p ! 9 = 1 \<Longrightarrow> \<not> continues (p ! 9)" by (simp add: continues_def bit_1_iff)
  then show ?thesis
    using assms
    by (simp add: ShiftMix_defs s s0 mixed_numerals ShiftMix_tenth_def and_0x80 and.commute and.left_commute and.assoc)
qed

lemma mixed_value_32:
  assumes "\<forall>i < min n 4. continues (p ! i)" "n < length p" "n < 4 \<Longrightarrow> \<not> continues (p ! n)"
  shows "ucast (mixed p (min n 4)) = (varint_value (take (Suc n) p) :: u32)"
proof (cases "n < 4")
  case True
  then have "mixed p n = varint_value (take (Suc n) p)" using assms by (intro mixed_value) auto
  then show ?thesis using True by (simp add: ucast_varint_value min_def)
next
  case False
  have "ucast (mixed p 4) = (varint_value (take 5 p) :: u32)"
  proof (rule bit_word_eqI)
    fix k assume "k < LENGTH(32)"
    then have k: "k < 32" "k < 64" by simp_all
    have b: "bit (mixed p 4) k \<longleftrightarrow> (if k < 28 then bit (p ! (k div 7)) (k mod 7) else bit (p ! 4) (min 7 (k - 28)))"
      using bit_mixed[OF _ _ k(2), of 4 p] assms(1) False by simp
    show "bit (ucast (mixed p 4) :: u32) k \<longleftrightarrow> bit (varint_value (take 5 p) :: u32) k"
    proof (cases "k < 28")
      case True
      then have "k div 7 < 4" by simp
      then show ?thesis using True k b assms(2) False by (simp add: bit_varint_value bit_simps)
    next
      case f: False
      then obtain j where j: "k = 28 + j" by (metis le_iff_add not_less)
      then have "k div 7 = 4" "k mod 7 = j" using group_index[of j 4] k by simp_all
      then show ?thesis using f j k b assms(2) False by (simp add: bit_varint_value bit_simps)
    qed
  qed
  moreover have "min n 4 = 4" "min 5 (Suc n) = 5" using False by simp_all
  ultimately show ?thesis using varint_value_take_5[of "Suc n" p] by (simp only:)
qed

text \<open>
  The AND-combining varint parser is the reference parser: for 64-bit numbers it consumes the
  same bytes and returns the same value, also for over-long encodings whose tenth byte clears the
  top bit, and for 32-bit numbers the low half of its result is the reference value; ten bytes that
  all continue are rejected by both.
\<close>

theorem shiftmix_is_reference:
  assumes "10 \<le> length p"
  shows "ShiftMixParseVarint True 10 p = parse_varint 10 p
    \<and> map_option (map_prod id ucast) (ShiftMixParseVarint False 10 p) = (parse_varint 10 p :: (nat \<times> u32) option)"
proof (cases rule: first_end_cases[of 10 p])
  case (ends n)
  have ref: "parse_varint 10 p = Some (Suc n, varint_value (take (Suc n) p) :: u64)"
    "parse_varint 10 p = Some (Suc n, varint_value (take (Suc n) p) :: u32)"
    using ends assms by (intro parse_varint_ends; simp)+
  have v: "ucast (mixed p (min n 4)) = (varint_value (take (Suc n) p) :: u32)"
    using ends assms by (intro mixed_value_32) auto
  show ?thesis
  proof (cases "n = 9")
    case True
    then show ?thesis using ends assms ref v ShiftMix64_ten[OF assms] ShiftMix32_ten[of p] by simp
  next
    case False
    then have "n \<le> 8" using ends(1) by simp
    moreover have "mixed p n = varint_value (take (Suc n) p)" using ends assms \<open>n \<le> 8\<close> by (intro mixed_value) simp_all
    ultimately show ?thesis
      using ref v ShiftMix64_ends[OF assms ends(1) order_refl _ ends(2,3)] ShiftMix32_ends[OF assms ends(1) order_refl _ ends(2,3)]
      by simp
  qed
next
  case long
  then have "parse_varint 10 p = (None :: (nat \<times> u64) option)" "parse_varint 10 p = (None :: (nat \<times> u32) option)"
    using assms by (rule parse_varint_long)+
  then show ?thesis using long ShiftMix64_ten[OF assms] ShiftMix32_ten[of p] by simp
qed

theorem shiftmix_is_reference_witness:
  "ShiftMixParseVarint True 10 [0xAC, 2, 0, 0, 0, 0, 0, 0, 0, 0] = Some (2, 300)"
  using shiftmix_is_reference[of "[0xAC, 2, 0, 0, 0, 0, 0, 0, 0, 0]"]
  by (simp add: parse_varint_def continues_def)

end
