(* ===== verification/Wire_Format.thy ===== *)
theory Wire_Format
  imports Varint_Read
begin

text \<open>
  \<open>google/protobuf/wire_format_lite.h\<close>: tags, sizes and the writers into a flat array, with the
  array writers of \<open>CodedOutputStream\<close> they call.

  A writer gets the array up to its target pointer and returns it up to the pointer it returns, so
  a call that writes \<open>n\<close> bytes and advances by \<open>n\<close> appends them. Overloads for repeated fields have
  the suffix \<open>_rep\<close>. A \<open>float\<close> or \<open>double\<close> is its object representation, on which \<open>bit_cast\<close> is
  the identity.
\<close>

type_synonym cfloat = u32
type_synonym cdouble = u64

subsection \<open>Types of fields\<close>

datatype WireType = WIRETYPE_VARINT | WIRETYPE_FIXED64 | WIRETYPE_LENGTH_DELIMITED
  | WIRETYPE_START_GROUP | WIRETYPE_END_GROUP | WIRETYPE_FIXED32

fun wire_number :: "WireType \<Rightarrow> u32" where
  "wire_number WIRETYPE_VARINT = 0"
| "wire_number WIRETYPE_FIXED64 = 1"
| "wire_number WIRETYPE_LENGTH_DELIMITED = 2"
| "wire_number WIRETYPE_START_GROUP = 3"
| "wire_number WIRETYPE_END_GROUP = 4"
| "wire_number WIRETYPE_FIXED32 = 5"

datatype FieldType = TYPE_DOUBLE | TYPE_FLOAT | TYPE_INT64 | TYPE_UINT64 | TYPE_INT32 | TYPE_FIXED64
  | TYPE_FIXED32 | TYPE_BOOL | TYPE_STRING | TYPE_GROUP | TYPE_MESSAGE | TYPE_BYTES | TYPE_UINT32
  | TYPE_ENUM | TYPE_SFIXED32 | TYPE_SFIXED64 | TYPE_SINT32 | TYPE_SINT64

datatype CppType = CPPTYPE_INT32 | CPPTYPE_INT64 | CPPTYPE_UINT32 | CPPTYPE_UINT64 | CPPTYPE_DOUBLE
  | CPPTYPE_FLOAT | CPPTYPE_BOOL | CPPTYPE_ENUM | CPPTYPE_STRING | CPPTYPE_MESSAGE

text \<open>The two tables are compiled into the library and are parameters.\<close>

definition FieldTypeToCppType :: "(FieldType \<Rightarrow> CppType) \<Rightarrow> FieldType \<Rightarrow> CppType" where
  "FieldTypeToCppType kFieldTypeToCppTypeMap type = kFieldTypeToCppTypeMap type"

definition WireTypeForFieldType :: "(FieldType \<Rightarrow> WireType) \<Rightarrow> FieldType \<Rightarrow> WireType" where
  "WireTypeForFieldType kWireTypeForFieldType type = kWireTypeForFieldType type"

subsection \<open>Tags\<close>

definition kTagTypeBits :: nat where "kTagTypeBits = 3"

definition kTagTypeMask :: u32 where "kTagTypeMask = push_bit kTagTypeBits 1 - 1"

definition GOOGLE_PROTOBUF_WIRE_FORMAT_MAKE_TAG :: "i32 \<Rightarrow> WireType \<Rightarrow> u32" where
  "GOOGLE_PROTOBUF_WIRE_FORMAT_MAKE_TAG field_number type = push_bit 3 field_number OR wire_number type"

definition MakeTag :: "i32 \<Rightarrow> WireType \<Rightarrow> u32" where
  "MakeTag field_number type = GOOGLE_PROTOBUF_WIRE_FORMAT_MAKE_TAG field_number type"

text \<open>The cast back to the enumeration keeps the number, also 6 and 7, which no wire type has.\<close>

definition GetTagWireType :: "u32 \<Rightarrow> u32" where
  "GetTagWireType tag = tag AND kTagTypeMask"

definition GetTagFieldNumber :: "u32 \<Rightarrow> i32" where
  "GetTagFieldNumber tag = drop_bit kTagTypeBits tag"

definition TagSize :: "i32 \<Rightarrow> FieldType \<Rightarrow> nat" where
  "TagSize field_number type =
     (let result = VarintSize32 (push_bit kTagTypeBits field_number)
      in if type = TYPE_GROUP then result * 2 else result)"

definition kMessageSetItemNumber :: i32 where "kMessageSetItemNumber = 1"
definition kMessageSetTypeIdNumber :: i32 where "kMessageSetTypeIdNumber = 2"
definition kMessageSetMessageNumber :: i32 where "kMessageSetMessageNumber = 3"

definition kMessageSetItemStartTag :: u32 where
  "kMessageSetItemStartTag = GOOGLE_PROTOBUF_WIRE_FORMAT_MAKE_TAG kMessageSetItemNumber WIRETYPE_START_GROUP"

definition kMessageSetItemEndTag :: u32 where
  "kMessageSetItemEndTag = GOOGLE_PROTOBUF_WIRE_FORMAT_MAKE_TAG kMessageSetItemNumber WIRETYPE_END_GROUP"

definition kMessageSetTypeIdTag :: u32 where
  "kMessageSetTypeIdTag = GOOGLE_PROTOBUF_WIRE_FORMAT_MAKE_TAG kMessageSetTypeIdNumber WIRETYPE_VARINT"

definition kMessageSetMessageTag :: u32 where
  "kMessageSetMessageTag = GOOGLE_PROTOBUF_WIRE_FORMAT_MAKE_TAG kMessageSetMessageNumber WIRETYPE_LENGTH_DELIMITED"

definition EncodeFloat :: "cfloat \<Rightarrow> u32" where "EncodeFloat value = value"
definition DecodeFloat :: "u32 \<Rightarrow> cfloat" where "DecodeFloat value = value"
definition EncodeDouble :: "cdouble \<Rightarrow> u64" where "EncodeDouble value = value"
definition DecodeDouble :: "u64 \<Rightarrow> cdouble" where "DecodeDouble value = value"

subsection \<open>Writers of \<open>CodedOutputStream\<close> into an array\<close>

definition WriteVarint32ToArray :: "u32 \<Rightarrow> bytes \<Rightarrow> bytes" where
  "WriteVarint32ToArray value target = target @ UnsafeVarint value"

definition WriteVarint64ToArray :: "u64 \<Rightarrow> bytes \<Rightarrow> bytes" where
  "WriteVarint64ToArray value target = target @ UnsafeVarint value"

definition WriteVarint32SignExtendedToArray :: "i32 \<Rightarrow> bytes \<Rightarrow> bytes" where
  "WriteVarint32SignExtendedToArray value target = WriteVarint64ToArray (scast value) target"

text \<open>On a little-endian machine the memory image of the value is copied; the other branch writes the bytes one by one.\<close>

definition WriteLittleEndian32ToArray :: "u32 \<Rightarrow> bytes \<Rightarrow> bytes" where
  "WriteLittleEndian32ToArray value target = target @ le_bytes 4 value"

definition WriteLittleEndian32ToArray_portable :: "u32 \<Rightarrow> bytes \<Rightarrow> bytes" where
  "WriteLittleEndian32ToArray_portable value target =
     target @ [ucast value, ucast (drop_bit 8 value), ucast (drop_bit 16 value), ucast (drop_bit 24 value)]"

definition WriteLittleEndian64ToArray :: "u64 \<Rightarrow> bytes \<Rightarrow> bytes" where
  "WriteLittleEndian64ToArray value target = target @ le_bytes 8 value"

definition WriteLittleEndian64ToArray_portable :: "u64 \<Rightarrow> bytes \<Rightarrow> bytes" where
  "WriteLittleEndian64ToArray_portable value target =
     (let part0 = (ucast value :: u32); part1 = (ucast (drop_bit 32 value) :: u32)
      in target @ [ucast part0, ucast (drop_bit 8 part0), ucast (drop_bit 16 part0), ucast (drop_bit 24 part0),
                   ucast part1, ucast (drop_bit 8 part1), ucast (drop_bit 16 part1), ucast (drop_bit 24 part1)])"

definition COS_WriteTagToArray :: "u32 \<Rightarrow> bytes \<Rightarrow> bytes" where
  "COS_WriteTagToArray value target = WriteVarint32ToArray value target"

definition WriteRawToArray :: "bytes \<Rightarrow> nat \<Rightarrow> bytes \<Rightarrow> bytes" where
  "WriteRawToArray data n target = target @ take n data"

definition COS_WriteStringToArray :: "bytes \<Rightarrow> bytes \<Rightarrow> bytes" where
  "COS_WriteStringToArray str target = WriteRawToArray str (length str) target"

subsection \<open>Single fields without tag\<close>

definition WriteTagToArray :: "i32 \<Rightarrow> WireType \<Rightarrow> bytes \<Rightarrow> bytes" where
  "WriteTagToArray field_number type target = COS_WriteTagToArray (MakeTag field_number type) target"

definition WriteInt32NoTagToArray :: "i32 \<Rightarrow> bytes \<Rightarrow> bytes" where
  "WriteInt32NoTagToArray value target = WriteVarint32SignExtendedToArray value target"

definition WriteInt64NoTagToArray :: "i64 \<Rightarrow> bytes \<Rightarrow> bytes" where
  "WriteInt64NoTagToArray value target = WriteVarint64ToArray value target"

definition WriteUInt32NoTagToArray :: "u32 \<Rightarrow> bytes \<Rightarrow> bytes" where
  "WriteUInt32NoTagToArray value target = WriteVarint32ToArray value target"

definition WriteUInt64NoTagToArray :: "u64 \<Rightarrow> bytes \<Rightarrow> bytes" where
  "WriteUInt64NoTagToArray value target = WriteVarint64ToArray value target"

definition WriteSInt32NoTagToArray :: "i32 \<Rightarrow> bytes \<Rightarrow> bytes" where
  "WriteSInt32NoTagToArray value target = WriteVarint32ToArray (ZigZagEncode32 value) target"

definition WriteSInt64NoTagToArray :: "i64 \<Rightarrow> bytes \<Rightarrow> bytes" where
  "WriteSInt64NoTagToArray value target = WriteVarint64ToArray (ZigZagEncode64 value) target"

definition WriteFixed32NoTagToArray :: "u32 \<Rightarrow> bytes \<Rightarrow> bytes" where
  "WriteFixed32NoTagToArray value target = WriteLittleEndian32ToArray value target"

definition WriteFixed64NoTagToArray :: "u64 \<Rightarrow> bytes \<Rightarrow> bytes" where
  "WriteFixed64NoTagToArray value target = WriteLittleEndian64ToArray value target"

definition WriteSFixed32NoTagToArray :: "i32 \<Rightarrow> bytes \<Rightarrow> bytes" where
  "WriteSFixed32NoTagToArray value target = WriteLittleEndian32ToArray value target"

definition WriteSFixed64NoTagToArray :: "i64 \<Rightarrow> bytes \<Rightarrow> bytes" where
  "WriteSFixed64NoTagToArray value target = WriteLittleEndian64ToArray value target"

definition WriteFloatNoTagToArray :: "cfloat \<Rightarrow> bytes \<Rightarrow> bytes" where
  "WriteFloatNoTagToArray value target = WriteLittleEndian32ToArray (EncodeFloat value) target"

definition WriteDoubleNoTagToArray :: "cdouble \<Rightarrow> bytes \<Rightarrow> bytes" where
  "WriteDoubleNoTagToArray value target = WriteLittleEndian64ToArray (EncodeDouble value) target"

definition WriteBoolNoTagToArray :: "bool \<Rightarrow> bytes \<Rightarrow> bytes" where
  "WriteBoolNoTagToArray value target = WriteVarint32ToArray (if value then 1 else 0) target"

definition WriteEnumNoTagToArray :: "i32 \<Rightarrow> bytes \<Rightarrow> bytes" where
  "WriteEnumNoTagToArray value target = WriteVarint32SignExtendedToArray value target"

subsection \<open>Single fields with tag\<close>

definition WriteInt32ToArray :: "i32 \<Rightarrow> i32 \<Rightarrow> bytes \<Rightarrow> bytes" where
  "WriteInt32ToArray field_number value target =
     (let target = WriteTagToArray field_number WIRETYPE_VARINT target in WriteInt32NoTagToArray value target)"

definition WriteInt64ToArray :: "i32 \<Rightarrow> i64 \<Rightarrow> bytes \<Rightarrow> bytes" where
  "WriteInt64ToArray field_number value target =
     (let target = WriteTagToArray field_number WIRETYPE_VARINT target in WriteInt64NoTagToArray value target)"

definition WriteUInt32ToArray :: "i32 \<Rightarrow> u32 \<Rightarrow> bytes \<Rightarrow> bytes" where
  "WriteUInt32ToArray field_number value target =
     (let target = WriteTagToArray field_number WIRETYPE_VARINT target in WriteUInt32NoTagToArray value target)"

definition WriteUInt64ToArray :: "i32 \<Rightarrow> u64 \<Rightarrow> bytes \<Rightarrow> bytes" where
  "WriteUInt64ToArray field_number value target =
     (let target = WriteTagToArray field_number WIRETYPE_VARINT target in WriteUInt64NoTagToArray value target)"

definition WriteSInt32ToArray :: "i32 \<Rightarrow> i32 \<Rightarrow> bytes \<Rightarrow> bytes" where
  "WriteSInt32ToArray field_number value target =
     (let target = WriteTagToArray field_number WIRETYPE_VARINT target in WriteSInt32NoTagToArray value target)"

definition WriteSInt64ToArray :: "i32 \<Rightarrow> i64 \<Rightarrow> bytes \<Rightarrow> bytes" where
  "WriteSInt64ToArray field_number value target =
     (let target = WriteTagToArray field_number WIRETYPE_VARINT target in WriteSInt64NoTagToArray value target)"

definition WriteFixed32ToArray :: "i32 \<Rightarrow> u32 \<Rightarrow> bytes \<Rightarrow> bytes" where
  "WriteFixed32ToArray field_number value target =
     (let target = WriteTagToArray field_number WIRETYPE_FIXED32 target in WriteFixed32NoTagToArray value target)"

definition WriteFixed64ToArray :: "i32 \<Rightarrow> u64 \<Rightarrow> bytes \<Rightarrow> bytes" where
  "WriteFixed64ToArray field_number value target =
     (let target = WriteTagToArray field_number WIRETYPE_FIXED64 target in WriteFixed64NoTagToArray value target)"

definition WriteSFixed32ToArray :: "i32 \<Rightarrow> i32 \<Rightarrow> bytes \<Rightarrow> bytes" where
  "WriteSFixed32ToArray field_number value target =
     (let target = WriteTagToArray field_number WIRETYPE_FIXED32 target in WriteSFixed32NoTagToArray value target)"

definition WriteSFixed64ToArray :: "i32 \<Rightarrow> i64 \<Rightarrow> bytes \<Rightarrow> bytes" where
  "WriteSFixed64ToArray field_number value target =
     (let target = WriteTagToArray field_number WIRETYPE_FIXED64 target in WriteSFixed64NoTagToArray value target)"

definition WriteFloatToArray :: "i32 \<Rightarrow> cfloat \<Rightarrow> bytes \<Rightarrow> bytes" where
  "WriteFloatToArray field_number value target =
     (let target = WriteTagToArray field_number WIRETYPE_FIXED32 target in WriteFloatNoTagToArray value target)"

definition WriteDoubleToArray :: "i32 \<Rightarrow> cdouble \<Rightarrow> bytes \<Rightarrow> bytes" where
  "WriteDoubleToArray field_number value target =
     (let target = WriteTagToArray field_number WIRETYPE_FIXED64 target in WriteDoubleNoTagToArray value target)"

definition WriteBoolToArray :: "i32 \<Rightarrow> bool \<Rightarrow> bytes \<Rightarrow> bytes" where
  "WriteBoolToArray field_number value target =
     (let target = WriteTagToArray field_number WIRETYPE_VARINT target in WriteBoolNoTagToArray value target)"

definition WriteEnumToArray :: "i32 \<Rightarrow> i32 \<Rightarrow> bytes \<Rightarrow> bytes" where
  "WriteEnumToArray field_number value target =
     (let target = WriteTagToArray field_number WIRETYPE_VARINT target in WriteEnumNoTagToArray value target)"

subsection \<open>Repeated fields\<close>

text \<open>
  The loop runs its body before it tests, and \<open>ABSL_DCHECK_GT(n, 0)\<close> excludes the empty field:
  \<open>None\<close> stands for the violated check.
\<close>

fun WritePrimitiveNoTagToArray :: "'a list \<Rightarrow> ('a \<Rightarrow> bytes \<Rightarrow> bytes) \<Rightarrow> bytes \<Rightarrow> bytes option" where
  "WritePrimitiveNoTagToArray [] Writer target = None"
| "WritePrimitiveNoTagToArray [x] Writer target = Some (Writer x target)"
| "WritePrimitiveNoTagToArray (x # y # xs) Writer target = WritePrimitiveNoTagToArray (y # xs) Writer (Writer x target)"

text \<open>The little-endian branch copies the elements as they are in memory, given by \<open>img\<close>, and ignores the writer.\<close>

definition WriteFixedNoTagToArray :: "('a \<Rightarrow> bytes) \<Rightarrow> 'a list \<Rightarrow> ('a \<Rightarrow> bytes \<Rightarrow> bytes) \<Rightarrow> bytes \<Rightarrow> bytes option" where
  "WriteFixedNoTagToArray img value Writer target =
     (if value = [] then None else Some (target @ concat (map img value)))"

definition WriteInt32NoTagToArray_rep :: "i32 list \<Rightarrow> bytes \<Rightarrow> bytes option" where
  "WriteInt32NoTagToArray_rep value target = WritePrimitiveNoTagToArray value WriteInt32NoTagToArray target"

definition WriteInt64NoTagToArray_rep :: "i64 list \<Rightarrow> bytes \<Rightarrow> bytes option" where
  "WriteInt64NoTagToArray_rep value target = WritePrimitiveNoTagToArray value WriteInt64NoTagToArray target"

definition WriteUInt32NoTagToArray_rep :: "u32 list \<Rightarrow> bytes \<Rightarrow> bytes option" where
  "WriteUInt32NoTagToArray_rep value target = WritePrimitiveNoTagToArray value WriteUInt32NoTagToArray target"

definition WriteUInt64NoTagToArray_rep :: "u64 list \<Rightarrow> bytes \<Rightarrow> bytes option" where
  "WriteUInt64NoTagToArray_rep value target = WritePrimitiveNoTagToArray value WriteUInt64NoTagToArray target"

definition WriteSInt32NoTagToArray_rep :: "i32 list \<Rightarrow> bytes \<Rightarrow> bytes option" where
  "WriteSInt32NoTagToArray_rep value target = WritePrimitiveNoTagToArray value WriteSInt32NoTagToArray target"

definition WriteSInt64NoTagToArray_rep :: "i64 list \<Rightarrow> bytes \<Rightarrow> bytes option" where
  "WriteSInt64NoTagToArray_rep value target = WritePrimitiveNoTagToArray value WriteSInt64NoTagToArray target"

definition WriteFixed32NoTagToArray_rep :: "u32 list \<Rightarrow> bytes \<Rightarrow> bytes option" where
  "WriteFixed32NoTagToArray_rep value target = WriteFixedNoTagToArray (le_bytes 4) value WriteFixed32NoTagToArray target"

definition WriteFixed64NoTagToArray_rep :: "u64 list \<Rightarrow> bytes \<Rightarrow> bytes option" where
  "WriteFixed64NoTagToArray_rep value target = WriteFixedNoTagToArray (le_bytes 8) value WriteFixed64NoTagToArray target"

definition WriteSFixed32NoTagToArray_rep :: "i32 list \<Rightarrow> bytes \<Rightarrow> bytes option" where
  "WriteSFixed32NoTagToArray_rep value target = WriteFixedNoTagToArray (le_bytes 4) value WriteSFixed32NoTagToArray target"

definition WriteSFixed64NoTagToArray_rep :: "i64 list \<Rightarrow> bytes \<Rightarrow> bytes option" where
  "WriteSFixed64NoTagToArray_rep value target = WriteFixedNoTagToArray (le_bytes 8) value WriteSFixed64NoTagToArray target"

definition WriteFloatNoTagToArray_rep :: "cfloat list \<Rightarrow> bytes \<Rightarrow> bytes option" where
  "WriteFloatNoTagToArray_rep value target = WriteFixedNoTagToArray (le_bytes 4) value WriteFloatNoTagToArray target"

definition WriteDoubleNoTagToArray_rep :: "cdouble list \<Rightarrow> bytes \<Rightarrow> bytes option" where
  "WriteDoubleNoTagToArray_rep value target = WriteFixedNoTagToArray (le_bytes 8) value WriteDoubleNoTagToArray target"

definition WriteBoolNoTagToArray_rep :: "bool list \<Rightarrow> bytes \<Rightarrow> bytes option" where
  "WriteBoolNoTagToArray_rep value target = WritePrimitiveNoTagToArray value WriteBoolNoTagToArray target"

definition WriteEnumNoTagToArray_rep :: "i32 list \<Rightarrow> bytes \<Rightarrow> bytes option" where
  "WriteEnumNoTagToArray_rep value target = WritePrimitiveNoTagToArray value WriteEnumNoTagToArray target"

fun write_tagged_loop :: "i32 \<Rightarrow> 'a list \<Rightarrow> (i32 \<Rightarrow> 'a \<Rightarrow> bytes \<Rightarrow> bytes) \<Rightarrow> bytes \<Rightarrow> bytes" where
  "write_tagged_loop field_number [] Writer target = target"
| "write_tagged_loop field_number (x # xs) Writer target =
     write_tagged_loop field_number xs Writer (Writer field_number x target)"

definition WritePrimitiveToArray :: "i32 \<Rightarrow> 'a list \<Rightarrow> (i32 \<Rightarrow> 'a \<Rightarrow> bytes \<Rightarrow> bytes) \<Rightarrow> bytes \<Rightarrow> bytes" where
  "WritePrimitiveToArray field_number value Writer target =
     (let n = length value in if n = 0 then target else write_tagged_loop field_number value Writer target)"

definition WriteInt32ToArray_rep :: "i32 \<Rightarrow> i32 list \<Rightarrow> bytes \<Rightarrow> bytes" where
  "WriteInt32ToArray_rep field_number value target = WritePrimitiveToArray field_number value WriteInt32ToArray target"

definition WriteInt64ToArray_rep :: "i32 \<Rightarrow> i64 list \<Rightarrow> bytes \<Rightarrow> bytes" where
  "WriteInt64ToArray_rep field_number value target = WritePrimitiveToArray field_number value WriteInt64ToArray target"

definition WriteUInt32ToArray_rep :: "i32 \<Rightarrow> u32 list \<Rightarrow> bytes \<Rightarrow> bytes" where
  "WriteUInt32ToArray_rep field_number value target = WritePrimitiveToArray field_number value WriteUInt32ToArray target"

definition WriteUInt64ToArray_rep :: "i32 \<Rightarrow> u64 list \<Rightarrow> bytes \<Rightarrow> bytes" where
  "WriteUInt64ToArray_rep field_number value target = WritePrimitiveToArray field_number value WriteUInt64ToArray target"

definition WriteSInt32ToArray_rep :: "i32 \<Rightarrow> i32 list \<Rightarrow> bytes \<Rightarrow> bytes" where
  "WriteSInt32ToArray_rep field_number value target = WritePrimitiveToArray field_number value WriteSInt32ToArray target"

definition WriteSInt64ToArray_rep :: "i32 \<Rightarrow> i64 list \<Rightarrow> bytes \<Rightarrow> bytes" where
  "WriteSInt64ToArray_rep field_number value target = WritePrimitiveToArray field_number value WriteSInt64ToArray target"

definition WriteFixed32ToArray_rep :: "i32 \<Rightarrow> u32 list \<Rightarrow> bytes \<Rightarrow> bytes" where
  "WriteFixed32ToArray_rep field_number value target = WritePrimitiveToArray field_number value WriteFixed32ToArray target"

definition WriteFixed64ToArray_rep :: "i32 \<Rightarrow> u64 list \<Rightarrow> bytes \<Rightarrow> bytes" where
  "WriteFixed64ToArray_rep field_number value target = WritePrimitiveToArray field_number value WriteFixed64ToArray target"

definition WriteSFixed32ToArray_rep :: "i32 \<Rightarrow> i32 list \<Rightarrow> bytes \<Rightarrow> bytes" where
  "WriteSFixed32ToArray_rep field_number value target = WritePrimitiveToArray field_number value WriteSFixed32ToArray target"

definition WriteSFixed64ToArray_rep :: "i32 \<Rightarrow> i64 list \<Rightarrow> bytes \<Rightarrow> bytes" where
  "WriteSFixed64ToArray_rep field_number value target = WritePrimitiveToArray field_number value WriteSFixed64ToArray target"

definition WriteFloatToArray_rep :: "i32 \<Rightarrow> cfloat list \<Rightarrow> bytes \<Rightarrow> bytes" where
  "WriteFloatToArray_rep field_number value target = WritePrimitiveToArray field_number value WriteFloatToArray target"

definition WriteDoubleToArray_rep :: "i32 \<Rightarrow> cdouble list \<Rightarrow> bytes \<Rightarrow> bytes" where
  "WriteDoubleToArray_rep field_number value target = WritePrimitiveToArray field_number value WriteDoubleToArray target"

definition WriteBoolToArray_rep :: "i32 \<Rightarrow> bool list \<Rightarrow> bytes \<Rightarrow> bytes" where
  "WriteBoolToArray_rep field_number value target = WritePrimitiveToArray field_number value WriteBoolToArray target"

definition WriteEnumToArray_rep :: "i32 \<Rightarrow> i32 list \<Rightarrow> bytes \<Rightarrow> bytes" where
  "WriteEnumToArray_rep field_number value target = WritePrimitiveToArray field_number value WriteEnumToArray target"

subsection \<open>Strings, groups and messages\<close>

text \<open>
  \<open>CodedOutputStream::WriteStringWithSizeToArray\<close> is compiled into the library; its documentation
  says that it writes the varint-encoded size of the string followed by the string.
\<close>

definition writes_size_and_string :: "(bytes \<Rightarrow> bytes \<Rightarrow> bytes) \<Rightarrow> bool" where
  "writes_size_and_string f \<longleftrightarrow> (\<forall>str target. f str target = target @ UnsafeVarint (of_nat (length str) :: u32) @ str)"

definition WriteStringToArray :: "(bytes \<Rightarrow> bytes \<Rightarrow> bytes) \<Rightarrow> i32 \<Rightarrow> bytes \<Rightarrow> bytes \<Rightarrow> bytes" where
  "WriteStringToArray WriteStringWithSizeToArray field_number value target =
     (let target = WriteTagToArray field_number WIRETYPE_LENGTH_DELIMITED target
      in WriteStringWithSizeToArray value target)"

definition WriteBytesToArray :: "(bytes \<Rightarrow> bytes \<Rightarrow> bytes) \<Rightarrow> i32 \<Rightarrow> bytes \<Rightarrow> bytes \<Rightarrow> bytes" where
  "WriteBytesToArray WriteStringWithSizeToArray field_number value target =
     (let target = WriteTagToArray field_number WIRETYPE_LENGTH_DELIMITED target
      in WriteStringWithSizeToArray value target)"

text \<open>The generated message class provides its serializer and its size.\<close>

definition InternalWriteGroupNoVirtualToArray :: "('m \<Rightarrow> bytes \<Rightarrow> bytes) \<Rightarrow> i32 \<Rightarrow> 'm \<Rightarrow> bytes \<Rightarrow> bytes" where
  "InternalWriteGroupNoVirtualToArray SerializeWithCachedSizesToArray field_number value target =
     (let target = WriteTagToArray field_number WIRETYPE_START_GROUP target;
          target = SerializeWithCachedSizesToArray value target
      in WriteTagToArray field_number WIRETYPE_END_GROUP target)"

definition InternalWriteMessageNoVirtualToArray ::
    "('m \<Rightarrow> i32) \<Rightarrow> ('m \<Rightarrow> bytes \<Rightarrow> bytes) \<Rightarrow> i32 \<Rightarrow> 'm \<Rightarrow> bytes \<Rightarrow> bytes" where
  "InternalWriteMessageNoVirtualToArray GetCachedSize SerializeWithCachedSizesToArray field_number value target =
     (let target = WriteTagToArray field_number WIRETYPE_LENGTH_DELIMITED target;
          target = WriteVarint32ToArray (GetCachedSize value) target
      in SerializeWithCachedSizesToArray value target)"

subsection \<open>Sizes\<close>

definition Int32Size :: "i32 \<Rightarrow> nat" where "Int32Size value = VarintSize32SignExtended value"
definition Int64Size :: "i64 \<Rightarrow> nat" where "Int64Size value = VarintSize64 value"
definition UInt32Size :: "u32 \<Rightarrow> nat" where "UInt32Size value = VarintSize32 value"
definition UInt64Size :: "u64 \<Rightarrow> nat" where "UInt64Size value = VarintSize64 value"
definition SInt32Size :: "i32 \<Rightarrow> nat" where "SInt32Size value = VarintSize32 (ZigZagEncode32 value)"
definition SInt64Size :: "i64 \<Rightarrow> nat" where "SInt64Size value = VarintSize64 (ZigZagEncode64 value)"
definition EnumSize :: "i32 \<Rightarrow> nat" where "EnumSize value = VarintSize32SignExtended value"
definition Int32SizePlusOne :: "i32 \<Rightarrow> nat" where "Int32SizePlusOne value = VarintSize32SignExtendedPlusOne value"
definition Int64SizePlusOne :: "i64 \<Rightarrow> nat" where "Int64SizePlusOne value = VarintSize64PlusOne value"
definition UInt32SizePlusOne :: "u32 \<Rightarrow> nat" where "UInt32SizePlusOne value = VarintSize32PlusOne value"
definition UInt64SizePlusOne :: "u64 \<Rightarrow> nat" where "UInt64SizePlusOne value = VarintSize64PlusOne value"
definition SInt32SizePlusOne :: "i32 \<Rightarrow> nat" where "SInt32SizePlusOne value = VarintSize32PlusOne (ZigZagEncode32 value)"
definition SInt64SizePlusOne :: "i64 \<Rightarrow> nat" where "SInt64SizePlusOne value = VarintSize64PlusOne (ZigZagEncode64 value)"
definition EnumSizePlusOne :: "i32 \<Rightarrow> nat" where "EnumSizePlusOne value = VarintSize32SignExtendedPlusOne value"
definition kFixed32Size :: nat where "kFixed32Size = 4"
definition kFixed64Size :: nat where "kFixed64Size = 8"
definition kSFixed32Size :: nat where "kSFixed32Size = 4"
definition kSFixed64Size :: nat where "kSFixed64Size = 8"
definition kFloatSize :: nat where "kFloatSize = 4"
definition kDoubleSize :: nat where "kDoubleSize = 8"
definition kBoolSize :: nat where "kBoolSize = 1"

text \<open>The cast to 32 bits is the source's; the sum is computed in \<open>size_t\<close>.\<close>

definition LengthDelimitedSize :: "size_t \<Rightarrow> size_t" where
  "LengthDelimitedSize n = n + of_nat (VarintSize32 (ucast n))"

definition StringSize :: "bytes \<Rightarrow> size_t" where "StringSize value = LengthDelimitedSize (of_nat (length value))"
definition BytesSize :: "bytes \<Rightarrow> size_t" where "BytesSize value = LengthDelimitedSize (of_nat (length value))"

definition GroupSize :: "('m \<Rightarrow> size_t) \<Rightarrow> 'm \<Rightarrow> size_t" where
  "GroupSize ByteSizeLong value = ByteSizeLong value"

definition MessageSize :: "('m \<Rightarrow> size_t) \<Rightarrow> 'm \<Rightarrow> size_t" where
  "MessageSize ByteSizeLong value = LengthDelimitedSize (ByteSizeLong value)"

definition GroupSizeNoVirtual :: "('m \<Rightarrow> size_t) \<Rightarrow> 'm \<Rightarrow> size_t" where
  "GroupSizeNoVirtual ByteSizeLong value = ByteSizeLong value"

definition MessageSizeNoVirtual :: "('m \<Rightarrow> size_t) \<Rightarrow> 'm \<Rightarrow> size_t" where
  "MessageSizeNoVirtual ByteSizeLong value = LengthDelimitedSize (ByteSizeLong value)"

subsection \<open>What the writers append\<close>

lemma le_bytes_numeral:
  "le_bytes (numeral n) w = ucast w # le_bytes (pred_numeral n) (drop_bit 8 w)"
  by (simp add: numeral_eq_Suc)

lemma byte_of_half: "k + 8 \<le> 32 \<Longrightarrow> ucast (drop_bit k (ucast w :: u32)) = (ucast (drop_bit k w) :: byte)"
  for w :: u64
  by (rule bit_word_eqI) (auto simp: bit_simps)

lemma le_bytes_portable:
  "WriteLittleEndian32ToArray_portable v t = WriteLittleEndian32ToArray v t"
  "WriteLittleEndian64ToArray_portable w t = WriteLittleEndian64ToArray w t"
proof -
  show "WriteLittleEndian32ToArray_portable v t = WriteLittleEndian32ToArray v t"
    by (simp add: WriteLittleEndian32ToArray_portable_def WriteLittleEndian32ToArray_def le_bytes_numeral)
  show "WriteLittleEndian64ToArray_portable w t = WriteLittleEndian64ToArray w t"
    using byte_of_half[of 0 w] byte_of_half[of 8 w] byte_of_half[of 16 w] byte_of_half[of 24 w]
      byte_of_half[of 0 "drop_bit 32 w"] byte_of_half[of 8 "drop_bit 32 w"] byte_of_half[of 16 "drop_bit 32 w"] byte_of_half[of 24 "drop_bit 32 w"]
    by (simp add: WriteLittleEndian64ToArray_portable_def WriteLittleEndian64ToArray_def le_bytes_numeral Let_def)
qed

lemma sizes_eq:
  "Int32Size i = length (UnsafeVarint (scast i :: u64))" "Int64Size w = length (UnsafeVarint w)"
  "UInt32Size u = length (UnsafeVarint u)" "UInt64Size w = length (UnsafeVarint w)"
  "SInt32Size i = length (UnsafeVarint (ZigZagEncode32 i))" "SInt64Size w = length (UnsafeVarint (ZigZagEncode64 w))"
  "EnumSize i = length (UnsafeVarint (scast i :: u64))"
  by (simp_all add: Int32Size_def Int64Size_def UInt32Size_def UInt64Size_def SInt32Size_def SInt64Size_def EnumSize_def
      VarintSize32_eq VarintSize64_eq VarintSize32SignExtended_def)

lemma UnsafeVarint_bool: "length (UnsafeVarint (if b then 1 else 0 :: u32)) = 1"
  by (subst UnsafeVarint.simps) simp

lemmas writer_simps = WriteInt32NoTagToArray_def WriteInt64NoTagToArray_def WriteUInt32NoTagToArray_def WriteUInt64NoTagToArray_def WriteSInt32NoTagToArray_def WriteSInt64NoTagToArray_def WriteFixed32NoTagToArray_def WriteFixed64NoTagToArray_def WriteSFixed32NoTagToArray_def WriteSFixed64NoTagToArray_def WriteFloatNoTagToArray_def WriteDoubleNoTagToArray_def WriteBoolNoTagToArray_def WriteEnumNoTagToArray_def
  WriteVarint32ToArray_def WriteVarint64ToArray_def WriteVarint32SignExtendedToArray_def
  WriteLittleEndian32ToArray_def WriteLittleEndian64ToArray_def sizes_eq UnsafeVarint_bool
  kFixed32Size_def kFixed64Size_def kSFixed32Size_def kSFixed64Size_def kFloatSize_def kDoubleSize_def kBoolSize_def

lemma bit_wire_number:
  assumes "bit (wire_number t) k"
  shows "k < 3"
proof (rule ccontr)
  assume "\<not> k < 3"
  then have "bit (drop_bit 3 (wire_number t)) (k - 3)" using assms by (simp add: bit_drop_bit_eq)
  moreover have "unat (wire_number t) < 2 ^ 3" by (cases t) simp_all
  then have "drop_bit 3 (wire_number t) = 0" using unat_less_power_iff[of "wire_number t" 3] by blast
  ultimately show False by simp
qed

text \<open>The wire type occupies three bits of the first group and does not change the length of a tag.\<close>

lemma length_tag: "length (UnsafeVarint (MakeTag n t)) = VarintSize32 (push_bit kTagTypeBits n)"
proof -
  have "length (UnsafeVarint (MakeTag n t)) \<le> m \<longleftrightarrow> length (UnsafeVarint (push_bit 3 n)) \<le> m" for m
  proof (cases "m = 0")
    case True
    then show ?thesis using length_UnsafeVarint_pos[of "MakeTag n t"] length_UnsafeVarint_pos[of "push_bit 3 n"] by auto
  next
    case False
    have "drop_bit (7 * m) (MakeTag n t) = drop_bit (7 * m) (push_bit 3 n)"
      using False bit_wire_number[of t]
      by (intro bit_word_eqI) (fastforce simp: MakeTag_def GOOGLE_PROTOBUF_WIRE_FORMAT_MAKE_TAG_def bit_simps)
    then show ?thesis using False by (simp add: length_UnsafeVarint_le unat_less_power_iff)
  qed
  then show ?thesis by (metis VarintSize32_eq kTagTypeBits_def le_antisym order_refl)
qed

lemma WriteTagToArray_eq: "WriteTagToArray n t target = target @ UnsafeVarint (MakeTag n t)"
  by (simp add: WriteTagToArray_def COS_WriteTagToArray_def WriteVarint32ToArray_def)

text \<open>
  What the writers of one field type promise: they append, the size function counts the appended
  bytes, and the tagged variant writes the tag first.
\<close>

locale wire_scalar =
  fixes NoTag :: "'a \<Rightarrow> bytes \<Rightarrow> bytes"
    and Tagged :: "i32 \<Rightarrow> 'a \<Rightarrow> bytes \<Rightarrow> bytes"
    and sz :: "'a \<Rightarrow> nat"
    and wt :: WireType
  assumes appends: "NoTag v target = target @ NoTag v []"
    and counts: "length (NoTag v []) = sz v"
    and tag_first: "Tagged n v target = NoTag v (WriteTagToArray n wt target)"
begin

lemma Tagged_eq: "Tagged n v target = target @ UnsafeVarint (MakeTag n wt) @ NoTag v []"
  using appends[of v "WriteTagToArray n wt target"] by (simp add: tag_first WriteTagToArray_eq)

lemma length_Tagged: "T \<noteq> TYPE_GROUP \<Longrightarrow> length (Tagged n v target) = length target + TagSize n T + sz v"
  by (simp add: Tagged_eq counts length_tag TagSize_def)

lemma repeated_NoTag:
  "xs \<noteq> [] \<Longrightarrow> WritePrimitiveNoTagToArray xs NoTag target = Some (target @ concat (map (\<lambda>v. NoTag v []) xs))"
proof (induction xs arbitrary: target rule: induct_list012)
  case (2 x)
  then show ?case using appends[of x target] by simp
next
  case (3 x y xs)
  then show ?case using appends[of x target] by simp
qed simp

lemma repeated_size:
  "xs \<noteq> [] \<Longrightarrow> map_option length (WritePrimitiveNoTagToArray xs NoTag target) = Some (length target + sum_list (map sz xs))"
  by (simp add: repeated_NoTag length_concat counts comp_def)

lemma tagged_loop: "write_tagged_loop n xs Tagged target = target @ concat (map (\<lambda>v. Tagged n v []) xs)"
proof (induction xs arbitrary: target)
  case (Cons x xs)
  then show ?case using Tagged_eq[of n x target] Tagged_eq[of n x "[]"] by simp
qed simp

lemma repeated_Tagged: "WritePrimitiveToArray n xs Tagged target = target @ concat (map (\<lambda>v. Tagged n v []) xs)"
  by (simp add: WritePrimitiveToArray_def tagged_loop)

text \<open>The copied memory image is what the writer would have written, when each element's image is.\<close>

lemma fixed_is_repeated:
  "(\<And>v. img v = NoTag v []) \<Longrightarrow> WriteFixedNoTagToArray img xs W target = WritePrimitiveNoTagToArray xs NoTag target"
proof -
  assume "\<And>v. img v = NoTag v []"
  then have "img = (\<lambda>v. NoTag v [])" by blast
  then show ?thesis by (cases "xs = []") (simp_all add: WriteFixedNoTagToArray_def repeated_NoTag)
qed

end

interpretation wInt32: wire_scalar WriteInt32NoTagToArray WriteInt32ToArray Int32Size WIRETYPE_VARINT
  by unfold_locales (simp_all add: WriteInt32ToArray_def Let_def writer_simps)

interpretation wInt64: wire_scalar WriteInt64NoTagToArray WriteInt64ToArray Int64Size WIRETYPE_VARINT
  by unfold_locales (simp_all add: WriteInt64ToArray_def Let_def writer_simps)

interpretation wUInt32: wire_scalar WriteUInt32NoTagToArray WriteUInt32ToArray UInt32Size WIRETYPE_VARINT
  by unfold_locales (simp_all add: WriteUInt32ToArray_def Let_def writer_simps)

interpretation wUInt64: wire_scalar WriteUInt64NoTagToArray WriteUInt64ToArray UInt64Size WIRETYPE_VARINT
  by unfold_locales (simp_all add: WriteUInt64ToArray_def Let_def writer_simps)

interpretation wSInt32: wire_scalar WriteSInt32NoTagToArray WriteSInt32ToArray SInt32Size WIRETYPE_VARINT
  by unfold_locales (simp_all add: WriteSInt32ToArray_def Let_def writer_simps)

interpretation wSInt64: wire_scalar WriteSInt64NoTagToArray WriteSInt64ToArray SInt64Size WIRETYPE_VARINT
  by unfold_locales (simp_all add: WriteSInt64ToArray_def Let_def writer_simps)

interpretation wFixed32: wire_scalar WriteFixed32NoTagToArray WriteFixed32ToArray "\<lambda>_. kFixed32Size" WIRETYPE_FIXED32
  by unfold_locales (simp_all add: WriteFixed32ToArray_def Let_def writer_simps)

interpretation wFixed64: wire_scalar WriteFixed64NoTagToArray WriteFixed64ToArray "\<lambda>_. kFixed64Size" WIRETYPE_FIXED64
  by unfold_locales (simp_all add: WriteFixed64ToArray_def Let_def writer_simps)

interpretation wSFixed32: wire_scalar WriteSFixed32NoTagToArray WriteSFixed32ToArray "\<lambda>_. kSFixed32Size" WIRETYPE_FIXED32
  by unfold_locales (simp_all add: WriteSFixed32ToArray_def Let_def writer_simps)

interpretation wSFixed64: wire_scalar WriteSFixed64NoTagToArray WriteSFixed64ToArray "\<lambda>_. kSFixed64Size" WIRETYPE_FIXED64
  by unfold_locales (simp_all add: WriteSFixed64ToArray_def Let_def writer_simps)

interpretation wFloat: wire_scalar WriteFloatNoTagToArray WriteFloatToArray "\<lambda>_. kFloatSize" WIRETYPE_FIXED32
  by unfold_locales (simp_all add: WriteFloatToArray_def Let_def writer_simps)

interpretation wDouble: wire_scalar WriteDoubleNoTagToArray WriteDoubleToArray "\<lambda>_. kDoubleSize" WIRETYPE_FIXED64
  by unfold_locales (simp_all add: WriteDoubleToArray_def Let_def writer_simps)

interpretation wBool: wire_scalar WriteBoolNoTagToArray WriteBoolToArray "\<lambda>_. kBoolSize" WIRETYPE_VARINT
  by unfold_locales (simp_all add: WriteBoolToArray_def Let_def writer_simps)

interpretation wEnum: wire_scalar WriteEnumNoTagToArray WriteEnumToArray EnumSize WIRETYPE_VARINT
  by unfold_locales (simp_all add: WriteEnumToArray_def Let_def writer_simps)

subsection \<open>Properties of the writers\<close>

text \<open>
  C23: For every scalar field type the bytes a tagged writer appends are as many as the tag size and
  the value size announce, for every field number and value; the serializer may therefore reserve
  exactly the computed size.
\<close>

theorem scalar_fields_fill_their_size:
  "length (WriteInt32ToArray n i t) = length t + TagSize n TYPE_INT32 + Int32Size i
   \<and> length (WriteInt64ToArray n j t) = length t + TagSize n TYPE_INT64 + Int64Size j
   \<and> length (WriteUInt32ToArray n u t) = length t + TagSize n TYPE_UINT32 + UInt32Size u
   \<and> length (WriteUInt64ToArray n w t) = length t + TagSize n TYPE_UINT64 + UInt64Size w
   \<and> length (WriteSInt32ToArray n i t) = length t + TagSize n TYPE_SINT32 + SInt32Size i
   \<and> length (WriteSInt64ToArray n j t) = length t + TagSize n TYPE_SINT64 + SInt64Size j
   \<and> length (WriteFixed32ToArray n u t) = length t + TagSize n TYPE_FIXED32 + kFixed32Size
   \<and> length (WriteFixed64ToArray n w t) = length t + TagSize n TYPE_FIXED64 + kFixed64Size
   \<and> length (WriteSFixed32ToArray n i t) = length t + TagSize n TYPE_SFIXED32 + kSFixed32Size
   \<and> length (WriteSFixed64ToArray n j t) = length t + TagSize n TYPE_SFIXED64 + kSFixed64Size
   \<and> length (WriteFloatToArray n f t) = length t + TagSize n TYPE_FLOAT + kFloatSize
   \<and> length (WriteDoubleToArray n d t) = length t + TagSize n TYPE_DOUBLE + kDoubleSize
   \<and> length (WriteBoolToArray n b t) = length t + TagSize n TYPE_BOOL + kBoolSize
   \<and> length (WriteEnumToArray n i t) = length t + TagSize n TYPE_ENUM + EnumSize i"
  by (simp add: wInt32.length_Tagged wInt64.length_Tagged wUInt32.length_Tagged wUInt64.length_Tagged wSInt32.length_Tagged wSInt64.length_Tagged wFixed32.length_Tagged wFixed64.length_Tagged wSFixed32.length_Tagged wSFixed64.length_Tagged wFloat.length_Tagged wDouble.length_Tagged wBool.length_Tagged wEnum.length_Tagged)

lemma repeated_empty: "WritePrimitiveNoTagToArray [] W t = None" "WriteFixedNoTagToArray img [] W t = None"
  by (simp_all add: WriteFixedNoTagToArray_def)

text \<open>
  The fixed-size fields are copied from memory as one block on a little-endian machine; the result
  is the one of writing the elements one by one.
\<close>

lemma packed_fields_are_concatenations:
  "(WriteInt32NoTagToArray_rep is t = (if is = [] then None else Some (t @ concat (map (\<lambda>v. WriteInt32NoTagToArray v []) is))))
   \<and> (WriteInt64NoTagToArray_rep js t = (if js = [] then None else Some (t @ concat (map (\<lambda>v. WriteInt64NoTagToArray v []) js))))
   \<and> (WriteUInt32NoTagToArray_rep us t = (if us = [] then None else Some (t @ concat (map (\<lambda>v. WriteUInt32NoTagToArray v []) us))))
   \<and> (WriteUInt64NoTagToArray_rep ws t = (if ws = [] then None else Some (t @ concat (map (\<lambda>v. WriteUInt64NoTagToArray v []) ws))))
   \<and> (WriteSInt32NoTagToArray_rep is t = (if is = [] then None else Some (t @ concat (map (\<lambda>v. WriteSInt32NoTagToArray v []) is))))
   \<and> (WriteSInt64NoTagToArray_rep js t = (if js = [] then None else Some (t @ concat (map (\<lambda>v. WriteSInt64NoTagToArray v []) js))))
   \<and> (WriteFixed32NoTagToArray_rep us t = (if us = [] then None else Some (t @ concat (map (\<lambda>v. WriteFixed32NoTagToArray v []) us))))
   \<and> (WriteFixed64NoTagToArray_rep ws t = (if ws = [] then None else Some (t @ concat (map (\<lambda>v. WriteFixed64NoTagToArray v []) ws))))
   \<and> (WriteSFixed32NoTagToArray_rep is t = (if is = [] then None else Some (t @ concat (map (\<lambda>v. WriteSFixed32NoTagToArray v []) is))))
   \<and> (WriteSFixed64NoTagToArray_rep js t = (if js = [] then None else Some (t @ concat (map (\<lambda>v. WriteSFixed64NoTagToArray v []) js))))
   \<and> (WriteFloatNoTagToArray_rep fs t = (if fs = [] then None else Some (t @ concat (map (\<lambda>v. WriteFloatNoTagToArray v []) fs))))
   \<and> (WriteDoubleNoTagToArray_rep ds t = (if ds = [] then None else Some (t @ concat (map (\<lambda>v. WriteDoubleNoTagToArray v []) ds))))
   \<and> (WriteBoolNoTagToArray_rep bs t = (if bs = [] then None else Some (t @ concat (map (\<lambda>v. WriteBoolNoTagToArray v []) bs))))
   \<and> (WriteEnumNoTagToArray_rep is t = (if is = [] then None else Some (t @ concat (map (\<lambda>v. WriteEnumNoTagToArray v []) is))))"
  by (simp add: WriteInt32NoTagToArray_rep_def WriteInt64NoTagToArray_rep_def WriteUInt32NoTagToArray_rep_def WriteUInt64NoTagToArray_rep_def WriteSInt32NoTagToArray_rep_def WriteSInt64NoTagToArray_rep_def WriteFixed32NoTagToArray_rep_def WriteFixed64NoTagToArray_rep_def WriteSFixed32NoTagToArray_rep_def WriteSFixed64NoTagToArray_rep_def WriteFloatNoTagToArray_rep_def WriteDoubleNoTagToArray_rep_def WriteBoolNoTagToArray_rep_def WriteEnumNoTagToArray_rep_def repeated_empty
      wInt32.repeated_NoTag wInt64.repeated_NoTag wUInt32.repeated_NoTag wUInt64.repeated_NoTag wSInt32.repeated_NoTag wSInt64.repeated_NoTag wBool.repeated_NoTag wEnum.repeated_NoTag)
    (simp add: WriteFixedNoTagToArray_def writer_simps EncodeFloat_def EncodeDouble_def)

lemma tagged_fields_are_concatenations:
  "WriteInt32ToArray_rep n is t = t @ concat (map (\<lambda>v. WriteInt32ToArray n v []) is)
   \<and> WriteInt64ToArray_rep n js t = t @ concat (map (\<lambda>v. WriteInt64ToArray n v []) js)
   \<and> WriteUInt32ToArray_rep n us t = t @ concat (map (\<lambda>v. WriteUInt32ToArray n v []) us)
   \<and> WriteUInt64ToArray_rep n ws t = t @ concat (map (\<lambda>v. WriteUInt64ToArray n v []) ws)
   \<and> WriteSInt32ToArray_rep n is t = t @ concat (map (\<lambda>v. WriteSInt32ToArray n v []) is)
   \<and> WriteSInt64ToArray_rep n js t = t @ concat (map (\<lambda>v. WriteSInt64ToArray n v []) js)
   \<and> WriteFixed32ToArray_rep n us t = t @ concat (map (\<lambda>v. WriteFixed32ToArray n v []) us)
   \<and> WriteFixed64ToArray_rep n ws t = t @ concat (map (\<lambda>v. WriteFixed64ToArray n v []) ws)
   \<and> WriteSFixed32ToArray_rep n is t = t @ concat (map (\<lambda>v. WriteSFixed32ToArray n v []) is)
   \<and> WriteSFixed64ToArray_rep n js t = t @ concat (map (\<lambda>v. WriteSFixed64ToArray n v []) js)
   \<and> WriteFloatToArray_rep n fs t = t @ concat (map (\<lambda>v. WriteFloatToArray n v []) fs)
   \<and> WriteDoubleToArray_rep n ds t = t @ concat (map (\<lambda>v. WriteDoubleToArray n v []) ds)
   \<and> WriteBoolToArray_rep n bs t = t @ concat (map (\<lambda>v. WriteBoolToArray n v []) bs)
   \<and> WriteEnumToArray_rep n is t = t @ concat (map (\<lambda>v. WriteEnumToArray n v []) is)"
  by (simp add: WriteInt32ToArray_rep_def WriteInt64ToArray_rep_def WriteUInt32ToArray_rep_def WriteUInt64ToArray_rep_def WriteSInt32ToArray_rep_def WriteSInt64ToArray_rep_def WriteFixed32ToArray_rep_def WriteFixed64ToArray_rep_def WriteSFixed32ToArray_rep_def WriteSFixed64ToArray_rep_def WriteFloatToArray_rep_def WriteDoubleToArray_rep_def WriteBoolToArray_rep_def WriteEnumToArray_rep_def
      wInt32.repeated_Tagged wInt64.repeated_Tagged wUInt32.repeated_Tagged wUInt64.repeated_Tagged wSInt32.repeated_Tagged wSInt64.repeated_Tagged wFixed32.repeated_Tagged wFixed64.repeated_Tagged wSFixed32.repeated_Tagged wSFixed64.repeated_Tagged wFloat.repeated_Tagged wDouble.repeated_Tagged wBool.repeated_Tagged wEnum.repeated_Tagged)

lemma mask_3: "kTagTypeMask = mask 3"
  by (simp add: kTagTypeMask_def kTagTypeBits_def mask_eq_exp_minus_1)

lemma GetTagWireType_MakeTag: "GetTagWireType (MakeTag n t) = wire_number t"
proof (rule bit_word_eqI)
  fix k
  show "bit (GetTagWireType (MakeTag n t)) k \<longleftrightarrow> bit (wire_number t) k"
    using bit_wire_number[of t k]
    by (auto simp: GetTagWireType_def MakeTag_def GOOGLE_PROTOBUF_WIRE_FORMAT_MAKE_TAG_def mask_3 bit_simps
        dest: bit_imp_le_length)
qed

lemma GetTagFieldNumber_MakeTag:
  assumes "unat n < 2 ^ 29"
  shows "GetTagFieldNumber (MakeTag n t) = n"
proof (rule bit_word_eqI)
  fix k assume k: "k < LENGTH(32)"
  have z: "drop_bit 29 n = 0" using assms unat_less_power_iff[of n 29] by blast
  have "\<not> bit n k" if "29 \<le> k"
  proof -
    have "\<not> bit (drop_bit 29 n) (k - 29)" using z by simp
    then show ?thesis using that by (simp add: bit_drop_bit_eq)
  qed
  moreover have "\<not> bit (wire_number t) (3 + k)" using bit_wire_number[of t "3 + k"] by auto
  ultimately show "bit (GetTagFieldNumber (MakeTag n t)) k \<longleftrightarrow> bit n k"
    using k by (cases "29 \<le> k")
      (auto simp: GetTagFieldNumber_def MakeTag_def GOOGLE_PROTOBUF_WIRE_FORMAT_MAKE_TAG_def kTagTypeBits_def bit_simps)
qed

lemma wire_number_inj: "wire_number s = wire_number t \<longleftrightarrow> s = t"
  by (cases s; cases t) simp_all

text \<open>
  A tag written for a field number below 2^29 is read back by the tag reader: the varint of the
  tag followed by anything parses to the tag, and its two parts are the field number and the wire
  type it was made of; different fields or wire types therefore have different tags.
\<close>

theorem tag_roundtrip:
  assumes "unat n < 2 ^ 29" "4 \<le> length rest"
  shows "ReadTagInlined (WriteTagToArray n t [] @ rest) = Some (TagSize n TYPE_INT32, MakeTag n t)
    \<and> GetTagFieldNumber (MakeTag n t) = n \<and> GetTagWireType (MakeTag n t) = wire_number t
    \<and> (unat m < 2 ^ 29 \<and> MakeTag n t = MakeTag m s \<longrightarrow> n = m \<and> t = s)"
proof -
  have l: "5 \<le> length (UnsafeVarint (MakeTag n t) @ rest)"
    using assms(2) length_UnsafeVarint_pos[of "MakeTag n t"] unfolding length_append by linarith
  have "ReadTagInlined (WriteTagToArray n t [] @ rest) = parse_varint 5 (UnsafeVarint (MakeTag n t) @ rest)"
    using ReadTagInlined_eq[OF l] by (simp add: WriteTagToArray_eq)
  also have "\<dots> = Some (length (UnsafeVarint (MakeTag n t)), MakeTag n t)"
    by (rule parse_UnsafeVarint) (rule length_UnsafeVarint_bound)
  finally have r: "ReadTagInlined (WriteTagToArray n t [] @ rest) = Some (TagSize n TYPE_INT32, MakeTag n t)"
    by (simp add: length_tag TagSize_def)
  have "n = m \<and> t = s" if "unat m < 2 ^ 29" "MakeTag n t = MakeTag m s"
    using that GetTagFieldNumber_MakeTag[of n t] GetTagFieldNumber_MakeTag[of m s] GetTagWireType_MakeTag[of n t]
      GetTagWireType_MakeTag[of m s] assms(1) wire_number_inj by metis
  then show ?thesis using r GetTagFieldNumber_MakeTag[OF assms(1)] GetTagWireType_MakeTag by blast
qed

theorem tag_roundtrip_witness:
  "ReadTagInlined (WriteTagToArray 12 WIRETYPE_LENGTH_DELIMITED [] @ [0, 0, 0, 0])
     = Some (TagSize 12 TYPE_INT32, MakeTag 12 WIRETYPE_LENGTH_DELIMITED)"
  using tag_roundtrip[of 12 "[0, 0, 0, 0]" WIRETYPE_LENGTH_DELIMITED 12 WIRETYPE_VARINT] by simp

lemma StringSize_eq:
  assumes "length s < 2 ^ 64 - 5"
  shows "unat (StringSize s) = length s + length (UnsafeVarint (of_nat (length s) :: u32))"
proof -
  have u: "(ucast (of_nat (length s) :: u64) :: u32) = of_nat (length s)"
    by (rule bit_word_eqI) (auto simp: bit_simps bit_of_nat_iff_bit)
  have b: "length (UnsafeVarint (of_nat (length s) :: u32)) \<le> 5" by (rule length_UnsafeVarint_bound)
  have "StringSize s = of_nat (length s + length (UnsafeVarint (of_nat (length s) :: u32)))"
    by (simp add: StringSize_def LengthDelimitedSize_def VarintSize32_eq u)
  then show ?thesis using assms b by (simp only:) (rule unat_of_nat_small, simp)
qed

text \<open>
  What the generated code of a message class promises the wire format: the serializer appends the
  message's bytes, and both size functions count them. A message is below 2 GiB.
\<close>

definition serializes :: "('m \<Rightarrow> bytes) \<Rightarrow> ('m \<Rightarrow> bytes \<Rightarrow> bytes) \<Rightarrow> ('m \<Rightarrow> i32) \<Rightarrow> ('m \<Rightarrow> size_t) \<Rightarrow> 'm \<Rightarrow> bool" where
  "serializes body Serialize GetCachedSize ByteSizeLong m \<longleftrightarrow>
     (\<forall>t. Serialize m t = t @ body m) \<and> length (body m) < 2 ^ 31
     \<and> GetCachedSize m = of_nat (length (body m)) \<and> ByteSizeLong m = of_nat (length (body m))"

lemma MessageSize_eq:
  assumes "serializes body ser cached bsl m"
  shows "unat (MessageSize bsl m) = length (body m) + length (UnsafeVarint (cached m))"
proof -
  have "length (body m) < 2 ^ 64 - 5" using assms by (simp add: serializes_def)
  then show ?thesis
    using StringSize_eq[of "body m"] assms by (simp add: serializes_def MessageSize_def StringSize_def)
qed

text \<open>
  Length-delimited fields and groups fill the size that is computed for them: strings and bytes
  the tag size plus the string size, embedded messages the tag size plus the message size, and
  groups the size of both tags plus the message's own, when the compiled string writer and the
  generated serializer keep their documented promises.
\<close>

theorem delimited_fields_fill_their_size:
  assumes "writes_size_and_string f" "length s < 2 ^ 64 - 5" "serializes body ser cached bsl m"
  shows "length (WriteStringToArray f n s t) = length t + TagSize n TYPE_STRING + unat (StringSize s)
    \<and> length (WriteBytesToArray f n s t) = length t + TagSize n TYPE_BYTES + unat (BytesSize s)
    \<and> length (InternalWriteMessageNoVirtualToArray cached ser n m t) = length t + TagSize n TYPE_MESSAGE + unat (MessageSize bsl m)
    \<and> length (InternalWriteGroupNoVirtualToArray ser n m t) = length t + TagSize n TYPE_GROUP + unat (GroupSize bsl m)"
proof -
  have b: "BytesSize s = StringSize s" by (simp add: BytesSize_def StringSize_def)
  have g: "unat (GroupSize bsl m) = length (body m)"
    using assms(3) unat_of_nat_small[of "length (body m)", where 'a = 64] by (simp add: serializes_def GroupSize_def)
  have "length (WriteStringToArray f n s t) = length t + TagSize n TYPE_STRING + unat (StringSize s)"
    "length (WriteBytesToArray f n s t) = length t + TagSize n TYPE_BYTES + unat (BytesSize s)"
    using assms(1) StringSize_eq[OF assms(2)] b
    by (simp_all add: writes_size_and_string_def WriteStringToArray_def WriteBytesToArray_def WriteTagToArray_eq length_tag TagSize_def Let_def)
  moreover have "length (InternalWriteMessageNoVirtualToArray cached ser n m t) = length t + TagSize n TYPE_MESSAGE + unat (MessageSize bsl m)"
    using assms(3) MessageSize_eq[OF assms(3)]
    by (simp add: serializes_def InternalWriteMessageNoVirtualToArray_def WriteTagToArray_eq length_tag TagSize_def Let_def WriteVarint32ToArray_def)
  moreover have "length (InternalWriteGroupNoVirtualToArray ser n m t) = length t + TagSize n TYPE_GROUP + unat (GroupSize bsl m)"
    using assms(3) g by (simp add: serializes_def InternalWriteGroupNoVirtualToArray_def WriteTagToArray_eq length_tag TagSize_def Let_def)
  ultimately show ?thesis by blast
qed

theorem delimited_fields_fill_their_size_witness:
  "length (WriteStringToArray (\<lambda>s t. t @ UnsafeVarint (of_nat (length s) :: u32) @ s) 3 [65, 66] []) = TagSize 3 TYPE_STRING + unat (StringSize [65, 66])"
  using delimited_fields_fill_their_size[of "\<lambda>s t. t @ UnsafeVarint (of_nat (length s) :: u32) @ s" "[65, 66]"
      "\<lambda>_ :: unit. [1]" "\<lambda>_ t. t @ [1]" "\<lambda>_. 1" "\<lambda>_. 1" "()" 3 "[]"]
  by (simp add: writes_size_and_string_def serializes_def)

end
