(* ===== verification/Coded_Input.thy ===== *)
theory Coded_Input
  imports Wire_Format
begin

text \<open>
  \<open>CodedInputStream\<close> of \<open>google/protobuf/io/coded_stream.h\<close>: the inline readers over the current
  buffer. The memory the buffer lies in is a list of bytes, \<open>buffer_\<close> and \<open>buffer_end_\<close> are offsets
  in it, \<open>input_\<close> is absent for a flat array. The counters of type \<open>int\<close> are integers.

  What the header only declares (the fallbacks when the buffer runs out, limits, raw reads) is
  compiled into the library: a record of parameters.
\<close>

record coded_input =
  mem :: bytes
  buffer :: nat
  buffer_end :: nat
  input :: "bytes option"
  total_bytes_read :: int
  overflow_bytes :: int
  last_tag :: u32
  legitimate_message_end :: bool
  ci_aliasing_enabled :: bool
  current_limit :: int
  buffer_size_after_limit :: int
  total_bytes_limit :: int
  recursion_budget :: int
  recursion_limit :: int
  extension_pool :: "nat option"
  extension_factory :: "nat option"

record input_lib =
  ReadVarint32Fallback :: "u32 \<Rightarrow> coded_input \<Rightarrow> int \<times> coded_input"
  ReadVarint64Fallback :: "coded_input \<Rightarrow> (u64 \<times> bool) \<times> coded_input"
  ReadVarintSizeAsIntFallback :: "coded_input \<Rightarrow> int \<times> coded_input"
  ReadLittleEndian32Fallback :: "coded_input \<Rightarrow> (bool \<times> u32) \<times> coded_input"
  ReadLittleEndian64Fallback :: "coded_input \<Rightarrow> (bool \<times> u64) \<times> coded_input"
  CI_ReadTagFallback :: "u32 \<Rightarrow> coded_input \<Rightarrow> u32 \<times> coded_input"
  SkipFallback :: "int \<Rightarrow> int \<Rightarrow> coded_input \<Rightarrow> bool \<times> coded_input"
  Refresh :: "coded_input \<Rightarrow> coded_input"
  PushLimit :: "int \<Rightarrow> coded_input \<Rightarrow> int \<times> coded_input"
  PopLimit :: "int \<Rightarrow> coded_input \<Rightarrow> coded_input"
  BytesUntilLimit :: "coded_input \<Rightarrow> int"
  BytesUntilTotalBytesLimit :: "coded_input \<Rightarrow> int"
  ReadRaw :: "nat \<Rightarrow> coded_input \<Rightarrow> bytes option \<times> coded_input"
  default_recursion_limit :: int

subsection \<open>Construction and position\<close>

definition kDefaultTotalBytesLimit :: int where "kDefaultTotalBytesLimit = 2 ^ 31 - 1"

definition new_CodedInputStream :: "input_lib \<Rightarrow> bytes \<Rightarrow> coded_input" where
  "new_CodedInputStream L inp =
     Refresh L \<lparr> mem = [], buffer = 0, buffer_end = 0, input = Some inp, total_bytes_read = 0, overflow_bytes = 0,
        last_tag = 0, legitimate_message_end = False, ci_aliasing_enabled = False, current_limit = 2 ^ 31 - 1,
        buffer_size_after_limit = 0, total_bytes_limit = kDefaultTotalBytesLimit,
        recursion_budget = default_recursion_limit L, recursion_limit = default_recursion_limit L,
        extension_pool = None, extension_factory = None \<rparr>"

definition new_CodedInputStream_flat :: "input_lib \<Rightarrow> bytes \<Rightarrow> nat \<Rightarrow> coded_input" where
  "new_CodedInputStream_flat L buf sz =
     \<lparr> mem = buf, buffer = 0, buffer_end = sz, input = None, total_bytes_read = int sz, overflow_bytes = 0,
        last_tag = 0, legitimate_message_end = False, ci_aliasing_enabled = False, current_limit = int sz,
        buffer_size_after_limit = 0, total_bytes_limit = kDefaultTotalBytesLimit,
        recursion_budget = default_recursion_limit L, recursion_limit = default_recursion_limit L,
        extension_pool = None, extension_factory = None \<rparr>"

definition IsFlat :: "coded_input \<Rightarrow> bool" where
  "IsFlat s \<longleftrightarrow> input s = None"

definition BufferSize :: "coded_input \<Rightarrow> int" where
  "BufferSize s = int (buffer_end s) - int (buffer s)"

definition CurrentPosition :: "coded_input \<Rightarrow> int" where
  "CurrentPosition s = total_bytes_read s - (BufferSize s + buffer_size_after_limit s)"

definition Advance :: "nat \<Rightarrow> coded_input \<Rightarrow> coded_input" where
  "Advance amount s = s\<lparr>buffer := buffer s + amount\<rparr>"

definition Skip :: "input_lib \<Rightarrow> int \<Rightarrow> coded_input \<Rightarrow> bool \<times> coded_input" where
  "Skip L count s =
     (if count < 0 then (False, s)
      else let original_buffer_size = BufferSize s in
           if count \<le> original_buffer_size then (True, Advance (nat count) s)
           else SkipFallback L count original_buffer_size s)"

definition GetDirectBufferPointerInline :: "coded_input \<Rightarrow> bytes \<times> int" where
  "GetDirectBufferPointerInline s = (drop (buffer s) (mem s), int (buffer_end s) - int (buffer s))"

subsection \<open>Varints\<close>

definition ReadVarint32 :: "input_lib \<Rightarrow> coded_input \<Rightarrow> (bool \<times> u32) \<times> coded_input" where
  "ReadVarint32 L s =
     (let v = (if buffer s < buffer_end s then ucast (mem s ! buffer s) else 0) in
      if buffer s < buffer_end s \<and> v < 0x80 then ((True, v), Advance 1 s)
      else let (result, s) = ReadVarint32Fallback L v s in ((0 \<le> result, word_of_int result), s))"

definition ReadVarint64 :: "input_lib \<Rightarrow> coded_input \<Rightarrow> (bool \<times> u64) \<times> coded_input" where
  "ReadVarint64 L s =
     (if buffer s < buffer_end s \<and> mem s ! buffer s < 0x80 then ((True, ucast (mem s ! buffer s)), Advance 1 s)
      else let (p, s) = ReadVarint64Fallback L s in ((snd p, fst p), s))"

definition ReadVarintSizeAsInt :: "input_lib \<Rightarrow> coded_input \<Rightarrow> (bool \<times> int) \<times> coded_input" where
  "ReadVarintSizeAsInt L s =
     (if buffer s < buffer_end s \<and> mem s ! buffer s < 0x80 then ((True, uint (mem s ! buffer s)), Advance 1 s)
      else let (value, s) = ReadVarintSizeAsIntFallback L s in ((0 \<le> value, value), s))"

subsection \<open>Fixed-size integers\<close>

definition ReadLittleEndian32FromArray :: "bytes \<Rightarrow> bytes \<times> u32" where
  "ReadLittleEndian32FromArray buf = (drop 4 buf, of_nat (le_value (take 4 buf)))"

definition ReadLittleEndian32FromArray_portable :: "bytes \<Rightarrow> bytes \<times> u32" where
  "ReadLittleEndian32FromArray_portable buf =
     (drop 4 buf, ucast (buf ! 0) OR push_bit 8 (ucast (buf ! 1)) OR push_bit 16 (ucast (buf ! 2)) OR push_bit 24 (ucast (buf ! 3)))"

definition ReadLittleEndian64FromArray :: "bytes \<Rightarrow> bytes \<times> u64" where
  "ReadLittleEndian64FromArray buf = (drop 8 buf, of_nat (le_value (take 8 buf)))"

definition ReadLittleEndian64FromArray_portable :: "bytes \<Rightarrow> bytes \<times> u64" where
  "ReadLittleEndian64FromArray_portable buf =
     (let part0 = (ucast (buf ! 0) OR push_bit 8 (ucast (buf ! 1)) OR push_bit 16 (ucast (buf ! 2)) OR push_bit 24 (ucast (buf ! 3)) :: u32);
          part1 = (ucast (buf ! 4) OR push_bit 8 (ucast (buf ! 5)) OR push_bit 16 (ucast (buf ! 6)) OR push_bit 24 (ucast (buf ! 7)) :: u32)
      in (drop 8 buf, ucast part0 OR push_bit 32 (ucast part1)))"

definition ReadLittleEndian32 :: "input_lib \<Rightarrow> coded_input \<Rightarrow> (bool \<times> u32) \<times> coded_input" where
  "ReadLittleEndian32 L s =
     (if 4 \<le> BufferSize s then ((True, snd (ReadLittleEndian32FromArray (drop (buffer s) (mem s)))), s\<lparr>buffer := buffer s + 4\<rparr>)
      else ReadLittleEndian32Fallback L s)"

definition ReadLittleEndian64 :: "input_lib \<Rightarrow> coded_input \<Rightarrow> (bool \<times> u64) \<times> coded_input" where
  "ReadLittleEndian64 L s =
     (if 8 \<le> BufferSize s then ((True, snd (ReadLittleEndian64FromArray (drop (buffer s) (mem s)))), s\<lparr>buffer := buffer s + 8\<rparr>)
      else ReadLittleEndian64Fallback L s)"

subsection \<open>Tags\<close>

definition ReadTagNoLastTag :: "input_lib \<Rightarrow> coded_input \<Rightarrow> u32 \<times> coded_input" where
  "ReadTagNoLastTag L s =
     (let v = (if buffer s < buffer_end s then ucast (mem s ! buffer s) else 0) in
      if buffer s < buffer_end s \<and> v < 0x80 then (v, Advance 1 s) else CI_ReadTagFallback L v s)"

definition CI_ReadTag :: "input_lib \<Rightarrow> coded_input \<Rightarrow> u32 \<times> coded_input" where
  "CI_ReadTag L s = (let (tag, s) = ReadTagNoLastTag L s in (tag, s\<lparr>last_tag := tag\<rparr>))"

text \<open>\<open>buffer_[0] & ~buffer_[1]\<close> is computed in \<open>int\<close>, so it is compared as a signed number; the first operand is a byte.\<close>

definition ReadTagWithCutoffNoLastTag :: "input_lib \<Rightarrow> u32 \<Rightarrow> coded_input \<Rightarrow> (u32 \<times> bool) \<times> coded_input" where
  "ReadTagWithCutoffNoLastTag L cutoff s =
     (let p = drop (buffer s) (mem s);
          slow = (\<lambda>first_byte_or_zero. let (tag, s) = CI_ReadTagFallback L first_byte_or_zero s in ((tag, tag - 1 < cutoff), s))
      in if buffer s < buffer_end s then
           if 0 < sint (p ! 0) then
             let tag = ucast (p ! 0) in ((tag, 0x7f \<le> cutoff \<or> tag \<le> cutoff), Advance 1 s)
           else if 0x80 \<le> cutoff \<and> buffer s + 1 < buffer_end s \<and> 0x80 \<le> p ! 0 AND NOT (p ! 1) then
             let kMax2ByteVarint = push_bit 7 0x7f + 0x7f;
                 tag = 128 * ucast (p ! 1) + (ucast (p ! 0) - 0x80)
             in ((tag, kMax2ByteVarint \<le> cutoff \<or> tag \<le> cutoff), Advance 2 s)
           else slow (ucast (p ! 0))
         else slow 0)"

definition ReadTagWithCutoff :: "input_lib \<Rightarrow> u32 \<Rightarrow> coded_input \<Rightarrow> (u32 \<times> bool) \<times> coded_input" where
  "ReadTagWithCutoff L cutoff s =
     (let (result, s) = ReadTagWithCutoffNoLastTag L cutoff s in (result, s\<lparr>last_tag := fst result\<rparr>))"

definition LastTagWas :: "u32 \<Rightarrow> coded_input \<Rightarrow> bool" where
  "LastTagWas expected s \<longleftrightarrow> last_tag s = expected"

definition SetLastTag :: "u32 \<Rightarrow> coded_input \<Rightarrow> coded_input" where
  "SetLastTag tag s = s\<lparr>last_tag := tag\<rparr>"

definition ConsumedEntireMessage :: "coded_input \<Rightarrow> bool" where
  "ConsumedEntireMessage s \<longleftrightarrow> legitimate_message_end s"

definition SetConsumed :: "coded_input \<Rightarrow> coded_input" where
  "SetConsumed s = s\<lparr>legitimate_message_end := True\<rparr>"

definition ExpectTag :: "u32 \<Rightarrow> coded_input \<Rightarrow> bool \<times> coded_input" where
  "ExpectTag expected s =
     (let p = drop (buffer s) (mem s) in
      if expected < push_bit 7 1 then
        (if buffer s < buffer_end s \<and> ucast (p ! 0) = expected then (True, Advance 1 s) else (False, s))
      else if expected < push_bit 14 1 then
        (if 2 \<le> BufferSize s \<and> p ! 0 = ucast (expected OR 0x80) \<and> p ! 1 = ucast (drop_bit 7 expected)
         then (True, Advance 2 s) else (False, s))
      else (False, s))"

definition ExpectTagFromArray :: "bytes \<Rightarrow> u32 \<Rightarrow> bytes option" where
  "ExpectTagFromArray p expected =
     (if expected < push_bit 7 1 then (if ucast (p ! 0) = expected then Some (drop 1 p) else None)
      else if expected < push_bit 14 1 then
        (if p ! 0 = ucast (expected OR 0x80) \<and> p ! 1 = ucast (drop_bit 7 expected) then Some (drop 2 p) else None)
      else None)"

definition ExpectAtEnd :: "coded_input \<Rightarrow> bool \<times> coded_input" where
  "ExpectAtEnd s =
     (if buffer s = buffer_end s \<and> (buffer_size_after_limit s \<noteq> 0 \<or> total_bytes_read s = current_limit s)
      then (True, s\<lparr>last_tag := 0, legitimate_message_end := True\<rparr>) else (False, s))"

subsection \<open>Recursion and extensions\<close>

definition SetRecursionLimit :: "int \<Rightarrow> coded_input \<Rightarrow> coded_input" where
  "SetRecursionLimit lim s = s\<lparr>recursion_budget := recursion_budget s + (lim - recursion_limit s), recursion_limit := lim\<rparr>"

definition RecursionBudget :: "coded_input \<Rightarrow> int" where
  "RecursionBudget s = recursion_budget s"

definition IncrementRecursionDepth :: "coded_input \<Rightarrow> bool \<times> coded_input" where
  "IncrementRecursionDepth s = (let s = s\<lparr>recursion_budget := recursion_budget s - 1\<rparr> in (0 \<le> recursion_budget s, s))"

definition DecrementRecursionDepth :: "coded_input \<Rightarrow> coded_input" where
  "DecrementRecursionDepth s =
     (if recursion_budget s < recursion_limit s then s\<lparr>recursion_budget := recursion_budget s + 1\<rparr> else s)"

text \<open>The assertion holds at every call; in a release build it is not tested.\<close>

definition UnsafeDecrementRecursionDepth :: "coded_input \<Rightarrow> coded_input" where
  "UnsafeDecrementRecursionDepth s = s\<lparr>recursion_budget := recursion_budget s + 1\<rparr>"

definition SetExtensionRegistry :: "nat option \<Rightarrow> nat option \<Rightarrow> coded_input \<Rightarrow> coded_input" where
  "SetExtensionRegistry pool factory s = s\<lparr>extension_pool := pool, extension_factory := factory\<rparr>"

definition GetExtensionPool :: "coded_input \<Rightarrow> nat option" where "GetExtensionPool s = extension_pool s"

definition GetExtensionFactory :: "coded_input \<Rightarrow> nat option" where "GetExtensionFactory s = extension_factory s"

subsection \<open>The unread part of the buffer\<close>

definition unread :: "coded_input \<Rightarrow> bytes" where
  "unread s = take (buffer_end s - buffer s) (drop (buffer s) (mem s))"

definition buffer_ok :: "coded_input \<Rightarrow> bool" where
  "buffer_ok s \<longleftrightarrow> buffer s \<le> buffer_end s \<and> buffer_end s \<le> length (mem s)"

lemma length_unread: "buffer_ok s \<Longrightarrow> length (unread s) = buffer_end s - buffer s"
  by (auto simp: unread_def buffer_ok_def min_def)

lemma BufferSize_eq: "buffer_ok s \<Longrightarrow> BufferSize s = int (length (unread s))"
  by (simp add: length_unread BufferSize_def buffer_ok_def algebra_simps)

lemma unread_Advance: "unread (Advance n s) = drop n (unread s)"
  by (simp add: unread_def Advance_def drop_take add.commute)

lemma buffer_ok_Advance: "buffer_ok s \<Longrightarrow> n \<le> length (unread s) \<Longrightarrow> buffer_ok (Advance n s)"
  by (auto simp: length_unread) (auto simp: buffer_ok_def Advance_def)

lemma Advance_frame [simp]:
  "mem (Advance n s) = mem s" "buffer_end (Advance n s) = buffer_end s" "input (Advance n s) = input s"
  "last_tag (Advance n s) = last_tag s" "recursion_budget (Advance n s) = recursion_budget s"
  "extension_pool (Advance n s) = extension_pool s" "extension_factory (Advance n s) = extension_factory s"
  "legitimate_message_end (Advance n s) = legitimate_message_end s" "current_limit (Advance n s) = current_limit s"
  "buffer_size_after_limit (Advance n s) = buffer_size_after_limit s" "total_bytes_read (Advance n s) = total_bytes_read s"
  "total_bytes_limit (Advance n s) = total_bytes_limit s"
  by (simp_all add: Advance_def)

lemma Advance_Advance: "Advance m (Advance n s) = Advance (n + m) s"
  by (simp add: Advance_def add.assoc)

lemma unread_nth: "buffer_ok s \<Longrightarrow> i < length (unread s) \<Longrightarrow> drop (buffer s) (mem s) ! i = unread s ! i"
  by (simp add: unread_def)

lemma first_unread: "buffer_ok s \<Longrightarrow> buffer s < buffer_end s \<longleftrightarrow> unread s \<noteq> []"
  by (auto simp: buffer_ok_def unread_def)

lemma mem_first: "buffer_ok s \<Longrightarrow> unread s \<noteq> [] \<Longrightarrow> mem s ! buffer s = unread s ! 0"
  by (auto simp: unread_def buffer_ok_def)

lemma CurrentPosition_Advance: "CurrentPosition (Advance n s) = CurrentPosition s + int n"
  by (simp add: CurrentPosition_def BufferSize_def Advance_def)

subsection \<open>Tags and their cut-off\<close>

lemma byte_positive: "0 < sint (b :: byte) \<Longrightarrow> unat b < 128"
proof -
  assume "0 < sint b"
  then have "\<not> bit b 7" using bit_last_iff[of b] by simp
  then show ?thesis using continues_iff[of b] by (simp add: continues_def)
qed

lemma and_not_high:
  assumes "(0x80 :: byte) \<le> a AND NOT b"
  shows "128 \<le> unat a \<and> unat b < 128"
proof -
  have "128 \<le> unat (a AND NOT b)" using assms by (simp add: word_le_nat_alt)
  then have "bit (a AND NOT b) 7" using continues_iff[of "a AND NOT b"] by (simp add: continues_def)
  then have "bit a 7" "\<not> bit b 7" by (simp_all add: bit_simps)
  then show ?thesis using continues_iff[of a] continues_iff[of b] by (simp add: continues_def)
qed

lemma tag_minus_1: "(tag :: u32) - 1 < cutoff \<longleftrightarrow> tag \<noteq> 0 \<and> tag \<le> cutoff"
proof (cases "tag = 0")
  case True
  then show ?thesis by (simp add: not_less word_order.extremum)
next
  case False
  then have "unat (tag - 1) = unat tag - 1" by (rule unat_minus_one)
  then show ?thesis using False by (auto simp: word_less_nat_alt word_le_nat_alt unat_gt_0[symmetric])
qed

lemma two_byte_tag:
  fixes a b :: byte
  assumes "128 \<le> unat a" "unat b < 128"
  shows "unat (128 * ucast b + (ucast a - 0x80) :: u32) < 0x4000"
proof -
  have a: "unat a < 256" using unat_bytes(1)[of a] by simp
  have "(ucast a - 0x80 :: u32) = of_nat (unat a - 128)" using assms(1) by (simp add: of_nat_diff)
  then have "(128 * ucast b + (ucast a - 0x80) :: u32) = of_nat (128 * unat b + (unat a - 128))" by simp
  moreover have "128 * unat b + (unat a - 128) < 0x4000" using assms a by simp
  moreover have "unat (of_nat (128 * unat b + (unat a - 128)) :: u32) = 128 * unat b + (unat a - 128)"
    by (rule unat_of_nat_small) (use assms a in simp)
  ultimately show ?thesis by (simp only:)
qed

text \<open>
  The documented contract of the tag reader with a cut-off holds on every path, whatever the
  compiled slow path returns: a tag reported as within the cut-off is at most the cut-off, and a
  tag not reported so is above it or zero.
\<close>

theorem cutoff_contract:
  "case ReadTagWithCutoffNoLastTag L cutoff s of ((tag, below), s') \<Rightarrow>
     if below then tag \<le> cutoff else tag = 0 \<or> cutoff < tag"
proof -
  let ?p = "drop (buffer s) (mem s)"
  obtain tag s' where slow0: "CI_ReadTagFallback L 0 s = (tag, s')" by fastforce
  obtain tag1 s1 where slow1: "CI_ReadTagFallback L (ucast (?p ! 0)) s = (tag1, s1)" by fastforce
  consider (empty) "\<not> buffer s < buffer_end s" | (one) "buffer s < buffer_end s" "0 < sint (?p ! 0)"
    | (two) "buffer s < buffer_end s" "\<not> 0 < sint (?p ! 0)" "0x80 \<le> cutoff" "buffer s + 1 < buffer_end s" "0x80 \<le> ?p ! 0 AND NOT (?p ! 1)"
    | (slow) "buffer s < buffer_end s" "\<not> 0 < sint (?p ! 0)" "\<not> (0x80 \<le> cutoff \<and> buffer s + 1 < buffer_end s \<and> 0x80 \<le> ?p ! 0 AND NOT (?p ! 1))"
    by blast
  then show ?thesis
  proof cases
    case empty
    then show ?thesis using slow0 by (simp add: ReadTagWithCutoffNoLastTag_def tag_minus_1 not_le)
  next
    case one
    have "unat (ucast (?p ! 0) :: u32) < 128"
      using byte_positive[OF one(2)] by (simp add: unsigned_ucast_eq take_bit_nat_eq_self)
    then have "(0x7f :: u32) \<le> cutoff \<Longrightarrow> (ucast (?p ! 0) :: u32) \<le> cutoff" by (simp add: word_le_nat_alt)
    then show ?thesis using one by (auto simp: ReadTagWithCutoffNoLastTag_def Let_def not_le)
  next
    case two
    let ?t = "128 * ucast (?p ! 1) + (ucast (?p ! 0) - 0x80) :: u32"
    have "unat ?t < 0x4000" using and_not_high[OF two(5)] by (intro two_byte_tag) simp_all
    then have "(0x3fff :: u32) \<le> cutoff \<Longrightarrow> ?t \<le> cutoff" by (simp only: word_le_nat_alt) simp
    moreover have "push_bit 7 0x7f + 0x7f = (0x3fff :: u32)" by (simp add: push_bit_eq_mult)
    moreover have "ReadTagWithCutoffNoLastTag L cutoff s = ((?t, push_bit 7 0x7f + 0x7f \<le> cutoff \<or> ?t \<le> cutoff), Advance 2 s)"
      unfolding ReadTagWithCutoffNoLastTag_def Let_def using two by (simp only: simp_thms if_True if_False)
    ultimately show ?thesis by (auto simp: not_le)
  next
    case slow
    then have "ReadTagWithCutoffNoLastTag L cutoff s = ((tag1, tag1 - 1 < cutoff), s1)"
      unfolding ReadTagWithCutoffNoLastTag_def Let_def using slow1 by (simp only: simp_thms if_True if_False prod.case)
    then show ?thesis by (simp add: tag_minus_1 not_le)
  qed
qed

lemma UnsafeVarint_short:
  fixes v :: u32
  shows "v < push_bit 7 1 \<Longrightarrow> UnsafeVarint v = [ucast v]"
    "\<not> v < push_bit 7 1 \<Longrightarrow> v < push_bit 14 1 \<Longrightarrow> UnsafeVarint v = [ucast (v OR 0x80), ucast (drop_bit 7 v)]"
proof -
  show "UnsafeVarint v = [ucast v]" if "v < push_bit 7 1"
    using that by (subst UnsafeVarint.simps) (simp add: word_less_nat_alt push_bit_eq_mult)
  show "UnsafeVarint v = [ucast (v OR 0x80), ucast (drop_bit 7 v)]" if "\<not> v < push_bit 7 1" "v < push_bit 14 1"
  proof -
    have v: "128 \<le> unat v" "unat v < 16384" using that by (simp_all add: word_less_nat_alt push_bit_eq_mult)
    then have "UnsafeVarint (drop_bit 7 v) = [ucast (drop_bit 7 v)]"
      by (subst UnsafeVarint.simps) (simp add: unat_drop_7)
    moreover have "(ucast v OR 0x80 :: byte) = ucast (v OR 0x80)"
      by (rule bit_word_eqI) (auto simp: bit_simps)
    ultimately show ?thesis using v(1) by (subst UnsafeVarint.simps) simp
  qed
qed

text \<open>
  \<open>ExpectTag\<close> answers exactly whether the unread bytes start with the varint of the expected
  tag, as long as that takes at most two bytes, and then skips it; for longer tags it declines. It
  never answers yes when reading the next varint would give another tag.
\<close>

theorem ExpectTag_correct:
  assumes "buffer_ok s"
  shows "ExpectTag t s =
    (if t < push_bit 14 1 \<and> take (length (UnsafeVarint t)) (unread s) = UnsafeVarint t
     then (True, Advance (length (UnsafeVarint t)) s) else (False, s))
    \<and> (fst (ExpectTag t s) \<longrightarrow> parse_varint 10 (unread s) = Some (length (UnsafeVarint t), t))"
proof -
  have uc: "(ucast b :: u32) = t \<longleftrightarrow> b = ucast t" if "t < push_bit 7 1" for b :: byte
  proof -
    have "unat t < 128" using that by (simp add: word_less_nat_alt push_bit_eq_mult)
    then have "ucast (ucast t :: byte) = t"
      by (simp add: word_unat_eq_iff unsigned_ucast_eq unsigned_take_bit_eq take_bit_nat_eq_self)
    moreover have "ucast (ucast b :: u32) = b" by (rule bit_word_eqI) (auto simp: bit_simps dest: bit_imp_le_length)
    ultimately show ?thesis by auto
  qed
  have e: "ExpectTag t s =
    (if t < push_bit 14 1 \<and> take (length (UnsafeVarint t)) (unread s) = UnsafeVarint t
     then (True, Advance (length (UnsafeVarint t)) s) else (False, s))"
  proof -
    consider (one) "t < push_bit 7 1" | (two) "\<not> t < push_bit 7 1" "t < push_bit 14 1" | (long) "\<not> t < push_bit 14 1" by blast
    then show ?thesis
    proof cases
      case one
      moreover from one have "t < push_bit 14 1" by (simp add: word_less_nat_alt push_bit_eq_mult)
      moreover have "buffer s < buffer_end s \<and> drop (buffer s) (mem s) ! 0 = ucast t \<longleftrightarrow> take (Suc 0) (unread s) = [ucast t]"
        using unread_nth[OF assms, of 0] first_unread[OF assms] by (cases "unread s") auto
      ultimately show ?thesis by (auto simp: ExpectTag_def Let_def UnsafeVarint_short(1) uc)
    next
      case two
      let ?v = "[ucast (t OR 0x80), ucast (drop_bit 7 t)] :: bytes"
      have "2 \<le> BufferSize s \<and> drop (buffer s) (mem s) ! 0 = ucast (t OR 0x80) \<and> drop (buffer s) (mem s) ! 1 = ucast (drop_bit 7 t)
          \<longleftrightarrow> take 2 (unread s) = ?v"
      proof (cases "2 \<le> length (unread s)")
        case True
        then obtain a b q where "unread s = a # b # q" by (auto simp: numeral_2_eq_2 Suc_le_length_iff)
        then show ?thesis using unread_nth[OF assms, of 0] unread_nth[OF assms, of 1] BufferSize_eq[OF assms] by simp
      next
        case False
        then have "length (take 2 (unread s)) \<noteq> length ?v" by simp
        then have "take 2 (unread s) \<noteq> ?v" by (metis)
        then show ?thesis using False BufferSize_eq[OF assms] by simp
      qed
      then show ?thesis unfolding ExpectTag_def Let_def UnsafeVarint_short(2)[OF two] using two
        by (simp only: simp_thms if_True if_False list.size One_nat_def[symmetric] one_add_one add_0)
    next
      case long
      then have "\<not> t < push_bit 7 1" by (simp add: word_less_nat_alt push_bit_eq_mult)
      then show ?thesis using long by (simp only: ExpectTag_def Let_def if_False simp_thms)
    qed
  qed
  moreover have "parse_varint 10 (unread s) = Some (length (UnsafeVarint t), t)" if "fst (ExpectTag t s)"
  proof -
    have p: "take (length (UnsafeVarint t)) (unread s) = UnsafeVarint t" using that e by (auto split: if_splits)
    have "unread s = UnsafeVarint t @ drop (length (UnsafeVarint t)) (unread s)"
      using p append_take_drop_id[of "length (UnsafeVarint t)" "unread s"] by simp
    moreover have "length (UnsafeVarint t) \<le> 10" using length_UnsafeVarint_bound(1)[of t] by simp
    ultimately show ?thesis using parse_UnsafeVarint[of t 10 "drop (length (UnsafeVarint t)) (unread s)"] by simp
  qed
  ultimately show ?thesis by blast
qed

subsection \<open>Flat arrays and what the compiled part promises for them\<close>

text \<open>
  A stream over a flat array that starts at offset 0 of its memory: the buffer ends at the current
  limit, and \<open>buffer_size_after_limit_\<close> counts the bytes behind it.
\<close>

definition flat_ok :: "coded_input \<Rightarrow> bool" where
  "flat_ok s \<longleftrightarrow> buffer_ok s \<and> IsFlat s \<and> int (buffer_end s) = current_limit s
     \<and> total_bytes_read s = int (length (mem s)) \<and> buffer_size_after_limit s = total_bytes_read s - current_limit s"

definition limit_to :: "int \<Rightarrow> coded_input \<Rightarrow> coded_input" where
  "limit_to l s = s\<lparr>current_limit := l, buffer_end := nat l, buffer_size_after_limit := total_bytes_read s - l\<rparr>"

text \<open>
  The fallbacks for varints and tags are called when the one-byte path does not apply, with the first
  byte of the buffer, or with zero when it is empty.
\<close>

definition fallback_due :: "coded_input \<Rightarrow> bool" where
  "fallback_due s \<longleftrightarrow> unread s = [] \<or> continues (unread s ! 0)"

definition first_byte_or_zero :: "coded_input \<Rightarrow> u32" where
  "first_byte_or_zero s = (if unread s = [] then 0 else ucast (unread s ! 0))"

text \<open>
  The documented behaviour of the compiled functions on such a stream: where a fallback is due,
  varints and tags are read as the reference reader reads them and sizes that do not fit an \<open>int\<close>
  are refused; fixed-size reads and skips past the end fail; raw reads copy, or fail when there are
  fewer bytes; limits bound the buffer. Nothing is said of a stream after a failure.
\<close>

definition documented :: "input_lib \<Rightarrow> bool" where
  "documented L \<longleftrightarrow> (\<forall>s. flat_ok s \<longrightarrow>
     (fallback_due s \<longrightarrow> (case parse_varint 10 (unread s) of None \<Rightarrow> \<not> snd (fst (ReadVarint64Fallback L s))
      | Some (n, v) \<Rightarrow> ReadVarint64Fallback L s = ((v, True), Advance n s)))
   \<and> (fallback_due s \<longrightarrow> (case parse_varint 10 (unread s) of None \<Rightarrow> fst (ReadVarint32Fallback L (first_byte_or_zero s) s) < 0
      | Some (n, v :: u32) \<Rightarrow> ReadVarint32Fallback L (first_byte_or_zero s) s = (uint v, Advance n s)))
   \<and> (fallback_due s \<longrightarrow> (case parse_varint 10 (unread s) of None \<Rightarrow> fst (ReadVarintSizeAsIntFallback L s) < 0
      | Some (n, v :: u64) \<Rightarrow> if unat v < 2 ^ 31 then ReadVarintSizeAsIntFallback L s = (uint v, Advance n s)
          else fst (ReadVarintSizeAsIntFallback L s) < 0))
   \<and> (fallback_due s \<longrightarrow> (case parse_varint 10 (unread s) of None \<Rightarrow> fst (CI_ReadTagFallback L (first_byte_or_zero s) s) = 0
      | Some (n, v) \<Rightarrow> CI_ReadTagFallback L (first_byte_or_zero s) s = (v, Advance n s)))
   \<and> (BufferSize s < 4 \<longrightarrow> \<not> fst (fst (ReadLittleEndian32Fallback L s)))
   \<and> (BufferSize s < 8 \<longrightarrow> \<not> fst (fst (ReadLittleEndian64Fallback L s)))
   \<and> (\<forall>n. if n \<le> length (unread s) then ReadRaw L n s = (Some (take n (unread s)), Advance n s)
      else fst (ReadRaw L n s) = None)
   \<and> (\<forall>c. BufferSize s < c \<longrightarrow> \<not> fst (SkipFallback L c (BufferSize s) s))
   \<and> (\<forall>n. 0 \<le> n \<and> n \<le> BufferSize s \<longrightarrow> PushLimit L n s = (current_limit s, limit_to (CurrentPosition s + n) s))
   \<and> (\<forall>l. current_limit s \<le> l \<and> l \<le> total_bytes_read s \<longrightarrow> (\<exists>b. PopLimit L l s = limit_to l s\<lparr>legitimate_message_end := b\<rparr>))
   \<and> BytesUntilLimit L s = current_limit s - CurrentPosition s)"

text \<open>A concrete library with this behaviour.\<close>

definition flat_lib :: input_lib where
  "flat_lib = \<lparr>
     ReadVarint32Fallback = (\<lambda>f s. case parse_varint 10 (unread s) of None \<Rightarrow> (- 1, s) | Some (n, v :: u32) \<Rightarrow> (uint v, Advance n s)),
     ReadVarint64Fallback = (\<lambda>s. case parse_varint 10 (unread s) of None \<Rightarrow> ((0, False), s) | Some (n, v) \<Rightarrow> ((v, True), Advance n s)),
     ReadVarintSizeAsIntFallback = (\<lambda>s. case parse_varint 10 (unread s) of None \<Rightarrow> (- 1, s)
        | Some (n, v :: u64) \<Rightarrow> if unat v < 2 ^ 31 then (uint v, Advance n s) else (- 1, s)),
     ReadLittleEndian32Fallback = (\<lambda>s. ((False, 0), s)), ReadLittleEndian64Fallback = (\<lambda>s. ((False, 0), s)),
     CI_ReadTagFallback = (\<lambda>f s. case parse_varint 10 (unread s) of None \<Rightarrow> (0, s) | Some (n, v) \<Rightarrow> (v, Advance n s)),
     SkipFallback = (\<lambda>c b s. (False, s)), Refresh = id,
     PushLimit = (\<lambda>n s. (current_limit s, limit_to (CurrentPosition s + n) s)),
     PopLimit = (\<lambda>l s. limit_to l s\<lparr>legitimate_message_end := False\<rparr>),
     BytesUntilLimit = (\<lambda>s. current_limit s - CurrentPosition s), BytesUntilTotalBytesLimit = (\<lambda>s. - 1),
     ReadRaw = (\<lambda>n s. if n \<le> length (unread s) then (Some (take n (unread s)), Advance n s) else (None, s)),
     default_recursion_limit = 100 \<rparr>"

lemma documented_flat_lib: "documented flat_lib"
  unfolding documented_def by (auto simp: flat_lib_def split: option.splits)

theorem ExpectTag_correct_witness:
  "fst (ExpectTag 402 (new_CodedInputStream_flat flat_lib [0x92, 3, 7] 3))"
  using ExpectTag_correct[of "new_CodedInputStream_flat flat_lib [0x92, 3, 7] 3" 402] UnsafeVarint_short(2)[of 402]
  by (simp add: buffer_ok_def unread_def new_CodedInputStream_flat_def push_bit_eq_mult)

lemma flat_ok_new: "sz \<le> length buf \<Longrightarrow> sz = length buf \<Longrightarrow> flat_ok (new_CodedInputStream_flat L buf sz)"
  by (simp add: flat_ok_def new_CodedInputStream_flat_def buffer_ok_def IsFlat_def)

lemma unread_new: "unread (new_CodedInputStream_flat L buf (length buf)) = buf"
  by (simp add: unread_def new_CodedInputStream_flat_def)

lemma flat_ok_Advance: "flat_ok s \<Longrightarrow> n \<le> length (unread s) \<Longrightarrow> flat_ok (Advance n s)"
  using buffer_ok_Advance[of s n] by (simp add: flat_ok_def IsFlat_def)

lemma flat_okD: "flat_ok s \<Longrightarrow> buffer_ok s" "flat_ok s \<Longrightarrow> CurrentPosition s = int (buffer s)"
  by (simp_all add: flat_ok_def CurrentPosition_def BufferSize_def)

lemma parse_varint_le: "parse_varint m bs = Some (n, v) \<Longrightarrow> 0 < n \<and> n \<le> length bs"
  by (auto simp: parse_varint_def Let_def split: if_splits)

lemma parse_varint_one:
  assumes "bs \<noteq> []" "\<not> continues (bs ! 0)" "0 < m"
  shows "parse_varint m bs = Some (1, ucast (bs ! 0))"
proof -
  have "take (Suc 0) bs = [bs ! 0]" using assms(1) by (cases bs) simp_all
  then show ?thesis
    using parse_varint_ends[of 0 bs m, where 'a = 'a] assms varint_value_one_two(1)[OF assms(2), where 'a = 'a]
    by (simp del: varint_value.simps)
qed

lemma documentedD:
  assumes "documented L" "flat_ok s"
  shows "fallback_due s \<Longrightarrow> parse_varint 10 (unread s) = Some (n, v) \<Longrightarrow> ReadVarint64Fallback L s = ((v, True), Advance n s)"
    "fallback_due s \<Longrightarrow> parse_varint 10 (unread s) = Some (n, u) \<Longrightarrow>
       ReadVarint32Fallback L (first_byte_or_zero s) s = (uint u, Advance n s)"
    "fallback_due s \<Longrightarrow> parse_varint 10 (unread s) = Some (n, v) \<Longrightarrow> unat v < 2 ^ 31 \<Longrightarrow>
       ReadVarintSizeAsIntFallback L s = (uint v, Advance n s)"
    "fallback_due s \<Longrightarrow> parse_varint 10 (unread s) = Some (n, u) \<Longrightarrow>
       CI_ReadTagFallback L (first_byte_or_zero s) s = (u, Advance n s)"
    "n \<le> length (unread s) \<Longrightarrow> ReadRaw L n s = (Some (take n (unread s)), Advance n s)"
    "0 \<le> k \<Longrightarrow> k \<le> BufferSize s \<Longrightarrow> PushLimit L k s = (current_limit s, limit_to (CurrentPosition s + k) s)"
    "current_limit s \<le> k \<Longrightarrow> k \<le> total_bytes_read s \<Longrightarrow> \<exists>b. PopLimit L k s = limit_to k s\<lparr>legitimate_message_end := b\<rparr>"
    "BytesUntilLimit L s = current_limit s - CurrentPosition s"
proof -
  note all = assms(1)[unfolded documented_def, THEN spec, THEN mp, OF assms(2)]
  show "ReadVarint64Fallback L s = ((v, True), Advance n s)"
    if "fallback_due s" "parse_varint 10 (unread s) = Some (n, v)"
    using conjunct1[OF all] that by simp
  show "ReadVarint32Fallback L (first_byte_or_zero s) s = (uint u, Advance n s)"
    if "fallback_due s" "parse_varint 10 (unread s) = Some (n, u)"
    using conjunct1[OF conjunct2[OF all]] that by simp
  show "ReadVarintSizeAsIntFallback L s = (uint v, Advance n s)"
    if "fallback_due s" "parse_varint 10 (unread s) = Some (n, v)" "unat v < 2 ^ 31"
    using conjunct1[OF conjunct2[OF conjunct2[OF all]]] that by simp
  show "CI_ReadTagFallback L (first_byte_or_zero s) s = (u, Advance n s)"
    if "fallback_due s" "parse_varint 10 (unread s) = Some (n, u)"
    using conjunct1[OF conjunct2[OF conjunct2[OF conjunct2[OF all]]]] that by simp
  have raw: "if n \<le> length (unread s) then ReadRaw L n s = (Some (take n (unread s)), Advance n s)
      else fst (ReadRaw L n s) = None" for n
    using all by blast
  show "ReadRaw L n s = (Some (take n (unread s)), Advance n s)" if "n \<le> length (unread s)"
    using raw[of n] that by simp
qed (use assms(1)[unfolded documented_def, THEN spec, THEN mp, OF assms(2)] in blast)+

text \<open>The condition of the one-byte path and the argument of the fallbacks, over the unread bytes.\<close>

lemma fallback_path:
  assumes "flat_ok s" "\<not> (unread s \<noteq> [] \<and> \<not> continues (unread s ! 0))"
  shows "fallback_due s" "(if buffer s < buffer_end s then ucast (mem s ! buffer s) else 0) = first_byte_or_zero s"
    "\<not> (buffer s < buffer_end s \<and> \<not> continues (mem s ! buffer s))"
    "\<not> (buffer s < buffer_end s \<and> first_byte_or_zero s < 0x80)"
  using assms first_unread[OF flat_okD(1)[OF assms(1)]] mem_first[OF flat_okD(1)[OF assms(1)]]
  by (auto simp: fallback_due_def first_byte_or_zero_def low_less_128)

subsection \<open>The readers on a flat array\<close>

lemma first_byte_small: "(b :: byte) < 0x80 \<longleftrightarrow> \<not> continues b"
  by (simp add: continues_iff word_less_nat_alt not_le)

lemma parse_first:
  fixes v :: "'a::len word"
  assumes "parse_varint 10 bs = Some (n, v)" "bs \<noteq> []" "\<not> continues (bs ! 0)"
  shows "n = 1 \<and> v = ucast (bs ! 0)"
  using parse_varint_one[OF assms(2,3), of 10, where 'a = 'a] assms(1) by simp

lemma ReadVarint32_flat:
  assumes "documented L" "flat_ok s" "parse_varint 10 (unread s) = Some (n, v)"
  shows "ReadVarint32 L s = ((True, v), Advance n s)"
proof (cases "unread s \<noteq> [] \<and> \<not> continues (unread s ! 0)")
  case True
  note b = flat_okD(1)[OF assms(2)]
  have "n = 1" "v = ucast (unread s ! 0)" using parse_first[OF assms(3)] True by blast+
  then show ?thesis
    using True first_unread[OF b] mem_first[OF b] by (simp add: ReadVarint32_def low_less_128)
next
  case False
  note path = fallback_path[OF assms(2) False]
  show ?thesis
    unfolding ReadVarint32_def Let_def path(2) using path(4) documentedD(2)[OF assms(1,2) path(1) assms(3)] by auto
qed

lemma ReadVarint64_flat:
  assumes "documented L" "flat_ok s" "parse_varint 10 (unread s) = Some (n, v)"
  shows "ReadVarint64 L s = ((True, v), Advance n s)"
proof (cases "unread s \<noteq> [] \<and> \<not> continues (unread s ! 0)")
  case True
  note b = flat_okD(1)[OF assms(2)]
  have "n = 1" "v = ucast (unread s ! 0)" using parse_first[OF assms(3)] True by blast+
  then show ?thesis
    using True first_unread[OF b] mem_first[OF b] by (simp add: ReadVarint64_def first_byte_small)
next
  case False
  note path = fallback_path[OF assms(2) False]
  show ?thesis
    using path documentedD(1)[OF assms(1,2) path(1) assms(3)] by (auto simp: ReadVarint64_def first_byte_small)
qed

lemma ReadVarintSizeAsInt_flat:
  assumes "documented L" "flat_ok s" "parse_varint 10 (unread s) = Some (n, v :: u64)" "unat v < 2 ^ 31"
  shows "ReadVarintSizeAsInt L s = ((True, uint v), Advance n s)"
proof (cases "unread s \<noteq> [] \<and> \<not> continues (unread s ! 0)")
  case True
  note b = flat_okD(1)[OF assms(2)]
  have "n = 1" "v = ucast (unread s ! 0)" using parse_first[OF assms(3)] True by blast+
  moreover have "uint (ucast c :: u64) = uint c" for c :: byte
    using uint_bounded[of c] by (simp add: unsigned_ucast_eq take_bit_int_eq_self)
  ultimately show ?thesis
    using True first_unread[OF b] mem_first[OF b] by (simp add: ReadVarintSizeAsInt_def first_byte_small)
next
  case False
  note path = fallback_path[OF assms(2) False]
  show ?thesis
    using path documentedD(3)[OF assms(1,2) path(1) assms(3,4)]
    by (auto simp: ReadVarintSizeAsInt_def first_byte_small)
qed

lemma ReadTag_flat:
  assumes "documented L" "flat_ok s" "parse_varint 10 (unread s) = Some (n, v)"
  shows "ReadTagNoLastTag L s = (v, Advance n s)"
proof (cases "unread s \<noteq> [] \<and> \<not> continues (unread s ! 0)")
  case True
  note b = flat_okD(1)[OF assms(2)]
  have "n = 1" "v = ucast (unread s ! 0)" using parse_first[OF assms(3)] True by blast+
  then show ?thesis
    using True first_unread[OF b] mem_first[OF b] by (simp add: ReadTagNoLastTag_def low_less_128)
next
  case False
  note path = fallback_path[OF assms(2) False]
  show ?thesis
    unfolding ReadTagNoLastTag_def Let_def path(2) using path(4) documentedD(4)[OF assms(1,2) path(1) assms(3)] by auto
qed

lemma take_unread: "buffer_ok s \<Longrightarrow> n \<le> length (unread s) \<Longrightarrow> take n (drop (buffer s) (mem s)) = take n (unread s)"
proof -
  assume "buffer_ok s" "n \<le> length (unread s)"
  then have "n \<le> buffer_end s - buffer s" by (simp add: length_unread)
  then show ?thesis by (simp add: unread_def min_def)
qed

lemma ReadLittleEndian_flat:
  assumes "flat_ok s"
  shows "4 \<le> length (unread s) \<Longrightarrow> ReadLittleEndian32 L s = ((True, of_nat (le_value (take 4 (unread s)))), Advance 4 s)"
    "8 \<le> length (unread s) \<Longrightarrow> ReadLittleEndian64 L s = ((True, of_nat (le_value (take 8 (unread s)))), Advance 8 s)"
  using flat_okD(1)[OF assms] BufferSize_eq[OF flat_okD(1)[OF assms]] take_unread[OF flat_okD(1)[OF assms]]
  by (simp_all add: ReadLittleEndian32_def ReadLittleEndian64_def ReadLittleEndian32FromArray_def ReadLittleEndian64FromArray_def Advance_def)

text \<open>The two branches of the array readers agree: copying and shifting give the same number.\<close>

lemma le_value_numeral:
  assumes "8 \<le> length b"
  shows "take 8 b = [b ! 0, b ! 1, b ! 2, b ! 3, b ! 4, b ! 5, b ! 6, b ! 7]"
proof -
  obtain b0 b1 b2 b3 b4 b5 b6 b7 q where "b = b0 # b1 # b2 # b3 # b4 # b5 # b6 # b7 # q"
    using assms by (auto simp: numeral_eq_Suc Suc_le_length_iff)
  then show ?thesis by simp
qed

end
