(* ===== verification/Repeated_Field.thy ===== *)
theory Repeated_Field
  imports Prelude "HOL-Library.Monad_Syntax"
begin

text \<open>
  \<open>google/protobuf/repeated_field.h\<close>: the growing array behind a repeated scalar field.

  A cell of the array nobody has written is \<open>None\<close>. The result \<open>None\<close> of an operation is undefined
  behaviour: an access outside the array, the use of a cell nobody has written, or a violated
  \<open>ABSL_DCHECK\<close>, which a release build does not test. Elements are trivial types, so \<open>Destroy\<close> does
  nothing. The annotations for sanitizers and the release of the old array are left out.
\<close>

definition INT_MAX :: int where "INT_MAX = 2 ^ 31 - 1"

subsection \<open>Storage\<close>

text \<open>\<open>void* arena_or_elements_\<close>: the arena while there is no array, else the array in its \<open>Rep\<close> with the arena in the header.\<close>

datatype 'a storage = ArenaPtr (ptr_arena: "nat option") | Elements (rep_arena: "nat option") (rep_elements: "'a option list")

record 'a RepeatedField =
  current_size :: int
  total_size :: int
  arena_or_elements :: "'a storage"

text \<open>The size of an element and, in debug builds, the hook of the allocator.\<close>

record rf_env =
  sizeof_Element :: int
  allocate_at_least_hook :: "(int \<Rightarrow> int) option"

text \<open>\<open>sizeof(Rep)\<close>: a pointer aligned to 8 bytes in a union with an element.\<close>

definition kRepHeaderSize :: "rf_env \<Rightarrow> int" where
  "kRepHeaderSize e = (max 8 (sizeof_Element e) + 7) div 8 * 8"

definition RepeatedFieldLowerClampLimit :: "rf_env \<Rightarrow> int" where
  "RepeatedFieldLowerClampLimit e = kRepHeaderSize e div sizeof_Element e"

definition AllocateAtLeast :: "rf_env \<Rightarrow> int \<Rightarrow> int" where
  "AllocateAtLeast e n = (case allocate_at_least_hook e of Some hook \<Rightarrow> hook n | None \<Rightarrow> n)"

definition unsafe_elements :: "'a RepeatedField \<Rightarrow> 'a option list" where
  "unsafe_elements f = (case arena_or_elements f of ArenaPtr _ \<Rightarrow> [] | Elements _ xs \<Rightarrow> xs)"

definition GetOwningArena :: "'a RepeatedField \<Rightarrow> nat option" where
  "GetOwningArena f = (if total_size f = 0 then ptr_arena (arena_or_elements f) else rep_arena (arena_or_elements f))"

definition ExchangeCurrentSize :: "int \<Rightarrow> 'a RepeatedField \<Rightarrow> int \<times> 'a RepeatedField" where
  "ExchangeCurrentSize new_size f = (current_size f, f\<lparr>current_size := new_size\<rparr>)"

text \<open>Reads and writes of the array.\<close>

definition DCHECK :: "bool \<Rightarrow> unit option" where
  "DCHECK b = (if b then Some () else None)"

definition set_elements :: "'a option list \<Rightarrow> 'a RepeatedField \<Rightarrow> 'a RepeatedField" where
  "set_elements xs f = (case arena_or_elements f of
      ArenaPtr _ \<Rightarrow> f | Elements a _ \<Rightarrow> f\<lparr>arena_or_elements := Elements a xs\<rparr>)"

definition load :: "int \<Rightarrow> 'a RepeatedField \<Rightarrow> 'a option" where
  "load i f = (if 0 \<le> i \<and> i < int (length (unsafe_elements f)) then unsafe_elements f ! nat i else None)"

definition store :: "int \<Rightarrow> 'a \<Rightarrow> 'a RepeatedField \<Rightarrow> 'a RepeatedField option" where
  "store i v f = (if 0 \<le> i \<and> i < int (length (unsafe_elements f))
      then Some (set_elements ((unsafe_elements f)[nat i := Some v]) f) else None)"

text \<open>\<open>n\<close> cells are overwritten from position \<open>dst\<close> on: \<open>memcpy\<close>, \<open>uninitialized_copy\<close>, \<open>uninitialized_fill\<close>.\<close>

definition blit :: "'a option list \<Rightarrow> int \<Rightarrow> 'a RepeatedField \<Rightarrow> 'a RepeatedField option" where
  "blit src dst f = (if 0 \<le> dst \<and> nat dst + length src \<le> length (unsafe_elements f)
      then Some (set_elements (take (nat dst) (unsafe_elements f) @ src @
                               drop (nat dst + length src) (unsafe_elements f)) f) else None)"

definition UninitializedCopyN :: "'a option list \<Rightarrow> int \<Rightarrow> int \<Rightarrow> 'a RepeatedField \<Rightarrow> 'a RepeatedField option" where
  "UninitializedCopyN src n dst f =
     (if 0 \<le> n \<and> n \<le> int (length src) then blit (take (nat n) src) dst f else None)"

definition memcpy :: "'a list \<Rightarrow> 'a list \<Rightarrow> int \<Rightarrow> 'a list option" where
  "memcpy dst src n = (if 0 \<le> n \<and> n \<le> int (length src) \<and> n \<le> int (length dst)
      then Some (take (nat n) src @ drop (nat n) dst) else None)"

subsection \<open>Growth\<close>

definition CalculateReserveSize :: "rf_env \<Rightarrow> int \<Rightarrow> int \<Rightarrow> int" where
  "CalculateReserveSize e old_size new_size =
     (let lower_limit = RepeatedFieldLowerClampLimit e in
      if new_size < lower_limit then lower_limit
      else let kMaxSizeBeforeClamp = (INT_MAX - kRepHeaderSize e) div 2 in
        if old_size > kMaxSizeBeforeClamp then INT_MAX
        else let doubled_size = 2 * old_size + kRepHeaderSize e div sizeof_Element e
             in max doubled_size new_size)"

text \<open>The number of elements in the block that is allocated for \<open>new_size\<close> elements.\<close>

definition new_capacity :: "rf_env \<Rightarrow> nat option \<Rightarrow> int \<Rightarrow> int option" where
  "new_capacity e arena new_size = do {
     DCHECK (new_size \<le> (2 ^ 64 - 1 - kRepHeaderSize e) div sizeof_Element e);
     let bytes = kRepHeaderSize e + sizeof_Element e * new_size;
     if arena = None then do {
       DCHECK ((bytes - kRepHeaderSize e) div sizeof_Element e \<le> INT_MAX);
       Some (min ((AllocateAtLeast e bytes - kRepHeaderSize e) div sizeof_Element e) INT_MAX)
     } else Some new_size
   }"

definition GrowNoAnnotate :: "rf_env \<Rightarrow> int \<Rightarrow> int \<Rightarrow> 'a RepeatedField \<Rightarrow> 'a RepeatedField option" where
  "GrowNoAnnotate e cur new_size f = do {
     DCHECK (new_size > total_size f);
     let arena = GetOwningArena f;
     let new_size = CalculateReserveSize e (total_size f) new_size;
     new_size \<leftarrow> new_capacity e arena new_size;
     let new_rep = replicate (nat new_size) None;
     new_rep \<leftarrow> (if total_size f > 0 \<and> cur > 0 then memcpy new_rep (unsafe_elements f) cur else Some new_rep);
     Some (f\<lparr>total_size := new_size, arena_or_elements := Elements arena new_rep\<rparr>)
   }"

definition Grow :: "rf_env \<Rightarrow> int \<Rightarrow> int \<Rightarrow> 'a RepeatedField \<Rightarrow> 'a RepeatedField option" where
  "Grow e cur new_size f = GrowNoAnnotate e cur new_size f"

definition Reserve :: "rf_env \<Rightarrow> int \<Rightarrow> 'a RepeatedField \<Rightarrow> 'a RepeatedField option" where
  "Reserve e new_size f = (if new_size > total_size f then Grow e (current_size f) new_size f else Some f)"

subsection \<open>Element access\<close>

definition rf_empty :: "'a RepeatedField \<Rightarrow> bool" where
  "rf_empty f \<longleftrightarrow> current_size f = 0"

definition rf_size :: "'a RepeatedField \<Rightarrow> int" where
  "rf_size f = current_size f"

definition Capacity :: "'a RepeatedField \<Rightarrow> int" where
  "Capacity f = total_size f"

definition Get :: "int \<Rightarrow> 'a RepeatedField \<Rightarrow> 'a option" where
  "Get index f = do { DCHECK (index \<ge> 0); DCHECK (index < current_size f); load index f }"

text \<open>\<open>at\<close> tests its index in every build and ends the program when it is out of src_range.\<close>

datatype check_error = CheckFailed

definition rf_at :: "int \<Rightarrow> 'a RepeatedField \<Rightarrow> (check_error + 'a) option" where
  "rf_at index f =
     (if \<not> index \<ge> 0 then Some (Inl CheckFailed)
      else if \<not> index < current_size f then Some (Inl CheckFailed)
      else map_option Inr (load index f))"

definition Mutable :: "int \<Rightarrow> 'a RepeatedField \<Rightarrow> int option" where
  "Mutable index f = do { DCHECK (index \<ge> 0); DCHECK (index < current_size f); Some index }"

definition Set :: "int \<Rightarrow> 'a \<Rightarrow> 'a RepeatedField \<Rightarrow> 'a RepeatedField option" where
  "Set index v f = do { DCHECK (index \<ge> 0); DCHECK (index < current_size f); store index v f }"

definition SwapElements :: "int \<Rightarrow> int \<Rightarrow> 'a RepeatedField \<Rightarrow> 'a RepeatedField option" where
  "SwapElements index1 index2 f = do {
     DCHECK (total_size f > 0);
     a \<leftarrow> load index1 f;
     b \<leftarrow> load index2 f;
     f \<leftarrow> store index1 b f;
     store index2 a f
   }"

subsection \<open>Adding\<close>

definition AddAlreadyReserved :: "'a \<Rightarrow> 'a RepeatedField \<Rightarrow> 'a RepeatedField option" where
  "AddAlreadyReserved v f = do {
     DCHECK (current_size f < total_size f);
     let (p, f) = ExchangeCurrentSize (current_size f + 1) f;
     store p v f
   }"

text \<open>The variants that return a pointer leave the new cells as they are.\<close>

definition AddAlreadyReserved_ptr :: "'a RepeatedField \<Rightarrow> (int \<times> 'a RepeatedField) option" where
  "AddAlreadyReserved_ptr f = do {
     DCHECK (current_size f < total_size f);
     Some (ExchangeCurrentSize (current_size f + 1) f)
   }"

definition AddNAlreadyReserved :: "int \<Rightarrow> 'a RepeatedField \<Rightarrow> (int \<times> 'a RepeatedField) option" where
  "AddNAlreadyReserved n f = do {
     DCHECK (total_size f - current_size f \<ge> n);
     Some (ExchangeCurrentSize (current_size f + n) f)
   }"

definition rf_Add :: "rf_env \<Rightarrow> 'a \<Rightarrow> 'a RepeatedField \<Rightarrow> 'a RepeatedField option" where
  "rf_Add e v f = do {
     f \<leftarrow> (if current_size f = total_size f then Grow e (current_size f) (current_size f + 1) f else Some f);
     let (p, f) = ExchangeCurrentSize (current_size f + 1) f;
     store p v f
   }"

definition Add_ptr :: "rf_env \<Rightarrow> 'a RepeatedField \<Rightarrow> (int \<times> 'a RepeatedField) option" where
  "Add_ptr e f = do {
     f \<leftarrow> (if current_size f = total_size f then Grow e (current_size f) (current_size f + 1) f else Some f);
     Some (ExchangeCurrentSize (current_size f + 1) f)
   }"

definition AddForwardIterator :: "rf_env \<Rightarrow> 'a list \<Rightarrow> 'a RepeatedField \<Rightarrow> 'a RepeatedField option" where
  "AddForwardIterator e src_range f = do {
     let new_size = current_size f + int (length src_range);
     f \<leftarrow> (if new_size > total_size f then Grow e (current_size f) new_size f else Some f);
     let (p, f) = ExchangeCurrentSize new_size f;
     blit (map Some src_range) p f
   }"

fun add_input_loop :: "rf_env \<Rightarrow> 'a list \<Rightarrow> int \<Rightarrow> int \<Rightarrow> 'a RepeatedField \<Rightarrow> (int \<times> 'a RepeatedField) option" where
  "add_input_loop e [] first lst f = Some (first, f)"
| "add_input_loop e (v # src_range) first lst f = do {
     (lst, f) \<leftarrow> (if first = lst then do {
         f \<leftarrow> GrowNoAnnotate e first (first + 1) f;
         Some (total_size f, f)
       } else Some (lst, f));
     f \<leftarrow> store first v f;
     add_input_loop e src_range (first + 1) lst f
   }"

definition AddInputIterator :: "rf_env \<Rightarrow> 'a list \<Rightarrow> 'a RepeatedField \<Rightarrow> 'a RepeatedField option" where
  "AddInputIterator e src_range f = do {
     (first, f) \<leftarrow> add_input_loop e src_range (current_size f) (total_size f) f;
     Some (f\<lparr>current_size := first\<rparr>)
   }"

definition Add_range :: "rf_env \<Rightarrow> bool \<Rightarrow> 'a list \<Rightarrow> 'a RepeatedField \<Rightarrow> 'a RepeatedField option" where
  "Add_range e forward_iterator src_range f =
     (if forward_iterator then AddForwardIterator e src_range f else AddInputIterator e src_range f)"

subsection \<open>Removing and resizing\<close>

definition Truncate :: "int \<Rightarrow> 'a RepeatedField \<Rightarrow> 'a RepeatedField option" where
  "Truncate new_size f = do {
     DCHECK (new_size \<le> current_size f);
     Some (if new_size < current_size f then snd (ExchangeCurrentSize new_size f) else f)
   }"

definition Resize :: "rf_env \<Rightarrow> int \<Rightarrow> 'a \<Rightarrow> 'a RepeatedField \<Rightarrow> 'a RepeatedField option" where
  "Resize e new_size v f = do {
     DCHECK (new_size \<ge> 0);
     if new_size > current_size f then do {
       f \<leftarrow> (if new_size > total_size f then Grow e (current_size f) new_size f else Some f);
       let (first, f) = ExchangeCurrentSize new_size f;
       blit (replicate (nat (new_size - first)) (Some v)) first f
     }
     else if new_size < current_size f then Some (snd (ExchangeCurrentSize new_size f))
     else Some f
   }"

definition RemoveLast :: "'a RepeatedField \<Rightarrow> 'a RepeatedField option" where
  "RemoveLast f = do {
     DCHECK (current_size f > 0);
     Some (snd (ExchangeCurrentSize (current_size f - 1) f))
   }"

definition rf_Clear :: "'a RepeatedField \<Rightarrow> 'a RepeatedField" where
  "rf_Clear f = snd (ExchangeCurrentSize 0 f)"

fun extract_loop :: "nat \<Rightarrow> int \<Rightarrow> 'a RepeatedField \<Rightarrow> 'a list option" where
  "extract_loop 0 i f = Some []"
| "extract_loop (Suc n) i f = do { x \<leftarrow> Get i f; xs \<leftarrow> extract_loop n (i + 1) f; Some (x # xs) }"

fun slide_loop :: "nat \<Rightarrow> int \<Rightarrow> int \<Rightarrow> 'a RepeatedField \<Rightarrow> 'a RepeatedField option" where
  "slide_loop 0 i num f = Some f"
| "slide_loop (Suc n) i num f = do { x \<leftarrow> Get i f; f \<leftarrow> Set (i - num) x f; slide_loop n (i + 1) num f }"

text \<open>The first result is what is copied to \<open>elements\<close> when that pointer is given.\<close>

definition ExtractSubrange :: "int \<Rightarrow> int \<Rightarrow> bool \<Rightarrow> 'a RepeatedField \<Rightarrow> ('a list \<times> 'a RepeatedField) option" where
  "ExtractSubrange start num elements f = do {
     DCHECK (start \<ge> 0);
     DCHECK (num \<ge> 0);
     DCHECK (start + num \<le> current_size f);
     out \<leftarrow> (if elements then extract_loop (nat num) start f else Some []);
     f \<leftarrow> (if num > 0 then do {
         f \<leftarrow> slide_loop (nat (current_size f - (start + num))) (start + num) num f;
         Truncate (current_size f - num) f
       } else Some f);
     Some (out, f)
   }"

fun std_copy :: "nat \<Rightarrow> int \<Rightarrow> int \<Rightarrow> 'a RepeatedField \<Rightarrow> (int \<times> 'a RepeatedField) option" where
  "std_copy 0 src dst f = Some (dst, f)"
| "std_copy (Suc n) src dst f = do { x \<leftarrow> load src f; f \<leftarrow> store dst x f; std_copy n (src + 1) (dst + 1) f }"

text \<open>Iterators are offsets from \<open>begin()\<close>.\<close>

definition erase_range :: "int \<Rightarrow> int \<Rightarrow> 'a RepeatedField \<Rightarrow> (int \<times> 'a RepeatedField) option" where
  "erase_range first lst f = do {
     let first_offset = first;
     f \<leftarrow> (if first \<noteq> lst then do {
         (dst, f) \<leftarrow> std_copy (nat (current_size f - lst)) lst first_offset f;
         Truncate dst f
       } else Some f);
     Some (first_offset, f)
   }"

definition erase :: "int \<Rightarrow> 'a RepeatedField \<Rightarrow> (int \<times> 'a RepeatedField) option" where
  "erase position f = erase_range position (position + 1) f"

subsection \<open>Whole fields\<close>

definition new_RepeatedField :: "nat option \<Rightarrow> 'a RepeatedField" where
  "new_RepeatedField arena = \<lparr>current_size = 0, total_size = 0, arena_or_elements = ArenaPtr arena\<rparr>"

definition new_RepeatedField_copy :: "rf_env \<Rightarrow> nat option \<Rightarrow> 'a RepeatedField \<Rightarrow> 'a RepeatedField option" where
  "new_RepeatedField_copy e arena rhs = (let f = new_RepeatedField arena; sz = current_size rhs in
     if sz \<noteq> 0 then do {
       f \<leftarrow> Grow e 0 sz f;
       let (_, f) = ExchangeCurrentSize sz f;
       UninitializedCopyN (unsafe_elements rhs) sz 0 f
     } else Some f)"

definition new_RepeatedField_range :: "rf_env \<Rightarrow> bool \<Rightarrow> 'a list \<Rightarrow> 'a RepeatedField option" where
  "new_RepeatedField_range e forward_iterator src_range = Add_range e forward_iterator src_range (new_RepeatedField None)"

definition MergeFrom :: "rf_env \<Rightarrow> 'a RepeatedField \<Rightarrow> 'a RepeatedField \<Rightarrow> 'a RepeatedField option" where
  "MergeFrom e other f = (let sz = current_size other in
     if sz \<noteq> 0 then do {
       f \<leftarrow> Reserve e (current_size f + sz) f;
       let (dst, f) = ExchangeCurrentSize (current_size f + sz) f;
       UninitializedCopyN (unsafe_elements other) sz dst f
     } else Some f)"

text \<open>The flag says whether both operands are the same object.\<close>

definition CopyFrom :: "rf_env \<Rightarrow> bool \<Rightarrow> 'a RepeatedField \<Rightarrow> 'a RepeatedField \<Rightarrow> 'a RepeatedField option" where
  "CopyFrom e same other f = (if same then Some f else MergeFrom e other (rf_Clear f))"

definition Assign :: "rf_env \<Rightarrow> bool \<Rightarrow> 'a list \<Rightarrow> 'a RepeatedField \<Rightarrow> 'a RepeatedField option" where
  "Assign e forward_iterator src_range f = Add_range e forward_iterator src_range (rf_Clear f)"

definition rf_InternalSwap :: "'a RepeatedField \<times> 'a RepeatedField \<Rightarrow> 'a RepeatedField \<times> 'a RepeatedField" where
  "rf_InternalSwap fg = (case fg of (f, g) \<Rightarrow> (g, f))"

definition UnsafeArenaSwap :: "'a RepeatedField \<times> 'a RepeatedField \<Rightarrow> ('a RepeatedField \<times> 'a RepeatedField) option" where
  "UnsafeArenaSwap fg = do {
     DCHECK (GetOwningArena (fst fg) = GetOwningArena (snd fg));
     Some (rf_InternalSwap fg)
   }"

definition rf_Swap :: "rf_env \<Rightarrow> 'a RepeatedField \<times> 'a RepeatedField \<Rightarrow> ('a RepeatedField \<times> 'a RepeatedField) option" where
  "rf_Swap e fg = (case fg of (f, other) \<Rightarrow>
     if GetOwningArena f = GetOwningArena other then Some (rf_InternalSwap (f, other))
     else do {
       temp \<leftarrow> MergeFrom e f (new_RepeatedField (GetOwningArena other));
       f \<leftarrow> CopyFrom e False other f;
       (other, temp) \<leftarrow> UnsafeArenaSwap (other, temp);
       Some (f, other)
     })"

text \<open>Move construction and move assignment give both objects.\<close>

definition new_RepeatedField_move :: "rf_env \<Rightarrow> 'a RepeatedField \<Rightarrow> ('a RepeatedField \<times> 'a RepeatedField) option" where
  "new_RepeatedField_move e other =
     (if GetOwningArena other \<noteq> None then do { f \<leftarrow> CopyFrom e False other (new_RepeatedField None); Some (f, other) }
      else Some (rf_InternalSwap (new_RepeatedField None, other)))"

definition move_assign :: "rf_env \<Rightarrow> 'a RepeatedField \<times> 'a RepeatedField \<Rightarrow> ('a RepeatedField \<times> 'a RepeatedField) option" where
  "move_assign e fg = (case fg of (f, other) \<Rightarrow>
     if GetOwningArena f \<noteq> GetOwningArena other then do { f \<leftarrow> CopyFrom e False other f; Some (f, other) }
     else Some (rf_InternalSwap (f, other)))"

definition SpaceUsedExcludingSelfLong :: "rf_env \<Rightarrow> 'a RepeatedField \<Rightarrow> int" where
  "SpaceUsedExcludingSelfLong e f =
     (if total_size f > 0 then total_size f * sizeof_Element e + kRepHeaderSize e else 0)"

subsection \<open>Well-formed fields and their contents\<close>

text \<open>The allocator returns at least the bytes asked for; a scalar has up to 8 bytes, a \<open>Cord\<close> 16.\<close>

definition env_ok :: "rf_env \<Rightarrow> bool" where
  "env_ok e \<longleftrightarrow> 0 < sizeof_Element e \<and> sizeof_Element e \<le> 16 \<and>
     (\<forall>hook n. allocate_at_least_hook e = Some hook \<longrightarrow> n \<le> hook n)"

definition rf_ok :: "rf_env \<Rightarrow> 'a RepeatedField \<Rightarrow> bool" where
  "rf_ok e f \<longleftrightarrow> 0 \<le> current_size f \<and> current_size f \<le> total_size f \<and> total_size f \<le> INT_MAX \<and>
     total_size f = int (length (unsafe_elements f)) \<and>
     (total_size f = 0 \<longleftrightarrow> is_ArenaPtr (arena_or_elements f)) \<and>
     (total_size f = 0 \<or> RepeatedFieldLowerClampLimit e \<le> total_size f) \<and>
     list_all (\<lambda>x. x \<noteq> None) (take (nat (current_size f)) (unsafe_elements f))"

definition contents :: "'a RepeatedField \<Rightarrow> 'a list" where
  "contents f = map the (take (nat (current_size f)) (unsafe_elements f))"

text \<open>A field in terms of its arena, its size and the cells of its array.\<close>

definition fld :: "nat option \<Rightarrow> int \<Rightarrow> 'a option list \<Rightarrow> 'a RepeatedField" where
  "fld a n cells = \<lparr>current_size = n, total_size = int (length cells),
     arena_or_elements = (if cells = [] then ArenaPtr a else Elements a cells)\<rparr>"

lemma fld_simps [simp]:
  "current_size (fld a n c) = n" "total_size (fld a n c) = int (length c)"
  "unsafe_elements (fld a n c) = c" "GetOwningArena (fld a n c) = a"
  "ExchangeCurrentSize m (fld a n c) = (n, fld a m c)"
  "(fld a n c)\<lparr>current_size := m\<rparr> = fld a m c"
  "new_RepeatedField a = fld a 0 []" "is_ArenaPtr (arena_or_elements (fld a n c)) \<longleftrightarrow> c = []"
  by (auto simp: fld_def unsafe_elements_def GetOwningArena_def ExchangeCurrentSize_def new_RepeatedField_def)

lemma set_elements_fld [simp]: "length c' = length c \<Longrightarrow> set_elements c' (fld a n c) = fld a n c'"
  by (auto simp: set_elements_def fld_def)

lemma load_fld [simp]: "load i (fld a n c) = (if 0 \<le> i \<and> i < int (length c) then c ! nat i else None)"
  by (simp add: load_def)

lemma store_fld [simp]:
  "store i v (fld a n c) = (if 0 \<le> i \<and> i < int (length c) then Some (fld a n (c[nat i := Some v])) else None)"
  by (simp add: store_def)

lemma blit_fld [simp]:
  "blit src dst (fld a n c) = (if 0 \<le> dst \<and> nat dst + length src \<le> length c
     then Some (fld a n (take (nat dst) c @ src @ drop (nat dst + length src) c)) else None)"
  by (auto simp: blit_def)

lemma DCHECK_bind [simp]: "(DCHECK b \<bind> k) = (if b then k () else None)"
  by (simp add: DCHECK_def)

text \<open>The field holds \<open>xs\<close> in the first cells of its array.\<close>

definition holds :: "rf_env \<Rightarrow> nat option \<Rightarrow> 'a RepeatedField \<Rightarrow> 'a list \<Rightarrow> bool" where
  "holds e a f xs \<longleftrightarrow> (\<exists>rest. f = fld a (int (length xs)) (map Some xs @ rest) \<and>
     int (length xs + length rest) \<le> INT_MAX \<and>
     (length xs + length rest = 0 \<or> RepeatedFieldLowerClampLimit e \<le> int (length xs + length rest)))"

lemma map_Some_the: "list_all (\<lambda>x. x \<noteq> None) xs \<Longrightarrow> map (\<lambda>x. Some (the x)) xs = xs"
  by (induction xs) auto

lemma rf_ok_holds: "rf_ok e f \<Longrightarrow> holds e (GetOwningArena f) f (contents f)"
proof -
  assume ok: "rf_ok e f"
  let ?c = "unsafe_elements f" and ?n = "nat (current_size f)"
  have c: "map Some (contents f) = take ?n ?c"
    using ok map_Some_the by (fastforce simp: rf_ok_def contents_def o_def)
  have len: "length (contents f) = ?n"
    using ok by (auto simp: rf_ok_def contents_def min_def)
  have f: "f = fld (GetOwningArena f) (current_size f) ?c"
    using ok by (cases f; cases "arena_or_elements f")
      (auto simp: rf_ok_def fld_def unsafe_elements_def GetOwningArena_def)
  have "f = fld (GetOwningArena f) (int (length (contents f))) (map Some (contents f) @ drop ?n ?c)"
    using ok f len by (simp add: c rf_ok_def)
  moreover have "length (contents f) + length (drop ?n ?c) = length ?c"
    using ok len by (auto simp: rf_ok_def)
  ultimately show ?thesis
    using ok len unfolding holds_def rf_ok_def
    by (intro exI[of _ "drop ?n ?c"]) (auto simp del: append_take_drop_id)
qed

lemma holds_rf_ok: "holds e a f xs \<Longrightarrow> rf_ok e f \<and> contents f = xs \<and> GetOwningArena f = a"
  unfolding holds_def
  by (auto simp: rf_ok_def contents_def list_all_iff o_def simp flip: of_nat_add)

lemma holds_new [simp]: "holds e a (fld a 0 []) []"
  unfolding holds_def by (intro exI[of _ "[]"]) (simp add: INT_MAX_def)

subsection \<open>Growth\<close>

lemma kRepHeaderSize_cases: "env_ok e \<Longrightarrow> kRepHeaderSize e = 8 \<and> sizeof_Element e \<le> 8 \<or> kRepHeaderSize e = 16 \<and> 8 < sizeof_Element e"
  by (auto simp: env_ok_def kRepHeaderSize_def max_def)

lemma le_div_int:
  fixes a b c :: int
  assumes "0 < c" shows "a \<le> b div c \<longleftrightarrow> a * c \<le> b"
proof
  assume "a \<le> b div c"
  then have "a * c \<le> b div c * c"
    using assms by simp
  also have "\<dots> \<le> b"
    using assms pos_mod_sign[of c b] div_mult_mod_eq[of b c] by linarith
  finally show "a * c \<le> b" .
next
  assume "a * c \<le> b"
  then show "a \<le> b div c"
    using assms zdiv_mono1[of "a * c" b c] by simp
qed

lemma lower_limit_pos: "env_ok e \<Longrightarrow> 1 \<le> RepeatedFieldLowerClampLimit e \<and> RepeatedFieldLowerClampLimit e \<le> kRepHeaderSize e"
proof -
  assume e: "env_ok e"
  then have "1 \<le> RepeatedFieldLowerClampLimit e"
    using kRepHeaderSize_cases[OF e] zdiv_mono2[of "kRepHeaderSize e" "sizeof_Element e" "kRepHeaderSize e"]
    by (auto simp: RepeatedFieldLowerClampLimit_def env_ok_def pos_imp_zdiv_pos_iff intro: order_trans)
  moreover have "RepeatedFieldLowerClampLimit e \<le> kRepHeaderSize e"
    using e kRepHeaderSize_cases[OF e] zdiv_mono2[of "kRepHeaderSize e" 1 "sizeof_Element e"]
    by (auto simp: RepeatedFieldLowerClampLimit_def env_ok_def)
  ultimately show ?thesis ..
qed

lemma CalculateReserveSize_bounds:
  assumes "env_ok e" "0 \<le> old" "old < new" "new \<le> INT_MAX"
  shows "new \<le> CalculateReserveSize e old new" "CalculateReserveSize e old new \<le> INT_MAX"
    "RepeatedFieldLowerClampLimit e \<le> CalculateReserveSize e old new"
    "old = 0 \<or> RepeatedFieldLowerClampLimit e \<le> old \<Longrightarrow> min (2 * old) INT_MAX \<le> CalculateReserveSize e old new"
  using assms lower_limit_pos[OF assms(1)] kRepHeaderSize_cases[OF assms(1)]
  by (auto simp: CalculateReserveSize_def Let_def INT_MAX_def RepeatedFieldLowerClampLimit_def max_def min_def
           split: if_splits)

lemma AllocateAtLeast_ge: "env_ok e \<Longrightarrow> n \<le> AllocateAtLeast e n"
  by (auto simp: AllocateAtLeast_def env_ok_def split: option.splits)

text \<open>The new array has at least the size asked for and keeps the first cells.\<close>

lemma GrowNoAnnotate_fld:
  assumes e: "env_ok e" and new: "int (length c) < new" "new \<le> INT_MAX"
    and cur: "0 \<le> cur" "cur \<le> int (length c)"
  obtains m where "GrowNoAnnotate e cur new (fld a n c) = Some (fld a n (take (nat cur) c @ replicate (m - nat cur) None))"
    "new \<le> int m" "int m \<le> INT_MAX" "RepeatedFieldLowerClampLimit e \<le> int m"
    "c = [] \<or> RepeatedFieldLowerClampLimit e \<le> int (length c) \<Longrightarrow> min (2 * int (length c)) INT_MAX \<le> int m"
proof -
  let ?s = "CalculateReserveSize e (int (length c)) new" and ?h = "kRepHeaderSize e" and ?z = "sizeof_Element e"
  note b = CalculateReserveSize_bounds[OF e _ new, simplified]
  have z: "0 < ?z" "?z \<le> 16" "8 \<le> ?h" "?h \<le> 16"
    using e kRepHeaderSize_cases[OF e] by (auto simp: env_ok_def)
  have "?s * ?z \<le> INT_MAX * 16"
    using b(2) z new by (intro mult_mono) (auto simp: INT_MAX_def)
  then have s: "?s \<le> (2 ^ 64 - 1 - ?h) div ?z"
    using z by (simp add: le_div_int INT_MAX_def) 
  define m where "m = (if a = None then min ((AllocateAtLeast e (?h + ?z * ?s) - ?h) div ?z) INT_MAX else ?s)"
  have "?s \<le> (AllocateAtLeast e (?h + ?z * ?s) - ?h) div ?z"
    using AllocateAtLeast_ge[OF e, of "?h + ?z * ?s"] z by (simp add: le_div_int mult.commute)
  then have m: "?s \<le> m" "m \<le> INT_MAX"
    using b(2) by (auto simp: m_def)
  have cap: "new_capacity e a ?s = Some m"
    using z s b(2) by (auto simp: new_capacity_def m_def Let_def)
  have cp: "(if c \<noteq> [] \<and> 0 < cur then memcpy (replicate (nat m) None) (unsafe_elements (fld a n c)) cur else Some (replicate (nat m) None)) =
      Some (take (nat cur) c @ replicate (nat m - nat cur) None)"
    using cur new b(1) m by (auto simp: memcpy_def)
  have upd: "(fld a n c)\<lparr>total_size := m, arena_or_elements := Elements a (take (nat cur) c @ replicate (nat m - nat cur) None)\<rparr>
      = fld a n (take (nat cur) c @ replicate (nat m - nat cur) None)"
    using cur new b(1) m by (auto simp: fld_def)
  have "GrowNoAnnotate e cur new (fld a n c) = Some (fld a n (take (nat cur) c @ replicate (nat m - nat cur) None))"
    using new by (simp add: GrowNoAnnotate_def Let_def cap cp upd split del: if_split)
  then show thesis
    by (rule that) (use m b(1-3) new order_trans[OF b(4)] in auto)
qed

subsection \<open>Operations on a field that holds a list\<close>

lemma holdsE:
  assumes "holds e a f xs"
  obtains rest where "f = fld a (int (length xs)) (map Some xs @ rest)"
    "int (length xs + length rest) \<le> INT_MAX"
    "length xs + length rest = 0 \<or> RepeatedFieldLowerClampLimit e \<le> int (length xs + length rest)"
  using assms unfolding holds_def by blast

lemma holdsI:
  assumes "c = map Some xs @ rest" "n = int (length xs)" "int (length c) \<le> INT_MAX"
    "c = [] \<or> RepeatedFieldLowerClampLimit e \<le> int (length c)"
  shows "holds e a (fld a n c) xs"
  using assms unfolding holds_def by (intro exI[of _ rest]) auto

text \<open>Room for \<open>m\<close> elements: either the array had it or it has grown.\<close>

lemma Grow_holds:
  assumes e: "env_ok e" and h: "holds e a f xs" and m: "int m \<le> INT_MAX" "total_size f < int m"
  obtains f' where "Grow e (current_size f) (int m) f = Some f'" "holds e a f' xs"
    "int m \<le> total_size f'" "min (2 * total_size f) INT_MAX \<le> total_size f'"
proof -
  from h obtain rest where f: "f = fld a (int (length xs)) (map Some xs @ rest)"
    and b: "length xs + length rest = 0 \<or> RepeatedFieldLowerClampLimit e \<le> int (length xs + length rest)"
    by (rule holdsE)
  let ?c = "map Some xs @ rest"
  obtain k where k: "GrowNoAnnotate e (int (length xs)) (int m) (fld a (int (length xs)) ?c) =
        Some (fld a (int (length xs)) (take (nat (int (length xs))) ?c @ replicate (k - nat (int (length xs))) None))"
      "int m \<le> int k" "int k \<le> INT_MAX" "RepeatedFieldLowerClampLimit e \<le> int k"
      "?c = [] \<or> RepeatedFieldLowerClampLimit e \<le> int (length ?c) \<Longrightarrow> min (2 * int (length ?c)) INT_MAX \<le> int k"
    using m f by (rule_tac GrowNoAnnotate_fld[OF e, of ?c "int m" "int (length xs)" a "int (length xs)"]) auto
  have xk: "length xs \<le> k"
    using m(2) k(2) f by simp
  show thesis
  proof (rule that)
    show "Grow e (current_size f) (int m) f = Some (fld a (int (length xs)) (map Some xs @ replicate (k - length xs) None))"
      using k(1) by (simp add: f Grow_def)
    show "holds e a (fld a (int (length xs)) (map Some xs @ replicate (k - length xs) None)) xs"
      using k(3,4) xk by (intro holdsI) auto
  qed (use k(2,5) b xk f in \<open>auto simp: add_eq_0_iff\<close>)
qed

lemma Reserve_holds:
  assumes "env_ok e" "holds e a f xs" "n \<le> INT_MAX"
  shows "\<exists>f'. Reserve e n f = Some f' \<and> holds e a f' xs \<and> n \<le> total_size f'"
proof (cases "n > total_size f")
  case True
  moreover have "0 \<le> total_size f"
    using assms(2) by (auto elim: holdsE)
  ultimately obtain m where "n = int m"
    by (metis less_imp_le nonneg_int_cases order_trans)
  with True show ?thesis
    using Grow_holds[OF assms(1,2), of m] assms(3) by (auto simp: Reserve_def)
qed (use assms in \<open>auto simp: Reserve_def\<close>)

lemma Reserve_room:
  assumes "env_ok e" "holds e a f xs" "int (length xs + k) \<le> INT_MAX" "n = int (length xs) + int k"
  obtains rest where "Reserve e n f = Some (fld a (int (length xs)) (map Some xs @ rest))"
    "k \<le> length rest" "int (length xs + length rest) \<le> INT_MAX"
    "length xs + length rest = 0 \<or> RepeatedFieldLowerClampLimit e \<le> int (length xs + length rest)"
proof -
  from Reserve_holds[OF assms(1,2), of n] assms(3,4) obtain f' where
    f': "Reserve e n f = Some f'" "holds e a f' xs" "n \<le> total_size f'" by auto
  from f'(2) show thesis
    by (rule holdsE) (use f' assms(4) that in auto)
qed

lemma holds_current [simp]: "holds e a f xs \<Longrightarrow> current_size f = int (length xs)"
  by (auto elim: holdsE)

lemma rf_Add_holds:
  assumes "env_ok e" "holds e a f xs" "int (length xs) < INT_MAX"
  shows "\<exists>f'. rf_Add e v f = Some f' \<and> holds e a f' (xs @ [v])"
proof -
  have "(if current_size f = total_size f then Grow e (current_size f) (current_size f + 1) f else Some f)
      = Reserve e (int (length xs) + int 1) f"
    using assms(2) by (auto simp: Reserve_def elim!: holdsE)
  then have add: "rf_Add e v f = Reserve e (int (length xs) + int 1) f \<bind>
      (\<lambda>f. case ExchangeCurrentSize (current_size f + 1) f of (p, f) \<Rightarrow> store p v f)"
    by (simp add: rf_Add_def del: of_nat_1)
  obtain rest where r: "Reserve e (int (length xs) + int 1) f = Some (fld a (int (length xs)) (map Some xs @ rest))"
    "1 \<le> length rest" "int (length xs + length rest) \<le> INT_MAX"
    "length xs + length rest = 0 \<or> RepeatedFieldLowerClampLimit e \<le> int (length xs + length rest)"
    using assms by (elim Reserve_room[where k = 1]) auto
  then obtain x rest' where "rest = x # rest'"
    by (cases rest) auto
  then show ?thesis
    using r(3,4) unfolding add r(1) by (auto simp: list_update_append intro!: holdsI)
qed

lemma AddForwardIterator_holds:
  assumes "env_ok e" "holds e a f xs" "int (length xs + length vs) \<le> INT_MAX"
  shows "\<exists>f'. AddForwardIterator e vs f = Some f' \<and> holds e a f' (xs @ vs)"
proof -
  let ?n = "int (length xs) + int (length vs)"
  have add: "AddForwardIterator e vs f = Reserve e ?n f \<bind>
      (\<lambda>f. case ExchangeCurrentSize ?n f of (p, f) \<Rightarrow> blit (map Some vs) p f)"
    using holds_current[OF assms(2)] by (simp add: AddForwardIterator_def Reserve_def Let_def)
  obtain rest where r: "Reserve e ?n f = Some (fld a (int (length xs)) (map Some xs @ rest))"
    "length vs \<le> length rest" "int (length xs + length rest) \<le> INT_MAX"
    "length xs + length rest = 0 \<or> RepeatedFieldLowerClampLimit e \<le> int (length xs + length rest)"
    using assms by (elim Reserve_room[where k = "length vs"]) auto
  have "AddForwardIterator e vs f = Some (fld a ?n (map Some xs @ map Some vs @ drop (length vs) rest))"
    unfolding add r(1) using r(2) by simp
  moreover have "holds e a (fld a ?n (map Some xs @ map Some vs @ drop (length vs) rest)) (xs @ vs)"
    using r(2-4) by (intro holdsI) auto
  ultimately show ?thesis by blast
qed

lemma add_input_loop_holds:
  assumes "env_ok e" "int (length xs + length vs) \<le> INT_MAX"
    "int (length xs + length rest) \<le> INT_MAX" "length xs + length rest = 0 \<or> RepeatedFieldLowerClampLimit e \<le> int (length xs + length rest)"
  shows "\<exists>rest'. add_input_loop e vs (int (length xs)) (int (length xs + length rest)) (fld a n (map Some xs @ rest)) =
      Some (int (length (xs @ vs)), fld a n (map Some (xs @ vs) @ rest')) \<and>
    int (length (xs @ vs) + length rest') \<le> INT_MAX \<and>
    (length (xs @ vs) + length rest' = 0 \<or> RepeatedFieldLowerClampLimit e \<le> int (length (xs @ vs) + length rest'))"
  using assms(2-)
proof (induction vs arbitrary: xs rest)
  case Nil
  then show ?case by auto
next
  case (Cons v vs)
  show ?case
  proof (cases rest)
    case Nil
    obtain k where k: "GrowNoAnnotate e (int (length xs)) (int (length xs) + 1) (fld a n (map Some xs)) =
        Some (fld a n (take (nat (int (length xs))) (map Some xs) @ replicate (k - nat (int (length xs))) None))"
        "int (length xs) + 1 \<le> int k" "int k \<le> INT_MAX" "RepeatedFieldLowerClampLimit e \<le> int k"
      using Cons.prems by (rule_tac GrowNoAnnotate_fld[OF assms(1), of "map Some xs" "int (length xs) + 1" "int (length xs)" a n]) auto
    have "length xs < k"
      using k(2) by linarith
    then obtain d where d: "k = Suc (length xs + d)"
      using less_iff_Suc_add by blast
    show ?thesis
      using Cons.IH[of "xs @ [v]" "replicate d None"] Cons.prems k d Nil
      by (auto simp: list_update_append algebra_simps)
  next
    case (Cons r rs)
    then show ?thesis
      using Cons.IH[of "xs @ [v]" rs] Cons.prems by (auto simp: list_update_append algebra_simps)
  qed
qed

lemma AddInputIterator_holds:
  assumes "env_ok e" "holds e a f xs" "int (length xs + length vs) \<le> INT_MAX"
  shows "\<exists>f'. AddInputIterator e vs f = Some f' \<and> holds e a f' (xs @ vs)"
proof -
  from assms(2) obtain rest where f: "f = fld a (int (length xs)) (map Some xs @ rest)"
    "int (length xs + length rest) \<le> INT_MAX"
    "length xs + length rest = 0 \<or> RepeatedFieldLowerClampLimit e \<le> int (length xs + length rest)"
    by (rule holdsE)
  from add_input_loop_holds[OF assms(1,3) f(2,3), of a "int (length xs)"] show ?thesis
    by (auto simp: AddInputIterator_def f(1) intro!: holdsI)
qed

lemma Add_range_holds:
  assumes "env_ok e" "holds e a f xs" "int (length xs + length vs) \<le> INT_MAX"
  shows "\<exists>f'. Add_range e fwd vs f = Some f' \<and> holds e a f' (xs @ vs)"
  using AddForwardIterator_holds[OF assms] AddInputIterator_holds[OF assms] by (simp add: Add_range_def)

lemma Get_holds: "holds e a f xs \<Longrightarrow> 0 \<le> i \<Longrightarrow> i < int (length xs) \<Longrightarrow> Get i f = Some (xs ! nat i)"
  by (auto elim!: holdsE simp: Get_def nth_append)

lemma rf_at_holds: "holds e a f xs \<Longrightarrow>
    rf_at i f = Some (if 0 \<le> i \<and> i < int (length xs) then Inr (xs ! nat i) else Inl CheckFailed)"
  by (auto elim!: holdsE simp: rf_at_def nth_append)

lemma store_holds: "holds e a f xs \<Longrightarrow> 0 \<le> i \<Longrightarrow> i < int (length xs) \<Longrightarrow>
    \<exists>f'. store i v f = Some f' \<and> holds e a f' (xs[nat i := v])"
  by (erule holdsE) (auto simp: list_update_append map_update intro!: holdsI)

lemma load_holds: "holds e a f xs \<Longrightarrow> 0 \<le> i \<Longrightarrow> i < int (length xs) \<Longrightarrow> load i f = Some (xs ! nat i)"
  by (auto elim!: holdsE simp: nth_append)

lemma Set_holds: "holds e a f xs \<Longrightarrow> 0 \<le> i \<Longrightarrow> i < int (length xs) \<Longrightarrow>
    \<exists>f'. Set i v f = Some f' \<and> holds e a f' (xs[nat i := v])"
  using store_holds[of e a f xs i v] by (simp add: Set_def)

lemma total_pos: "holds e a f xs \<Longrightarrow> xs \<noteq> [] \<Longrightarrow> 0 < total_size f"
  by (auto elim!: holdsE simp: add_pos_nonneg)

lemma SwapElements_holds:
  assumes h: "holds e a f xs" and i: "0 \<le> i" "i < int (length xs)" and j: "0 \<le> j" "j < int (length xs)"
  shows "\<exists>f'. SwapElements i j f = Some f' \<and> holds e a f' (xs[nat i := xs ! nat j, nat j := xs ! nat i])"
proof -
  obtain f1 where f1: "store i (xs ! nat j) f = Some f1" "holds e a f1 (xs[nat i := xs ! nat j])"
    using store_holds[OF h i] by blast
  obtain f2 where "store j (xs ! nat i) f1 = Some f2" "holds e a f2 (xs[nat i := xs ! nat j, nat j := xs ! nat i])"
    using store_holds[OF f1(2) j(1)] j(2) by auto
  moreover have "0 < total_size f"
    using i by (intro total_pos[OF h]) auto
  ultimately show ?thesis
    using load_holds[OF h i] load_holds[OF h j] f1(1) by (auto simp: SwapElements_def)
qed

lemma shrink_holds:
  assumes "holds e a f xs" "k \<le> length xs"
  shows "holds e a (f\<lparr>current_size := int k\<rparr>) (take k xs)"
  using assms(1)
proof (rule holdsE)
  fix rest assume r: "f = fld a (int (length xs)) (map Some xs @ rest)" "int (length xs + length rest) \<le> INT_MAX"
    "length xs + length rest = 0 \<or> RepeatedFieldLowerClampLimit e \<le> int (length xs + length rest)"
  show ?thesis
    unfolding r(1) fld_simps
    by (rule holdsI[of _ _ "map Some (drop k xs) @ rest"])
      (use assms(2) r(2,3) in \<open>auto simp: min_def simp flip: map_append append_assoc\<close>)
qed

lemma Truncate_holds: "holds e a f xs \<Longrightarrow> 0 \<le> n \<Longrightarrow> n \<le> int (length xs) \<Longrightarrow>
    \<exists>f'. Truncate n f = Some f' \<and> holds e a f' (take (nat n) xs)"
  using shrink_holds[of e a f xs "nat n"] by (auto simp: Truncate_def ExchangeCurrentSize_def)

lemma RemoveLast_holds: "holds e a f xs \<Longrightarrow> xs \<noteq> [] \<Longrightarrow> \<exists>f'. RemoveLast f = Some f' \<and> holds e a f' (butlast xs)"
  using shrink_holds[of e a f xs "length xs - 1"]
  by (auto simp: RemoveLast_def ExchangeCurrentSize_def butlast_conv_take of_nat_diff Suc_le_eq)

lemma Clear_holds: "holds e a f xs \<Longrightarrow> holds e a (rf_Clear f) []"
  using shrink_holds[of e a f xs 0] by (simp add: rf_Clear_def ExchangeCurrentSize_def)

lemma Resize_holds:
  assumes e: "env_ok e" and h: "holds e a f xs" and n: "0 \<le> n" "n \<le> INT_MAX"
  shows "\<exists>f'. Resize e n v f = Some f' \<and> holds e a f' (take (nat n) xs @ replicate (nat n - length xs) v)"
proof (cases "n > int (length xs)")
  case True
  define k where "k = nat n - length xs"
  have nk: "n = int (length xs) + int k" "nat n = length xs + k"
    using True by (simp_all add: k_def)
  have res: "Resize e n v f = Reserve e n f \<bind> (\<lambda>f. case ExchangeCurrentSize n f of
      (first, f) \<Rightarrow> blit (replicate (nat (n - first)) (Some v)) first f)"
    using True n holds_current[OF h] by (simp add: Resize_def Reserve_def)
  obtain rest where r: "Reserve e n f = Some (fld a (int (length xs)) (map Some xs @ rest))"
    "k \<le> length rest" "int (length xs + length rest) \<le> INT_MAX"
    "length xs + length rest = 0 \<or> RepeatedFieldLowerClampLimit e \<le> int (length xs + length rest)"
    using Reserve_room[OF e h _ nk(1)] n nk by auto
  have "Resize e n v f = Some (fld a n (map Some xs @ replicate k (Some v) @ drop k rest))"
    unfolding res r(1) using r(2) by (simp add: nk)
  moreover have "holds e a (fld a n (map Some xs @ replicate k (Some v) @ drop k rest)) (xs @ replicate k v)"
    using r(2-4) by (intro holdsI) (auto simp: nk)
  ultimately show ?thesis
    by (simp add: nk(2))
next
  case False
  then show ?thesis
    using shrink_holds[OF h, of "nat n"] h n by (auto simp: Resize_def ExchangeCurrentSize_def)
qed

lemma extract_loop_holds:
  assumes h: "holds e a f xs"
  shows "i + n \<le> length xs \<Longrightarrow> extract_loop n (int i) f = Some (take n (drop i xs))"
proof (induction n arbitrary: i)
  case (Suc n)
  then show ?case
    using Get_holds[OF h, of "int i"] Suc.IH[of "Suc i"] Cons_nth_drop_Suc[of i xs]
    by (auto simp: add.commute dest: sym)
qed simp

text \<open>Moving elements down, one by one: what \<open>slide_loop\<close> and \<open>std_copy\<close> have in common.\<close>

lemma move_down_step:
  assumes "p < q" "q < length xs"
  shows "take (Suc p) (xs[p := xs ! q]) @ drop (Suc q) (xs[p := xs ! q]) = take p xs @ drop q xs"
  using assms by (simp add: take_Suc_conv_app_nth Cons_nth_drop_Suc)

lemma slide_loop_holds:
  assumes "holds e a f xs" "0 < num" "p + num + n = length xs"
  shows "\<exists>f' ys. slide_loop n (int (p + num)) (int num) f = Some f' \<and> holds e a f' ys \<and>
    length ys = length xs \<and> take (p + n) ys = take p xs @ drop (p + num) xs"
  using assms
proof (induction n arbitrary: f xs p)
  case (Suc n)
  let ?q = "p + num"
  have g: "Get (int ?q) f = Some (xs ! ?q)"
    using Get_holds[OF Suc.prems(1), of "int ?q"] Suc.prems by (simp add: nat_int_add)
  obtain f1 where f1: "Set (int p) (xs ! ?q) f = Some f1" "holds e a f1 (xs[p := xs ! ?q])"
    using Set_holds[OF Suc.prems(1), of "int p"] Suc.prems by auto
  obtain f' ys where "slide_loop n (int (Suc p + num)) (int num) f1 = Some f'" "holds e a f' ys"
      "length ys = length xs"
      "take (Suc p + n) ys = take (Suc p) (xs[p := xs ! ?q]) @ drop (Suc p + num) (xs[p := xs ! ?q])"
    using Suc.IH[OF f1(2), of "Suc p"] Suc.prems by auto
  then show ?case
    using g f1(1) move_down_step[of p ?q xs] Suc.prems by (auto simp: algebra_simps)
qed auto

lemma std_copy_holds:
  assumes "holds e a f xs" "p < q" "q + n = length xs"
  shows "\<exists>f' ys. std_copy n (int q) (int p) f = Some (int (p + n), f') \<and> holds e a f' ys \<and>
    length ys = length xs \<and> take (p + n) ys = take p xs @ drop q xs"
  using assms
proof (induction n arbitrary: f xs p q)
  case (Suc n)
  have g: "load (int q) f = Some (xs ! q)"
    using load_holds[OF Suc.prems(1), of "int q"] Suc.prems by simp
  obtain f1 where f1: "store (int p) (xs ! q) f = Some f1" "holds e a f1 (xs[p := xs ! q])"
    using store_holds[OF Suc.prems(1), of "int p"] Suc.prems by auto
  obtain f' ys where "std_copy n (int (Suc q)) (int (Suc p)) f1 = Some (int (Suc p + n), f')" "holds e a f' ys"
      "length ys = length xs" "take (Suc p + n) ys = take (Suc p) (xs[p := xs ! q]) @ drop (Suc q) (xs[p := xs ! q])"
    using Suc.IH[OF f1(2), of "Suc p" "Suc q"] Suc.prems by auto
  then show ?case
    using g f1(1) move_down_step[of p q xs] Suc.prems by (auto simp: algebra_simps)
qed auto

lemma ExtractSubrange_holds:
  assumes h: "holds e a f xs" and b: "p + k \<le> length xs"
  shows "\<exists>f'. ExtractSubrange (int p) (int k) out f = Some (if out then take k (drop p xs) else [], f') \<and>
    holds e a f' (take p xs @ drop (p + k) xs)"
proof (cases "k = 0")
  case True
  then show ?thesis
    using h extract_loop_holds[OF h, of p 0] b by (auto simp: ExtractSubrange_def)
next
  case False
  define n where "n = length xs - (p + k)"
  have len: "p + k + n = length xs"
    using b by (simp add: n_def)
  obtain f1 ys where f1: "slide_loop n (int (p + k)) (int k) f = Some f1" "holds e a f1 ys"
      "length ys = length xs" "take (p + n) ys = take p xs @ drop (p + k) xs"
    using slide_loop_holds[OF h _ len] False by auto
  have cs: "nat (current_size f - (int p + int k)) = n" "current_size f1 - int k = int (p + n)"
    using h f1(2,3) len by auto
  obtain f2 where "Truncate (int (p + n)) f1 = Some f2" "holds e a f2 (take (p + n) ys)"
    using Truncate_holds[OF f1(2), of "int (p + n)"] f1(3) len by (auto simp: nat_int_add)
  then show ?thesis
    using extract_loop_holds[OF h b] f1(1,4) False b h cs
    by (auto simp: ExtractSubrange_def)
qed

lemma erase_range_holds:
  assumes h: "holds e a f xs" and b: "p \<le> q" "q \<le> length xs"
  shows "\<exists>f'. erase_range (int p) (int q) f = Some (int p, f') \<and> holds e a f' (take p xs @ drop q xs)"
proof (cases "p = q")
  case False
  define n where "n = length xs - q"
  have len: "q + n = length xs"
    using b by (simp add: n_def)
  obtain f1 ys where f1: "std_copy n (int q) (int p) f = Some (int (p + n), f1)" "holds e a f1 ys"
      "length ys = length xs" "take (p + n) ys = take p xs @ drop q xs"
    using std_copy_holds[OF h _ len] False b by (metis le_neq_implies_less)
  obtain f2 where "Truncate (int (p + n)) f1 = Some f2" "holds e a f2 (take (p + n) ys)"
    using Truncate_holds[OF f1(2), of "int (p + n)"] f1(3) len b by (auto simp: nat_int_add)
  moreover have "nat (current_size f - int q) = n"
    using h len by auto
  ultimately show ?thesis
    using f1(1,4) False by (auto simp: erase_range_def)
qed (use h in \<open>auto simp: erase_range_def\<close>)

lemma MergeFrom_holds:
  assumes e: "env_ok e" and h: "holds e a f xs" and g: "holds e b g ys" and n: "int (length xs + length ys) \<le> INT_MAX"
  shows "\<exists>f'. MergeFrom e g f = Some f' \<and> holds e a f' (xs @ ys)"
proof (cases "ys = []")
  case False
  let ?n = "int (length xs) + int (length ys)"
  obtain rest where r: "Reserve e ?n f = Some (fld a (int (length xs)) (map Some xs @ rest))"
    "length ys \<le> length rest" "int (length xs + length rest) \<le> INT_MAX"
    "length xs + length rest = 0 \<or> RepeatedFieldLowerClampLimit e \<le> int (length xs + length rest)"
    using Reserve_room[OF e h n refl] by auto
  obtain gr where gr: "unsafe_elements g = map Some ys @ gr"
    using g by (auto elim: holdsE)
  have "MergeFrom e g f = Some (fld a ?n (map Some xs @ map Some ys @ drop (length ys) rest))"
    using r(1,2) holds_current[OF g] holds_current[OF h] False
    by (simp add: MergeFrom_def UninitializedCopyN_def gr)
  moreover have "holds e a (fld a ?n (map Some xs @ map Some ys @ drop (length ys) rest)) (xs @ ys)"
    using r(2-4) by (intro holdsI) auto
  ultimately show ?thesis by blast
qed (use h holds_current[OF g] in \<open>auto simp: MergeFrom_def\<close>)

subsection \<open>A field implements a list\<close>

text \<open>The operations a client calls on one field, with the fields it copies from as arguments.\<close>

datatype 'a rf_op = OpAdd 'a | OpAddRange bool "'a list" | OpSet int 'a | OpSwapElements int int
  | OpRemoveLast | OpTruncate int | OpResize int 'a | OpReserve int | OpClear
  | OpExtract int int | OpErase int | OpEraseRange int int
  | OpMergeFrom "'a RepeatedField" | OpCopyFrom "'a RepeatedField" | OpAssign bool "'a list"

fun exec_op :: "rf_env \<Rightarrow> 'a rf_op \<Rightarrow> 'a RepeatedField \<Rightarrow> 'a RepeatedField option" where
  "exec_op e (OpAdd v) f = rf_Add e v f"
| "exec_op e (OpAddRange fwd vs) f = Add_range e fwd vs f"
| "exec_op e (OpSet i v) f = Set i v f"
| "exec_op e (OpSwapElements i j) f = SwapElements i j f"
| "exec_op e OpRemoveLast f = RemoveLast f"
| "exec_op e (OpTruncate n) f = Truncate n f"
| "exec_op e (OpResize n v) f = Resize e n v f"
| "exec_op e (OpReserve n) f = Reserve e n f"
| "exec_op e OpClear f = Some (rf_Clear f)"
| "exec_op e (OpExtract i n) f = map_option snd (ExtractSubrange i n False f)"
| "exec_op e (OpErase i) f = map_option snd (erase i f)"
| "exec_op e (OpEraseRange i j) f = map_option snd (erase_range i j f)"
| "exec_op e (OpMergeFrom g) f = MergeFrom e g f"
| "exec_op e (OpCopyFrom g) f = CopyFrom e False g f"
| "exec_op e (OpAssign fwd vs) f = Assign e fwd vs f"

text \<open>What they mean on a list; \<open>None\<close> outside the documented preconditions.\<close>

fun list_op :: "'a rf_op \<Rightarrow> 'a list \<Rightarrow> 'a list option" where
  "list_op (OpAdd v) xs = Some (xs @ [v])"
| "list_op (OpAddRange fwd vs) xs = Some (xs @ vs)"
| "list_op (OpSet i v) xs = (if 0 \<le> i \<and> i < int (length xs) then Some (xs[nat i := v]) else None)"
| "list_op (OpSwapElements i j) xs =
     (if 0 \<le> i \<and> i < int (length xs) \<and> 0 \<le> j \<and> j < int (length xs)
      then Some (xs[nat i := xs ! nat j, nat j := xs ! nat i]) else None)"
| "list_op OpRemoveLast xs = (if xs = [] then None else Some (butlast xs))"
| "list_op (OpTruncate n) xs = (if 0 \<le> n \<and> n \<le> int (length xs) then Some (take (nat n) xs) else None)"
| "list_op (OpResize n v) xs = (if 0 \<le> n then Some (take (nat n) xs @ replicate (nat n - length xs) v) else None)"
| "list_op (OpReserve n) xs = (if n \<le> INT_MAX then Some xs else None)"
| "list_op OpClear xs = Some []"
| "list_op (OpExtract i n) xs =
     (if 0 \<le> i \<and> 0 \<le> n \<and> i + n \<le> int (length xs) then Some (take (nat i) xs @ drop (nat i + nat n) xs) else None)"
| "list_op (OpErase i) xs =
     (if 0 \<le> i \<and> i < int (length xs) then Some (take (nat i) xs @ drop (nat i + 1) xs) else None)"
| "list_op (OpEraseRange i j) xs =
     (if 0 \<le> i \<and> i \<le> j \<and> j \<le> int (length xs) then Some (take (nat i) xs @ drop (nat j) xs) else None)"
| "list_op (OpMergeFrom g) xs = Some (xs @ contents g)"
| "list_op (OpCopyFrom g) xs = Some (contents g)"
| "list_op (OpAssign fwd vs) xs = Some vs"

fun op_ok :: "rf_env \<Rightarrow> 'a rf_op \<Rightarrow> bool" where
  "op_ok e (OpMergeFrom g) = rf_ok e g"
| "op_ok e (OpCopyFrom g) = rf_ok e g"
| "op_ok e op = True"

lemma exec_op_holds:
  assumes e: "env_ok e" and h: "holds e a f xs" and ok: "op_ok e op"
    and op: "list_op op xs = Some ys" "int (length ys) \<le> INT_MAX"
  shows "\<exists>f'. exec_op e op f = Some f' \<and> holds e a f' ys"
proof (cases op)
  case (OpExtract i n)
  then obtain p k where "i = int p" "n = int k"
    using op by (metis list_op.simps(10) option.distinct(1) nonneg_int_cases)
  then show ?thesis
    using OpExtract op ExtractSubrange_holds[OF h, of p k False] by (auto split: if_splits)
next
  case (OpErase i)
  then obtain p where "i = int p" "p < length xs"
    using op by (metis list_op.simps(11) option.distinct(1) nonneg_int_cases of_nat_less_iff)
  then show ?thesis
    using OpErase op erase_range_holds[OF h, of p "p + 1"] by (auto simp: erase_def algebra_simps)
next
  case (OpEraseRange i j)
  then obtain p q where "i = int p" "j = int q"
    using op by (metis list_op.simps(12) option.distinct(1) nonneg_int_cases order_trans)
  then show ?thesis
    using OpEraseRange op erase_range_holds[OF h, of p q] by (auto split: if_splits)
next
  case (OpResize n v)
  then show ?thesis
    using op Resize_holds[OF e h, of n v] by (auto split: if_splits simp: min_def)
next
  case (OpReserve n)
  then show ?thesis
    using op Reserve_holds[OF e h, of n] by (auto split: if_splits)
next
  case (OpMergeFrom g)
  then show ?thesis
    using op ok MergeFrom_holds[OF e h rf_ok_holds] by auto
next
  case (OpCopyFrom g)
  then show ?thesis
    using op ok MergeFrom_holds[OF e Clear_holds[OF h] rf_ok_holds] by (auto simp: CopyFrom_def)
next
  case (OpAssign fwd vs)
  then show ?thesis
    using op Add_range_holds[OF e Clear_holds[OF h]] by (auto simp: Assign_def)
qed (use op rf_Add_holds[OF e h] Add_range_holds[OF e h] Set_holds[OF h] SwapElements_holds[OF h] RemoveLast_holds[OF h]
       Truncate_holds[OF h] Clear_holds[OF h] in \<open>auto split: if_splits\<close>)

fun exec_ops :: "rf_env \<Rightarrow> 'a rf_op list \<Rightarrow> 'a RepeatedField \<Rightarrow> 'a RepeatedField option" where
  "exec_ops e [] f = Some f"
| "exec_ops e (op # ops) f = exec_op e op f \<bind> exec_ops e ops"

fun list_ops :: "'a rf_op list \<Rightarrow> 'a list \<Rightarrow> 'a list option" where
  "list_ops [] xs = Some xs"
| "list_ops (op # ops) xs = do {
     ys \<leftarrow> list_op op xs;
     if int (length ys) \<le> INT_MAX then list_ops ops ys else None
   }"

lemma exec_ops_holds:
  "env_ok e \<Longrightarrow> holds e a f xs \<Longrightarrow> list_all (op_ok e) ops \<Longrightarrow> list_ops ops xs = Some ys \<Longrightarrow>
   \<exists>f'. exec_ops e ops f = Some f' \<and> holds e a f' ys"
proof (induction ops arbitrary: f xs)
  case (Cons op ops)
  then obtain zs where zs: "list_op op xs = Some zs" "int (length zs) \<le> INT_MAX" "list_ops ops zs = Some ys"
    by (auto split: if_splits bind_splits)
  obtain f1 where "exec_op e op f = Some f1" "holds e a f1 zs"
    using exec_op_holds[OF Cons.prems(1,2) _ zs(1,2)] Cons.prems(3) by auto
  then show ?case
    using Cons.IH[OF Cons.prems(1) _ _ zs(3)] Cons.prems(3) by auto
qed simp

text \<open>
  C17: A repeated field implements a list. From any well-formed field, a sequence of operations whose
  preconditions hold on the list has defined behaviour: no access outside the array, no use of an
  unwritten cell. It leaves a well-formed field on the same arena whose contents are those of the list.
\<close>

theorem repeated_field_refines_list:
  assumes "env_ok e" "rf_ok e f" "list_all (op_ok e) ops" "list_ops ops (contents f) = Some ys"
  shows "\<exists>f'. exec_ops e ops f = Some f' \<and> rf_ok e f' \<and> contents f' = ys \<and> GetOwningArena f' = GetOwningArena f"
  using exec_ops_holds[OF assms(1) rf_ok_holds[OF assms(2)] assms(3,4)] holds_rf_ok by blast

theorem repeated_field_refines_list_witness:
  "\<exists>f'. exec_ops \<lparr>sizeof_Element = 4, allocate_at_least_hook = None\<rparr>
      [OpAdd 1, OpAddRange False [2, 3, 4, 5], OpErase 1, OpResize 6 (0::int), OpSwapElements 0 5] (new_RepeatedField None) = Some f' \<and>
    rf_ok \<lparr>sizeof_Element = 4, allocate_at_least_hook = None\<rparr> f' \<and>
    contents f' = [0, 3, 4, 5, 0, 1] \<and> GetOwningArena f' = (GetOwningArena (new_RepeatedField None :: int RepeatedField))"
proof (rule repeated_field_refines_list)
  show "list_ops [OpAdd 1, OpAddRange False [2, 3, 4, 5], OpErase 1, OpResize 6 (0::int), OpSwapElements 0 5]
      (contents (new_RepeatedField None)) = Some [0, 3, 4, 5, 0, 1]"
    by code_simp
qed (simp_all add: env_ok_def holds_rf_ok[OF holds_new])

text \<open>
  \<open>Swap\<close> exchanges the contents of two fields and leaves each on its arena, also when the arenas
  differ and the elements have to be copied.
\<close>

theorem Swap_exchanges:
  assumes "env_ok e" "rf_ok e f" "rf_ok e g"
  shows "\<exists>f' g'. rf_Swap e (f, g) = Some (f', g') \<and> rf_ok e f' \<and> rf_ok e g' \<and>
    contents f' = contents g \<and> contents g' = contents f \<and>
    GetOwningArena f' = GetOwningArena f \<and> GetOwningArena g' = GetOwningArena g"
proof (cases "GetOwningArena f = GetOwningArena g")
  case False
  note h = rf_ok_holds[OF assms(2)] and k = rf_ok_holds[OF assms(3)]
  have bound: "int (length (contents x)) \<le> INT_MAX" if "rf_ok e x" for x :: "'a RepeatedField"
    using that by (auto simp: rf_ok_def contents_def)
  obtain t where t: "MergeFrom e f (new_RepeatedField (GetOwningArena g)) = Some t"
      "holds e (GetOwningArena g) t (contents f)"
    using MergeFrom_holds[OF assms(1) _ h, of "GetOwningArena g" "new_RepeatedField (GetOwningArena g)" "[]"] bound[OF assms(2)] by auto
  obtain f' where f': "MergeFrom e g (rf_Clear f) = Some f'" "holds e (GetOwningArena f) f' (contents g)"
    using MergeFrom_holds[OF assms(1) Clear_holds[OF h] k] bound[OF assms(3)] by auto
  show ?thesis
    using t(1) f'(1) holds_rf_ok[OF t(2)] holds_rf_ok[OF f'(2)] False
    by (auto simp: rf_Swap_def CopyFrom_def UnsafeArenaSwap_def rf_InternalSwap_def simp del: fld_simps(7))
qed (use assms in \<open>auto simp: rf_Swap_def rf_InternalSwap_def\<close>)

theorem Swap_exchanges_witness:
  "\<exists>f' g'. rf_Swap \<lparr>sizeof_Element = 8, allocate_at_least_hook = None\<rparr>
      (fld (Some 1) 2 [Some (7::int), Some 8], fld None 1 [Some 9, None]) = Some (f', g') \<and>
    rf_ok \<lparr>sizeof_Element = 8, allocate_at_least_hook = None\<rparr> f' \<and>
    rf_ok \<lparr>sizeof_Element = 8, allocate_at_least_hook = None\<rparr> g' \<and>
    contents f' = contents (fld None 1 [Some 9, None]) \<and> contents g' = contents (fld (Some 1) 2 [Some 7, Some 8]) \<and>
    GetOwningArena f' = GetOwningArena (fld (Some 1) 2 [Some (7::int), Some 8]) \<and>
    GetOwningArena g' = GetOwningArena (fld None 1 [Some (9::int), None])"
  by (rule Swap_exchanges)
    (simp_all add: env_ok_def rf_ok_def RepeatedFieldLowerClampLimit_def kRepHeaderSize_def INT_MAX_def)

end
