(* ===== verification/Wire_Read.thy ===== *)
theory Wire_Read
  imports Coded_Input Repeated_Field
begin

text \<open>
  The readers of \<open>google/protobuf/wire_format_lite.h\<close>: scalars, repeated and packed fields, groups,
  messages and the items of a message set, over the input stream and the repeated field.

  A reader returns the value, if it could be read, and the stream behind it. The readers of repeated
  fields return \<open>None\<close> when their behaviour is undefined or a loop does not end, else the result of
  the call, the stream and the field.
\<close>

type_synonym 'v reader = "input_lib \<Rightarrow> coded_input \<Rightarrow> 'v option \<times> coded_input"

subsection \<open>Scalars\<close>

definition on_success :: "('t \<Rightarrow> 'v) \<Rightarrow> (bool \<times> 't) \<times> coded_input \<Rightarrow> 'v option \<times> coded_input" where
  "on_success conv r = (case r of ((ok, temp), s) \<Rightarrow> (if ok then Some (conv temp) else None, s))"

definition ReadPrimitive_INT32 :: "i32 reader" where
  "ReadPrimitive_INT32 L s = on_success id (ReadVarint32 L s)"

definition ReadPrimitive_INT64 :: "i64 reader" where
  "ReadPrimitive_INT64 L s = on_success id (ReadVarint64 L s)"

definition ReadPrimitive_UINT32 :: "u32 reader" where
  "ReadPrimitive_UINT32 L s = on_success id (ReadVarint32 L s)"

definition ReadPrimitive_UINT64 :: "u64 reader" where
  "ReadPrimitive_UINT64 L s = on_success id (ReadVarint64 L s)"

definition ReadPrimitive_SINT32 :: "i32 reader" where
  "ReadPrimitive_SINT32 L s = on_success ZigZagDecode32 (ReadVarint32 L s)"

definition ReadPrimitive_SINT64 :: "i64 reader" where
  "ReadPrimitive_SINT64 L s = on_success ZigZagDecode64 (ReadVarint64 L s)"

definition ReadPrimitive_FIXED32 :: "u32 reader" where
  "ReadPrimitive_FIXED32 L s = on_success id (ReadLittleEndian32 L s)"

definition ReadPrimitive_FIXED64 :: "u64 reader" where
  "ReadPrimitive_FIXED64 L s = on_success id (ReadLittleEndian64 L s)"

definition ReadPrimitive_SFIXED32 :: "i32 reader" where
  "ReadPrimitive_SFIXED32 L s = on_success id (ReadLittleEndian32 L s)"

definition ReadPrimitive_SFIXED64 :: "i64 reader" where
  "ReadPrimitive_SFIXED64 L s = on_success id (ReadLittleEndian64 L s)"

definition ReadPrimitive_FLOAT :: "cfloat reader" where
  "ReadPrimitive_FLOAT L s = on_success DecodeFloat (ReadLittleEndian32 L s)"

definition ReadPrimitive_DOUBLE :: "cdouble reader" where
  "ReadPrimitive_DOUBLE L s = on_success DecodeDouble (ReadLittleEndian64 L s)"

definition ReadPrimitive_BOOL :: "bool reader" where
  "ReadPrimitive_BOOL L s = on_success (\<lambda>temp. temp \<noteq> 0) (ReadVarint64 L s)"

definition ReadPrimitive_ENUM :: "i32 reader" where
  "ReadPrimitive_ENUM L s = on_success id (ReadVarint32 L s)"

lemmas ReadPrimitive_defs =
  ReadPrimitive_INT32_def ReadPrimitive_INT64_def ReadPrimitive_UINT32_def ReadPrimitive_UINT64_def ReadPrimitive_SINT32_def ReadPrimitive_SINT64_def ReadPrimitive_FIXED32_def ReadPrimitive_FIXED64_def ReadPrimitive_SFIXED32_def ReadPrimitive_SFIXED64_def ReadPrimitive_FLOAT_def ReadPrimitive_DOUBLE_def ReadPrimitive_BOOL_def ReadPrimitive_ENUM_def

definition ReadPrimitiveFromArray_FIXED32 :: "bytes \<Rightarrow> bytes \<times> u32" where
  "ReadPrimitiveFromArray_FIXED32 buf = (let (buf, temp) = ReadLittleEndian32FromArray buf in (buf, id temp))"

definition ReadPrimitiveFromArray_FIXED64 :: "bytes \<Rightarrow> bytes \<times> u64" where
  "ReadPrimitiveFromArray_FIXED64 buf = (let (buf, temp) = ReadLittleEndian64FromArray buf in (buf, id temp))"

definition ReadPrimitiveFromArray_SFIXED32 :: "bytes \<Rightarrow> bytes \<times> i32" where
  "ReadPrimitiveFromArray_SFIXED32 buf = (let (buf, temp) = ReadLittleEndian32FromArray buf in (buf, id temp))"

definition ReadPrimitiveFromArray_SFIXED64 :: "bytes \<Rightarrow> bytes \<times> i64" where
  "ReadPrimitiveFromArray_SFIXED64 buf = (let (buf, temp) = ReadLittleEndian64FromArray buf in (buf, id temp))"

definition ReadPrimitiveFromArray_FLOAT :: "bytes \<Rightarrow> bytes \<times> cfloat" where
  "ReadPrimitiveFromArray_FLOAT buf = (let (buf, temp) = ReadLittleEndian32FromArray buf in (buf, DecodeFloat temp))"

definition ReadPrimitiveFromArray_DOUBLE :: "bytes \<Rightarrow> bytes \<times> cdouble" where
  "ReadPrimitiveFromArray_DOUBLE buf = (let (buf, temp) = ReadLittleEndian64FromArray buf in (buf, DecodeDouble temp))"

subsection \<open>Repeated fields\<close>

text \<open>The loop runs as often as elements are reserved.\<close>

fun reserved_loop :: "'v reader \<Rightarrow> input_lib \<Rightarrow> u32 \<Rightarrow> nat \<Rightarrow> coded_input \<Rightarrow> 'v RepeatedField
    \<Rightarrow> (bool \<times> coded_input \<times> 'v RepeatedField) option" where
  "reserved_loop rd L tag 0 s values = Some (True, s, values)"
| "reserved_loop rd L tag (Suc n) s values =
     (case ExpectTag tag s of
        (False, s) \<Rightarrow> Some (True, s, values)
      | (True, s) \<Rightarrow> (case rd L s of
          (None, s) \<Rightarrow> Some (False, s, values)
        | (Some v, s) \<Rightarrow> do { values \<leftarrow> AddAlreadyReserved v values; reserved_loop rd L tag n s values }))"

definition ReadRepeatedPrimitive :: "'v reader \<Rightarrow> rf_env \<Rightarrow> input_lib \<Rightarrow> u32 \<Rightarrow> coded_input \<Rightarrow> 'v RepeatedField
    \<Rightarrow> (bool \<times> coded_input \<times> 'v RepeatedField) option" where
  "ReadRepeatedPrimitive rd e L tag s values =
     (case rd L s of
        (None, s) \<Rightarrow> Some (False, s, values)
      | (Some v, s) \<Rightarrow> do {
          values \<leftarrow> rf_Add e v values;
          let elements_already_reserved = Capacity values - rf_size values;
          reserved_loop rd L tag (nat elements_already_reserved) s values
        })"

fun fixed_loop :: "(bytes \<Rightarrow> bytes \<times> 'v) \<Rightarrow> u32 \<Rightarrow> nat \<Rightarrow> bytes \<Rightarrow> int \<Rightarrow> 'v RepeatedField
    \<Rightarrow> (int \<times> 'v RepeatedField) option" where
  "fixed_loop rda tag 0 buf num_read values = Some (num_read, values)"
| "fixed_loop rda tag (Suc n) buf num_read values =
     (case ExpectTagFromArray buf tag of
        None \<Rightarrow> Some (num_read, values)
      | Some buf \<Rightarrow> (case rda buf of
          (buf, v) \<Rightarrow> do { values \<leftarrow> AddAlreadyReserved v values; fixed_loop rda tag n buf (num_read + 1) values }))"

definition ReadRepeatedFixedSizePrimitive :: "'v reader \<Rightarrow> (bytes \<Rightarrow> bytes \<times> 'v) \<Rightarrow> rf_env \<Rightarrow> input_lib \<Rightarrow> int \<Rightarrow> u32
    \<Rightarrow> coded_input \<Rightarrow> 'v RepeatedField \<Rightarrow> (bool \<times> coded_input \<times> 'v RepeatedField) option" where
  "ReadRepeatedFixedSizePrimitive rd rda e L tag_size tag s values = do {
     DCHECK (int (UInt32Size tag) = tag_size);
     case rd L s of
       (None, s) \<Rightarrow> Some (False, s, values)
     | (Some v, s) \<Rightarrow> do {
         values \<leftarrow> rf_Add e v values;
         let (buf, sz) = GetDirectBufferPointerInline s;
         if sz > 0 then do {
           let per_value_size = tag_size + sizeof_Element e;
           let elements_available = min (Capacity values - rf_size values) (sz div per_value_size);
           (num_read, values) \<leftarrow> fixed_loop rda tag (nat elements_available) buf 0 values;
           let read_bytes = num_read * per_value_size;
           let s = (if read_bytes > 0 then snd (Skip L read_bytes s) else s);
           Some (True, s, values)
         } else Some (True, s, values)
       }
   }"

subsection \<open>Packed fields\<close>

partial_function (option) packed_loop :: "'v reader \<Rightarrow> rf_env \<Rightarrow> input_lib \<Rightarrow> coded_input \<Rightarrow> 'v RepeatedField
    \<Rightarrow> (bool \<times> coded_input \<times> 'v RepeatedField) option" where
  "packed_loop rd e L s values =
     (if BytesUntilLimit L s > 0 then
        (case rd L s of
           (None, s) \<Rightarrow> Some (False, s, values)
         | (Some v, s) \<Rightarrow> do { values \<leftarrow> rf_Add e v values; packed_loop rd e L s values })
      else Some (True, s, values))"

definition ReadPackedPrimitive :: "'v reader \<Rightarrow> rf_env \<Rightarrow> input_lib \<Rightarrow> coded_input \<Rightarrow> 'v RepeatedField
    \<Rightarrow> (bool \<times> coded_input \<times> 'v RepeatedField) option" where
  "ReadPackedPrimitive rd e L s values =
     (case ReadVarintSizeAsInt L s of
        ((False, _), s) \<Rightarrow> Some (False, s, values)
      | ((True, len), s) \<Rightarrow> (case PushLimit L len s of (limit, s) \<Rightarrow> do {
          (ok, s, values) \<leftarrow> packed_loop rd e L s values;
          if ok then Some (True, PopLimit L limit s, values) else Some (False, s, values)
        }))"

text \<open>Reading \<open>n\<close> elements one by one, with the function that appends them.\<close>

fun count_loop :: "'v reader \<Rightarrow> ('v \<Rightarrow> 'v RepeatedField \<Rightarrow> 'v RepeatedField option) \<Rightarrow> input_lib \<Rightarrow> nat \<Rightarrow> coded_input \<Rightarrow> 'v RepeatedField
    \<Rightarrow> (bool \<times> coded_input \<times> 'v RepeatedField) option" where
  "count_loop rd add L 0 s values = Some (True, s, values)"
| "count_loop rd add L (Suc n) s values =
     (case rd L s of
        (None, s) \<Rightarrow> Some (False, s, values)
      | (Some v, s) \<Rightarrow> do { values \<leftarrow> add v values; count_loop rd add L n s values })"

text \<open>The elements that \<open>n\<close> times \<open>k\<close> bytes of memory are, with the reading \<open>dec\<close> of one of them.\<close>

definition elements_of :: "(bytes \<Rightarrow> 'v) \<Rightarrow> nat \<Rightarrow> nat \<Rightarrow> bytes \<Rightarrow> 'v list" where
  "elements_of dec k n bs = map (\<lambda>i. dec (take k (drop (i * k) bs))) [0..<n]"

text \<open>
  The branch for little-endian machines copies the bytes into the array; the other one reads the
  elements in turn. \<open>zero\<close> is the value the new elements are filled with.
\<close>

definition ReadPackedFixedSizePrimitive :: "bool \<Rightarrow> 'v reader \<Rightarrow> (bytes \<Rightarrow> 'v) \<Rightarrow> 'v \<Rightarrow> rf_env \<Rightarrow> input_lib \<Rightarrow> coded_input
    \<Rightarrow> 'v RepeatedField \<Rightarrow> (bool \<times> coded_input \<times> 'v RepeatedField) option" where
  "ReadPackedFixedSizePrimitive little_endian rd dec zero e L s values =
     (case ReadVarintSizeAsInt L s of
        ((False, _), s) \<Rightarrow> Some (False, s, values)
      | ((True, len), s) \<Rightarrow>
          (let old_entries = rf_size values;
               new_entries = len div sizeof_Element e;
               new_bytes = new_entries * sizeof_Element e in
           if new_bytes \<noteq> len then Some (False, s, values)
           else
             (let bytes_limit = BytesUntilTotalBytesLimit L s;
                  bytes_limit = (if bytes_limit = - 1 then BytesUntilLimit L s else min bytes_limit (BytesUntilLimit L s)) in
              if bytes_limit \<ge> new_bytes then
                (if little_endian then do {
                   values \<leftarrow> Resize e (old_entries + new_entries) zero values;
                   case ReadRaw L (nat new_bytes) s of
                     (None, s) \<Rightarrow> do { values \<leftarrow> Truncate old_entries values; Some (False, s, values) }
                   | (Some bs, s) \<Rightarrow> do {
                       values \<leftarrow> blit (map Some (elements_of dec (nat (sizeof_Element e)) (nat new_entries) bs)) old_entries values;
                       Some (True, s, values)
                     }
                 } else do {
                   values \<leftarrow> Reserve e (old_entries + new_entries) values;
                   count_loop rd AddAlreadyReserved L (nat new_entries) s values
                 })
              else count_loop rd (rf_Add e) L (nat new_entries) s values)))"

subsection \<open>Groups and messages\<close>

text \<open>
  The generated \<open>MergePartialFromCodedStream\<close> of the message and the compiled functions that change
  limit and recursion depth together are parameters.
\<close>

definition ReadGroup :: "('m \<Rightarrow> coded_input \<Rightarrow> bool \<times> 'm \<times> coded_input) \<Rightarrow> i32 \<Rightarrow> coded_input \<Rightarrow> 'm \<Rightarrow> bool \<times> 'm \<times> coded_input" where
  "ReadGroup Merge field_number s m =
     (case IncrementRecursionDepth s of
        (False, s) \<Rightarrow> (False, m, s)
      | (True, s) \<Rightarrow> (case Merge m s of
          (False, m, s) \<Rightarrow> (False, m, s)
        | (True, m, s) \<Rightarrow>
            (let s = UnsafeDecrementRecursionDepth s
             in (LastTagWas (MakeTag field_number WIRETYPE_END_GROUP) s, m, s))))"

definition ReadMessage :: "(int \<Rightarrow> coded_input \<Rightarrow> (int \<times> int) \<times> coded_input) \<Rightarrow> (int \<Rightarrow> coded_input \<Rightarrow> bool \<times> coded_input)
    \<Rightarrow> ('m \<Rightarrow> coded_input \<Rightarrow> bool \<times> 'm \<times> coded_input) \<Rightarrow> input_lib \<Rightarrow> coded_input \<Rightarrow> 'm \<Rightarrow> bool \<times> 'm \<times> coded_input" where
  "ReadMessage IncrementRecursionDepthAndPushLimit DecrementRecursionDepthAndPopLimit Merge L s m =
     (case ReadVarintSizeAsInt L s of
        ((False, _), s) \<Rightarrow> (False, m, s)
      | ((True, len), s) \<Rightarrow> (case IncrementRecursionDepthAndPushLimit len s of
          ((limit, depth), s) \<Rightarrow>
            if depth < 0 then (False, m, s)
            else (case Merge m s of
               (False, m, s) \<Rightarrow> (False, m, s)
             | (True, m, s) \<Rightarrow> (case DecrementRecursionDepthAndPopLimit limit s of (ok, s) \<Rightarrow> (ok, m, s)))))"

subsection \<open>Items of a message set\<close>

datatype State = kNoTag | kHasType | kHasPayload | kDone

text \<open>The two functions of the parameter \<open>ms\<close>; \<open>'m\<close> is what they change.\<close>

record 'm message_set =
  ParseField :: "u32 \<Rightarrow> 'm \<Rightarrow> coded_input \<Rightarrow> bool \<times> 'm \<times> coded_input"
  SkipField :: "u32 \<Rightarrow> 'm \<Rightarrow> coded_input \<Rightarrow> bool \<times> 'm \<times> coded_input"

record item_state =
  last_type_id :: u32
  message_data :: bytes
  item_state :: State

text \<open>One turn of the loop: the call returns, or the loop goes on.\<close>

definition type_id_turn :: "'m message_set \<Rightarrow> input_lib \<Rightarrow> item_state \<Rightarrow> 'm \<Rightarrow> coded_input
    \<Rightarrow> bool option \<times> item_state \<times> 'm \<times> coded_input" where
  "type_id_turn MS L i m s =
     (case ReadVarint32 L s of ((ok, type_id), s) \<Rightarrow>
        if \<not> ok \<or> type_id = 0 then (Some False, i, m, s)
        else if item_state i = kNoTag then (None, i\<lparr>last_type_id := type_id, item_state := kHasType\<rparr>, m, s)
        else if item_state i = kHasPayload then
          (let sub_input = SetRecursionLimit (RecursionBudget s)
                 (new_CodedInputStream_flat L (message_data i) (length (message_data i))) in
           case ParseField MS type_id m sub_input of
             (False, m, _) \<Rightarrow> (Some False, i, m, s)
           | (True, m, _) \<Rightarrow> (None, i\<lparr>message_data := [], item_state := kDone\<rparr>, m, s))
        else (None, i, m, s))"

definition message_turn :: "'m message_set \<Rightarrow> input_lib \<Rightarrow> u32 \<Rightarrow> item_state \<Rightarrow> 'm \<Rightarrow> coded_input
    \<Rightarrow> bool option \<times> item_state \<times> 'm \<times> coded_input" where
  "message_turn MS L tag i m s =
     (if item_state i = kHasType then
        (case ParseField MS (last_type_id i) m s of
           (False, m, s) \<Rightarrow> (Some False, i, m, s)
         | (True, m, s) \<Rightarrow> (None, i\<lparr>item_state := kDone\<rparr>, m, s))
      else if item_state i = kNoTag then
        (case ReadVarint32 L s of ((ok, len), s) \<Rightarrow>
           if \<not> ok then (Some False, i, m, s)
           else if sint len < 0 then (Some False, i, m, s)
           else (case ReadRaw L (unat len) s of
              (None, s) \<Rightarrow> (Some False, i, m, s)
            | (Some bs, s) \<Rightarrow> (None, i\<lparr>message_data := WriteVarint32ToArray len [] @ bs, item_state := kHasPayload\<rparr>, m, s)))
      else (case SkipField MS tag m s of
          (False, m, s) \<Rightarrow> (Some False, i, m, s)
        | (True, m, s) \<Rightarrow> (None, i, m, s)))"

definition item_turn :: "'m message_set \<Rightarrow> input_lib \<Rightarrow> item_state \<Rightarrow> 'm \<Rightarrow> coded_input
    \<Rightarrow> bool option \<times> item_state \<times> 'm \<times> coded_input" where
  "item_turn MS L i m s =
     (case ReadTagNoLastTag L s of (tag, s) \<Rightarrow>
        if tag = 0 then (Some False, i, m, s)
        else if tag = kMessageSetTypeIdTag then type_id_turn MS L i m s
        else if tag = kMessageSetMessageTag then message_turn MS L tag i m s
        else if tag = kMessageSetItemEndTag then (Some True, i, m, s)
        else (case SkipField MS tag m s of
            (False, m, s) \<Rightarrow> (Some False, i, m, s)
          | (True, m, s) \<Rightarrow> (None, i, m, s)))"

partial_function (option) item_loop :: "'m message_set \<Rightarrow> input_lib \<Rightarrow> item_state \<Rightarrow> 'm \<Rightarrow> coded_input
    \<Rightarrow> (bool \<times> 'm \<times> coded_input) option" where
  "item_loop MS L i m s =
     (case item_turn MS L i m s of
        (Some r, i, m, s) \<Rightarrow> Some (r, m, s)
      | (None, i, m, s) \<Rightarrow> item_loop MS L i m s)"

definition ParseMessageSetItemImpl :: "'m message_set \<Rightarrow> input_lib \<Rightarrow> 'm \<Rightarrow> coded_input \<Rightarrow> (bool \<times> 'm \<times> coded_input) option" where
  "ParseMessageSetItemImpl MS L m s =
     item_loop MS L \<lparr>last_type_id = 0, message_data = [], item_state = kNoTag\<rparr> m s"

subsection \<open>What the readers of scalars return\<close>

lemma varint_value_cast: "LENGTH('b) \<le> LENGTH('a) \<Longrightarrow> (varint_value bs :: 'b::len word) = ucast (varint_value bs :: 'a::len word)"
  by (rule bit_word_eqI) (auto simp: bit_simps bit_varint_value)

lemma parse_varint_cast:
  "LENGTH('b) \<le> LENGTH('a) \<Longrightarrow> parse_varint m bs = Some (n, v :: 'a::len word) \<Longrightarrow>
   parse_varint m bs = Some (n, ucast v :: 'b::len word)"
  using varint_value_cast[where 'a = 'a and 'b = 'b] by (auto simp: parse_varint_def Let_def split: if_splits)

lemma ucast_scast_32 [simp]: "ucast (scast (i :: i32) :: u64) = i"
  by (rule bit_word_eqI) (auto simp: bit_simps)

lemma UnsafeVarint_not_Nil [simp]: "UnsafeVarint v \<noteq> []"
  using length_UnsafeVarint_pos[of v] by auto

text \<open>A number is written the same at either width.\<close>

lemma UnsafeVarint_widen: "UnsafeVarint (ucast (v :: u32) :: u64) = UnsafeVarint v"
proof (induction v rule: UnsafeVarint.induct)
  case (1 v)
  have u: "unat (ucast v :: u64) = unat v" "(ucast (ucast v :: u64) :: byte) = ucast v"
    using unat_less[of v] by (simp_all add: unsigned_ucast_eq take_bit_nat_eq_self unsigned_ucast_eq) (rule bit_word_eqI, auto simp: bit_simps)
  have d: "drop_bit 7 (ucast v :: u64) = ucast (drop_bit 7 v)"
    by (rule bit_word_eqI) (auto simp: bit_simps dest: bit_imp_le_length)
  show ?case
    using 1 UnsafeVarint.simps[of "ucast v :: u64"] UnsafeVarint.simps[of v] by (cases "0x80 \<le> unat v") (simp_all only: u d if_True if_False)
qed

lemma UnsafeVarint_bit: "UnsafeVarint (if b then 1 else 0 :: u32) = UnsafeVarint (if b then 1 else 0 :: u64)"
  "length (UnsafeVarint (1 :: u64)) = 1" "length (UnsafeVarint (0 :: u64)) = 1"
  using UnsafeVarint_widen[of "if b then 1 else 0"] UnsafeVarint_bool[of True] UnsafeVarint_bool[of False]
    UnsafeVarint_widen[of 1] UnsafeVarint_widen[of 0] by (simp_all split: if_splits)

lemma le_value_word: "of_nat (le_value (le_bytes 4 (u :: u32))) = u" "of_nat (le_value (le_bytes 8 (w :: u64))) = w"
  using unat_less[of u] unat_less[of w] by (simp_all add: le_value_le_bytes)

lemma varint_back:
  assumes "documented L" "flat_ok s"
  shows "unread s = UnsafeVarint (v :: u32) @ rest \<Longrightarrow> ReadVarint32 L s = ((True, v), Advance (length (UnsafeVarint v)) s)"
    "unread s = UnsafeVarint (w :: u64) @ rest \<Longrightarrow> ReadVarint64 L s = ((True, w), Advance (length (UnsafeVarint w)) s)"
    "unread s = UnsafeVarint (scast i :: u64) @ rest \<Longrightarrow> ReadVarint32 L s = ((True, i), Advance (length (UnsafeVarint (scast i :: u64))) s)"
proof -
  show "ReadVarint32 L s = ((True, v), Advance (length (UnsafeVarint v)) s)" if "unread s = UnsafeVarint v @ rest"
    using parse_UnsafeVarint[of v 10 rest] length_UnsafeVarint_bound(1)[of v] that
    by (intro ReadVarint32_flat[OF assms]) auto
  show "ReadVarint64 L s = ((True, w), Advance (length (UnsafeVarint w)) s)" if "unread s = UnsafeVarint w @ rest"
    using parse_UnsafeVarint[of w 10 rest] length_UnsafeVarint_bound(2)[of w] that
    by (intro ReadVarint64_flat[OF assms]) auto
  show "ReadVarint32 L s = ((True, i), Advance (length (UnsafeVarint (scast i :: u64))) s)"
    if "unread s = UnsafeVarint (scast i :: u64) @ rest"
    using parse_varint_cast[OF _ parse_UnsafeVarint[of "scast i :: u64" 10 rest], where 'b = 32]
      length_UnsafeVarint_bound(2)[of "scast i"] that
    by (intro ReadVarint32_flat[OF assms]) auto
qed

lemma fixed_back:
  assumes "flat_ok s"
  shows "unread s = le_bytes 4 (v :: u32) @ rest \<Longrightarrow> ReadLittleEndian32 L s = ((True, v), Advance 4 s)"
    "unread s = le_bytes 8 (w :: u64) @ rest \<Longrightarrow> ReadLittleEndian64 L s = ((True, w), Advance 8 s)"
  using ReadLittleEndian_flat[OF assms, of L] by (simp_all add: le_value_word)

text \<open>A scalar type whose reader returns what its writer wrote and stops behind it.\<close>

locale wire_readable = wire_scalar NoTag Tagged sz wt
  for NoTag :: "'a \<Rightarrow> bytes \<Rightarrow> bytes" and Tagged and sz and wt +
  fixes rd :: "'a reader"
  assumes reads_back: "documented L \<Longrightarrow> flat_ok s \<Longrightarrow> unread s = NoTag v [] @ rest \<Longrightarrow> rd L s = (Some v, Advance (sz v) s)"
    and not_empty: "0 < sz v"
begin

lemma step_back:
  assumes "documented L" "flat_ok s" "unread s = NoTag v [] @ rest"
  shows "rd L s = (Some v, Advance (sz v) s)" "flat_ok (Advance (sz v) s)" "unread (Advance (sz v) s) = rest"
  using reads_back[OF assms] flat_ok_Advance[OF assms(2), of "sz v"] assms(3) counts[of v]
  by (simp_all add: unread_Advance)

text \<open>A whole field: the tag, then the value.\<close>

lemma field_back:
  assumes "documented L" "flat_ok s" "unread s = Tagged n v [] @ rest"
  shows "\<exists>s1. CI_ReadTag L s = (MakeTag n wt, s1) \<and>
    (\<exists>s2. rd L s1 = (Some v, s2) \<and> flat_ok s2 \<and> unread s2 = rest)"
proof -
  let ?t = "UnsafeVarint (MakeTag n wt)"
  have u: "unread s = ?t @ NoTag v [] @ rest"
    using assms(3) by (simp add: Tagged_eq)
  have tag: "ReadTagNoLastTag L s = (MakeTag n wt, Advance (length ?t) s)"
    using parse_UnsafeVarint[of "MakeTag n wt" 10] length_UnsafeVarint_bound(1)[of "MakeTag n wt"] u
    by (intro ReadTag_flat[OF assms(1,2)]) auto
  define s1 where "s1 = (Advance (length ?t) s)\<lparr>last_tag := MakeTag n wt\<rparr>"
  have "flat_ok (Advance (length ?t) s)"
    using u by (intro flat_ok_Advance[OF assms(2)]) simp
  then have s1: "flat_ok s1" "unread s1 = NoTag v [] @ rest"
    using unread_Advance[of "length ?t" s] u
    by (auto simp: s1_def flat_ok_def buffer_ok_def IsFlat_def unread_def)
  show ?thesis
    using step_back[OF assms(1) s1] tag by (auto simp: CI_ReadTag_def s1_def)
qed

end

interpretation rInt32: wire_readable WriteInt32NoTagToArray WriteInt32ToArray Int32Size WIRETYPE_VARINT ReadPrimitive_INT32
  by unfold_locales (simp_all add: ReadPrimitive_defs on_success_def writer_simps varint_back(3) length_UnsafeVarint_pos ZigZagDecode_encode UnsafeVarint_bit split: if_splits)

interpretation rInt64: wire_readable WriteInt64NoTagToArray WriteInt64ToArray Int64Size WIRETYPE_VARINT ReadPrimitive_INT64
  by unfold_locales (simp_all add: ReadPrimitive_defs on_success_def writer_simps varint_back(2) length_UnsafeVarint_pos ZigZagDecode_encode UnsafeVarint_bit split: if_splits)

interpretation rUInt32: wire_readable WriteUInt32NoTagToArray WriteUInt32ToArray UInt32Size WIRETYPE_VARINT ReadPrimitive_UINT32
  by unfold_locales (simp_all add: ReadPrimitive_defs on_success_def writer_simps varint_back(1) length_UnsafeVarint_pos ZigZagDecode_encode UnsafeVarint_bit split: if_splits)

interpretation rUInt64: wire_readable WriteUInt64NoTagToArray WriteUInt64ToArray UInt64Size WIRETYPE_VARINT ReadPrimitive_UINT64
  by unfold_locales (simp_all add: ReadPrimitive_defs on_success_def writer_simps varint_back(2) length_UnsafeVarint_pos ZigZagDecode_encode UnsafeVarint_bit split: if_splits)

interpretation rSInt32: wire_readable WriteSInt32NoTagToArray WriteSInt32ToArray SInt32Size WIRETYPE_VARINT ReadPrimitive_SINT32
  by unfold_locales (simp_all add: ReadPrimitive_defs on_success_def writer_simps varint_back(1) length_UnsafeVarint_pos ZigZagDecode_encode UnsafeVarint_bit split: if_splits)

interpretation rSInt64: wire_readable WriteSInt64NoTagToArray WriteSInt64ToArray SInt64Size WIRETYPE_VARINT ReadPrimitive_SINT64
  by unfold_locales (simp_all add: ReadPrimitive_defs on_success_def writer_simps varint_back(2) length_UnsafeVarint_pos ZigZagDecode_encode UnsafeVarint_bit split: if_splits)

interpretation rFixed32: wire_readable WriteFixed32NoTagToArray WriteFixed32ToArray "\<lambda>_. kFixed32Size" WIRETYPE_FIXED32 ReadPrimitive_FIXED32
  by unfold_locales (simp_all add: ReadPrimitive_defs on_success_def writer_simps fixed_back(1) DecodeFloat_def EncodeFloat_def DecodeDouble_def EncodeDouble_def)

interpretation rFixed64: wire_readable WriteFixed64NoTagToArray WriteFixed64ToArray "\<lambda>_. kFixed64Size" WIRETYPE_FIXED64 ReadPrimitive_FIXED64
  by unfold_locales (simp_all add: ReadPrimitive_defs on_success_def writer_simps fixed_back(2) DecodeFloat_def EncodeFloat_def DecodeDouble_def EncodeDouble_def)

interpretation rSFixed32: wire_readable WriteSFixed32NoTagToArray WriteSFixed32ToArray "\<lambda>_. kSFixed32Size" WIRETYPE_FIXED32 ReadPrimitive_SFIXED32
  by unfold_locales (simp_all add: ReadPrimitive_defs on_success_def writer_simps fixed_back(1) DecodeFloat_def EncodeFloat_def DecodeDouble_def EncodeDouble_def)

interpretation rSFixed64: wire_readable WriteSFixed64NoTagToArray WriteSFixed64ToArray "\<lambda>_. kSFixed64Size" WIRETYPE_FIXED64 ReadPrimitive_SFIXED64
  by unfold_locales (simp_all add: ReadPrimitive_defs on_success_def writer_simps fixed_back(2) DecodeFloat_def EncodeFloat_def DecodeDouble_def EncodeDouble_def)

interpretation rFloat: wire_readable WriteFloatNoTagToArray WriteFloatToArray "\<lambda>_. kFloatSize" WIRETYPE_FIXED32 ReadPrimitive_FLOAT
  by unfold_locales (simp_all add: ReadPrimitive_defs on_success_def writer_simps fixed_back(1) DecodeFloat_def EncodeFloat_def DecodeDouble_def EncodeDouble_def)

interpretation rDouble: wire_readable WriteDoubleNoTagToArray WriteDoubleToArray "\<lambda>_. kDoubleSize" WIRETYPE_FIXED64 ReadPrimitive_DOUBLE
  by unfold_locales (simp_all add: ReadPrimitive_defs on_success_def writer_simps fixed_back(2) DecodeFloat_def EncodeFloat_def DecodeDouble_def EncodeDouble_def)

interpretation rBool: wire_readable WriteBoolNoTagToArray WriteBoolToArray "\<lambda>_. kBoolSize" WIRETYPE_VARINT ReadPrimitive_BOOL
  by unfold_locales (simp_all add: ReadPrimitive_defs on_success_def writer_simps varint_back(2) length_UnsafeVarint_pos ZigZagDecode_encode UnsafeVarint_bit split: if_splits)

interpretation rEnum: wire_readable WriteEnumNoTagToArray WriteEnumToArray EnumSize WIRETYPE_VARINT ReadPrimitive_ENUM
  by unfold_locales (simp_all add: ReadPrimitive_defs on_success_def writer_simps varint_back(3) length_UnsafeVarint_pos ZigZagDecode_encode UnsafeVarint_bit split: if_splits)

subsection \<open>Any scalar field\<close>

text \<open>A value of any of the scalar types, with its writer, its wire type and its reader.\<close>

datatype scalar = VInt32 i32 | VInt64 i64 | VUInt32 u32 | VUInt64 u64 | VSInt32 i32 | VSInt64 i64 | VFixed32 u32
  | VFixed64 u64 | VSFixed32 i32 | VSFixed64 i64 | VFloat cfloat | VDouble cdouble | VBool bool | VEnum i32

fun write_scalar :: "i32 \<Rightarrow> scalar \<Rightarrow> bytes \<Rightarrow> bytes" where
"write_scalar n (VInt32 v) target = WriteInt32ToArray n v target"
|   "write_scalar n (VInt64 v) target = WriteInt64ToArray n v target"
|   "write_scalar n (VUInt32 v) target = WriteUInt32ToArray n v target"
|   "write_scalar n (VUInt64 v) target = WriteUInt64ToArray n v target"
|   "write_scalar n (VSInt32 v) target = WriteSInt32ToArray n v target"
|   "write_scalar n (VSInt64 v) target = WriteSInt64ToArray n v target"
|   "write_scalar n (VFixed32 v) target = WriteFixed32ToArray n v target"
|   "write_scalar n (VFixed64 v) target = WriteFixed64ToArray n v target"
|   "write_scalar n (VSFixed32 v) target = WriteSFixed32ToArray n v target"
|   "write_scalar n (VSFixed64 v) target = WriteSFixed64ToArray n v target"
|   "write_scalar n (VFloat v) target = WriteFloatToArray n v target"
|   "write_scalar n (VDouble v) target = WriteDoubleToArray n v target"
|   "write_scalar n (VBool v) target = WriteBoolToArray n v target"
|   "write_scalar n (VEnum v) target = WriteEnumToArray n v target"

fun wire_of :: "scalar \<Rightarrow> WireType" where
"wire_of (VInt32 v) = WIRETYPE_VARINT"
| "wire_of (VInt64 v) = WIRETYPE_VARINT"
| "wire_of (VUInt32 v) = WIRETYPE_VARINT"
| "wire_of (VUInt64 v) = WIRETYPE_VARINT"
| "wire_of (VSInt32 v) = WIRETYPE_VARINT"
| "wire_of (VSInt64 v) = WIRETYPE_VARINT"
| "wire_of (VFixed32 v) = WIRETYPE_FIXED32"
| "wire_of (VFixed64 v) = WIRETYPE_FIXED64"
| "wire_of (VSFixed32 v) = WIRETYPE_FIXED32"
| "wire_of (VSFixed64 v) = WIRETYPE_FIXED64"
| "wire_of (VFloat v) = WIRETYPE_FIXED32"
| "wire_of (VDouble v) = WIRETYPE_FIXED64"
| "wire_of (VBool v) = WIRETYPE_VARINT"
| "wire_of (VEnum v) = WIRETYPE_VARINT"

text \<open>Reading a value of the type that \<open>v\<close> has.\<close>

fun read_like :: "scalar \<Rightarrow> scalar reader" where
"read_like (VInt32 _) L s = map_prod (map_option VInt32) id (ReadPrimitive_INT32 L s)"
| "read_like (VInt64 _) L s = map_prod (map_option VInt64) id (ReadPrimitive_INT64 L s)"
| "read_like (VUInt32 _) L s = map_prod (map_option VUInt32) id (ReadPrimitive_UINT32 L s)"
| "read_like (VUInt64 _) L s = map_prod (map_option VUInt64) id (ReadPrimitive_UINT64 L s)"
| "read_like (VSInt32 _) L s = map_prod (map_option VSInt32) id (ReadPrimitive_SINT32 L s)"
| "read_like (VSInt64 _) L s = map_prod (map_option VSInt64) id (ReadPrimitive_SINT64 L s)"
| "read_like (VFixed32 _) L s = map_prod (map_option VFixed32) id (ReadPrimitive_FIXED32 L s)"
| "read_like (VFixed64 _) L s = map_prod (map_option VFixed64) id (ReadPrimitive_FIXED64 L s)"
| "read_like (VSFixed32 _) L s = map_prod (map_option VSFixed32) id (ReadPrimitive_SFIXED32 L s)"
| "read_like (VSFixed64 _) L s = map_prod (map_option VSFixed64) id (ReadPrimitive_SFIXED64 L s)"
| "read_like (VFloat _) L s = map_prod (map_option VFloat) id (ReadPrimitive_FLOAT L s)"
| "read_like (VDouble _) L s = map_prod (map_option VDouble) id (ReadPrimitive_DOUBLE L s)"
| "read_like (VBool _) L s = map_prod (map_option VBool) id (ReadPrimitive_BOOL L s)"
| "read_like (VEnum _) L s = map_prod (map_option VEnum) id (ReadPrimitive_ENUM L s)"

text \<open>
  C10: A scalar field of any of the fourteen types that was written to an array is read back from it:
  the tag reader returns the tag made of its number and wire type, the reader of the type returns the
  value bit by bit, and the stream stands behind the field.
\<close>

theorem scalar_field_roundtrip:
  assumes "documented L" "flat_ok s" "unread s = write_scalar n v [] @ rest"
  shows "\<exists>s1 s2. CI_ReadTag L s = (MakeTag n (wire_of v), s1) \<and> read_like v L s1 = (Some v, s2) \<and>
    flat_ok s2 \<and> unread s2 = rest"
  using assms
proof (cases v)
  case (VInt32 x)
  then show ?thesis
    using rInt32.field_back[OF assms(1,2), of n x rest] assms(3) by fastforce
next
  case (VInt64 x)
  then show ?thesis
    using rInt64.field_back[OF assms(1,2), of n x rest] assms(3) by fastforce
next
  case (VUInt32 x)
  then show ?thesis
    using rUInt32.field_back[OF assms(1,2), of n x rest] assms(3) by fastforce
next
  case (VUInt64 x)
  then show ?thesis
    using rUInt64.field_back[OF assms(1,2), of n x rest] assms(3) by fastforce
next
  case (VSInt32 x)
  then show ?thesis
    using rSInt32.field_back[OF assms(1,2), of n x rest] assms(3) by fastforce
next
  case (VSInt64 x)
  then show ?thesis
    using rSInt64.field_back[OF assms(1,2), of n x rest] assms(3) by fastforce
next
  case (VFixed32 x)
  then show ?thesis
    using rFixed32.field_back[OF assms(1,2), of n x rest] assms(3) by fastforce
next
  case (VFixed64 x)
  then show ?thesis
    using rFixed64.field_back[OF assms(1,2), of n x rest] assms(3) by fastforce
next
  case (VSFixed32 x)
  then show ?thesis
    using rSFixed32.field_back[OF assms(1,2), of n x rest] assms(3) by fastforce
next
  case (VSFixed64 x)
  then show ?thesis
    using rSFixed64.field_back[OF assms(1,2), of n x rest] assms(3) by fastforce
next
  case (VFloat x)
  then show ?thesis
    using rFloat.field_back[OF assms(1,2), of n x rest] assms(3) by fastforce
next
  case (VDouble x)
  then show ?thesis
    using rDouble.field_back[OF assms(1,2), of n x rest] assms(3) by fastforce
next
  case (VBool x)
  then show ?thesis
    using rBool.field_back[OF assms(1,2), of n x rest] assms(3) by fastforce
next
  case (VEnum x)
  then show ?thesis
    using rEnum.field_back[OF assms(1,2), of n x rest] assms(3) by fastforce
qed

theorem scalar_field_roundtrip_witness:
  "\<exists>s1 s2. CI_ReadTag flat_lib (new_CodedInputStream_flat flat_lib (write_scalar 5 (VSInt32 (- 3)) [] @ [8, 1])
        (length (write_scalar 5 (VSInt32 (- 3)) [] @ [8, 1]))) = (MakeTag 5 (wire_of (VSInt32 (- 3))), s1) \<and>
    read_like (VSInt32 (- 3)) flat_lib s1 = (Some (VSInt32 (- 3)), s2) \<and> flat_ok s2 \<and> unread s2 = [8, 1]"
  by (rule scalar_field_roundtrip[OF documented_flat_lib flat_ok_new unread_new]) simp_all

subsection \<open>Packed fields\<close>

lemma unread_end [simp]: "unread (s\<lparr>legitimate_message_end := b\<rparr>) = unread s"
  by (simp add: unread_def)

lemma bytes_until_limit:
  assumes "documented L" "flat_ok s"
  shows "BytesUntilLimit L s = int (length (unread s))"
  using documentedD(8)[OF assms] assms(2) flat_okD[OF assms(2)] length_unread[OF flat_okD(1)[OF assms(2)]]
  by (auto simp: flat_ok_def buffer_ok_def)

lemma size_back:
  assumes "documented L" "flat_ok s" "unread s = UnsafeVarint (of_nat n :: u32) @ rest" "n < 2 ^ 31"
  shows "ReadVarintSizeAsInt L s = ((True, int n), Advance (length (UnsafeVarint (of_nat n :: u32))) s)"
proof -
  have "parse_varint 10 (unread s) = Some (length (UnsafeVarint (of_nat n :: u32)), ucast (of_nat n :: u32) :: u64)"
    using parse_UnsafeVarint[of "ucast (of_nat n :: u32) :: u64" 10 rest] length_UnsafeVarint_bound(2)[of "ucast (of_nat n :: u32)"] assms(3)
    by (simp add: UnsafeVarint_widen)
  moreover have "uint (ucast (of_nat n :: u32) :: u64) = int n"
    using assms(4) by (simp add: unsigned_ucast_eq unsigned_of_nat take_bit_nat_eq_self)
  ultimately show ?thesis
    using ReadVarintSizeAsInt_flat[OF assms(1,2)] assms(4) by (simp flip: nat_uint_eq)
qed

text \<open>A limit within the buffer cuts the unread bytes; taking it back restores them.\<close>

lemma push_back:
  assumes "documented L" "flat_ok s" "n \<le> length (unread s)"
  obtains s1 where "PushLimit L (int n) s = (current_limit s, s1)" "flat_ok s1" "unread s1 = take n (unread s)"
    "\<exists>b. PopLimit L (current_limit s) (Advance n s1) = Advance n s\<lparr>legitimate_message_end := b\<rparr>"
proof
  note b = flat_okD[OF assms(2)] and lu = length_unread[OF flat_okD(1)[OF assms(2)]]
  let ?s1 = "limit_to (int (buffer s) + int n) s"
  have n: "buffer s + n \<le> buffer_end s" "buffer_end s \<le> length (mem s)"
    using assms(3) b(1) lu by (auto simp: buffer_ok_def)
  show "PushLimit L (int n) s = (current_limit s, ?s1)"
    using documentedD(6)[OF assms(1,2), of "int n"] assms(3) BufferSize_eq[OF b(1)] b(2) by simp
  show ok: "flat_ok ?s1"
    using assms(2) n by (auto simp: flat_ok_def buffer_ok_def limit_to_def IsFlat_def nat_int_add)
  show u: "unread ?s1 = take n (unread s)"
    using n by (simp add: unread_def limit_to_def nat_int_add min_def)
  have "flat_ok (Advance n ?s1)"
    using flat_ok_Advance[OF ok, of n] u assms(3) by simp
  moreover have "current_limit (Advance n ?s1) \<le> current_limit s" "current_limit s \<le> total_bytes_read (Advance n ?s1)"
    using assms(2) n by (auto simp: flat_ok_def limit_to_def)
  moreover have "limit_to (current_limit s) (Advance n ?s1) = Advance n s"
    using assms(2) by (cases s) (auto simp: limit_to_def Advance_def flat_ok_def)
  ultimately show "\<exists>b. PopLimit L (current_limit s) (Advance n ?s1) = Advance n s\<lparr>legitimate_message_end := b\<rparr>"
    using documentedD(7)[OF assms(1)] by metis
qed

context wire_readable
begin

lemma packed_loop_back:
  assumes "documented L" "env_ok e"
  shows "flat_ok s \<Longrightarrow> unread s = concat (map (\<lambda>v. NoTag v []) xs) \<Longrightarrow> holds e a f ys \<Longrightarrow>
    int (length ys + length xs) \<le> INT_MAX \<Longrightarrow>
    \<exists>f'. packed_loop rd e L s f = Some (True, Advance (length (unread s)) s, f') \<and> holds e a f' (ys @ xs)"
proof (induction xs arbitrary: s f ys)
  case Nil
  then show ?case
    using bytes_until_limit[OF assms(1), of s] by (subst packed_loop.simps) (simp add: Advance_def)
next
  case (Cons v xs)
  let ?rest = "concat (map (\<lambda>v. NoTag v []) xs)"
  have u: "unread s = NoTag v [] @ ?rest"
    using Cons.prems by simp
  note step = step_back[OF assms(1) Cons.prems(1) u]
  obtain f1 where f1: "rf_Add e v f = Some f1" "holds e a f1 (ys @ [v])"
    using rf_Add_holds[OF assms(2) Cons.prems(3)] Cons.prems(4) by fastforce
  obtain f' where "packed_loop rd e L (Advance (sz v) s) f1 = Some (True, Advance (length ?rest) (Advance (sz v) s), f')"
      "holds e a f' (ys @ v # xs)"
    using Cons.IH[OF step(2,3) f1(2)] Cons.prems(4) step(3) by auto
  moreover have "0 < BytesUntilLimit L s"
    using bytes_until_limit[OF assms(1) Cons.prems(1)] u counts[of v] not_empty[of v] by simp
  ultimately show ?case
    using step(1) f1(1) u counts[of v] by (subst packed_loop.simps) (simp add: Advance_Advance)
qed

lemma packed_back:
  assumes L: "documented L" and e: "env_ok e" and s: "flat_ok s" and h: "holds e a f ys"
    and n: "int (length ys + length xs) \<le> INT_MAX"
    and body: "body = concat (map (\<lambda>v. NoTag v []) xs)" "length body < 2 ^ 31"
    and u: "unread s = UnsafeVarint (of_nat (length body) :: u32) @ body @ rest"
  shows "\<exists>s' f'. ReadPackedPrimitive rd e L s f = Some (True, s', f') \<and> unread s' = rest \<and> holds e a f' (ys @ xs)"
proof -
  let ?k = "length (UnsafeVarint (of_nat (length body) :: u32))"
  define s0 where "s0 = Advance ?k s"
  have s0: "flat_ok s0" "unread s0 = body @ rest"
    using u flat_ok_Advance[OF s, of ?k] by (simp_all add: s0_def unread_Advance)
  obtain s1 where s1: "PushLimit L (int (length body)) s0 = (current_limit s0, s1)" "flat_ok s1" "unread s1 = body"
      "\<exists>b. PopLimit L (current_limit s0) (Advance (length body) s1) = Advance (length body) s0\<lparr>legitimate_message_end := b\<rparr>"
    using push_back[OF L s0(1), of "length body"] s0(2) by auto
  obtain f' where "packed_loop rd e L s1 f = Some (True, Advance (length body) s1, f')" "holds e a f' (ys @ xs)"
    using packed_loop_back[OF L e s1(2) _ h n] s1(3) body(1) by auto
  then show ?thesis
    using size_back[OF L s u body(2), folded s0_def] s1(1,4) s0(2)
    by (auto simp: ReadPackedPrimitive_def unread_Advance)
qed

end

text \<open>Fixed-size types: the bytes of a value in memory are the bytes the writer writes.\<close>

lemma elements_of_concat:
  assumes "\<And>v. length (W v) = k" "\<And>v. dec (W v) = v"
  shows "elements_of dec k (length xs) (concat (map W xs)) = xs"
proof -
  have "take k (drop (i * k) (concat (map W xs))) = W (xs ! i)" if "i < length xs" for i
    using that
  proof (induction xs arbitrary: i)
    case (Cons x xs)
    then show ?case
      by (cases i) (auto simp: assms(1))
  qed simp
  then show ?thesis
    unfolding elements_of_def by (intro nth_equalityI) (simp_all add: assms(2))
qed

lemma AddAlreadyReserved_holds:
  assumes "holds e a f xs" "int (length xs) < total_size f"
  shows "\<exists>f'. AddAlreadyReserved v f = Some f' \<and> holds e a f' (xs @ [v]) \<and> total_size f' = total_size f"
  using assms(1)
proof (rule holdsE)
  fix rest assume r: "f = fld a (int (length xs)) (map Some xs @ rest)" "int (length xs + length rest) \<le> INT_MAX"
    "length xs + length rest = 0 \<or> RepeatedFieldLowerClampLimit e \<le> int (length xs + length rest)"
  then obtain x rest' where "rest = x # rest'"
    using assms(2) by (cases rest) auto
  then show ?thesis
    using r by (auto simp: AddAlreadyReserved_def list_update_append intro!: holdsI)
qed

lemma blit_tail_holds:
  assumes "holds e a f (xs @ old)" "length old = length new"
  shows "\<exists>f'. blit (map Some new) (int (length xs)) f = Some f' \<and> holds e a f' (xs @ new)"
  using assms(1)
proof (rule holdsE)
  fix rest assume r: "f = fld a (int (length (xs @ old))) (map Some (xs @ old) @ rest)"
    "int (length (xs @ old) + length rest) \<le> INT_MAX"
    "length (xs @ old) + length rest = 0 \<or> RepeatedFieldLowerClampLimit e \<le> int (length (xs @ old) + length rest)"
  have "blit (map Some new) (int (length xs)) f = Some (fld a (int (length (xs @ new))) (map Some xs @ map Some new @ rest))"
    using assms(2) by (simp add: r(1))
  moreover have "holds e a (fld a (int (length (xs @ new))) (map Some xs @ map Some new @ rest)) (xs @ new)"
    using r(2,3) assms(2) by (intro holdsI) auto
  ultimately show ?thesis by blast
qed

locale wire_fixed = wire_readable NoTag Tagged sz wt rd
  for NoTag :: "'a \<Rightarrow> bytes \<Rightarrow> bytes" and Tagged and sz and wt and rd +
  fixes dec :: "bytes \<Rightarrow> 'a" and k :: nat
  assumes fixed: "sz v = k" and decodes: "dec (NoTag v []) = v"
begin

lemma count_loop_back:
  assumes "documented L"
    and add: "\<And>ys f v. R ys f \<Longrightarrow> length ys < N \<Longrightarrow> \<exists>f'. add v f = Some f' \<and> R (ys @ [v]) f'"
  shows "flat_ok s \<Longrightarrow> unread s = concat (map (\<lambda>v. NoTag v []) xs) @ rest \<Longrightarrow> R ys f \<Longrightarrow> length ys + length xs \<le> N \<Longrightarrow>
    \<exists>s' f'. count_loop rd add L (length xs) s f = Some (True, s', f') \<and> unread s' = rest \<and> R (ys @ xs) f'"
proof (induction xs arbitrary: s f ys)
  case (Cons v xs)
  have u: "unread s = NoTag v [] @ concat (map (\<lambda>v. NoTag v []) xs) @ rest"
    using Cons.prems by simp
  note step = step_back[OF assms(1) Cons.prems(1) u]
  obtain f1 where f1: "add v f = Some f1" "R (ys @ [v]) f1"
    using add[OF Cons.prems(3)] Cons.prems(4) by fastforce
  show ?case
    using Cons.IH[OF step(2,3) f1(2)] Cons.prems(4) step(1) f1(1) by simp
qed simp

lemma packed_fixed_back:
  assumes L: "documented L" and e: "env_ok e" "sizeof_Element e = int k" and s: "flat_ok s" and h: "holds e a f ys"
    and n: "int (length ys + length xs) \<le> INT_MAX"
    and body: "body = concat (map (\<lambda>v. NoTag v []) xs)" "length body < 2 ^ 31"
    and u: "unread s = UnsafeVarint (of_nat (length body) :: u32) @ body @ rest"
  shows "\<exists>s' f'. ReadPackedFixedSizePrimitive le rd dec zero e L s f = Some (True, s', f') \<and> unread s' = rest \<and> holds e a f' (ys @ xs)"
proof -
  let ?k = "length (UnsafeVarint (of_nat (length body) :: u32))" and ?n = "length xs"
  define s0 where "s0 = Advance ?k s"
  have s0: "flat_ok s0" "unread s0 = body @ rest"
    using u flat_ok_Advance[OF s, of ?k] by (simp_all add: s0_def unread_Advance)
  have len: "length body = ?n * k"
    by (simp add: body(1) length_concat comp_def counts fixed sum_list_triv)
  have k: "0 < k"
    using e by (simp add: env_ok_def)
  have div: "int (length body) div int k = int ?n" "int ?n * int k = int (length body)"
    using k by (simp_all add: len)
  have size: "ReadVarintSizeAsInt L s = ((True, int (length body)), s0)"
    using size_back[OF L s u body(2)] by (simp add: s0_def)
  have cur: "rf_size f = int (length ys)"
    using h by (simp add: rf_size_def)
  have slow: "\<exists>s' f'. count_loop rd (rf_Add e) L ?n s0 f = Some (True, s', f') \<and> unread s' = rest \<and> holds e a f' (ys @ xs)"
    using count_loop_back[OF L, of "\<lambda>zs f. holds e a f zs" "length ys + ?n" "rf_Add e" s0 xs rest ys f]
      rf_Add_holds[OF e(1)] n s0 h body(1) by fastforce
  obtain f1 where f1: "Reserve e (int (length ys) + int ?n) f = Some f1" "holds e a f1 ys" "int (length ys) + int ?n \<le> total_size f1"
    using Reserve_holds[OF e(1) h, of "int (length ys) + int ?n"] n by auto
  have portable: "\<exists>s' f'. count_loop rd AddAlreadyReserved L ?n s0 f1 = Some (True, s', f') \<and> unread s' = rest \<and> holds e a f' (ys @ xs)"
    using count_loop_back[OF L, of "\<lambda>zs g. holds e a g zs \<and> total_size g = total_size f1" "length ys + ?n" AddAlreadyReserved s0 xs rest ys f1]
      AddAlreadyReserved_holds[of e a] f1(2,3) s0 body(1) by fastforce
  obtain f2 where f2: "Resize e (int (length ys) + int ?n) zero f = Some f2" "holds e a f2 (ys @ replicate ?n zero)"
    using Resize_holds[OF e(1) h, of "int (length ys) + int ?n" zero] n by (auto simp: nat_int_add)
  obtain f3 where f3: "blit (map Some xs) (int (length ys)) f2 = Some f3" "holds e a f3 (ys @ xs)"
    using blit_tail_holds[OF f2(2), of xs] by auto
  have raw: "ReadRaw L (length body) s0 = (Some body, Advance (length body) s0)"
    using documentedD(5)[OF L s0(1), of "length body"] s0(2) by simp
  have els: "elements_of dec k ?n body = xs"
    unfolding body(1) by (rule elements_of_concat) (simp_all add: counts fixed decodes)
  show ?thesis
    using slow portable f1(1) f2(1) f3 raw els k
    by (auto simp: ReadPackedFixedSizePrimitive_def size cur Let_def div e(2) unread_Advance s0(2))
qed

end

text \<open>
  The reader \<open>RP\<close> of a packed field takes what the writer of all its elements wrote behind their
  length, and appends the elements to the field.
\<close>

definition packs :: "rf_env \<Rightarrow> ('v list \<Rightarrow> bytes \<Rightarrow> bytes option) \<Rightarrow> (rf_env \<Rightarrow> input_lib \<Rightarrow> coded_input \<Rightarrow> 'v RepeatedField
    \<Rightarrow> (bool \<times> coded_input \<times> 'v RepeatedField) option) \<Rightarrow> bool" where
  "packs e NoTag_rep RP \<longleftrightarrow> (\<forall>L s f xs body rest.
     documented L \<and> flat_ok s \<and> rf_ok e f \<and> NoTag_rep xs [] = Some body \<and> length body < 2 ^ 31 \<and>
     int (length (contents f) + length xs) \<le> INT_MAX \<and>
     unread s = WriteVarint32ToArray (of_nat (length body)) [] @ body @ rest \<longrightarrow>
     (\<exists>s' f'. RP e L s f = Some (True, s', f') \<and> unread s' = rest \<and> rf_ok e f' \<and> contents f' = contents f @ xs))"

context wire_readable
begin

lemma packs_back:
  assumes "\<And>xs. NoTag_rep xs [] = WritePrimitiveNoTagToArray xs NoTag []" "env_ok e"
  shows "packs e NoTag_rep (ReadPackedPrimitive rd)"
  unfolding packs_def
proof (intro allI impI, elim conjE)
  fix L s and f :: "'a RepeatedField" and xs :: "'a list" and body rest
  assume a: "documented L" "flat_ok s" "rf_ok e f" "NoTag_rep xs [] = Some body" "length body < 2 ^ 31"
    "int (length (contents f) + length xs) \<le> INT_MAX" "unread s = WriteVarint32ToArray (of_nat (length body)) [] @ body @ rest"
  have "body = concat (map (\<lambda>v. NoTag v []) xs)"
    using a(4) repeated_NoTag[of xs "[]"] by (cases "xs = []") (auto simp: assms(1))
  from packed_back[OF a(1) assms(2) a(2) rf_ok_holds[OF a(3)] a(6) this a(5)] a(7)
  show "\<exists>s' f'. ReadPackedPrimitive rd e L s f = Some (True, s', f') \<and> unread s' = rest \<and> rf_ok e f' \<and> contents f' = contents f @ xs"
    using holds_rf_ok by (fastforce simp: WriteVarint32ToArray_def)
qed

end

context wire_fixed
begin

lemma packs_fixed_back:
  assumes "\<And>xs. NoTag_rep xs [] = WritePrimitiveNoTagToArray xs NoTag []" "env_ok e" "sizeof_Element e = int k"
  shows "packs e NoTag_rep (ReadPackedFixedSizePrimitive le rd dec zero)"
  unfolding packs_def
proof (intro allI impI, elim conjE)
  fix L s and f :: "'a RepeatedField" and xs :: "'a list" and body rest
  assume a: "documented L" "flat_ok s" "rf_ok e f" "NoTag_rep xs [] = Some body" "length body < 2 ^ 31"
    "int (length (contents f) + length xs) \<le> INT_MAX" "unread s = WriteVarint32ToArray (of_nat (length body)) [] @ body @ rest"
  have "body = concat (map (\<lambda>v. NoTag v []) xs)"
    using a(4) repeated_NoTag[of xs "[]"] by (cases "xs = []") (auto simp: assms(1))
  from packed_fixed_back[OF a(1) assms(2,3) a(2) rf_ok_holds[OF a(3)] a(6) this a(5)] a(7)
  show "\<exists>s' f'. ReadPackedFixedSizePrimitive le rd dec zero e L s f = Some (True, s', f') \<and> unread s' = rest \<and> rf_ok e f' \<and> contents f' = contents f @ xs"
    using holds_rf_ok by (fastforce simp: WriteVarint32ToArray_def)
qed

end

text \<open>How four and eight bytes of memory are read as an element on a little-endian machine.\<close>

definition image32 :: "bytes \<Rightarrow> u32" where "image32 bs = of_nat (le_value bs)"
definition image64 :: "bytes \<Rightarrow> u64" where "image64 bs = of_nat (le_value bs)"

lemma image_le_bytes: "image32 (le_bytes 4 u) = u" "image64 (le_bytes 8 w) = w"
  by (simp_all add: image32_def image64_def le_value_word)

interpretation fFixed32: wire_fixed WriteFixed32NoTagToArray WriteFixed32ToArray "\<lambda>_. kFixed32Size" WIRETYPE_FIXED32 ReadPrimitive_FIXED32 image32 4
  by unfold_locales (simp_all add: writer_simps image_le_bytes EncodeFloat_def EncodeDouble_def)

interpretation fSFixed32: wire_fixed WriteSFixed32NoTagToArray WriteSFixed32ToArray "\<lambda>_. kSFixed32Size" WIRETYPE_FIXED32 ReadPrimitive_SFIXED32 image32 4
  by unfold_locales (simp_all add: writer_simps image_le_bytes EncodeFloat_def EncodeDouble_def)

interpretation fFloat: wire_fixed WriteFloatNoTagToArray WriteFloatToArray "\<lambda>_. kFloatSize" WIRETYPE_FIXED32 ReadPrimitive_FLOAT image32 4
  by unfold_locales (simp_all add: writer_simps image_le_bytes EncodeFloat_def EncodeDouble_def)

interpretation fFixed64: wire_fixed WriteFixed64NoTagToArray WriteFixed64ToArray "\<lambda>_. kFixed64Size" WIRETYPE_FIXED64 ReadPrimitive_FIXED64 image64 8
  by unfold_locales (simp_all add: writer_simps image_le_bytes EncodeFloat_def EncodeDouble_def)

interpretation fSFixed64: wire_fixed WriteSFixed64NoTagToArray WriteSFixed64ToArray "\<lambda>_. kSFixed64Size" WIRETYPE_FIXED64 ReadPrimitive_SFIXED64 image64 8
  by unfold_locales (simp_all add: writer_simps image_le_bytes EncodeFloat_def EncodeDouble_def)

interpretation fDouble: wire_fixed WriteDoubleNoTagToArray WriteDoubleToArray "\<lambda>_. kDoubleSize" WIRETYPE_FIXED64 ReadPrimitive_DOUBLE image64 8
  by unfold_locales (simp_all add: writer_simps image_le_bytes EncodeFloat_def EncodeDouble_def)

text \<open>
  C18: A packed field of any scalar type that was written behind its length is read back: the elements
  are appended to the field in order and the stream stands behind them. For the fixed-size types this
  holds for the branch that copies memory, for the one that reads the elements in turn, and
  whatever bound the stream gives for its remaining bytes.
\<close>

theorem packed_fields_roundtrip:
  assumes "env_ok e"
  shows "
    packs e WriteInt32NoTagToArray_rep (ReadPackedPrimitive ReadPrimitive_INT32) \<and>
    packs e WriteInt64NoTagToArray_rep (ReadPackedPrimitive ReadPrimitive_INT64) \<and>
    packs e WriteUInt32NoTagToArray_rep (ReadPackedPrimitive ReadPrimitive_UINT32) \<and>
    packs e WriteUInt64NoTagToArray_rep (ReadPackedPrimitive ReadPrimitive_UINT64) \<and>
    packs e WriteSInt32NoTagToArray_rep (ReadPackedPrimitive ReadPrimitive_SINT32) \<and>
    packs e WriteSInt64NoTagToArray_rep (ReadPackedPrimitive ReadPrimitive_SINT64) \<and>
    packs e WriteBoolNoTagToArray_rep (ReadPackedPrimitive ReadPrimitive_BOOL) \<and>
    packs e WriteEnumNoTagToArray_rep (ReadPackedPrimitive ReadPrimitive_ENUM) \<and>
    (sizeof_Element e = 4 \<longrightarrow>
      packs e WriteFixed32NoTagToArray_rep (ReadPackedFixedSizePrimitive le ReadPrimitive_FIXED32 image32 0) \<and>
      packs e WriteSFixed32NoTagToArray_rep (ReadPackedFixedSizePrimitive le ReadPrimitive_SFIXED32 image32 0) \<and>
      packs e WriteFloatNoTagToArray_rep (ReadPackedFixedSizePrimitive le ReadPrimitive_FLOAT image32 0)) \<and>
    (sizeof_Element e = 8 \<longrightarrow>
      packs e WriteFixed64NoTagToArray_rep (ReadPackedFixedSizePrimitive le ReadPrimitive_FIXED64 image64 0) \<and>
      packs e WriteSFixed64NoTagToArray_rep (ReadPackedFixedSizePrimitive le ReadPrimitive_SFIXED64 image64 0) \<and>
      packs e WriteDoubleNoTagToArray_rep (ReadPackedFixedSizePrimitive le ReadPrimitive_DOUBLE image64 0))"
proof (intro conjI impI)
  show "packs e WriteInt32NoTagToArray_rep (ReadPackedPrimitive ReadPrimitive_INT32)"
    by (rule rInt32.packs_back[OF _ assms]) (simp add: WriteInt32NoTagToArray_rep_def)
  show "packs e WriteInt64NoTagToArray_rep (ReadPackedPrimitive ReadPrimitive_INT64)"
    by (rule rInt64.packs_back[OF _ assms]) (simp add: WriteInt64NoTagToArray_rep_def)
  show "packs e WriteUInt32NoTagToArray_rep (ReadPackedPrimitive ReadPrimitive_UINT32)"
    by (rule rUInt32.packs_back[OF _ assms]) (simp add: WriteUInt32NoTagToArray_rep_def)
  show "packs e WriteUInt64NoTagToArray_rep (ReadPackedPrimitive ReadPrimitive_UINT64)"
    by (rule rUInt64.packs_back[OF _ assms]) (simp add: WriteUInt64NoTagToArray_rep_def)
  show "packs e WriteSInt32NoTagToArray_rep (ReadPackedPrimitive ReadPrimitive_SINT32)"
    by (rule rSInt32.packs_back[OF _ assms]) (simp add: WriteSInt32NoTagToArray_rep_def)
  show "packs e WriteSInt64NoTagToArray_rep (ReadPackedPrimitive ReadPrimitive_SINT64)"
    by (rule rSInt64.packs_back[OF _ assms]) (simp add: WriteSInt64NoTagToArray_rep_def)
  show "packs e WriteBoolNoTagToArray_rep (ReadPackedPrimitive ReadPrimitive_BOOL)"
    by (rule rBool.packs_back[OF _ assms]) (simp add: WriteBoolNoTagToArray_rep_def)
  show "packs e WriteEnumNoTagToArray_rep (ReadPackedPrimitive ReadPrimitive_ENUM)"
    by (rule rEnum.packs_back[OF _ assms]) (simp add: WriteEnumNoTagToArray_rep_def)
  show "packs e WriteFixed32NoTagToArray_rep (ReadPackedFixedSizePrimitive le ReadPrimitive_FIXED32 image32 0)" if "sizeof_Element e = 4"
    by (rule fFixed32.packs_fixed_back[OF _ assms]) (use that in \<open>simp_all add: WriteFixed32NoTagToArray_rep_def wFixed32.fixed_is_repeated writer_simps EncodeFloat_def EncodeDouble_def\<close>)
  show "packs e WriteSFixed32NoTagToArray_rep (ReadPackedFixedSizePrimitive le ReadPrimitive_SFIXED32 image32 0)" if "sizeof_Element e = 4"
    by (rule fSFixed32.packs_fixed_back[OF _ assms]) (use that in \<open>simp_all add: WriteSFixed32NoTagToArray_rep_def wSFixed32.fixed_is_repeated writer_simps EncodeFloat_def EncodeDouble_def\<close>)
  show "packs e WriteFloatNoTagToArray_rep (ReadPackedFixedSizePrimitive le ReadPrimitive_FLOAT image32 0)" if "sizeof_Element e = 4"
    by (rule fFloat.packs_fixed_back[OF _ assms]) (use that in \<open>simp_all add: WriteFloatNoTagToArray_rep_def wFloat.fixed_is_repeated writer_simps EncodeFloat_def EncodeDouble_def\<close>)
  show "packs e WriteFixed64NoTagToArray_rep (ReadPackedFixedSizePrimitive le ReadPrimitive_FIXED64 image64 0)" if "sizeof_Element e = 8"
    by (rule fFixed64.packs_fixed_back[OF _ assms]) (use that in \<open>simp_all add: WriteFixed64NoTagToArray_rep_def wFixed64.fixed_is_repeated writer_simps EncodeFloat_def EncodeDouble_def\<close>)
  show "packs e WriteSFixed64NoTagToArray_rep (ReadPackedFixedSizePrimitive le ReadPrimitive_SFIXED64 image64 0)" if "sizeof_Element e = 8"
    by (rule fSFixed64.packs_fixed_back[OF _ assms]) (use that in \<open>simp_all add: WriteSFixed64NoTagToArray_rep_def wSFixed64.fixed_is_repeated writer_simps EncodeFloat_def EncodeDouble_def\<close>)
  show "packs e WriteDoubleNoTagToArray_rep (ReadPackedFixedSizePrimitive le ReadPrimitive_DOUBLE image64 0)" if "sizeof_Element e = 8"
    by (rule fDouble.packs_fixed_back[OF _ assms]) (use that in \<open>simp_all add: WriteDoubleNoTagToArray_rep_def wDouble.fixed_is_repeated writer_simps EncodeFloat_def EncodeDouble_def\<close>)
qed

theorem packed_fields_roundtrip_witness:
  "\<exists>s' f'. ReadPackedPrimitive ReadPrimitive_UINT32 \<lparr>sizeof_Element = 4, allocate_at_least_hook = None\<rparr> flat_lib
      (new_CodedInputStream_flat flat_lib [2, 1, 5, 9] 4) (fld None 0 []) = Some (True, s', f') \<and>
    unread s' = [9] \<and> rf_ok \<lparr>sizeof_Element = 4, allocate_at_least_hook = None\<rparr> f' \<and> contents f' = [1, 5]"
proof -
  let ?e = "\<lparr>sizeof_Element = 4, allocate_at_least_hook = None\<rparr>"
  have one: "UnsafeVarint (w :: u32) = [ucast w]" if "unat w < 128" for w
    using that by (subst UnsafeVarint.simps) simp
  have e: "env_ok ?e"
    by (simp add: env_ok_def)
  have "packs ?e WriteUInt32NoTagToArray_rep (ReadPackedPrimitive ReadPrimitive_UINT32)"
    using packed_fields_roundtrip[OF e] by blast
  moreover have "WriteUInt32NoTagToArray_rep [1, 5] [] = Some [1, 5]"
    by (simp add: WriteUInt32NoTagToArray_rep_def WriteUInt32NoTagToArray_def WriteVarint32ToArray_def one)
  moreover have "unread (new_CodedInputStream_flat flat_lib [2, 1, 5, 9] 4) = WriteVarint32ToArray (of_nat (length [1, 5 :: byte])) [] @ [1, 5] @ [9]"
    by (simp add: WriteVarint32ToArray_def one unread_def new_CodedInputStream_flat_def)
  moreover have "flat_ok (new_CodedInputStream_flat flat_lib [2, 1, 5, 9] 4)"
    by (rule flat_ok_new) simp_all
  moreover have "rf_ok ?e (fld None 0 [] :: u32 RepeatedField)" "contents (fld None 0 [] :: u32 RepeatedField) = []"
    using holds_rf_ok[OF holds_new] by blast+
  ultimately show ?thesis
    unfolding packs_def by (elim allE[of _ flat_lib] allE[of _ "new_CodedInputStream_flat flat_lib [2, 1, 5, 9] 4"]
      allE[of _ "fld None 0 []"] allE[of _ "[1, 5]"] allE[of _ "[9]"]) (auto simp: documented_flat_lib INT_MAX_def)
qed

subsection \<open>Items of a message set\<close>

lemma message_set_tags: "kMessageSetTypeIdTag = 16" "kMessageSetMessageTag = 26" "kMessageSetItemEndTag = 12"
  by (simp_all add: kMessageSetTypeIdTag_def kMessageSetMessageTag_def kMessageSetItemEndTag_def
      GOOGLE_PROTOBUF_WIRE_FORMAT_MAKE_TAG_def kMessageSetTypeIdNumber_def kMessageSetMessageNumber_def
      kMessageSetItemNumber_def push_bit_eq_mult)

text \<open>What parsing of a payload may depend on beside its bytes: the recursion budget and the registry.\<close>

definition keeps_context :: "coded_input \<Rightarrow> coded_input \<Rightarrow> bool" where
  "keeps_context s s' \<longleftrightarrow> recursion_budget s' = recursion_budget s \<and> extension_pool s' = extension_pool s \<and>
     extension_factory s' = extension_factory s"

lemma keeps_context_Advance [simp]: "keeps_context s (Advance n s)"
  by (simp add: keeps_context_def)

lemma keeps_context_trans: "keeps_context s s' \<Longrightarrow> keeps_context s' s'' \<Longrightarrow> keeps_context s s''"
  by (simp add: keeps_context_def)

lemma tag_back:
  assumes "documented L" "flat_ok s" "unread s = UnsafeVarint tag @ rest"
  obtains s' where "ReadTagNoLastTag L s = (tag, s')" "flat_ok s'" "unread s' = rest" "keeps_context s s'"
proof
  show "ReadTagNoLastTag L s = (tag, Advance (length (UnsafeVarint tag)) s)"
    using parse_UnsafeVarint[of tag 10 rest] length_UnsafeVarint_bound(1)[of tag] assms(3)
    by (intro ReadTag_flat[OF assms(1,2)]) auto
  show "flat_ok (Advance (length (UnsafeVarint tag)) s)" "unread (Advance (length (UnsafeVarint tag)) s) = rest"
    using flat_ok_Advance[OF assms(2), of "length (UnsafeVarint tag)"] assms(3) by (simp_all add: unread_Advance)
qed simp

lemma varint_step:
  assumes "documented L" "flat_ok s" "unread s = UnsafeVarint v @ rest"
  obtains s' where "ReadVarint32 L s = ((True, v), s')" "flat_ok s'" "unread s' = rest" "keeps_context s s'"
  using varint_back(1)[OF assms] flat_ok_Advance[OF assms(2), of "length (UnsafeVarint v)"] assms(3)
  by (auto simp: unread_Advance)

lemma item_loop_step:
  "item_turn MS L i m s = (None, i', m', s') \<Longrightarrow> item_loop MS L i m s = item_loop MS L i' m' s'"
  "item_turn MS L i m s = (Some r, i', m', s') \<Longrightarrow> item_loop MS L i m s = Some (r, m', s')"
  by (subst item_loop.simps, simp)+

text \<open>One turn in each state of the loop.\<close>

lemma item_turn_tag:
  "ReadTagNoLastTag L s = (kMessageSetTypeIdTag, s1) \<Longrightarrow> item_turn MS L i m s = type_id_turn MS L i m s1"
  "ReadTagNoLastTag L s = (kMessageSetMessageTag, s1) \<Longrightarrow> item_turn MS L i m s = message_turn MS L kMessageSetMessageTag i m s1"
  by (simp_all add: item_turn_def message_set_tags)

lemma type_id_turns:
  assumes "ReadVarint32 L s = ((True, t), s1)" "t \<noteq> 0"
  shows "item_state i = kNoTag \<Longrightarrow> type_id_turn MS L i m s = (None, i\<lparr>last_type_id := t, item_state := kHasType\<rparr>, m, s1)"
    "item_state i = kHasPayload \<Longrightarrow>
     ParseField MS t m (SetRecursionLimit (RecursionBudget s1) (new_CodedInputStream_flat L (message_data i) (length (message_data i)))) = (ok, m', s') \<Longrightarrow>
     type_id_turn MS L i m s =
       (if ok then (None, i\<lparr>message_data := [], item_state := kDone\<rparr>, m', s1) else (Some False, i, m', s1))"
  using assms by (simp_all add: type_id_turn_def split: bool.splits)

lemma message_turns:
  "item_state i = kHasType \<Longrightarrow> ParseField MS (last_type_id i) m s = (ok, m', s1) \<Longrightarrow>
   message_turn MS L tag i m s = (if ok then (None, i\<lparr>item_state := kDone\<rparr>, m', s1) else (Some False, i, m', s1))"
  "item_state i = kNoTag \<Longrightarrow> ReadVarint32 L s = ((True, len), s1) \<Longrightarrow> \<not> sint len < 0 \<Longrightarrow> ReadRaw L (unat len) s1 = (Some bs, s2) \<Longrightarrow>
   message_turn MS L tag i m s = (None, i\<lparr>message_data := WriteVarint32ToArray len [] @ bs, item_state := kHasPayload\<rparr>, m, s2)"
  by (simp_all add: message_turn_def split: bool.splits)

lemma end_turn:
  assumes "documented L" "flat_ok s" "unread s = UnsafeVarint kMessageSetItemEndTag @ rest"
  shows "\<exists>s'. item_loop MS L i m s = Some (True, m, s') \<and> unread s' = rest"
proof -
  from assms obtain s' where "ReadTagNoLastTag L s = (kMessageSetItemEndTag, s')" "unread s' = rest"
    by (rule tag_back)
  then show ?thesis by (subst item_loop.simps) (auto simp: item_turn_def message_set_tags)
qed

text \<open>The stream over a payload that was kept: the budget of the outer stream, and no registry.\<close>

lemma flat_sub_input:
  fixes b L md
  defines "sub \<equiv> SetRecursionLimit b (new_CodedInputStream_flat L md (length md))"
  shows "flat_ok sub" "unread sub = md" "recursion_budget sub = b" "extension_pool sub = None" "extension_factory sub = None"
  by (simp_all add: sub_def SetRecursionLimit_def flat_ok_def buffer_ok_def IsFlat_def unread_def new_CodedInputStream_flat_def)

text \<open>
  What becomes of an item once its payload is handed to \<open>ParseField\<close> on the stream \<open>sub\<close>: when that
  fails the call fails, when it succeeds and the input stands behind the item's fields, the item is
  read to its end.
\<close>

definition item_outcome ::
  "'m message_set \<Rightarrow> u32 \<Rightarrow> 'm \<Rightarrow> coded_input \<Rightarrow> (coded_input \<Rightarrow> bool) \<Rightarrow> bytes \<Rightarrow> (bool \<times> 'm \<times> coded_input) option \<Rightarrow> bool" where
  "item_outcome MS t m sub stands_behind rest r \<longleftrightarrow>
     (case ParseField MS t m sub of
        (False, m', _) \<Rightarrow> \<exists>s'. r = Some (False, m', s')
      | (True, m', sub') \<Rightarrow> stands_behind sub' \<longrightarrow> (\<exists>s'. r = Some (True, m', s') \<and> unread s' = rest))"

lemma item_type_first:
  assumes L: "documented L" and s: "flat_ok s" and t: "t \<noteq> 0"
    and u: "unread s = UnsafeVarint kMessageSetTypeIdTag @ UnsafeVarint t @ UnsafeVarint kMessageSetMessageTag @
      payload @ UnsafeVarint kMessageSetItemEndTag @ rest"
  shows "\<exists>s3. flat_ok s3 \<and> keeps_context s s3 \<and> unread s3 = payload @ UnsafeVarint kMessageSetItemEndTag @ rest \<and>
    item_outcome MS t m s3 (\<lambda>s4. flat_ok s4 \<and> unread s4 = UnsafeVarint kMessageSetItemEndTag @ rest) rest
      (ParseMessageSetItemImpl MS L m s)"
proof -
  obtain s1 where s1: "ReadTagNoLastTag L s = (kMessageSetTypeIdTag, s1)" "flat_ok s1" and u1: "unread s1 = UnsafeVarint t @ UnsafeVarint kMessageSetMessageTag @
      payload @ UnsafeVarint kMessageSetItemEndTag @ rest" and k1: "keeps_context s s1"
    using tag_back[OF L s u] by blast
  obtain s2 where s2: "ReadVarint32 L s1 = ((True, t), s2)" "flat_ok s2" and u2: "unread s2 = UnsafeVarint kMessageSetMessageTag @
      payload @ UnsafeVarint kMessageSetItemEndTag @ rest" and k2: "keeps_context s1 s2"
    using varint_step[OF L s1(2) u1] by blast
  obtain s3 where s3: "ReadTagNoLastTag L s2 = (kMessageSetMessageTag, s3)" "flat_ok s3"
    and u3: "unread s3 = payload @ UnsafeVarint kMessageSetItemEndTag @ rest" and k3: "keeps_context s2 s3"
    using tag_back[OF L s2(2) u2] by blast
  obtain ok m' s4 where pf: "ParseField MS t m s3 = (ok, m', s4)" by (metis prod_cases3)
  have "item_turn MS L \<lparr>last_type_id = 0, message_data = [], item_state = kNoTag\<rparr> m s =
      (None, \<lparr>last_type_id = t, message_data = [], item_state = kHasType\<rparr>, m, s2)"
    unfolding item_turn_tag(1)[OF s1(1)] by (subst type_id_turns(1)[OF s2(1) t]) simp_all
  then have "ParseMessageSetItemImpl MS L m s = item_loop MS L \<lparr>last_type_id = t, message_data = [], item_state = kHasType\<rparr> m s2"
    unfolding ParseMessageSetItemImpl_def by (rule item_loop_step)
  moreover have "item_turn MS L \<lparr>last_type_id = t, message_data = [], item_state = kHasType\<rparr> m s2 =
      (if ok then (None, \<lparr>last_type_id = t, message_data = [], item_state = kDone\<rparr>, m', s4)
       else (Some False, \<lparr>last_type_id = t, message_data = [], item_state = kHasType\<rparr>, m', s4))"
    unfolding item_turn_tag(2)[OF s3(1)] using pf by (subst message_turns(1)) auto
  ultimately have "ParseMessageSetItemImpl MS L m s = (if ok
      then item_loop MS L \<lparr>last_type_id = t, message_data = [], item_state = kDone\<rparr> m' s4 else Some (False, m', s4))"
    using item_loop_step by (cases ok) simp_all
  then have "item_outcome MS t m s3 (\<lambda>s4. flat_ok s4 \<and> unread s4 = UnsafeVarint kMessageSetItemEndTag @ rest) rest
      (ParseMessageSetItemImpl MS L m s)"
    using end_turn[OF L, of s4 rest MS _ m'] by (cases ok) (simp_all add: item_outcome_def pf)
  with s3(2) u3 keeps_context_trans[OF keeps_context_trans[OF k1 k2] k3] show ?thesis by (intro exI[of _ s3] conjI)
qed

lemma item_payload_first:
  assumes L: "documented L" and s: "flat_ok s" and t: "t \<noteq> 0" and d: "length data < 2 ^ 31"
    and u: "unread s = UnsafeVarint kMessageSetMessageTag @ UnsafeVarint (of_nat (length data) :: u32) @ data @
      UnsafeVarint kMessageSetTypeIdTag @ UnsafeVarint t @ UnsafeVarint kMessageSetItemEndTag @ rest"
  shows "\<exists>sub. flat_ok sub \<and> unread sub = WriteVarint32ToArray (of_nat (length data)) [] @ data \<and>
    recursion_budget sub = recursion_budget s \<and> extension_pool sub = None \<and> extension_factory sub = None \<and>
    item_outcome MS t m sub (\<lambda>_. True) rest (ParseMessageSetItemImpl MS L m s)"
proof -
  let ?l = "of_nat (length data) :: u32"
  obtain s1 where s1: "ReadTagNoLastTag L s = (kMessageSetMessageTag, s1)" "flat_ok s1" and u1: "unread s1 = UnsafeVarint ?l @ data @
      UnsafeVarint kMessageSetTypeIdTag @ UnsafeVarint t @ UnsafeVarint kMessageSetItemEndTag @ rest" and k1: "keeps_context s s1"
    using tag_back[OF L s u] by blast
  obtain s2 where s2: "ReadVarint32 L s1 = ((True, ?l), s2)" "flat_ok s2" and u2: "unread s2 = data @
      UnsafeVarint kMessageSetTypeIdTag @ UnsafeVarint t @ UnsafeVarint kMessageSetItemEndTag @ rest" and k2: "keeps_context s1 s2"
    using varint_step[OF L s1(2) u1] by blast
  have l: "unat ?l = length data" "\<not> sint ?l < 0"
    using d by (simp_all add: unat_of_nat_small signed_of_nat signed_take_bit_int_eq_self)
  define s3 where "s3 = Advance (length data) s2"
  have raw: "ReadRaw L (length data) s2 = (Some data, s3)"
    using documentedD(5)[OF L s2(2), of "length data"] u2 by (simp add: s3_def)
  have s3: "flat_ok s3" "unread s3 = UnsafeVarint kMessageSetTypeIdTag @ UnsafeVarint t @ UnsafeVarint kMessageSetItemEndTag @ rest"
    and k3: "keeps_context s2 s3"
    using flat_ok_Advance[OF s2(2), of "length data"] u2 by (simp_all add: s3_def unread_Advance)
  obtain s4 where s4: "ReadTagNoLastTag L s3 = (kMessageSetTypeIdTag, s4)" "flat_ok s4"
    and u4: "unread s4 = UnsafeVarint t @ UnsafeVarint kMessageSetItemEndTag @ rest" and k4: "keeps_context s3 s4"
    using tag_back[OF L s3] by blast
  obtain s5 where s5: "ReadVarint32 L s4 = ((True, t), s5)" "flat_ok s5" "unread s5 = UnsafeVarint kMessageSetItemEndTag @ rest"
    and k5: "keeps_context s4 s5"
    using varint_step[OF L s4(2) u4] by blast
  have budget: "RecursionBudget s5 = recursion_budget s"
    using k1 k2 k3 k4 k5 by (simp add: RecursionBudget_def keeps_context_def)
  define md where "md = WriteVarint32ToArray ?l [] @ data"
  define sub where "sub = SetRecursionLimit (RecursionBudget s5) (new_CodedInputStream_flat L md (length md))"
  obtain ok m' s' where pf: "ParseField MS t m sub = (ok, m', s')" by (metis prod_cases3)
  have "item_turn MS L \<lparr>last_type_id = 0, message_data = [], item_state = kNoTag\<rparr> m s =
      (None, \<lparr>last_type_id = 0, message_data = md, item_state = kHasPayload\<rparr>, m, s3)"
    unfolding item_turn_tag(2)[OF s1(1)] by (subst message_turns(2)[OF _ s2(1) l(2)]) (simp_all add: l(1) raw md_def)
  then have "ParseMessageSetItemImpl MS L m s = item_loop MS L \<lparr>last_type_id = 0, message_data = md, item_state = kHasPayload\<rparr> m s3"
    unfolding ParseMessageSetItemImpl_def by (rule item_loop_step)
  moreover have "item_turn MS L \<lparr>last_type_id = 0, message_data = md, item_state = kHasPayload\<rparr> m s3 =
      (if ok then (None, \<lparr>last_type_id = 0, message_data = [], item_state = kDone\<rparr>, m', s5)
       else (Some False, \<lparr>last_type_id = 0, message_data = md, item_state = kHasPayload\<rparr>, m', s5))"
    unfolding item_turn_tag(1)[OF s4(1)] using pf by (subst type_id_turns(2)[OF s5(1) t]) (auto simp: sub_def)
  ultimately have "ParseMessageSetItemImpl MS L m s = (if ok
      then item_loop MS L \<lparr>last_type_id = 0, message_data = [], item_state = kDone\<rparr> m' s5 else Some (False, m', s5))"
    using item_loop_step by (cases ok) simp_all
  then have "item_outcome MS t m sub (\<lambda>_. True) rest (ParseMessageSetItemImpl MS L m s)"
    using end_turn[OF L s5(2,3), of MS _ m'] by (cases ok) (simp_all add: item_outcome_def pf)
  then show ?thesis
    using flat_sub_input[of "RecursionBudget s5" L md] budget
    by (intro exI[of _ sub] conjI) (simp_all add: sub_def md_def)
qed

text \<open>The fields of an item in either order, and the end of the group.\<close>

definition item_bytes :: "bool \<Rightarrow> u32 \<Rightarrow> bytes \<Rightarrow> bytes" where
  "item_bytes type_first t data =
     (let typ = WriteUInt32ToArray kMessageSetTypeIdNumber t [];
          msg = WriteTagToArray kMessageSetMessageNumber WIRETYPE_LENGTH_DELIMITED [] @ WriteVarint32ToArray (of_nat (length data)) [] @ data
      in (if type_first then typ @ msg else msg @ typ) @ WriteTagToArray kMessageSetItemNumber WIRETYPE_END_GROUP [])"

lemma item_bytes_eq:
  "item_bytes True t data = UnsafeVarint kMessageSetTypeIdTag @ UnsafeVarint t @ UnsafeVarint kMessageSetMessageTag @
     WriteVarint32ToArray (of_nat (length data)) [] @ data @ UnsafeVarint kMessageSetItemEndTag"
  "item_bytes False t data = UnsafeVarint kMessageSetMessageTag @ UnsafeVarint (of_nat (length data) :: u32) @ data @
     UnsafeVarint kMessageSetTypeIdTag @ UnsafeVarint t @ UnsafeVarint kMessageSetItemEndTag"
  by (simp_all add: item_bytes_def WriteTagToArray_eq wUInt32.Tagged_eq WriteUInt32NoTagToArray_def WriteVarint32ToArray_def
      MakeTag_def kMessageSetTypeIdTag_def kMessageSetMessageTag_def kMessageSetItemEndTag_def)

text \<open>
  C40: Whatever the message set does with a payload, an item is parsed with the fields in either
  order: the payload is handed over once, with its size before it, under the type that belongs
  to it and with the recursion budget of the input, also when it comes first and has to be kept
  until the type is known. When \<open>ParseField\<close> refuses it the item is refused, when it accepts (and,
  reading from the input itself, stops behind the payload) the item is read to its end. The
  extension registry of the input is seen only when the type comes first.
\<close>

theorem message_set_item_any_order:
  assumes "documented L" "flat_ok s" "t \<noteq> 0" "length data < 2 ^ 31"
    and "unread s = item_bytes type_first t data @ rest"
  shows "\<exists>sub. flat_ok sub \<and> recursion_budget sub = recursion_budget s \<and>
    unread sub = WriteVarint32ToArray (of_nat (length data)) [] @ data @
      (if type_first then WriteTagToArray kMessageSetItemNumber WIRETYPE_END_GROUP [] @ rest else []) \<and>
    extension_pool sub = (if type_first then extension_pool s else None) \<and>
    extension_factory sub = (if type_first then extension_factory s else None) \<and>
    (case ParseField MS t m sub of
       (False, m', _) \<Rightarrow> \<exists>s'. ParseMessageSetItemImpl MS L m s = Some (False, m', s')
     | (True, m', sub') \<Rightarrow>
         (type_first \<longrightarrow> flat_ok sub' \<and> unread sub' = WriteTagToArray kMessageSetItemNumber WIRETYPE_END_GROUP [] @ rest) \<longrightarrow>
         (\<exists>s'. ParseMessageSetItemImpl MS L m s = Some (True, m', s') \<and> unread s' = rest))"
proof -
  have tag: "WriteTagToArray kMessageSetItemNumber WIRETYPE_END_GROUP [] = UnsafeVarint kMessageSetItemEndTag"
    by (simp add: WriteTagToArray_eq MakeTag_def kMessageSetItemEndTag_def)
  show ?thesis
  proof (cases type_first)
    case True
    have "unread s = UnsafeVarint kMessageSetTypeIdTag @ UnsafeVarint t @ UnsafeVarint kMessageSetMessageTag @
        (WriteVarint32ToArray (of_nat (length data)) [] @ data) @ UnsafeVarint kMessageSetItemEndTag @ rest"
      using assms(5) True by (simp add: item_bytes_eq)
    from item_type_first[OF assms(1-3) this, of MS m] obtain sub where sub: "flat_ok sub" "keeps_context s sub"
      "unread sub = (WriteVarint32ToArray (of_nat (length data)) [] @ data) @ UnsafeVarint kMessageSetItemEndTag @ rest"
      and out: "item_outcome MS t m sub (\<lambda>s4. flat_ok s4 \<and> unread s4 = UnsafeVarint kMessageSetItemEndTag @ rest) rest
        (ParseMessageSetItemImpl MS L m s)" by blast
    show ?thesis
      using sub out[unfolded item_outcome_def] True
      by (intro exI[of _ sub] conjI) (auto simp: tag keeps_context_def split: prod.splits bool.splits)
  next
    case False
    have "unread s = UnsafeVarint kMessageSetMessageTag @ UnsafeVarint (of_nat (length data) :: u32) @ data @
        UnsafeVarint kMessageSetTypeIdTag @ UnsafeVarint t @ UnsafeVarint kMessageSetItemEndTag @ rest"
      using assms(5) False by (simp add: item_bytes_eq)
    from item_payload_first[OF assms(1-4) this, of MS m] obtain sub where sub: "flat_ok sub"
      "unread sub = WriteVarint32ToArray (of_nat (length data)) [] @ data" "recursion_budget sub = recursion_budget s"
      "extension_pool sub = None" "extension_factory sub = None"
      and out: "item_outcome MS t m sub (\<lambda>_. True) rest (ParseMessageSetItemImpl MS L m s)" by blast
    show ?thesis
      using sub out[unfolded item_outcome_def] False
      by (intro exI[of _ sub] conjI) (auto split: prod.splits bool.splits)
  qed
qed

text \<open>
  A message set that lists the types and payloads it gets, with the budget it finds, and refuses
  the type 9.
\<close>

definition listing_set :: "(u32 \<times> bytes \<times> int) list message_set" where
  "listing_set = \<lparr> ParseField = (\<lambda>t m s. (t \<noteq> 9, m @ [(t, unread s, recursion_budget s)], s)),
     SkipField = (\<lambda>tag m s. (False, m, s)) \<rparr>"

theorem message_set_item_any_order_witness:
  "\<exists>s'. ParseMessageSetItemImpl listing_set flat_lib []
      (snd (IncrementRecursionDepth
         (new_CodedInputStream_flat flat_lib (item_bytes False 7 [1, 2] @ [3]) (length (item_bytes False 7 [1, 2] @ [3]))))) =
      Some (True, [(7, [2, 1, 2], 99)], s') \<and> unread s' = [3]"
proof -
  let ?new = "new_CodedInputStream_flat flat_lib (item_bytes False 7 [1, 2] @ [3]) (length (item_bytes False 7 [1, 2] @ [3]))"
  let ?s = "snd (IncrementRecursionDepth ?new)"
  have s: "flat_ok ?s" "unread ?s = item_bytes False 7 [1, 2] @ [3]" "recursion_budget ?s = 99"
    using flat_ok_new[of "length (item_bytes False 7 [1, 2] @ [3])"] unread_new[of flat_lib "item_bytes False 7 [1, 2] @ [3]"]
    by (simp_all add: IncrementRecursionDepth_def Let_def flat_ok_def buffer_ok_def IsFlat_def unread_def
        new_CodedInputStream_flat_def flat_lib_def)
  have two: "WriteVarint32ToArray 2 [] = [2]"
    using UnsafeVarint_short(1)[of "2 :: u32"] by (simp add: WriteVarint32ToArray_def push_bit_eq_mult)
  show ?thesis
    using message_set_item_any_order[OF documented_flat_lib s(1) _ _ s(2), of listing_set "[]"] s(3) two
    by (auto simp: listing_set_def)
qed

end
