(* ===== verification/Coded_Output.thy ===== *)
theory Coded_Output
  imports Wire_Read
begin

text \<open>
  \<open>EpsCopyOutputStream\<close> and \<open>CodedOutputStream\<close> of \<open>google/protobuf/io/coded_stream.h\<close>, and the
  stream writers of \<open>wire_format_lite.h\<close>: output through a buffer that has sixteen spare bytes behind
  its end, so that small writes need one check.

  The buffer \<open>end_\<close> points into is a list of bytes and pointers are offsets in it. A write behind its
  last byte is undefined behaviour, \<open>None\<close>. The bytes that come before the buffer in the output are
  \<open>sunk\<close>. The contents of the patch buffer \<open>buffer_\<close> before something is written there are not used and
  taken as zeros. What the header only declares is a record of parameters.

  The sixteen spare bytes make every sequence of writes stay within its buffers, whatever the size of
  the buffers the stream gives, and the output is the one of the array writers.
\<close>

subsection \<open>State\<close>

definition kSlopBytes :: nat where "kSlopBytes = 16"

text \<open>\<open>buffer_end_\<close>: the small buffer of the stream for which the patch buffer stands, or the patch buffer itself.\<close>

datatype buffer_ref = PatchBuffer | NullBuffer | SmallBuffer bytes

record eps_out =
  obuf :: bytes
  oend :: nat
  buffer_end_ref :: buffer_ref
  sunk :: bytes
  has_stream :: bool
  had_error :: bool
  aliasing_enabled :: bool
  is_serialization_deterministic :: bool

type_synonym writer = "eps_out \<Rightarrow> nat \<Rightarrow> (eps_out \<times> nat) option"

record eps_lib =
  EnsureSpaceFallback :: "eps_out \<Rightarrow> nat \<Rightarrow> eps_out \<times> nat"
  WriteRawFallback :: "bytes \<Rightarrow> eps_out \<Rightarrow> nat \<Rightarrow> eps_out \<times> nat"
  WriteAliasedRaw :: "bytes \<Rightarrow> eps_out \<Rightarrow> nat \<Rightarrow> eps_out \<times> nat"
  WriteStringOutline :: "u32 \<Rightarrow> bytes \<Rightarrow> eps_out \<Rightarrow> nat \<Rightarrow> eps_out \<times> nat"
  WriteStringMaybeAliasedOutline :: "u32 \<Rightarrow> bytes \<Rightarrow> eps_out \<Rightarrow> nat \<Rightarrow> eps_out \<times> nat"

text \<open>Storing bytes from the pointer on and moving it behind them.\<close>

definition poke :: "bytes \<Rightarrow> writer" where
  "poke bs s ptr =
     (if ptr + length bs \<le> length (obuf s)
      then Some (s\<lparr>obuf := take ptr (obuf s) @ bs @ drop (ptr + length bs) (obuf s)\<rparr>, ptr + length bs)
      else None)"

subsection \<open>Construction\<close>

definition new_EpsCopyOutputStream :: "bytes \<Rightarrow> bool \<Rightarrow> eps_out \<times> nat" where
  "new_EpsCopyOutputStream before deterministic =
     (\<lparr>obuf = replicate (2 * kSlopBytes) 0, oend = 0, buffer_end_ref = PatchBuffer, sunk = before, has_stream = True,
       had_error = False, aliasing_enabled = False, is_serialization_deterministic = deterministic\<rparr>, 0)"

definition new_EpsCopyOutputStream_array :: "bytes \<Rightarrow> nat \<Rightarrow> bool \<Rightarrow> eps_out" where
  "new_EpsCopyOutputStream_array data sz deterministic =
     \<lparr>obuf = data, oend = sz, buffer_end_ref = NullBuffer, sunk = [], has_stream = False,
      had_error = False, aliasing_enabled = False, is_serialization_deterministic = deterministic\<rparr>"

text \<open>A buffer of the stream that is large enough is used directly, a small one through the patch buffer.\<close>

definition SetInitialBuffer :: "bytes \<Rightarrow> eps_out \<Rightarrow> eps_out \<times> nat" where
  "SetInitialBuffer data s =
     (if length data > kSlopBytes
      then (s\<lparr>obuf := data, oend := length data - kSlopBytes, buffer_end_ref := NullBuffer\<rparr>, 0)
      else (s\<lparr>obuf := replicate (2 * kSlopBytes) 0, oend := length data, buffer_end_ref := SmallBuffer data\<rparr>, 0))"

definition new_EpsCopyOutputStream_eager :: "bytes \<Rightarrow> bytes \<Rightarrow> bool \<Rightarrow> eps_out \<times> nat" where
  "new_EpsCopyOutputStream_eager data before deterministic =
     SetInitialBuffer data (fst (new_EpsCopyOutputStream before deterministic))"

subsection \<open>Writing into the buffer\<close>

definition EnsureSpace :: "eps_lib \<Rightarrow> eps_out \<Rightarrow> nat \<Rightarrow> eps_out \<times> nat" where
  "EnsureSpace L s ptr = (if ptr \<ge> oend s then EnsureSpaceFallback L s ptr else (s, ptr))"

definition Eps_WriteRaw :: "eps_lib \<Rightarrow> bytes \<Rightarrow> writer" where
  "Eps_WriteRaw L data s ptr =
     (if int (oend s) - int ptr < int (length data) then Some (WriteRawFallback L data s ptr) else poke data s ptr)"

definition Eps_WriteRawMaybeAliased :: "eps_lib \<Rightarrow> bytes \<Rightarrow> writer" where
  "Eps_WriteRawMaybeAliased L data s ptr =
     (if aliasing_enabled s then Some (WriteAliasedRaw L data s ptr) else Eps_WriteRaw L data s ptr)"

definition Eps_TagSize :: "u32 \<Rightarrow> nat" where
  "Eps_TagSize tag = (if tag < push_bit 7 1 then 1 else if tag < push_bit 14 1 then 2
     else if tag < push_bit 21 1 then 3 else if tag < push_bit 28 1 then 4 else 5)"

text \<open>A short string goes into the buffer when it fits with its tag and one byte for its length.\<close>

definition short_string :: "u32 \<Rightarrow> bytes \<Rightarrow> writer" where
  "short_string num str s ptr = do {
     (s, ptr) \<leftarrow> poke (UnsafeVarint (push_bit 3 num OR 2)) s ptr;
     (s, ptr) \<leftarrow> poke [of_nat (length str)] s ptr;
     poke str s ptr
   }"

definition Eps_WriteString :: "eps_lib \<Rightarrow> u32 \<Rightarrow> bytes \<Rightarrow> writer" where
  "Eps_WriteString L num str s ptr =
     (if length str \<ge> 128 \<or> int (oend s) - int ptr + 16 - int (Eps_TagSize (push_bit 3 num)) - 1 < int (length str)
      then Some (WriteStringOutline L num str s ptr)
      else short_string num str s ptr)"

definition WriteStringMaybeAliased :: "eps_lib \<Rightarrow> u32 \<Rightarrow> bytes \<Rightarrow> writer" where
  "WriteStringMaybeAliased L num str s ptr =
     (if length str \<ge> 128 \<or> int (oend s) - int ptr + 16 - int (Eps_TagSize (push_bit 3 num)) - 1 < int (length str)
      then Some (WriteStringMaybeAliasedOutline L num str s ptr)
      else short_string num str s ptr)"

definition WriteBytesMaybeAliased :: "eps_lib \<Rightarrow> u32 \<Rightarrow> bytes \<Rightarrow> writer" where
  "WriteBytesMaybeAliased L num str s ptr = WriteStringMaybeAliased L num str s ptr"

definition Eps_WriteBytes :: "eps_lib \<Rightarrow> u32 \<Rightarrow> bytes \<Rightarrow> writer" where
  "Eps_WriteBytes L num str s ptr = Eps_WriteString L num str s ptr"

definition Eps_WriteTag :: "u32 \<Rightarrow> u32 \<Rightarrow> writer" where
  "Eps_WriteTag num wt s ptr = do {
     DCHECK (ptr < oend s);
     poke (UnsafeVarint (push_bit 3 num OR wt)) s ptr
   }"

definition WriteLengthDelim :: "u32 \<Rightarrow> u32 \<Rightarrow> writer" where
  "WriteLengthDelim num sz s ptr = do {
     (s, ptr) \<leftarrow> Eps_WriteTag num 2 s ptr;
     poke (UnsafeWriteSize sz) s ptr
   }"

subsection \<open>Packed fields\<close>

text \<open>The loop writes before it tests, so an empty range is read behind its end.\<close>

fun varint_loop :: "eps_lib \<Rightarrow> ('a \<Rightarrow> 'b::len word) \<Rightarrow> 'a list \<Rightarrow> writer" where
  "varint_loop L encode [] s ptr = None"
| "varint_loop L encode [x] s ptr = (case EnsureSpace L s ptr of (s, ptr) \<Rightarrow> poke (UnsafeVarint (encode x)) s ptr)"
| "varint_loop L encode (x # y # xs) s ptr =
     (case EnsureSpace L s ptr of (s, ptr) \<Rightarrow> do {
        (s, ptr) \<leftarrow> poke (UnsafeVarint (encode x)) s ptr;
        varint_loop L encode (y # xs) s ptr
      })"

definition WriteVarintPacked :: "eps_lib \<Rightarrow> ('a \<Rightarrow> 'b::len word) \<Rightarrow> u32 \<Rightarrow> 'a list \<Rightarrow> u32 \<Rightarrow> writer" where
  "WriteVarintPacked L encode num r sz s ptr =
     (case EnsureSpace L s ptr of (s, ptr) \<Rightarrow> do {
        (s, ptr) \<leftarrow> WriteLengthDelim num sz s ptr;
        varint_loop L encode r s ptr
      })"

definition Encode32 :: "u32 \<Rightarrow> u32" where "Encode32 v = v"
definition Encode64 :: "u64 \<Rightarrow> u64" where "Encode64 v = v"

definition WriteInt32Packed :: "eps_lib \<Rightarrow> u32 \<Rightarrow> i32 list \<Rightarrow> u32 \<Rightarrow> writer" where
  "WriteInt32Packed L num r sz s ptr = WriteVarintPacked L (\<lambda>v. Encode64 (scast v)) num r sz s ptr"

definition WriteUInt32Packed :: "eps_lib \<Rightarrow> u32 \<Rightarrow> u32 list \<Rightarrow> u32 \<Rightarrow> writer" where
  "WriteUInt32Packed L num r sz s ptr = WriteVarintPacked L Encode32 num r sz s ptr"

definition WriteSInt32Packed :: "eps_lib \<Rightarrow> u32 \<Rightarrow> i32 list \<Rightarrow> u32 \<Rightarrow> writer" where
  "WriteSInt32Packed L num r sz s ptr = WriteVarintPacked L Eps_ZigZagEncode32 num r sz s ptr"

definition WriteInt64Packed :: "eps_lib \<Rightarrow> u32 \<Rightarrow> i64 list \<Rightarrow> u32 \<Rightarrow> writer" where
  "WriteInt64Packed L num r sz s ptr = WriteVarintPacked L Encode64 num r sz s ptr"

definition WriteUInt64Packed :: "eps_lib \<Rightarrow> u32 \<Rightarrow> u64 list \<Rightarrow> u32 \<Rightarrow> writer" where
  "WriteUInt64Packed L num r sz s ptr = WriteVarintPacked L Encode64 num r sz s ptr"

definition WriteSInt64Packed :: "eps_lib \<Rightarrow> u32 \<Rightarrow> i64 list \<Rightarrow> u32 \<Rightarrow> writer" where
  "WriteSInt64Packed L num r sz s ptr = WriteVarintPacked L Eps_ZigZagEncode64 num r sz s ptr"

definition WriteEnumPacked :: "eps_lib \<Rightarrow> u32 \<Rightarrow> i32 list \<Rightarrow> u32 \<Rightarrow> writer" where
  "WriteEnumPacked L num r sz s ptr = WriteVarintPacked L (\<lambda>v. Encode64 (scast v)) num r sz s ptr"

text \<open>On a little-endian machine the elements are copied as they are in memory, given by \<open>img\<close>.\<close>

definition WriteRawLittleEndian :: "eps_lib \<Rightarrow> bytes \<Rightarrow> writer" where
  "WriteRawLittleEndian L data s ptr = Eps_WriteRaw L data s ptr"

text \<open>A length passed as \<open>int\<close>: negative when it wraps, and a copy of such a length is outside of every buffer.\<close>

definition int_sized :: "nat \<Rightarrow> bytes \<Rightarrow> bytes option" where
  "int_sized sz data = (let k = sint (of_nat sz :: i32) in if k < 0 then None else Some (take (nat k) data))"

definition WriteFixedPacked :: "eps_lib \<Rightarrow> ('a \<Rightarrow> bytes) \<Rightarrow> nat \<Rightarrow> u32 \<Rightarrow> 'a list \<Rightarrow> writer" where
  "WriteFixedPacked L img element_size num r s ptr =
     (case EnsureSpace L s ptr of (s, ptr) \<Rightarrow> do {
        let sz = length r * element_size;
        (s, ptr) \<leftarrow> WriteLengthDelim num (of_nat sz) s ptr;
        data \<leftarrow> int_sized sz (concat (map img r));
        WriteRawLittleEndian L data s ptr
      })"

subsection \<open>Other members\<close>

definition GetSize :: "eps_out \<Rightarrow> nat \<Rightarrow> nat option" where
  "GetSize s ptr = do { DCHECK (ptr \<le> oend s + kSlopBytes); Some (oend s + kSlopBytes - ptr) }"

definition Error :: "eps_out \<Rightarrow> eps_out \<times> nat" where
  "Error s = (s\<lparr>had_error := True, obuf := replicate (2 * kSlopBytes) 0, oend := kSlopBytes\<rparr>, 0)"

definition HadError :: "eps_out \<Rightarrow> bool" where "HadError s = had_error s"

definition SetSerializationDeterministic :: "bool \<Rightarrow> eps_out \<Rightarrow> eps_out" where
  "SetSerializationDeterministic value s = s\<lparr>is_serialization_deterministic := value\<rparr>"

definition IsSerializationDeterministic :: "eps_out \<Rightarrow> bool" where
  "IsSerializationDeterministic s = is_serialization_deterministic s"

subsection \<open>\<open>CodedOutputStream\<close>\<close>

record coded_output =
  impl :: eps_out
  cur :: nat
  start_count :: int

text \<open>\<open>Next\<close> of the stream gives its first buffer, if any; \<open>before\<close> are the bytes the stream has.\<close>

definition InitEagerly :: "bytes option \<Rightarrow> coded_output \<Rightarrow> coded_output" where
  "InitEagerly next c =
     (case next of
        Some data \<Rightarrow> if length data > 0 then (case SetInitialBuffer data (impl c) of (s, p) \<Rightarrow> c\<lparr>impl := s, cur := p\<rparr>) else c
      | None \<Rightarrow> c)"

definition new_CodedOutputStream :: "bool \<Rightarrow> bytes option \<Rightarrow> bytes \<Rightarrow> bool \<Rightarrow> coded_output" where
  "new_CodedOutputStream deterministic next before eager_init =
     (case new_EpsCopyOutputStream before deterministic of (s, p) \<Rightarrow>
        let c = \<lparr>impl = s, cur = p, start_count = int (length before)\<rparr>
        in if eager_init then InitEagerly next c else c)"

definition on_impl :: "writer \<Rightarrow> coded_output \<Rightarrow> coded_output option" where
  "on_impl W c = do { (s, p) \<leftarrow> W (impl c) (cur c); Some (c\<lparr>impl := s, cur := p\<rparr>) }"

text \<open>The array writers store what they append at \<open>Cur()\<close>.\<close>

definition in_space :: "eps_lib \<Rightarrow> bytes \<Rightarrow> coded_output \<Rightarrow> coded_output option" where
  "in_space L bs c = on_impl (\<lambda>s p. case EnsureSpace L s p of (s, p) \<Rightarrow> poke bs s p) c"

definition COS_WriteRaw :: "eps_lib \<Rightarrow> bytes \<Rightarrow> coded_output \<Rightarrow> coded_output option" where
  "COS_WriteRaw L data c = on_impl (Eps_WriteRaw L data) c"

definition COS_WriteRawMaybeAliased :: "eps_lib \<Rightarrow> bytes \<Rightarrow> coded_output \<Rightarrow> coded_output option" where
  "COS_WriteRawMaybeAliased L data c = on_impl (Eps_WriteRawMaybeAliased L data) c"

definition COS_WriteString :: "eps_lib \<Rightarrow> bytes \<Rightarrow> coded_output \<Rightarrow> coded_output option" where
  "COS_WriteString L str c = do { data \<leftarrow> int_sized (length str) str; COS_WriteRaw L data c }"

definition WriteLittleEndian32 :: "eps_lib \<Rightarrow> u32 \<Rightarrow> coded_output \<Rightarrow> coded_output option" where
  "WriteLittleEndian32 L value c = in_space L (WriteLittleEndian32ToArray value []) c"

definition WriteLittleEndian64 :: "eps_lib \<Rightarrow> u64 \<Rightarrow> coded_output \<Rightarrow> coded_output option" where
  "WriteLittleEndian64 L value c = in_space L (WriteLittleEndian64ToArray value []) c"

definition WriteVarint32 :: "eps_lib \<Rightarrow> u32 \<Rightarrow> coded_output \<Rightarrow> coded_output option" where
  "WriteVarint32 L value c = in_space L (WriteVarint32ToArray value []) c"

definition WriteVarint64 :: "eps_lib \<Rightarrow> u64 \<Rightarrow> coded_output \<Rightarrow> coded_output option" where
  "WriteVarint64 L value c = in_space L (WriteVarint64ToArray value []) c"

definition WriteVarint32SignExtended :: "eps_lib \<Rightarrow> i32 \<Rightarrow> coded_output \<Rightarrow> coded_output option" where
  "WriteVarint32SignExtended L value c = WriteVarint64 L (scast value) c"

definition COS_WriteTag :: "eps_lib \<Rightarrow> u32 \<Rightarrow> coded_output \<Rightarrow> coded_output option" where
  "COS_WriteTag L value c = WriteVarint32 L value c"

definition StaticVarintSize32 :: "u32 \<Rightarrow> nat" where
  "StaticVarintSize32 Value = (if Value < push_bit 7 1 then 1 else if Value < push_bit 14 1 then 2
     else if Value < push_bit 21 1 then 3 else if Value < push_bit 28 1 then 4 else 5)"

subsection \<open>Stream writers of the wire format\<close>

definition WriteTag :: "eps_lib \<Rightarrow> i32 \<Rightarrow> WireType \<Rightarrow> coded_output \<Rightarrow> coded_output option" where
  "WriteTag L field_number type c = COS_WriteTag L (MakeTag field_number type) c"

definition WriteInt32NoTag :: "eps_lib \<Rightarrow> i32 \<Rightarrow> coded_output \<Rightarrow> coded_output option" where
  "WriteInt32NoTag L value c = WriteVarint32SignExtended L value c"

definition WriteInt64NoTag :: "eps_lib \<Rightarrow> i64 \<Rightarrow> coded_output \<Rightarrow> coded_output option" where
  "WriteInt64NoTag L value c = WriteVarint64 L value c"

definition WriteUInt32NoTag :: "eps_lib \<Rightarrow> u32 \<Rightarrow> coded_output \<Rightarrow> coded_output option" where
  "WriteUInt32NoTag L value c = WriteVarint32 L value c"

definition WriteUInt64NoTag :: "eps_lib \<Rightarrow> u64 \<Rightarrow> coded_output \<Rightarrow> coded_output option" where
  "WriteUInt64NoTag L value c = WriteVarint64 L value c"

definition WriteSInt32NoTag :: "eps_lib \<Rightarrow> i32 \<Rightarrow> coded_output \<Rightarrow> coded_output option" where
  "WriteSInt32NoTag L value c = WriteVarint32 L (ZigZagEncode32 value) c"

definition WriteSInt64NoTag :: "eps_lib \<Rightarrow> i64 \<Rightarrow> coded_output \<Rightarrow> coded_output option" where
  "WriteSInt64NoTag L value c = WriteVarint64 L (ZigZagEncode64 value) c"

definition WriteFixed32NoTag :: "eps_lib \<Rightarrow> u32 \<Rightarrow> coded_output \<Rightarrow> coded_output option" where
  "WriteFixed32NoTag L value c = WriteLittleEndian32 L value c"

definition WriteFixed64NoTag :: "eps_lib \<Rightarrow> u64 \<Rightarrow> coded_output \<Rightarrow> coded_output option" where
  "WriteFixed64NoTag L value c = WriteLittleEndian64 L value c"

definition WriteSFixed32NoTag :: "eps_lib \<Rightarrow> i32 \<Rightarrow> coded_output \<Rightarrow> coded_output option" where
  "WriteSFixed32NoTag L value c = WriteLittleEndian32 L value c"

definition WriteSFixed64NoTag :: "eps_lib \<Rightarrow> i64 \<Rightarrow> coded_output \<Rightarrow> coded_output option" where
  "WriteSFixed64NoTag L value c = WriteLittleEndian64 L value c"

definition WriteFloatNoTag :: "eps_lib \<Rightarrow> cfloat \<Rightarrow> coded_output \<Rightarrow> coded_output option" where
  "WriteFloatNoTag L value c = WriteLittleEndian32 L (EncodeFloat value) c"

definition WriteDoubleNoTag :: "eps_lib \<Rightarrow> cdouble \<Rightarrow> coded_output \<Rightarrow> coded_output option" where
  "WriteDoubleNoTag L value c = WriteLittleEndian64 L (EncodeDouble value) c"

definition WriteBoolNoTag :: "eps_lib \<Rightarrow> bool \<Rightarrow> coded_output \<Rightarrow> coded_output option" where
  "WriteBoolNoTag L value c = WriteVarint32 L (if value then 1 else 0) c"

definition WriteEnumNoTag :: "eps_lib \<Rightarrow> i32 \<Rightarrow> coded_output \<Rightarrow> coded_output option" where
  "WriteEnumNoTag L value c = WriteVarint32SignExtended L value c"

definition WriteGroupNoVirtual :: "(coded_output \<Rightarrow> coded_output option) \<Rightarrow> eps_lib \<Rightarrow> i32 \<Rightarrow> coded_output \<Rightarrow> coded_output option" where
  "WriteGroupNoVirtual SerializeWithCachedSizes L field_number c = do {
     c \<leftarrow> WriteTag L field_number WIRETYPE_START_GROUP c;
     c \<leftarrow> SerializeWithCachedSizes c;
     WriteTag L field_number WIRETYPE_END_GROUP c
   }"

definition WriteMessageNoVirtual :: "(coded_output \<Rightarrow> coded_output option) \<Rightarrow> i32 \<Rightarrow> eps_lib \<Rightarrow> i32 \<Rightarrow> coded_output \<Rightarrow> coded_output option" where
  "WriteMessageNoVirtual SerializeWithCachedSizes CachedSize L field_number c = do {
     c \<leftarrow> WriteTag L field_number WIRETYPE_LENGTH_DELIMITED c;
     c \<leftarrow> WriteVarint32 L CachedSize c;
     SerializeWithCachedSizes c
   }"

subsection \<open>What a writer does\<close>

definition written :: "eps_out \<Rightarrow> nat \<Rightarrow> bytes" where
  "written s ptr = sunk s @ take ptr (obuf s)"

definition eps_ok :: "eps_out \<Rightarrow> bool" where
  "eps_ok s \<longleftrightarrow> oend s + kSlopBytes \<le> length (obuf s)"

text \<open>The output is \<open>out\<close> so far, unless an error is reported; the pointer is at most at the end of the spare bytes.\<close>

definition out_ok :: "eps_out \<Rightarrow> nat \<Rightarrow> bytes \<Rightarrow> bool" where
  "out_ok s ptr out \<longleftrightarrow> eps_ok s \<and> ptr \<le> oend s + kSlopBytes \<and> (\<not> had_error s \<longrightarrow> written s ptr = out)"

definition appends :: "eps_out \<Rightarrow> nat \<Rightarrow> bytes \<Rightarrow> eps_out \<times> nat \<Rightarrow> bool" where
  "appends s ptr bs r \<longleftrightarrow> (case r of (s', p') \<Rightarrow> eps_ok s' \<and> p' \<le> oend s' + kSlopBytes \<and>
     (\<not> had_error s' \<longrightarrow> \<not> had_error s \<and> written s' p' = written s ptr @ bs))"

text \<open>
  The documented behaviour of the compiled functions: space for \<open>kSlopBytes\<close> is made without changing
  the output, the other functions append; an error stays.
\<close>

definition eps_documented :: "eps_lib \<Rightarrow> bool" where
  "eps_documented L \<longleftrightarrow> (\<forall>s ptr. eps_ok s \<and> ptr \<le> oend s + kSlopBytes \<longrightarrow>
     (oend s \<le> ptr \<longrightarrow> appends s ptr [] (EnsureSpaceFallback L s ptr) \<and>
        snd (EnsureSpaceFallback L s ptr) < oend (fst (EnsureSpaceFallback L s ptr))) \<and>
     (\<forall>data. appends s ptr data (WriteRawFallback L data s ptr) \<and> appends s ptr data (WriteAliasedRaw L data s ptr)) \<and>
     (\<forall>num str. length str < 2 ^ 31 \<longrightarrow>
        appends s ptr (UnsafeVarint (push_bit 3 num OR 2) @ UnsafeVarint (of_nat (length str) :: u32) @ str) (WriteStringOutline L num str s ptr) \<and>
        appends s ptr (UnsafeVarint (push_bit 3 num OR 2) @ UnsafeVarint (of_nat (length str) :: u32) @ str) (WriteStringMaybeAliasedOutline L num str s ptr)))"

text \<open>A library that hands everything over to the stream at once and starts a new buffer.\<close>

definition flush_with :: "bytes \<Rightarrow> eps_out \<Rightarrow> nat \<Rightarrow> eps_out \<times> nat" where
  "flush_with bs s ptr = (s\<lparr>sunk := written s ptr @ bs, obuf := replicate 32 0, oend := 16\<rparr>, 0)"

definition flush_lib :: eps_lib where
  "flush_lib = \<lparr>EnsureSpaceFallback = flush_with [], WriteRawFallback = flush_with, WriteAliasedRaw = flush_with,
     WriteStringOutline = (\<lambda>num str. flush_with (UnsafeVarint (push_bit 3 num OR 2) @ UnsafeVarint (of_nat (length str) :: u32) @ str)),
     WriteStringMaybeAliasedOutline = (\<lambda>num str. flush_with (UnsafeVarint (push_bit 3 num OR 2) @ UnsafeVarint (of_nat (length str) :: u32) @ str))\<rparr>"

lemma eps_documented_flush_lib: "eps_documented flush_lib"
  by (simp add: eps_documented_def flush_lib_def flush_with_def appends_def eps_ok_def kSlopBytes_def written_def)

lemma appendsD: "appends s ptr bs (s', p') \<Longrightarrow> out_ok s ptr out \<Longrightarrow> out_ok s' p' (out @ bs)"
  by (auto simp: appends_def out_ok_def)

lemma poke_ok:
  assumes "out_ok s ptr out" "ptr + length bs \<le> oend s + kSlopBytes"
  obtains s' where "poke bs s ptr = Some (s', ptr + length bs)" "out_ok s' (ptr + length bs) (out @ bs)" "oend s' = oend s"
proof -
  let ?s = "s\<lparr>obuf := take ptr (obuf s) @ bs @ drop (ptr + length bs) (obuf s)\<rparr>"
  have len: "ptr + length bs \<le> length (obuf s)"
    using assms by (auto simp: out_ok_def eps_ok_def)
  show thesis
  proof (rule that)
    show "poke bs s ptr = Some (?s, ptr + length bs)"
      using len by (simp add: poke_def)
    show "out_ok ?s (ptr + length bs) (out @ bs)"
      using assms len by (auto simp: out_ok_def eps_ok_def written_def)
  qed simp
qed

lemma eps_documentedD:
  assumes "eps_documented L" "eps_ok s" "ptr \<le> oend s + kSlopBytes"
  shows "oend s \<le> ptr \<Longrightarrow> appends s ptr [] (EnsureSpaceFallback L s ptr)"
    "oend s \<le> ptr \<Longrightarrow> snd (EnsureSpaceFallback L s ptr) < oend (fst (EnsureSpaceFallback L s ptr))"
    "appends s ptr data (WriteRawFallback L data s ptr)" "appends s ptr data (WriteAliasedRaw L data s ptr)"
    "length str < 2 ^ 31 \<Longrightarrow>
       appends s ptr (UnsafeVarint (push_bit 3 num OR 2) @ UnsafeVarint (of_nat (length str) :: u32) @ str) (WriteStringOutline L num str s ptr)"
    "length str < 2 ^ 31 \<Longrightarrow>
       appends s ptr (UnsafeVarint (push_bit 3 num OR 2) @ UnsafeVarint (of_nat (length str) :: u32) @ str) (WriteStringMaybeAliasedOutline L num str s ptr)"
  using assms(1)[unfolded eps_documented_def, THEN spec, THEN spec, THEN mp, OF conjI[OF assms(2,3)]] by blast+

lemma EnsureSpace_ok:
  assumes "eps_documented L" "out_ok s ptr out"
  obtains s' p' where "EnsureSpace L s ptr = (s', p')" "out_ok s' p' out" "p' < oend s'"
proof (cases "ptr \<ge> oend s")
  case True
  obtain s' p' where r: "EnsureSpaceFallback L s ptr = (s', p')" by fastforce
  have b: "eps_ok s" "ptr \<le> oend s + kSlopBytes"
    using assms(2) by (simp_all add: out_ok_def)
  have "appends s ptr [] (s', p')" "p' < oend s'"
    using eps_documentedD(1,2)[OF assms(1) b True] r by simp_all
  then show thesis
    using that appendsD[OF _ assms(2), of "[]"] r True by (simp add: EnsureSpace_def)
next
  case False
  then show thesis
    using that assms(2) by (auto simp: EnsureSpace_def)
qed

text \<open>A writer that always succeeds on such a state and appends the given bytes.\<close>

definition puts :: "writer \<Rightarrow> bytes \<Rightarrow> bool" where
  "puts W bs \<longleftrightarrow> (\<forall>s ptr out. out_ok s ptr out \<longrightarrow> (\<exists>s' p'. W s ptr = Some (s', p') \<and> out_ok s' p' (out @ bs)))"

lemma puts_fallback:
  assumes "\<And>s ptr. eps_ok s \<Longrightarrow> ptr \<le> oend s + kSlopBytes \<Longrightarrow> appends s ptr bs (F s ptr)"
  shows "puts (\<lambda>s ptr. Some (F s ptr)) bs"
  unfolding puts_def
proof (intro allI impI)
  fix s ptr out
  assume a: "out_ok s ptr out"
  then have "appends s ptr bs (F s ptr)"
    using assms by (simp add: out_ok_def)
  then show "\<exists>s' p'. Some (F s ptr) = Some (s', p') \<and> out_ok s' p' (out @ bs)"
    using appendsD[OF _ a] by (metis surj_pair)
qed

text \<open>Up to sixteen bytes may be stored after \<open>EnsureSpace\<close>.\<close>

lemma space_puts:
  assumes "eps_documented L" "length bs \<le> kSlopBytes"
  shows "puts (\<lambda>s p. case EnsureSpace L s p of (s, p) \<Rightarrow> poke bs s p) bs"
  unfolding puts_def
proof (intro allI impI)
  fix s ptr out
  assume "out_ok s ptr out"
  with assms(1) obtain s1 p1 where 1: "EnsureSpace L s ptr = (s1, p1)" "out_ok s1 p1 out" "p1 < oend s1"
    by (rule EnsureSpace_ok)
  have "p1 + length bs \<le> oend s1 + kSlopBytes"
    using 1(3) assms(2) by simp
  with 1(2) obtain s2 where "poke bs s1 p1 = Some (s2, p1 + length bs)" "out_ok s2 (p1 + length bs) (out @ bs)"
    by (rule poke_ok)
  then show "\<exists>s' p'. (case EnsureSpace L s ptr of (s, p) \<Rightarrow> poke bs s p) = Some (s', p') \<and> out_ok s' p' (out @ bs)"
    using 1(1) by auto
qed

lemma WriteRaw_puts:
  assumes "eps_documented L"
  shows "puts (Eps_WriteRaw L data) data"
  unfolding puts_def
proof (intro allI impI)
  fix s ptr out
  assume a: "out_ok s ptr out"
  show "\<exists>s' p'. Eps_WriteRaw L data s ptr = Some (s', p') \<and> out_ok s' p' (out @ data)"
  proof (cases "int (oend s) - int ptr < int (length data)")
    case True
    have "puts (\<lambda>s ptr. Some (WriteRawFallback L data s ptr)) data"
      by (rule puts_fallback, rule eps_documentedD(3)[OF assms])
    then show ?thesis
      using a True by (simp add: puts_def Eps_WriteRaw_def)
  next
    case False
    then have "ptr + length data \<le> oend s + kSlopBytes"
      by (simp add: kSlopBytes_def)
    with a obtain s' where "poke data s ptr = Some (s', ptr + length data)" "out_ok s' (ptr + length data) (out @ data)"
      by (rule poke_ok)
    then show ?thesis
      using False by (simp add: Eps_WriteRaw_def)
  qed
qed

text \<open>The quick test for a string: its tag, one byte for the length and the string fit into buffer and spare bytes.\<close>

lemma tag_below: "k < 32 \<Longrightarrow> (tag :: u32) < push_bit k 1 \<longleftrightarrow> unat tag < 2 ^ k"
  by (simp add: word_less_nat_alt push_bit_eq_mult unat_power_lower[where 'a = 32])

lemma Eps_TagSize_eq: "Eps_TagSize tag = length (UnsafeVarint tag)"
proof -
  have b: "length (UnsafeVarint tag) \<le> 5" "1 \<le> length (UnsafeVarint tag)"
    using length_UnsafeVarint_bound(1)[of tag] length_UnsafeVarint_pos[of tag] by linarith+
  have le: "length (UnsafeVarint tag) \<le> n \<longleftrightarrow> tag < push_bit (7 * n) 1" if "0 < n" "n < 5" for n
    using that length_UnsafeVarint_le[of n tag] tag_below[of "7 * n" tag] by simp
  have "Eps_TagSize tag = (let n = length (UnsafeVarint tag) in
      if n \<le> 1 then 1 else if n \<le> 2 then 2 else if n \<le> 3 then 3 else if n \<le> 4 then 4 else 5)"
    using le[of 1] le[of 2] le[of 3] le[of 4] by (simp add: Eps_TagSize_def Let_def)
  moreover have "length (UnsafeVarint tag) \<in> {1, 2, 3, 4, 5}"
    using b by auto
  ultimately show ?thesis
    by (auto simp: Let_def)
qed

lemma tag_length: "length (UnsafeVarint (push_bit 3 num OR 2 :: u32)) = Eps_TagSize (push_bit 3 num)"
  using length_tag[of num WIRETYPE_LENGTH_DELIMITED]
  by (simp add: MakeTag_def GOOGLE_PROTOBUF_WIRE_FORMAT_MAKE_TAG_def kTagTypeBits_def Eps_TagSize_eq VarintSize32_eq)

definition string_bytes :: "u32 \<Rightarrow> bytes \<Rightarrow> bytes" where
  "string_bytes num str = UnsafeVarint (push_bit 3 num OR 2) @ UnsafeVarint (of_nat (length str) :: u32) @ str"

lemma short_string_ok:
  assumes "out_ok s ptr out" "length str < 128" "int ptr + int (Eps_TagSize (push_bit 3 num)) + 1 + int (length str) \<le> int (oend s) + 16"
  shows "\<exists>s' p'. short_string num str s ptr = Some (s', p') \<and> out_ok s' p' (out @ string_bytes num str)"
proof -
  let ?t = "UnsafeVarint (push_bit 3 num OR 2 :: u32)" and ?l = "[of_nat (length str)] :: bytes"
  have fit: "ptr + length ?t + 1 + length str \<le> oend s + kSlopBytes"
    using assms(3) by (simp add: tag_length kSlopBytes_def)
  have f1: "ptr + length ?t \<le> oend s + kSlopBytes" using fit by linarith
  obtain s1 where s1: "poke ?t s ptr = Some (s1, ptr + length ?t)" "out_ok s1 (ptr + length ?t) (out @ ?t)" "oend s1 = oend s"
    by (rule poke_ok[OF assms(1) f1])
  have f2: "ptr + length ?t + length ?l \<le> oend s1 + kSlopBytes" using fit s1(3) by simp
  obtain s2 where s2: "poke ?l s1 (ptr + length ?t) = Some (s2, ptr + length ?t + length ?l)"
      "out_ok s2 (ptr + length ?t + length ?l) ((out @ ?t) @ ?l)" "oend s2 = oend s1"
    by (rule poke_ok[OF s1(2) f2])
  have f3: "ptr + length ?t + length ?l + length str \<le> oend s2 + kSlopBytes" using fit s1(3) s2(3) by simp
  obtain s3 where s3: "poke str s2 (ptr + length ?t + length ?l) = Some (s3, ptr + length ?t + length ?l + length str)"
      "out_ok s3 (ptr + length ?t + length ?l + length str) (((out @ ?t) @ ?l) @ str)"
    by (rule poke_ok[OF s2(2) f3])
  have u: "unat (of_nat (length str) :: u32) = length str" "(ucast (of_nat (length str) :: u32) :: byte) = of_nat (length str)"
    using assms(2) by (simp_all add: unsigned_of_nat take_bit_nat_eq_self)
  have "UnsafeVarint (of_nat (length str) :: u32) = ?l"
    using assms(2) by (subst UnsafeVarint.simps) (simp add: u)
  then show ?thesis
    using s1(1) s2(1) s3 by (simp add: short_string_def string_bytes_def)
qed

lemma WriteString_puts:
  assumes "eps_documented L" "length str < 2 ^ 31"
  shows "puts (Eps_WriteString L num str) (string_bytes num str)" "puts (WriteStringMaybeAliased L num str) (string_bytes num str)"
proof -
  have f: "puts (\<lambda>s ptr. Some (WriteStringOutline L num str s ptr)) (string_bytes num str)"
    "puts (\<lambda>s ptr. Some (WriteStringMaybeAliasedOutline L num str s ptr)) (string_bytes num str)"
    unfolding string_bytes_def
    by (rule puts_fallback, rule eps_documentedD(5)[OF assms(1) _ _ assms(2)], assumption+)
      (rule puts_fallback, rule eps_documentedD(6)[OF assms(1) _ _ assms(2)], assumption+)
  show "puts (Eps_WriteString L num str) (string_bytes num str)" "puts (WriteStringMaybeAliased L num str) (string_bytes num str)"
    using f short_string_ok[of _ _ _ str num]
    by (auto simp: puts_def Eps_WriteString_def WriteStringMaybeAliased_def not_le not_less)
qed

subsection \<open>Packed fields\<close>

lemma puts_bind:
  assumes "puts V as" "puts W bs"
  shows "puts (\<lambda>s p. do { (s, p) \<leftarrow> V s p; W s p }) (as @ bs)"
  unfolding puts_def
proof (intro allI impI)
  fix s ptr out
  assume "out_ok s ptr out"
  with assms(1) obtain s1 p1 where 1: "V s ptr = Some (s1, p1)" "out_ok s1 p1 (out @ as)"
    unfolding puts_def by blast
  with assms(2) obtain s2 p2 where "W s1 p1 = Some (s2, p2)" "out_ok s2 p2 ((out @ as) @ bs)"
    unfolding puts_def by blast
  with 1 show "\<exists>s' p'. V s ptr \<bind> (\<lambda>(s, p). W s p) = Some (s', p') \<and> out_ok s' p' (out @ as @ bs)"
    by simp
qed

lemma length_delim_puts:
  assumes "eps_documented L"
  shows "puts (\<lambda>s p. case EnsureSpace L s p of (s, p) \<Rightarrow> WriteLengthDelim num sz s p) (UnsafeVarint (push_bit 3 num OR 2) @ UnsafeVarint sz)"
  unfolding puts_def
proof (intro allI impI)
  fix s ptr out
  let ?t = "UnsafeVarint (push_bit 3 num OR 2 :: u32)" and ?z = "UnsafeVarint sz"
  assume "out_ok s ptr out"
  with assms obtain s1 p1 where 1: "EnsureSpace L s ptr = (s1, p1)" "out_ok s1 p1 out" "p1 < oend s1"
    by (rule EnsureSpace_ok)
  have fit: "p1 + length ?t + length ?z \<le> oend s1 + kSlopBytes"
    using 1(3) length_UnsafeVarint_bound(1)[of "push_bit 3 num OR 2"] length_UnsafeVarint_bound(1)[of sz] by (simp add: kSlopBytes_def)
  have f1: "p1 + length ?t \<le> oend s1 + kSlopBytes" using fit by linarith
  obtain s2 where 2: "poke ?t s1 p1 = Some (s2, p1 + length ?t)" "out_ok s2 (p1 + length ?t) (out @ ?t)" "oend s2 = oend s1"
    by (rule poke_ok[OF 1(2) f1])
  have f2: "p1 + length ?t + length ?z \<le> oend s2 + kSlopBytes" using fit 2(3) by simp
  obtain s3 where 3: "poke ?z s2 (p1 + length ?t) = Some (s3, p1 + length ?t + length ?z)"
      "out_ok s3 (p1 + length ?t + length ?z) ((out @ ?t) @ ?z)"
    by (rule poke_ok[OF 2(2) f2])
  show "\<exists>s' p'. (case EnsureSpace L s ptr of (s, p) \<Rightarrow> WriteLengthDelim num sz s p) = Some (s', p') \<and> out_ok s' p' (out @ ?t @ ?z)"
    using 1(1,3) 2(1) 3 by (simp add: WriteLengthDelim_def Eps_WriteTag_def UnsafeWriteSize_eq)
qed

lemma varint_loop_puts:
  assumes "eps_documented L" "\<And>x. length (UnsafeVarint (encode x)) \<le> 10"
  shows "r \<noteq> [] \<Longrightarrow> puts (varint_loop L encode r) (concat (map (\<lambda>x. UnsafeVarint (encode x)) r))"
proof (induction r rule: induct_list012)
  case (2 x)
  then show ?case
    using space_puts[OF assms(1), of "UnsafeVarint (encode x)"] assms(2)[of x] by (simp add: kSlopBytes_def puts_def)
next
  case (3 x y r)
  have 1: "puts (\<lambda>s p. case EnsureSpace L s p of (s, p) \<Rightarrow> poke (UnsafeVarint (encode x)) s p) (UnsafeVarint (encode x))"
    using assms(2)[of x] by (intro space_puts[OF assms(1)]) (simp add: kSlopBytes_def)
  have 2: "puts (varint_loop L encode (y # r)) (concat (map (\<lambda>x. UnsafeVarint (encode x)) (y # r)))"
    using 3 by simp
  have "varint_loop L encode (x # y # r) =
      (\<lambda>s p. do { (s, p) \<leftarrow> (case EnsureSpace L s p of (s, p) \<Rightarrow> poke (UnsafeVarint (encode x)) s p); varint_loop L encode (y # r) s p })"
    by (intro ext) (simp split: prod.splits)
  then show ?case
    using puts_bind[OF 1 2] by simp
qed simp

lemma WriteVarintPacked_puts:
  assumes "eps_documented L" "\<And>x. length (UnsafeVarint (encode x)) \<le> 10" "r \<noteq> []"
  shows "puts (WriteVarintPacked L encode num r sz)
    (UnsafeVarint (push_bit 3 num OR 2) @ UnsafeVarint sz @ concat (map (\<lambda>x. UnsafeVarint (encode x)) r))"
proof -
  have "WriteVarintPacked L encode num r sz = (\<lambda>s p. do {
      (s, p) \<leftarrow> (case EnsureSpace L s p of (s, p) \<Rightarrow> WriteLengthDelim num sz s p); varint_loop L encode r s p })"
    by (intro ext) (simp add: WriteVarintPacked_def split: prod.splits)
  then show ?thesis
    using puts_bind[OF length_delim_puts[OF assms(1)] varint_loop_puts[OF assms]] by simp
qed

lemma int_sized_small:
  assumes "length data = n" "n < 2 ^ 31"
  shows "int_sized n data = Some data"
proof -
  have "sint (of_nat n :: i32) = int n"
    using assms(2) by (simp add: signed_of_nat signed_take_bit_int_eq_self)
  then show ?thesis
    using assms(1) by (simp add: int_sized_def)
qed

lemma WriteFixedPacked_puts:
  assumes "eps_documented L" "\<And>x. length (img x) = k" "length r * k < 2 ^ 31"
  shows "puts (WriteFixedPacked L img k num r)
    (UnsafeVarint (push_bit 3 num OR 2) @ UnsafeVarint (of_nat (length r * k) :: u32) @ concat (map img r))"
proof -
  have "length (concat (map img r)) = length r * k"
    using assms(2) by (induction r) simp_all
  then have "int_sized (length r * k) (concat (map img r)) = Some (concat (map img r))"
    using assms(3) by (rule int_sized_small)
  then have "WriteFixedPacked L img k num r = (\<lambda>s p. do {
      (s, p) \<leftarrow> (case EnsureSpace L s p of (s, p) \<Rightarrow> WriteLengthDelim num (of_nat (length r * k)) s p); Eps_WriteRaw L (concat (map img r)) s p })"
    by (intro ext) (simp add: WriteFixedPacked_def WriteRawLittleEndian_def Let_def split: prod.splits)
  then show ?thesis
    using puts_bind[OF length_delim_puts[OF assms(1)] WriteRaw_puts[OF assms(1)]] by simp
qed

subsection \<open>Sequences of writes\<close>

text \<open>
  What a generated serializer calls on the stream: fields by the stream writers, strings and packed
  fields by the functions of \<open>EpsCopy()\<close> on \<open>Cur()\<close>, groups and messages around the calls of their own
  serializer.
\<close>

datatype packed = PInt32 "i32 list" | PUInt32 "u32 list" | PSInt32 "i32 list" | PInt64 "i64 list" | PUInt64 "u64 list"
  | PSInt64 "i64 list" | PEnum "i32 list" | PFixed32 "u32 list" | PFixed64 "u64 list"

fun write_packed :: "eps_lib \<Rightarrow> u32 \<Rightarrow> u32 \<Rightarrow> packed \<Rightarrow> writer" where
  "write_packed L num sz (PInt32 r) = WriteInt32Packed L num r sz"
| "write_packed L num sz (PUInt32 r) = WriteUInt32Packed L num r sz"
| "write_packed L num sz (PSInt32 r) = WriteSInt32Packed L num r sz"
| "write_packed L num sz (PInt64 r) = WriteInt64Packed L num r sz"
| "write_packed L num sz (PUInt64 r) = WriteUInt64Packed L num r sz"
| "write_packed L num sz (PSInt64 r) = WriteSInt64Packed L num r sz"
| "write_packed L num sz (PEnum r) = WriteEnumPacked L num r sz"
| "write_packed L num sz (PFixed32 r) = WriteFixedPacked L (le_bytes 4) 4 num r"
| "write_packed L num sz (PFixed64 r) = WriteFixedPacked L (le_bytes 8) 8 num r"

fun write_no_tag :: "eps_lib \<Rightarrow> scalar \<Rightarrow> coded_output \<Rightarrow> coded_output option" where
  "write_no_tag L (VInt32 v) = WriteInt32NoTag L v"
| "write_no_tag L (VInt64 v) = WriteInt64NoTag L v"
| "write_no_tag L (VUInt32 v) = WriteUInt32NoTag L v"
| "write_no_tag L (VUInt64 v) = WriteUInt64NoTag L v"
| "write_no_tag L (VSInt32 v) = WriteSInt32NoTag L v"
| "write_no_tag L (VSInt64 v) = WriteSInt64NoTag L v"
| "write_no_tag L (VFixed32 v) = WriteFixed32NoTag L v"
| "write_no_tag L (VFixed64 v) = WriteFixed64NoTag L v"
| "write_no_tag L (VSFixed32 v) = WriteSFixed32NoTag L v"
| "write_no_tag L (VSFixed64 v) = WriteSFixed64NoTag L v"
| "write_no_tag L (VFloat v) = WriteFloatNoTag L v"
| "write_no_tag L (VDouble v) = WriteDoubleNoTag L v"
| "write_no_tag L (VBool v) = WriteBoolNoTag L v"
| "write_no_tag L (VEnum v) = WriteEnumNoTag L v"

datatype out_op = OutField i32 scalar | OutRaw bytes | OutAliased bytes | OutText bytes | OutString u32 bytes | OutStringAliased u32 bytes
  | OutPacked u32 u32 packed | OutGroup i32 "out_op list" | OutMessage i32 i32 "out_op list"

fun exec_op :: "eps_lib \<Rightarrow> out_op \<Rightarrow> coded_output \<Rightarrow> coded_output option"
  and exec_ops :: "eps_lib \<Rightarrow> out_op list \<Rightarrow> coded_output \<Rightarrow> coded_output option" where
  "exec_op L (OutField n v) c = do { c \<leftarrow> WriteTag L n (wire_of v) c; write_no_tag L v c }"
| "exec_op L (OutRaw data) c = COS_WriteRaw L data c"
| "exec_op L (OutAliased data) c = COS_WriteRawMaybeAliased L data c"
| "exec_op L (OutText str) c = COS_WriteString L str c"
| "exec_op L (OutString num str) c = on_impl (Eps_WriteString L num str) c"
| "exec_op L (OutStringAliased num str) c = on_impl (WriteStringMaybeAliased L num str) c"
| "exec_op L (OutPacked num sz r) c = on_impl (write_packed L num sz r) c"
| "exec_op L (OutGroup n ops) c = WriteGroupNoVirtual (exec_ops L ops) L n c"
| "exec_op L (OutMessage n sz ops) c = WriteMessageNoVirtual (exec_ops L ops) sz L n c"
| "exec_ops L [] c = Some c"
| "exec_ops L (op # ops) c = do { c \<leftarrow> exec_op L op c; exec_ops L ops c }"

text \<open>The bytes the wire format has for them.\<close>

fun packed_elements :: "packed \<Rightarrow> bytes list" where
  "packed_elements (PInt32 r) = map (\<lambda>v. UnsafeVarint (scast v :: u64)) r"
| "packed_elements (PUInt32 r) = map UnsafeVarint r"
| "packed_elements (PSInt32 r) = map (\<lambda>v. UnsafeVarint (ZigZagEncode32 v)) r"
| "packed_elements (PInt64 r) = map UnsafeVarint r"
| "packed_elements (PUInt64 r) = map UnsafeVarint r"
| "packed_elements (PSInt64 r) = map (\<lambda>v. UnsafeVarint (ZigZagEncode64 v)) r"
| "packed_elements (PEnum r) = map (\<lambda>v. UnsafeVarint (scast v :: u64)) r"
| "packed_elements (PFixed32 r) = map (le_bytes 4) r"
| "packed_elements (PFixed64 r) = map (le_bytes 8) r"

fun packed_size :: "u32 \<Rightarrow> packed \<Rightarrow> u32" where
  "packed_size sz (PFixed32 r) = of_nat (length r * 4)"
| "packed_size sz (PFixed64 r) = of_nat (length r * 8)"
| "packed_size sz r = sz"

fun op_bytes :: "out_op \<Rightarrow> bytes" and ops_bytes :: "out_op list \<Rightarrow> bytes" where
  "op_bytes (OutField n v) = write_scalar n v []"
| "op_bytes (OutRaw data) = data"
| "op_bytes (OutAliased data) = data"
| "op_bytes (OutText str) = str"
| "op_bytes (OutString num str) = string_bytes num str"
| "op_bytes (OutStringAliased num str) = string_bytes num str"
| "op_bytes (OutPacked num sz r) = UnsafeVarint (push_bit 3 num OR 2) @ UnsafeVarint (packed_size sz r) @ concat (packed_elements r)"
| "op_bytes (OutGroup n ops) = UnsafeVarint (MakeTag n WIRETYPE_START_GROUP) @ ops_bytes ops @ UnsafeVarint (MakeTag n WIRETYPE_END_GROUP)"
| "op_bytes (OutMessage n sz ops) = UnsafeVarint (MakeTag n WIRETYPE_LENGTH_DELIMITED) @ UnsafeVarint sz @ ops_bytes ops"
| "ops_bytes [] = []"
| "ops_bytes (op # ops) = op_bytes op @ ops_bytes ops"

text \<open>Strings and packed fields are shorter than 2 GiB, and packed fields are not empty, as the generated code tests.\<close>

fun packed_fits :: "packed \<Rightarrow> bool" where
  "packed_fits (PFixed32 r) = (r \<noteq> [] \<and> length r * 4 < 2 ^ 31)"
| "packed_fits (PFixed64 r) = (r \<noteq> [] \<and> length r * 8 < 2 ^ 31)"
| "packed_fits r = (packed_elements r \<noteq> [])"

fun op_fits :: "out_op \<Rightarrow> bool" and ops_fit :: "out_op list \<Rightarrow> bool" where
  "op_fits (OutString num str) = (length str < 2 ^ 31)"
| "op_fits (OutStringAliased num str) = (length str < 2 ^ 31)"
| "op_fits (OutText str) = (length str < 2 ^ 31)"
| "op_fits (OutPacked num sz r) = packed_fits r"
| "op_fits (OutGroup n ops) = ops_fit ops"
| "op_fits (OutMessage n sz ops) = ops_fit ops"
| "op_fits (OutField n v) = True"
| "op_fits (OutRaw data) = True"
| "op_fits (OutAliased data) = True"
| "ops_fit [] = True"
| "ops_fit (op # ops) = (op_fits op \<and> ops_fit ops)"


lemma WriteRawMaybeAliased_puts:
  assumes "eps_documented L"
  shows "puts (Eps_WriteRawMaybeAliased L data) data"
proof -
  have "puts (\<lambda>s ptr. Some (WriteAliasedRaw L data s ptr)) data"
    by (rule puts_fallback, rule eps_documentedD(4)[OF assms])
  then show ?thesis
    using WriteRaw_puts[OF assms, of data] by (auto simp: puts_def Eps_WriteRawMaybeAliased_def)
qed

text \<open>A call on the stream that always succeeds and appends the given bytes.\<close>

definition cputs :: "(coded_output \<Rightarrow> coded_output option) \<Rightarrow> bytes \<Rightarrow> bool" where
  "cputs F bs \<longleftrightarrow> (\<forall>c out. out_ok (impl c) (cur c) out \<longrightarrow>
     (\<exists>c'. F c = Some c' \<and> out_ok (impl c') (cur c') (out @ bs)))"

lemma on_impl_cputs: "puts W bs \<Longrightarrow> cputs (on_impl W) bs"
  by (fastforce simp: puts_def cputs_def on_impl_def)

lemma cputs_bind:
  assumes "cputs F as" "cputs G bs"
  shows "cputs (\<lambda>c. F c \<bind> G) (as @ bs)"
  unfolding cputs_def
proof (intro allI impI)
  fix c :: coded_output and out
  assume "out_ok (impl c) (cur c) out"
  with assms(1) obtain c1 where 1: "F c = Some c1" "out_ok (impl c1) (cur c1) (out @ as)"
    unfolding cputs_def by blast
  with assms(2) obtain c2 where "G c1 = Some c2" "out_ok (impl c2) (cur c2) ((out @ as) @ bs)"
    unfolding cputs_def by blast
  with 1 show "\<exists>c'. F c \<bind> G = Some c' \<and> out_ok (impl c') (cur c') (out @ as @ bs)"
    by simp
qed

lemma in_space_cputs: "eps_documented L \<Longrightarrow> length bs \<le> kSlopBytes \<Longrightarrow> cputs (in_space L bs) bs"
  using on_impl_cputs[OF space_puts] unfolding in_space_def[abs_def] by blast

lemma WriteVarint32_cputs: "eps_documented L \<Longrightarrow> cputs (WriteVarint32 L v) (UnsafeVarint v)"
  using in_space_cputs[of L "UnsafeVarint v"] length_UnsafeVarint_bound(1)[of v]
  unfolding WriteVarint32_def[abs_def] by (simp add: WriteVarint32ToArray_def kSlopBytes_def)

lemma WriteTag_cputs: "eps_documented L \<Longrightarrow> cputs (WriteTag L n wt) (UnsafeVarint (MakeTag n wt))"
  unfolding WriteTag_def[abs_def] COS_WriteTag_def by (rule WriteVarint32_cputs)

text \<open>The stream writer of a field type stores, at a place with enough room, what its array writer appends.\<close>

locale wire_streamed = wire_scalar NoTag Tagged sz wt
  for NoTag :: "'a \<Rightarrow> bytes \<Rightarrow> bytes"
    and Tagged :: "i32 \<Rightarrow> 'a \<Rightarrow> bytes \<Rightarrow> bytes"
    and sz :: "'a \<Rightarrow> nat"
    and wt :: WireType +
  fixes Stream :: "eps_lib \<Rightarrow> 'a \<Rightarrow> coded_output \<Rightarrow> coded_output option"
  assumes same: "Stream L v c = in_space L (NoTag v []) c"
    and short: "sz v \<le> 10"
begin

lemma field_put: "eps_documented L \<Longrightarrow> cputs (\<lambda>c. WriteTag L n wt c \<bind> Stream L v) (Tagged n v [])"
proof -
  assume L: "eps_documented L"
  have "Stream L v = in_space L (NoTag v [])"
    by (rule ext) (rule same)
  moreover have "length (NoTag v []) \<le> kSlopBytes"
    using short[of v] counts[of v] by (simp add: kSlopBytes_def)
  ultimately show ?thesis
    using cputs_bind[OF WriteTag_cputs[OF L] in_space_cputs[OF L]] by (simp add: Tagged_eq)
qed

end

lemmas stream_simps = WriteInt32NoTag_def WriteInt64NoTag_def WriteUInt32NoTag_def WriteUInt64NoTag_def WriteSInt32NoTag_def WriteSInt64NoTag_def WriteFixed32NoTag_def
  WriteFixed64NoTag_def WriteSFixed32NoTag_def WriteSFixed64NoTag_def WriteFloatNoTag_def WriteDoubleNoTag_def WriteBoolNoTag_def WriteEnumNoTag_def
  WriteVarint32_def WriteVarint64_def WriteVarint32SignExtended_def WriteLittleEndian32_def WriteLittleEndian64_def
  writer_simps length_UnsafeVarint_bound length_UnsafeVarint_bound(1)[THEN order_trans]

interpretation sInt32: wire_streamed WriteInt32NoTagToArray WriteInt32ToArray Int32Size WIRETYPE_VARINT WriteInt32NoTag
  by unfold_locales (simp_all add: stream_simps)

interpretation sInt64: wire_streamed WriteInt64NoTagToArray WriteInt64ToArray Int64Size WIRETYPE_VARINT WriteInt64NoTag
  by unfold_locales (simp_all add: stream_simps)

interpretation sUInt32: wire_streamed WriteUInt32NoTagToArray WriteUInt32ToArray UInt32Size WIRETYPE_VARINT WriteUInt32NoTag
  by unfold_locales (simp_all add: stream_simps)

interpretation sUInt64: wire_streamed WriteUInt64NoTagToArray WriteUInt64ToArray UInt64Size WIRETYPE_VARINT WriteUInt64NoTag
  by unfold_locales (simp_all add: stream_simps)

interpretation sSInt32: wire_streamed WriteSInt32NoTagToArray WriteSInt32ToArray SInt32Size WIRETYPE_VARINT WriteSInt32NoTag
  by unfold_locales (simp_all add: stream_simps)

interpretation sSInt64: wire_streamed WriteSInt64NoTagToArray WriteSInt64ToArray SInt64Size WIRETYPE_VARINT WriteSInt64NoTag
  by unfold_locales (simp_all add: stream_simps)

interpretation sFixed32: wire_streamed WriteFixed32NoTagToArray WriteFixed32ToArray "\<lambda>_. kFixed32Size" WIRETYPE_FIXED32 WriteFixed32NoTag
  by unfold_locales (simp_all add: stream_simps)

interpretation sFixed64: wire_streamed WriteFixed64NoTagToArray WriteFixed64ToArray "\<lambda>_. kFixed64Size" WIRETYPE_FIXED64 WriteFixed64NoTag
  by unfold_locales (simp_all add: stream_simps)

interpretation sSFixed32: wire_streamed WriteSFixed32NoTagToArray WriteSFixed32ToArray "\<lambda>_. kSFixed32Size" WIRETYPE_FIXED32 WriteSFixed32NoTag
  by unfold_locales (simp_all add: stream_simps)

interpretation sSFixed64: wire_streamed WriteSFixed64NoTagToArray WriteSFixed64ToArray "\<lambda>_. kSFixed64Size" WIRETYPE_FIXED64 WriteSFixed64NoTag
  by unfold_locales (simp_all add: stream_simps)

interpretation sFloat: wire_streamed WriteFloatNoTagToArray WriteFloatToArray "\<lambda>_. kFloatSize" WIRETYPE_FIXED32 WriteFloatNoTag
  by unfold_locales (simp_all add: stream_simps)

interpretation sDouble: wire_streamed WriteDoubleNoTagToArray WriteDoubleToArray "\<lambda>_. kDoubleSize" WIRETYPE_FIXED64 WriteDoubleNoTag
  by unfold_locales (simp_all add: stream_simps)

interpretation sBool: wire_streamed WriteBoolNoTagToArray WriteBoolToArray "\<lambda>_. kBoolSize" WIRETYPE_VARINT WriteBoolNoTag
  by unfold_locales (simp_all add: stream_simps)

interpretation sEnum: wire_streamed WriteEnumNoTagToArray WriteEnumToArray EnumSize WIRETYPE_VARINT WriteEnumNoTag
  by unfold_locales (simp_all add: stream_simps)

lemmas field_puts = sInt32.field_put sInt64.field_put sUInt32.field_put sUInt64.field_put sSInt32.field_put sSInt64.field_put sFixed32.field_put sFixed64.field_put sSFixed32.field_put sSFixed64.field_put sFloat.field_put sDouble.field_put sBool.field_put sEnum.field_put

lemma OutField_cputs:
  assumes "eps_documented L"
  shows "cputs (exec_op L (OutField n v)) (op_bytes (OutField n v))"
proof -
  have "exec_op L (OutField n v) = (\<lambda>c. WriteTag L n (wire_of v) c \<bind> write_no_tag L v)"
    by (rule ext) simp
  then show ?thesis
    using assms by (cases v) (simp_all add: field_puts)
qed

lemma encoders:
  "Encode32 = (\<lambda>v. v)" "Encode64 = (\<lambda>v. v)" "Eps_ZigZagEncode32 = ZigZagEncode32" "Eps_ZigZagEncode64 = ZigZagEncode64"
  by (simp_all add: fun_eq_iff Encode32_def Encode64_def Eps_ZigZagEncode32_def Eps_ZigZagEncode64_def ZigZagEncode32_def ZigZagEncode64_def)

lemmas packed_defs = WriteInt32Packed_def[abs_def] WriteUInt32Packed_def[abs_def] WriteSInt32Packed_def[abs_def]
  WriteInt64Packed_def[abs_def] WriteUInt64Packed_def[abs_def] WriteSInt64Packed_def[abs_def] WriteEnumPacked_def[abs_def]

lemma OutPacked_puts:
  assumes "eps_documented L" "packed_fits r"
  shows "puts (write_packed L num sz r) (op_bytes (OutPacked num sz r))"
proof -
  note p = WriteVarintPacked_puts[OF assms(1)] and f = WriteFixedPacked_puts[OF assms(1)]
  show ?thesis
  proof (cases r)
    case (PUInt32 xs)
    then show ?thesis
      using assms(2) p[where encode = "\<lambda>v. v :: u32", OF length_UnsafeVarint_bound(1)[THEN order_trans]] by (simp add: packed_defs encoders)
  next
    case (PSInt32 xs)
    then show ?thesis
      using assms(2) p[where encode = ZigZagEncode32, OF length_UnsafeVarint_bound(1)[THEN order_trans]] by (simp add: packed_defs encoders)
  next
    case (PFixed32 xs)
    then show ?thesis
      using assms(2) f[where img = "le_bytes 4 :: u32 \<Rightarrow> bytes" and k = 4, of xs] by simp
  next
    case (PFixed64 xs)
    then show ?thesis
      using assms(2) f[where img = "le_bytes 8 :: u64 \<Rightarrow> bytes" and k = 8, of xs] by simp
  qed (use assms(2) in \<open>simp_all add: packed_defs encoders p[OF length_UnsafeVarint_bound(2)]\<close>)
qed

lemma exec_ops_cputs:
  assumes "eps_documented L"
  shows "op_fits op \<Longrightarrow> cputs (exec_op L op) (op_bytes op)" "ops_fit ops \<Longrightarrow> cputs (exec_ops L ops) (ops_bytes ops)"
proof (induction op and ops rule: op_fits_ops_fit.induct)
  case (1 num str)
  have "exec_op L (OutString num str) = on_impl (Eps_WriteString L num str)"
    by (rule ext) simp
  then show ?case
    using 1 on_impl_cputs[OF WriteString_puts(1)[OF assms]] by simp
next
  case (2 num str)
  have "exec_op L (OutStringAliased num str) = on_impl (WriteStringMaybeAliased L num str)"
    by (rule ext) simp
  then show ?case
    using 2 on_impl_cputs[OF WriteString_puts(2)[OF assms]] by simp
next
  case (3 str)
  then have "int_sized (length str) str = Some str"
    by (intro int_sized_small) simp_all
  then have "exec_op L (OutText str) = on_impl (Eps_WriteRaw L str)"
    by (intro ext) (simp add: COS_WriteString_def COS_WriteRaw_def)
  then show ?case
    using on_impl_cputs[OF WriteRaw_puts[OF assms]] by simp
next
  case (4 num sz r)
  have "exec_op L (OutPacked num sz r) = on_impl (write_packed L num sz r)"
    by (rule ext) simp
  then show ?case
    using 4 on_impl_cputs[OF OutPacked_puts[OF assms]] by simp
next
  case (5 n ops)
  have "exec_op L (OutGroup n ops) = (\<lambda>c. WriteTag L n WIRETYPE_START_GROUP c \<bind>
      (\<lambda>c. exec_ops L ops c \<bind> WriteTag L n WIRETYPE_END_GROUP))"
    by (rule ext) (simp add: WriteGroupNoVirtual_def)
  then show ?case
    using 5 cputs_bind[OF WriteTag_cputs[OF assms] cputs_bind[OF _ WriteTag_cputs[OF assms]]] by simp
next
  case (6 n sz ops)
  have "exec_op L (OutMessage n sz ops) = (\<lambda>c. WriteTag L n WIRETYPE_LENGTH_DELIMITED c \<bind>
      (\<lambda>c. WriteVarint32 L sz c \<bind> exec_ops L ops))"
    by (rule ext) (simp add: WriteMessageNoVirtual_def)
  then show ?case
    using 6 cputs_bind[OF WriteTag_cputs[OF assms] cputs_bind[OF WriteVarint32_cputs[OF assms]]] by simp
next
  case (7 n v)
  show ?case
    by (rule OutField_cputs[OF assms])
next
  case (8 data)
  have "exec_op L (OutRaw data) = on_impl (Eps_WriteRaw L data)"
    by (rule ext) (simp add: COS_WriteRaw_def)
  then show ?case
    using on_impl_cputs[OF WriteRaw_puts[OF assms]] by simp
next
  case (9 data)
  have "exec_op L (OutAliased data) = on_impl (Eps_WriteRawMaybeAliased L data)"
    by (rule ext) (simp add: COS_WriteRawMaybeAliased_def)
  then show ?case
    using on_impl_cputs[OF WriteRawMaybeAliased_puts[OF assms]] by simp
next
  case 10
  have "exec_ops L [] = Some"
    by (rule ext) simp
  then show ?case
    by (simp add: cputs_def)
next
  case (11 op ops)
  have "exec_ops L (op # ops) = (\<lambda>c. exec_op L op c \<bind> exec_ops L ops)"
    by (rule ext) simp
  then show ?case
    using 11 cputs_bind by simp
qed

lemma new_stream_ok: "out_ok (impl (new_CodedOutputStream det next before eager)) (cur (new_CodedOutputStream det next before eager)) before"
  by (auto simp: new_CodedOutputStream_def new_EpsCopyOutputStream_def InitEagerly_def SetInitialBuffer_def
      out_ok_def eps_ok_def written_def kSlopBytes_def Let_def split: option.splits prod.splits)

text \<open>
  C11: Whatever a serializer writes to a new stream, eagerly initialised with a buffer of any size or
  not, is stored within the buffers, and, unless an error is reported, the output is what the stream
  had before followed by the bytes the wire format has for the fields, in order: for a scalar field
  those of the array writers, for nested groups and messages those of their contents.
\<close>

theorem stream_writes_wire_format:
  assumes "eps_documented L" "ops_fit ops"
  shows "\<exists>c. exec_ops L ops (new_CodedOutputStream det next before eager) = Some c \<and>
    cur c \<le> length (obuf (impl c)) \<and> (\<not> HadError (impl c) \<longrightarrow> written (impl c) (cur c) = before @ ops_bytes ops)"
proof -
  obtain c where "exec_ops L ops (new_CodedOutputStream det next before eager) = Some c" "out_ok (impl c) (cur c) (before @ ops_bytes ops)"
    using exec_ops_cputs(2)[OF assms] new_stream_ok unfolding cputs_def by blast
  then show ?thesis
    by (auto simp: out_ok_def eps_ok_def HadError_def)
qed

theorem stream_writes_wire_format_witness:
  "\<exists>c. exec_ops flush_lib [OutField 1 (VInt32 300), OutString 2 [104, 105], OutMessage 3 2 [OutField 1 (VBool True)], OutPacked 4 2 (PSInt32 [- 1, 2])]
      (new_CodedOutputStream False (Some [0, 0]) [7] True) = Some c \<and> cur c \<le> length (obuf (impl c)) \<and>
    (\<not> HadError (impl c) \<longrightarrow> written (impl c) (cur c) = [7] @ ops_bytes
      [OutField 1 (VInt32 300), OutString 2 [104, 105], OutMessage 3 2 [OutField 1 (VBool True)], OutPacked 4 2 (PSInt32 [- 1, 2])])"
  by (rule stream_writes_wire_format[OF eps_documented_flush_lib]) simp

end
