(* ===== verification/Eps_Input.thy ===== *)
theory Eps_Input
  imports Coded_Output
begin

text \<open>
  \<open>EpsCopyInputStream\<close> of \<open>google/protobuf/parse_context.h\<close>: input in chunks that
  have sixteen readable bytes behind their end, so that a tag with its value is read without a test.

  The chunk \<open>buffer_end_\<close> points into is a list of bytes and pointers are offsets in it; a null pointer
  is \<open>None\<close>. What \<open>next_chunk_\<close>, \<open>patch_buffer_\<close> and the stream still hold is \<open>ahead\<close>, the bytes of the
  input from \<open>buffer_end_\<close> on. A read outside of the chunk and a violated \<open>DCHECK\<close> are undefined
  behaviour, the outer \<open>None\<close>; so is a loop that does not end. What the header only declares is a record
  of parameters; \<open>failed_size\<close> is the number \<open>ReadSizeFallback\<close> returns with a null pointer.

  Limits are unbounded integers. Shown is that the chunks do not matter: appending bytes and reading packed fields of either
  kind give what a reading of the whole input gives.
\<close>

subsection \<open>State\<close>

definition In_kSlopBytes :: nat where "In_kSlopBytes = 16"
definition kPatchBufferSize :: nat where "kPatchBufferSize = 32"
definition kMaxCordBytesToCopy :: int where "kMaxCordBytesToCopy = 512"

datatype chunk = NoChunk | PatchChunk | StreamChunk
datatype aliasing = NoAliasing | OnPatch | NoDelta | Delta

record eps_in =
  ibuf :: bytes
  buffer_end :: nat
  limit_end :: int
  next_chunk :: chunk
  in_size :: int
  in_limit :: int
  ahead :: bytes
  in_aliasing :: aliasing
  last_tag_minus_1 :: u32
  overall_limit :: int

record eps_in_lib =
  Next :: "eps_in \<Rightarrow> nat option \<times> eps_in"
  DoneFallback :: "int \<Rightarrow> int \<Rightarrow> eps_in \<Rightarrow> (nat option \<times> bool) \<times> eps_in"
  InitFrom_stream :: "eps_in \<Rightarrow> nat option \<times> eps_in"
  StreamBackUp_zcis :: "int \<Rightarrow> eps_in \<Rightarrow> eps_in"
  SkipFallback :: "nat \<Rightarrow> int \<Rightarrow> eps_in \<Rightarrow> nat option \<times> eps_in"
  ReadStringFallback :: "nat \<Rightarrow> int \<Rightarrow> bytes \<Rightarrow> eps_in \<Rightarrow> nat option \<times> bytes \<times> eps_in"
  AppendStringFallback :: "nat \<Rightarrow> int \<Rightarrow> bytes \<Rightarrow> eps_in \<Rightarrow> nat option \<times> bytes \<times> eps_in"
  ReadCordFallback :: "nat \<Rightarrow> int \<Rightarrow> bytes \<Rightarrow> eps_in \<Rightarrow> nat option \<times> bytes \<times> eps_in"
  VarintParseSlow64 :: "bytes \<Rightarrow> u32 \<Rightarrow> (nat \<times> u64) option"
  VarintParseSlow32 :: "bytes \<Rightarrow> u32 \<Rightarrow> (nat \<times> u32) option"
  ReadTagFallback :: "bytes \<Rightarrow> u32 \<Rightarrow> (nat \<times> u32) option"
  ReadSizeFallback :: "bytes \<Rightarrow> u32 \<Rightarrow> (nat \<times> u32) option"
  failed_size :: "bytes \<Rightarrow> u32"

text \<open>Reading \<open>n\<close> bytes at a pointer, and a test that so many can be read.\<close>

definition peek :: "bytes \<Rightarrow> nat \<Rightarrow> int \<Rightarrow> bytes option" where
  "peek m ptr n = (if 0 \<le> n \<and> int ptr + n \<le> int (length m) then Some (take (nat n) (drop ptr m)) else None)"

definition chunk_left :: "eps_in \<Rightarrow> nat \<Rightarrow> int" where
  "chunk_left s ptr = int (buffer_end s) + int In_kSlopBytes - int ptr"

subsection \<open>Construction\<close>

definition new_EpsCopyInputStream :: "bool \<Rightarrow> eps_in" where
  "new_EpsCopyInputStream enable_aliasing =
     \<lparr>ibuf = replicate kPatchBufferSize 0, buffer_end = 0, limit_end = 0, next_chunk = NoChunk, in_size = 0, in_limit = 0,
      ahead = [], in_aliasing = (if enable_aliasing then OnPatch else NoAliasing), last_tag_minus_1 = 0, overall_limit = INT_MAX\<rparr>"

text \<open>\<open>InitFrom\<close> is called by a constructor: the memory is the patch buffer.\<close>

definition InitFrom :: "bytes \<Rightarrow> eps_in \<Rightarrow> nat \<times> eps_in" where
  "InitFrom flat s =
     (let s = s\<lparr>overall_limit := 0\<rparr> in
      if length flat > In_kSlopBytes then
        let e = length flat - In_kSlopBytes in
        (0, s\<lparr>in_limit := int In_kSlopBytes, ibuf := flat, ahead := drop e flat, limit_end := int e, buffer_end := e,
              next_chunk := PatchChunk, in_aliasing := (if in_aliasing s = OnPatch then NoDelta else in_aliasing s)\<rparr>)
      else
        (0, s\<lparr>ibuf := flat @ drop (length flat) (ibuf s), ahead := [], in_limit := 0,
              limit_end := int (length flat), buffer_end := length flat, next_chunk := NoChunk,
              in_aliasing := (if in_aliasing s = OnPatch then Delta else in_aliasing s)\<rparr>))"

definition InitFrom_limited :: "eps_in_lib \<Rightarrow> int \<Rightarrow> eps_in \<Rightarrow> (nat option \<times> eps_in)" where
  "InitFrom_limited L limit s =
     (if limit = - 1 then InitFrom_stream L s
      else case InitFrom_stream L (s\<lparr>overall_limit := limit\<rparr>) of
        (None, s) \<Rightarrow> (None, s)
      | (Some res, s) \<Rightarrow>
          let l = limit - (int (buffer_end s) - int res)
          in (Some res, s\<lparr>in_limit := l, limit_end := int (buffer_end s) + min 0 l\<rparr>))"

definition StreamBackUp :: "eps_in_lib \<Rightarrow> int \<Rightarrow> eps_in \<Rightarrow> eps_in" where
  "StreamBackUp L count s = (let s = StreamBackUp_zcis L count s in s\<lparr>overall_limit := overall_limit s + count\<rparr>)"

definition EI_BackUp :: "eps_in_lib \<Rightarrow> nat \<Rightarrow> eps_in \<Rightarrow> eps_in option" where
  "EI_BackUp L ptr s = do {
     DCHECK (ptr \<le> buffer_end s + In_kSlopBytes);
     let count = (if next_chunk s = PatchChunk then chunk_left s ptr else in_size s + (int (buffer_end s) - int ptr));
     Some (if count > 0 then StreamBackUp L count s else s)
   }"

subsection \<open>Limits and the end of a parse\<close>

definition EI_PushLimit :: "nat \<Rightarrow> int \<Rightarrow> eps_in \<Rightarrow> (int \<times> eps_in) option" where
  "EI_PushLimit ptr limit s = do {
     DCHECK (limit \<ge> 0 \<and> limit \<le> INT_MAX - int In_kSlopBytes);
     let limit = limit + (int ptr - int (buffer_end s));
     Some (in_limit s - limit, s\<lparr>limit_end := int (buffer_end s) + min 0 limit, in_limit := limit\<rparr>)
   }"

definition LastTag :: "eps_in \<Rightarrow> u32" where "LastTag s = last_tag_minus_1 s + 1"

definition ConsumeEndGroup :: "u32 \<Rightarrow> eps_in \<Rightarrow> bool \<times> eps_in" where
  "ConsumeEndGroup start_tag s = (last_tag_minus_1 s = start_tag, s\<lparr>last_tag_minus_1 := 0\<rparr>)"

definition EndedAtLimit :: "eps_in \<Rightarrow> bool" where "EndedAtLimit s \<longleftrightarrow> last_tag_minus_1 s = 0"
definition EndedAtEndOfStream :: "eps_in \<Rightarrow> bool" where "EndedAtEndOfStream s \<longleftrightarrow> last_tag_minus_1 s = 1"
definition EI_SetLastTag :: "u32 \<Rightarrow> eps_in \<Rightarrow> eps_in" where "EI_SetLastTag tag s = s\<lparr>last_tag_minus_1 := tag - 1\<rparr>"
definition SetEndOfStream :: "eps_in \<Rightarrow> eps_in" where "SetEndOfStream s = s\<lparr>last_tag_minus_1 := 1\<rparr>"

definition EI_PopLimit :: "int \<Rightarrow> eps_in \<Rightarrow> bool \<times> eps_in" where
  "EI_PopLimit delta s =
     (let s = s\<lparr>in_limit := in_limit s + delta\<rparr> in
      if \<not> EndedAtLimit s then (False, s)
      else (True, s\<lparr>limit_end := int (buffer_end s) + min 0 (in_limit s)\<rparr>))"

definition IsExceedingLimit :: "nat \<Rightarrow> eps_in \<Rightarrow> bool" where
  "IsExceedingLimit ptr s \<longleftrightarrow> int ptr > limit_end s \<and> (next_chunk s = NoChunk \<or> int ptr - int (buffer_end s) > in_limit s)"

definition AliasingEnabled :: "eps_in \<Rightarrow> bool" where "AliasingEnabled s \<longleftrightarrow> in_aliasing s \<noteq> NoAliasing"

definition EI_BytesUntilLimit :: "nat \<Rightarrow> eps_in \<Rightarrow> int" where
  "EI_BytesUntilLimit ptr s = in_limit s + (int (buffer_end s) - int ptr)"

definition MaximumReadSize :: "nat \<Rightarrow> eps_in \<Rightarrow> int" where
  "MaximumReadSize ptr s = (limit_end s - int ptr) + int In_kSlopBytes"

definition DataAvailable :: "nat \<Rightarrow> eps_in \<Rightarrow> bool" where "DataAvailable ptr s \<longleftrightarrow> int ptr < limit_end s"

definition DoneWithCheck :: "eps_in_lib \<Rightarrow> int \<Rightarrow> nat \<Rightarrow> eps_in \<Rightarrow> ((nat option \<times> bool) \<times> eps_in) option" where
  "DoneWithCheck L d ptr s =
     (if int ptr < limit_end s then Some ((Some ptr, False), s)
      else let overrun = int ptr - int (buffer_end s) in do {
        DCHECK (overrun \<le> int In_kSlopBytes);
        if overrun = in_limit s
        then Some ((if overrun > 0 \<and> next_chunk s = NoChunk then None else Some ptr, True), s)
        else Some (DoneFallback L overrun d s)
      })"


text \<open>\<open>Next\<close> of the stream gives its next buffer, if any.\<close>

definition StreamNext :: "bytes option \<Rightarrow> eps_in \<Rightarrow> bytes option \<times> eps_in" where
  "StreamNext next s =
     (case next of None \<Rightarrow> (None, s)
      | Some data \<Rightarrow> (Some data, s\<lparr>in_size := int (length data), overall_limit := overall_limit s - int (length data)\<rparr>))"

subsection \<open>Bytes\<close>

definition EI_Skip :: "eps_in_lib \<Rightarrow> nat \<Rightarrow> int \<Rightarrow> eps_in \<Rightarrow> nat option \<times> eps_in" where
  "EI_Skip L ptr sz s = (if sz \<le> chunk_left s ptr then (Some (nat (int ptr + sz)), s) else SkipFallback L ptr sz s)"

definition EI_ReadString :: "eps_in_lib \<Rightarrow> nat \<Rightarrow> int \<Rightarrow> bytes \<Rightarrow> eps_in \<Rightarrow> (nat option \<times> bytes \<times> eps_in) option" where
  "EI_ReadString L ptr sz str s =
     (if sz \<le> chunk_left s ptr then do { str \<leftarrow> peek (ibuf s) ptr sz; Some (Some (ptr + nat sz), str, s) }
      else Some (ReadStringFallback L ptr sz str s))"

definition EI_AppendString :: "eps_in_lib \<Rightarrow> nat \<Rightarrow> int \<Rightarrow> bytes \<Rightarrow> eps_in \<Rightarrow> (nat option \<times> bytes \<times> eps_in) option" where
  "EI_AppendString L ptr sz str s =
     (if sz \<le> chunk_left s ptr then do { bs \<leftarrow> peek (ibuf s) ptr sz; Some (Some (ptr + nat sz), str @ bs, s) }
      else Some (AppendStringFallback L ptr sz str s))"

definition EI_ReadCord :: "eps_in_lib \<Rightarrow> nat \<Rightarrow> int \<Rightarrow> bytes \<Rightarrow> eps_in \<Rightarrow> (nat option \<times> bytes \<times> eps_in) option" where
  "EI_ReadCord L ptr sz cord s =
     (if sz \<le> min (chunk_left s ptr) kMaxCordBytesToCopy then do { bs \<leftarrow> peek (ibuf s) ptr sz; Some (Some (ptr + nat sz), bs, s) }
      else Some (ReadCordFallback L ptr sz cord s))"

text \<open>The loop tests at its end.\<close>

partial_function (option) append_size_loop :: "eps_in_lib \<Rightarrow> (bytes \<Rightarrow> 'a \<Rightarrow> 'a) \<Rightarrow> nat \<Rightarrow> int \<Rightarrow> int \<Rightarrow> eps_in \<Rightarrow> 'a
    \<Rightarrow> (nat option \<times> eps_in \<times> 'a) option" where
  "append_size_loop L app ptr sz chunk_size s a = do {
     DCHECK (sz > chunk_size);
     if next_chunk s = NoChunk then Some (None, s, a)
     else do {
       bs \<leftarrow> peek (ibuf s) ptr chunk_size;
       let a = app bs a;
       let sz = sz - chunk_size;
       if in_limit s \<le> int In_kSlopBytes then Some (None, s, a)
       else case Next L s of
         (None, s) \<Rightarrow> Some (None, s, a)
       | (Some ptr, s) \<Rightarrow>
           let ptr = ptr + In_kSlopBytes; chunk_size = chunk_left s ptr in
           if sz > chunk_size then append_size_loop L app ptr sz chunk_size s a
           else do { bs \<leftarrow> peek (ibuf s) ptr sz; Some (Some (ptr + nat sz), s, app bs a) }
     }
   }"

definition AppendSize :: "eps_in_lib \<Rightarrow> (bytes \<Rightarrow> 'a \<Rightarrow> 'a) \<Rightarrow> nat \<Rightarrow> int \<Rightarrow> eps_in \<Rightarrow> 'a \<Rightarrow> (nat option \<times> eps_in \<times> 'a) option" where
  "AppendSize L app ptr sz s a = append_size_loop L app ptr sz (chunk_left s ptr) s a"

partial_function (option) append_end_loop :: "eps_in_lib \<Rightarrow> (bytes \<Rightarrow> 'a \<Rightarrow> 'a) \<Rightarrow> nat \<Rightarrow> eps_in \<Rightarrow> 'a
    \<Rightarrow> (int option \<times> eps_in \<times> 'a) option" where
  "append_end_loop L app ptr s a =
     (if in_limit s > int In_kSlopBytes then do {
        bs \<leftarrow> peek (ibuf s) ptr (chunk_left s ptr);
        let a = app bs a;
        case Next L s of
          (None, s) \<Rightarrow> Some (Some (limit_end s), s, a)
        | (Some ptr, s) \<Rightarrow> append_end_loop L app (ptr + In_kSlopBytes) s a
      }
      else let e = int (buffer_end s) + in_limit s in do {
        DCHECK (e \<ge> int ptr);
        bs \<leftarrow> peek (ibuf s) ptr (e - int ptr);
        Some (Some e, s, app bs a)
      })"

definition AppendUntilEnd :: "eps_in_lib \<Rightarrow> (bytes \<Rightarrow> 'a \<Rightarrow> 'a) \<Rightarrow> nat \<Rightarrow> eps_in \<Rightarrow> 'a \<Rightarrow> (int option \<times> eps_in \<times> 'a) option" where
  "AppendUntilEnd L app ptr s a =
     (if int ptr - int (buffer_end s) > in_limit s then Some (None, s, a) else append_end_loop L app ptr s a)"

definition AppendString_end :: "eps_in_lib \<Rightarrow> nat \<Rightarrow> eps_in \<Rightarrow> bytes \<Rightarrow> (int option \<times> eps_in \<times> bytes) option" where
  "AppendString_end L ptr s str = AppendUntilEnd L (\<lambda>bs str. str @ bs) ptr s str"

subsection \<open>Numbers\<close>

text \<open>The readers of numbers get the bytes from the pointer on; so many as they may read must be there.\<close>

definition parse_at :: "nat \<Rightarrow> (bytes \<Rightarrow> (nat \<times> 'v) option) \<Rightarrow> bytes \<Rightarrow> nat \<Rightarrow> (nat \<times> 'v) option option" where
  "parse_at n f m ptr = do {
     DCHECK (ptr + n \<le> length m);
     Some (map_option (\<lambda>(k, v). (ptr + k, v)) (f (drop ptr m)))
   }"

definition EI_ReadVarint64 :: "eps_in_lib \<Rightarrow> bytes \<Rightarrow> (nat \<times> u64) option" where
  "EI_ReadVarint64 L p = VarintParse (VarintParseSlow64 L) p"

definition EI_ReadVarint32 :: "eps_in_lib \<Rightarrow> bytes \<Rightarrow> (nat \<times> u32) option" where
  "EI_ReadVarint32 L p = VarintParse (VarintParseSlow32 L) p"

definition ReadVarintZigZag64 :: "eps_in_lib \<Rightarrow> bytes \<Rightarrow> (nat \<times> i64) option" where
  "ReadVarintZigZag64 L p = map_option (\<lambda>(k, tmp). (k, ZigZagDecode64 tmp)) (VarintParse (VarintParseSlow64 L) p)"

definition ReadVarintZigZag32 :: "eps_in_lib \<Rightarrow> bytes \<Rightarrow> (nat \<times> i32) option" where
  "ReadVarintZigZag32 L p = map_option (\<lambda>(k, tmp). (k, ZigZagDecode32 (ucast tmp))) (VarintParse (VarintParseSlow64 L) p)"

subsection \<open>Repeated and packed fields\<close>

text \<open>\<open>load_T\<close> and \<open>load_Tag\<close> are the loads of an element and of a tag, with their sizes.\<close>

partial_function (option) ReadRepeatedFixed :: "rf_env \<Rightarrow> (bytes \<Rightarrow> 'v) \<Rightarrow> nat \<Rightarrow> (bytes \<Rightarrow> 't) \<Rightarrow> nat \<Rightarrow> 't \<Rightarrow> nat \<Rightarrow> eps_in
    \<Rightarrow> 'v RepeatedField \<Rightarrow> (nat \<times> 'v RepeatedField) option" where
  "ReadRepeatedFixed e load_T sizeof_T load_Tag sizeof_Tag expected_tag ptr s out = do {
     bs \<leftarrow> peek (ibuf s) ptr (int sizeof_T);
     out \<leftarrow> rf_Add e (load_T bs) out;
     let ptr = ptr + sizeof_T;
     if int ptr \<ge> limit_end s then Some (ptr, out)
     else do {
       tg \<leftarrow> peek (ibuf s) ptr (int sizeof_Tag);
       if load_Tag tg = expected_tag
       then ReadRepeatedFixed e load_T sizeof_T load_Tag sizeof_Tag expected_tag (ptr + sizeof_Tag) s out
       else Some (ptr, out)
     }
   }"

text \<open>Appending the elements that a block of memory holds, as on a little-endian machine.\<close>

definition add_block :: "rf_env \<Rightarrow> (bytes \<Rightarrow> 'v) \<Rightarrow> int \<Rightarrow> bytes \<Rightarrow> 'v RepeatedField \<Rightarrow> 'v RepeatedField option" where
  "add_block e dec num block out = do {
     let old_entries = rf_size out;
     out \<leftarrow> Reserve e (old_entries + num) out;
     (dst, out) \<leftarrow> AddNAlreadyReserved num out;
     blit (map Some (elements_of dec (nat (sizeof_Element e)) (nat num) block)) dst out
   }"

partial_function (option) packed_fixed_loop :: "eps_in_lib \<Rightarrow> rf_env \<Rightarrow> (bytes \<Rightarrow> 'v) \<Rightarrow> nat \<Rightarrow> int \<Rightarrow> eps_in \<Rightarrow> 'v RepeatedField
    \<Rightarrow> (nat option \<times> eps_in \<times> 'v RepeatedField) option" where
  "packed_fixed_loop L e dec ptr sz s out =
     (let nbytes = chunk_left s ptr in
      if sz > nbytes then
        (let num = nbytes div sizeof_Element e; block_size = num * sizeof_Element e in do {
           block \<leftarrow> peek (ibuf s) ptr block_size;
           out \<leftarrow> add_block e dec num block out;
           let sz = sz - block_size;
           if in_limit s \<le> int In_kSlopBytes then Some (None, s, out)
           else case Next L s of
             (None, s) \<Rightarrow> Some (None, s, out)
           | (Some ptr, s) \<Rightarrow> packed_fixed_loop L e dec (nat (int ptr + int In_kSlopBytes - (nbytes - block_size))) sz s out
         })
      else
        (let num = sz div sizeof_Element e; block_size = num * sizeof_Element e in
         if num = 0 then Some (if sz = block_size then Some ptr else None, s, out)
         else do {
           block \<leftarrow> peek (ibuf s) ptr block_size;
           out \<leftarrow> add_block e dec num block out;
           Some (if sz \<noteq> block_size then None else Some (nat (int ptr + block_size)), s, out)
         }))"

definition ReadPackedFixed :: "eps_in_lib \<Rightarrow> rf_env \<Rightarrow> (bytes \<Rightarrow> 'v) \<Rightarrow> nat option \<Rightarrow> int \<Rightarrow> eps_in \<Rightarrow> 'v RepeatedField
    \<Rightarrow> (nat option \<times> eps_in \<times> 'v RepeatedField) option" where
  "ReadPackedFixed L e dec ptr sz s out =
     (case ptr of None \<Rightarrow> Some (None, s, out) | Some ptr \<Rightarrow> packed_fixed_loop L e dec ptr sz s out)"

partial_function (option) ReadPackedVarintArray :: "eps_in_lib \<Rightarrow> (u64 \<Rightarrow> 'a \<Rightarrow> 'a) \<Rightarrow> bytes \<Rightarrow> nat \<Rightarrow> int \<Rightarrow> 'a
    \<Rightarrow> (nat option \<times> 'a) option" where
  "ReadPackedVarintArray L add m ptr e a =
     (if int ptr < e then do {
        r \<leftarrow> parse_at 10 (VarintParse (VarintParseSlow64 L)) m ptr;
        case r of None \<Rightarrow> Some (None, a)
        | Some (ptr, varint) \<Rightarrow> ReadPackedVarintArray L add m ptr e (add varint a)
      }
      else Some (Some ptr, a))"

text \<open>When the rest of the field is within the sixteen bytes, they are copied and followed by ten zeros.\<close>

definition slop_copy :: "eps_in \<Rightarrow> bytes" where
  "slop_copy s = take In_kSlopBytes (drop (buffer_end s) (ibuf s)) @ replicate 10 0"

partial_function (option) packed_varint_loop :: "eps_in_lib \<Rightarrow> (u64 \<Rightarrow> 'a \<Rightarrow> 'a) \<Rightarrow> nat \<Rightarrow> int \<Rightarrow> eps_in \<Rightarrow> 'a
    \<Rightarrow> (nat option \<times> eps_in \<times> 'a) option" where
  "packed_varint_loop L add ptr sz s a =
     (let chunk_size = int (buffer_end s) - int ptr in
      if sz > chunk_size then do {
        (r, a) \<leftarrow> ReadPackedVarintArray L add (ibuf s) ptr (int (buffer_end s)) a;
        case r of None \<Rightarrow> Some (None, s, a)
        | Some ptr \<Rightarrow>
            let overrun = int ptr - int (buffer_end s) in do {
            DCHECK (overrun \<ge> 0 \<and> overrun \<le> int In_kSlopBytes);
            if sz - chunk_size \<le> int In_kSlopBytes then do {
              (res, a) \<leftarrow> ReadPackedVarintArray L add (slop_copy s) (nat overrun) (sz - chunk_size) a;
              Some (case res of None \<Rightarrow> None
                | Some res \<Rightarrow> if int res \<noteq> sz - chunk_size then None else Some (buffer_end s + res), s, a)
            }
            else do {
              let sz = sz - (overrun + chunk_size);
              DCHECK (sz > 0);
              if in_limit s \<le> int In_kSlopBytes then Some (None, s, a)
              else case Next L s of
                (None, s) \<Rightarrow> Some (None, s, a)
              | (Some ptr, s) \<Rightarrow> packed_varint_loop L add (ptr + nat overrun) sz s a
            }
          }
      }
      else do {
        (r, a) \<leftarrow> ReadPackedVarintArray L add (ibuf s) ptr (int ptr + sz) a;
        Some (case r of None \<Rightarrow> None | Some p \<Rightarrow> if int p = int ptr + sz then Some p else None, s, a)
      })"

definition ReadPackedVarint :: "eps_in_lib \<Rightarrow> (u64 \<Rightarrow> 'a \<Rightarrow> 'a) \<Rightarrow> (int \<Rightarrow> 'a \<Rightarrow> 'a) \<Rightarrow> nat \<Rightarrow> eps_in \<Rightarrow> 'a
    \<Rightarrow> (nat option \<times> eps_in \<times> 'a) option" where
  "ReadPackedVarint L add size_callback ptr s a = do {
     r \<leftarrow> parse_at 5 (ReadSize (ReadSizeFallback L)) (ibuf s) ptr;
     case r of None \<Rightarrow> Some (None, s, size_callback (sint (failed_size L (drop ptr (ibuf s)))) a)
     | Some (ptr, sz) \<Rightarrow> packed_varint_loop L add ptr (sint sz) s (size_callback (sint sz) a)
   }"

text \<open>The values that are valid go to the field, the others with their number to the unknown fields.\<close>

definition PackedEnumParser :: "eps_in_lib \<Rightarrow> rf_env \<Rightarrow> (i32 \<Rightarrow> bool) \<Rightarrow> (u32 \<Rightarrow> u64 \<Rightarrow> 'u \<Rightarrow> 'u) \<Rightarrow> u32 \<Rightarrow> nat \<Rightarrow> eps_in
    \<Rightarrow> i32 RepeatedField option \<times> 'u \<Rightarrow> (nat option \<times> eps_in \<times> i32 RepeatedField option \<times> 'u) option" where
  "PackedEnumParser L e is_valid WriteVarint field_num ptr s a =
     ReadPackedVarint L (\<lambda>varint (f, u). let val = (ucast varint :: i32) in
         if is_valid val then (f \<bind> rf_Add e val, u) else (f, WriteVarint field_num (scast val) u))
       (\<lambda>_ a. a) ptr s a"

definition PackedEnumParserArg :: "eps_in_lib \<Rightarrow> rf_env \<Rightarrow> ('d \<Rightarrow> i32 \<Rightarrow> bool) \<Rightarrow> 'd \<Rightarrow> (u32 \<Rightarrow> u64 \<Rightarrow> 'u \<Rightarrow> 'u) \<Rightarrow> u32 \<Rightarrow> nat \<Rightarrow> eps_in
    \<Rightarrow> i32 RepeatedField option \<times> 'u \<Rightarrow> (nat option \<times> eps_in \<times> i32 RepeatedField option \<times> 'u) option" where
  "PackedEnumParserArg L e is_valid data WriteVarint field_num ptr s a =
     ReadPackedVarint L (\<lambda>varint (f, u). let val = (ucast varint :: i32) in
         if is_valid data val then (f \<bind> rf_Add e val, u) else (f, WriteVarint field_num (scast val) u))
       (\<lambda>_ a. a) ptr s a"


subsection \<open>The input that chunks present\<close>

definition line :: "eps_in \<Rightarrow> bytes" where "line s = take (buffer_end s) (ibuf s) @ ahead s"
definition rest_at :: "eps_in \<Rightarrow> nat \<Rightarrow> bytes" where "rest_at s ptr = drop ptr (line s)"

text \<open>
  Sixteen bytes behind the chunk can be read and are those of the input as far as there are any; the
  limits are kept relative to the end of the chunk.
\<close>

definition in_ok :: "eps_in \<Rightarrow> bool" where
  "in_ok s \<longleftrightarrow> buffer_end s + In_kSlopBytes \<le> length (ibuf s) \<and>
     take (length (ahead s)) (take In_kSlopBytes (drop (buffer_end s) (ibuf s))) = take In_kSlopBytes (ahead s) \<and>
     (next_chunk s = NoChunk \<longleftrightarrow> ahead s = []) \<and>
     limit_end s = int (buffer_end s) + min 0 (in_limit s) \<and>
     0 \<le> in_limit s + int (buffer_end s)"

text \<open>The pointer stands before \<open>rest\<close>, with \<open>b\<close> bytes to the limit and \<open>t\<close> as the remembered end.\<close>

definition stands :: "eps_in \<Rightarrow> nat \<Rightarrow> bytes \<Rightarrow> int \<Rightarrow> u32 \<Rightarrow> bool" where
  "stands s ptr rest b t \<longleftrightarrow> in_ok s \<and> ptr \<le> buffer_end s + In_kSlopBytes \<and> ptr \<le> length (line s) \<and> rest_at s ptr = rest \<and>
     EI_BytesUntilLimit ptr s = b \<and> last_tag_minus_1 s = t"

text \<open>
  The documented behaviour of the compiled functions. \<open>Next\<close> goes on to a chunk that starts where the
  last one ended, or reports the end of the input. \<open>DoneFallback\<close> goes on to a chunk that has more
  than the overrun, unless the limit is passed or the input ends there. The readers of numbers
  continue what their inline part began; a size of up to five bytes is refused when its whole value,
  before it is cut to 32 bits, does not fit an \<open>int32_t\<close>, and accepted when the slop bytes can be added to it.
\<close>

definition next_documented :: "eps_in_lib \<Rightarrow> bool" where
  "next_documented L \<longleftrightarrow> (\<forall>s. in_ok s \<and> in_limit s > int In_kSlopBytes \<longrightarrow>
     (if next_chunk s = NoChunk
      then Next L s = (None, s\<lparr>limit_end := int (buffer_end s), last_tag_minus_1 := 1\<rparr>)
      else \<exists>s'. Next L s = (Some 0, s') \<and> in_ok s' \<and> line s' = ahead s \<and> 0 < buffer_end s' \<and>
        in_limit s' = in_limit s - int (buffer_end s') \<and> last_tag_minus_1 s' = last_tag_minus_1 s))"

definition done_documented :: "eps_in_lib \<Rightarrow> bool" where
  "done_documented L \<longleftrightarrow> (\<forall>s ptr d. in_ok s \<and> limit_end s \<le> int ptr \<and> ptr \<le> buffer_end s + In_kSlopBytes \<and> d < 0 \<and>
     int ptr - int (buffer_end s) \<noteq> in_limit s \<longrightarrow>
     (if int ptr - int (buffer_end s) > in_limit s \<or> length (line s) < ptr
      then \<exists>s'. DoneFallback L (int ptr - int (buffer_end s)) d s = ((None, True), s')
      else if length (line s) = ptr
      then \<exists>s' ptr'. DoneFallback L (int ptr - int (buffer_end s)) d s = ((Some ptr', True), s') \<and> EndedAtEndOfStream s'
      else \<exists>s' ptr'. DoneFallback L (int ptr - int (buffer_end s)) d s = ((Some ptr', False), s') \<and> int ptr' < limit_end s' \<and>
        stands s' ptr' (rest_at s ptr) (EI_BytesUntilLimit ptr s) (last_tag_minus_1 s)))"

definition numbers_documented :: "eps_in_lib \<Rightarrow> bool" where
  "numbers_documented L \<longleftrightarrow>
     (\<forall>p. 10 \<le> length p \<and> continues (p ! 0) \<longrightarrow>
        VarintParseSlow64 L p (ucast (p ! 0)) = parse_varint 10 p \<and> VarintParseSlow32 L p (ucast (p ! 0)) = parse_varint 10 p) \<and>
     (\<forall>p. 5 \<le> length p \<and> continues (p ! 0) \<and> continues (p ! 1) \<longrightarrow>
        ReadTagFallback L p (varint_value (take 2 p) + 2 ^ 14) = parse_varint 5 p) \<and>
     (\<forall>p. 5 \<le> length p \<and> continues (p ! 0) \<longrightarrow>
        (case parse_varint 5 p of None \<Rightarrow> ReadSizeFallback L p (ucast (p ! 0)) = None
         | Some (n, v :: u64) \<Rightarrow>
             (int (unat v) \<le> INT_MAX - int In_kSlopBytes \<longrightarrow> ReadSizeFallback L p (ucast (p ! 0)) = Some (n, ucast v)) \<and>
             (INT_MAX < int (unat v) \<longrightarrow> ReadSizeFallback L p (ucast (p ! 0)) = None)))"

definition in_documented :: "eps_in_lib \<Rightarrow> bool" where
  "in_documented L \<longleftrightarrow> next_documented L \<and> done_documented L \<and> numbers_documented L"

lemma In_kSlopBytes_16 [simp]: "In_kSlopBytes = 16" "int In_kSlopBytes = 16"
  by (simp_all add: In_kSlopBytes_def)

lemma length_line: "in_ok s \<Longrightarrow> length (line s) = buffer_end s + length (ahead s)"
  by (simp add: in_ok_def line_def)

lemma standsD:
  assumes "stands s ptr rest b t"
  shows "in_ok s" "ptr \<le> buffer_end s + 16" "rest = drop ptr (line s)" "b = in_limit s + int (buffer_end s) - int ptr"
    "last_tag_minus_1 s = t" "buffer_end s + 16 \<le> length (ibuf s)" "length rest = buffer_end s + length (ahead s) - ptr" "ptr \<le> buffer_end s + length (ahead s)"
  using assms length_line[of s] by (auto simp: stands_def rest_at_def EI_BytesUntilLimit_def in_ok_def)

text \<open>Within the chunk and the sixteen bytes behind it the memory shows the input.\<close>

lemma line_window:
  assumes "in_ok s" "n \<le> buffer_end s + 16" "n \<le> length (line s)"
  shows "take n (ibuf s) = take n (line s)"
proof (cases "n \<le> buffer_end s")
  case False
  let ?e = "buffer_end s" and ?j = "n - buffer_end s"
  have j: "?j \<le> 16" "?j \<le> length (ahead s)" and e: "?e \<le> length (ibuf s)"
    using assms False length_line[OF assms(1)] by (auto simp: in_ok_def)
  have "take n (ibuf s) = take ?e (ibuf s) @ take ?j (drop ?e (ibuf s))"
    using False by (metis add_diff_inverse_nat nat_le_linear not_le take_add)
  also have "take ?j (drop ?e (ibuf s)) = take ?j (take (length (ahead s)) (take 16 (drop ?e (ibuf s))))"
    using j by (simp add: min_absorb1 min_absorb2)
  also have "\<dots> = take ?j (ahead s)"
    using assms(1) j by (simp add: in_ok_def min_absorb1)
  finally show ?thesis
    using e False by (simp add: line_def)
qed (use assms(1) in \<open>simp add: line_def in_ok_def\<close>)

lemma window:
  assumes "stands s ptr rest b t" "ptr + k \<le> buffer_end s + 16" "k \<le> length rest"
  shows "take k (drop ptr (ibuf s)) = take k rest"
proof (cases "k = 0")
  case False
  note d = standsD[OF assms(1)]
  have "take (ptr + k) (ibuf s) = take (ptr + k) (line s)"
    using assms(2,3) False length_line[OF d(1)] by (intro line_window[OF d(1)]) (simp_all add: d(7))
  then have "drop ptr (take (ptr + k) (ibuf s)) = drop ptr (take (ptr + k) (line s))"
    by simp
  then show ?thesis
    by (simp add: drop_take d(3))
qed simp

lemma peek_window:
  assumes "stands s ptr rest b t" "0 \<le> k" "int ptr + k \<le> int (buffer_end s) + 16" "k \<le> int (length rest)"
  shows "peek (ibuf s) ptr k = Some (take (nat k) rest)"
  using window[OF assms(1), of "nat k"] assms standsD(6)[OF assms(1)] by (simp add: peek_def)

lemma stands_advance:
  assumes "stands s ptr rest b t" "ptr + k \<le> buffer_end s + 16" "k \<le> length rest"
  shows "stands s (ptr + k) (drop k rest) (b - int k) t"
  using assms by (auto simp: stands_def rest_at_def EI_BytesUntilLimit_def add.commute)

text \<open>The next chunk, seen from a pointer at or behind the end of the last one.\<close>

lemma next_stands:
  assumes "next_documented L" "stands s q rest b t" "buffer_end s \<le> q" "ahead s \<noteq> []" "in_limit s > 16"
  obtains s' where "Next L s = (Some 0, s')" "stands s' (q - buffer_end s) rest b t" "length (ahead s') < length (ahead s)"
proof -
  note d = standsD[OF assms(2)]
  have "next_chunk s \<noteq> NoChunk"
    using d(1) assms(4) by (simp add: in_ok_def)
  then obtain s' where s': "Next L s = (Some 0, s')" "in_ok s'" "line s' = ahead s" "0 < buffer_end s'"
      "in_limit s' = in_limit s - int (buffer_end s')" "last_tag_minus_1 s' = last_tag_minus_1 s"
    using assms(1)[unfolded next_documented_def, THEN spec, of s] d(1) assms(5) by auto
  show thesis
  proof (rule that[OF s'(1)])
    show "stands s' (q - buffer_end s) rest b t"
      using s'(2,3,5,6) d(2-6,8) assms(3) by (auto simp: stands_def rest_at_def EI_BytesUntilLimit_def line_def)
    show "length (ahead s') < length (ahead s)"
      using length_line[OF s'(2)] s'(3,4) by simp
  qed
qed

text \<open>A chunk that is used up to the end of the bytes behind it, and the one after it.\<close>

lemma whole_chunk:
  assumes "next_documented L" "stands s ptr rest b t" "chunk_left s ptr < b" "chunk_left s ptr < int (length rest)"
  obtains k s' where "chunk_left s ptr = int k" "in_limit s > 16" "next_chunk s \<noteq> NoChunk"
    "peek (ibuf s) ptr (int k) = Some (take k rest)" "Next L s = (Some 0, s')"
    "stands s' 16 (drop k rest) (b - int k) t" "length (ahead s') < length (ahead s)"
proof -
  note d = standsD[OF assms(2)]
  define k where "k = buffer_end s + 16 - ptr"
  have k: "chunk_left s ptr = int k" "ptr + k = buffer_end s + 16"
    using d(2) by (simp_all add: chunk_left_def k_def)
  have lim: "in_limit s > 16" and ah: "ahead s \<noteq> []"
    using assms(3,4) d(4,7) k by auto
  have st: "stands s (buffer_end s + 16) (drop k rest) (b - int k) t"
    using stands_advance[OF assms(2), of k] k assms(4) by simp
  obtain s' where s': "Next L s = (Some 0, s')" "stands s' (buffer_end s + 16 - buffer_end s) (drop k rest) (b - int k) t"
      "length (ahead s') < length (ahead s)"
    by (rule next_stands[OF assms(1) st _ ah lim]) simp_all
  show thesis
  proof (rule that[OF k(1) lim])
    show "next_chunk s \<noteq> NoChunk"
      using d(1) ah by (simp add: in_ok_def)
    show "peek (ibuf s) ptr (int k) = Some (take k rest)"
      using peek_window[OF assms(2), of "int k"] assms(4) k by simp
  qed (use s' in simp_all)
qed

lemma take_drop_parts:
  assumes "int k \<le> n"
  shows "take (nat n) xs = take k xs @ take (nat (n - int k)) (drop k xs)" "drop (nat n) xs = drop (nat (n - int k)) (drop k xs)"
proof -
  have "k + nat (n - int k) = nat n"
    using assms by simp
  then show "take (nat n) xs = take k xs @ take (nat (n - int k)) (drop k xs)" "drop (nat n) xs = drop (nat (n - int k)) (drop k xs)"
    by (simp_all flip: take_add add: add.commute)
qed

subsection \<open>Appending bytes\<close>

definition appends_str :: "bytes \<Rightarrow> bytes \<Rightarrow> bytes" where "appends_str bs str = str @ bs"

lemma append_size_loop_ok:
  assumes "next_documented L"
  shows "stands s ptr rest b t \<Longrightarrow> chunk_left s ptr < sz \<Longrightarrow> sz \<le> int (length rest) \<Longrightarrow> sz \<le> b \<Longrightarrow>
    \<exists>ptr' s'. append_size_loop L appends_str ptr sz (chunk_left s ptr) s str = Some (Some ptr', s', str @ take (nat sz) rest) \<and>
      stands s' ptr' (drop (nat sz) rest) (b - sz) t"
proof (induction "length (ahead s)" arbitrary: s ptr rest b sz str rule: less_induct)
  case less
  have c: "chunk_left s ptr < b" "chunk_left s ptr < int (length rest)"
    using less.prems(2-4) by simp_all
  obtain k s' where k: "chunk_left s ptr = int k" "in_limit s > 16" "next_chunk s \<noteq> NoChunk"
      "peek (ibuf s) ptr (int k) = Some (take k rest)" "Next L s = (Some 0, s')"
    and s': "stands s' 16 (drop k rest) (b - int k) t" "length (ahead s') < length (ahead s)"
    by (rule whole_chunk[OF assms less.prems(1) c])
  let ?sz = "sz - int k"
  have eq: "append_size_loop L appends_str ptr sz (chunk_left s ptr) s str =
      (if ?sz > chunk_left s' 16 then append_size_loop L appends_str 16 ?sz (chunk_left s' 16) s' (str @ take k rest)
       else do { bs \<leftarrow> peek (ibuf s') 16 ?sz; Some (Some (16 + nat ?sz), s', (str @ take k rest) @ bs) })"
    using less.prems(2) k(2-5) unfolding k(1) by (subst append_size_loop.simps) (simp add: Let_def appends_str_def)
  have sz: "int k < sz" "0 \<le> ?sz" "?sz \<le> int (length (drop k rest))"
    using less.prems(2,3) k(1) by auto
  note parts = take_drop_parts[OF less_imp_le[OF sz(1)], of rest]
  show ?case
  proof (cases "?sz > chunk_left s' 16")
    case True
    then show ?thesis
      using less.hyps[OF s'(2,1) True, of "str @ take k rest"] less.prems(4) sz(3) unfolding eq parts by force
  next
    case False
    have "peek (ibuf s') 16 ?sz = Some (take (nat ?sz) (drop k rest))"
      using peek_window[OF s'(1), of ?sz] sz False by (simp add: chunk_left_def)
    moreover have "stands s' (16 + nat ?sz) (drop (nat ?sz) (drop k rest)) (b - int k - int (nat ?sz)) t"
      using stands_advance[OF s'(1), of "nat ?sz"] sz False by (simp add: chunk_left_def)
    ultimately show ?thesis
      using False sz(2) unfolding eq by (auto simp: parts)
  qed
qed

text \<open>Up to the limit, if the input is long enough.\<close>

lemma append_end_loop_ok:
  assumes "next_documented L"
  shows "stands s ptr rest b t \<Longrightarrow> 0 \<le> b \<Longrightarrow> b \<le> int (length rest) \<Longrightarrow>
    \<exists>ptr' s'. append_end_loop L appends_str ptr s str = Some (Some (int ptr'), s', str @ take (nat b) rest) \<and>
      stands s' ptr' (drop (nat b) rest) 0 t"
proof (induction "length (ahead s)" arbitrary: s ptr rest b str rule: less_induct)
  case less
  note d = standsD[OF less.prems(1)]
  show ?case
  proof (cases "in_limit s > 16")
    case True
    then have c: "chunk_left s ptr < b" "chunk_left s ptr < int (length rest)"
      using d(4) less.prems(3) by (simp_all add: chunk_left_def)
    obtain k s' where k: "chunk_left s ptr = int k" "in_limit s > 16" "next_chunk s \<noteq> NoChunk"
        "peek (ibuf s) ptr (int k) = Some (take k rest)" "Next L s = (Some 0, s')"
      and s': "stands s' 16 (drop k rest) (b - int k) t" "length (ahead s') < length (ahead s)"
      by (rule whole_chunk[OF assms less.prems(1) c])
    have eq: "append_end_loop L appends_str ptr s str = append_end_loop L appends_str 16 s' (str @ take k rest)"
      using True k by (subst append_end_loop.simps) (simp add: appends_str_def)
    have kb: "int k < b"
      using c(1) k(1) by simp
    show ?thesis
      using less.hyps[OF s'(2,1), of "str @ take k rest"] kb less.prems(3) unfolding eq take_drop_parts[OF less_imp_le[OF kb], of rest]
      by force
  next
    case False
    define e where "e = ptr + nat b"
    have e: "int (buffer_end s) + in_limit s = int e" "int e - int ptr = b" "e \<le> buffer_end s + 16"
      using False less.prems(2) d(4) by (simp_all add: e_def)
    have "peek (ibuf s) ptr b = Some (take (nat b) rest)"
      using peek_window[OF less.prems(1,2)] e less.prems(3) by simp
    moreover have "stands s e (drop (nat b) rest) 0 t"
      using stands_advance[OF less.prems(1), of "nat b"] e(3) less.prems(2,3) by (simp add: e_def)
    ultimately show ?thesis
      using False less.prems(2) e(2) by (subst append_end_loop.simps) (auto simp: Let_def e(1) appends_str_def)
  qed
qed


subsection \<open>Packed varints\<close>

text \<open>The reference: the numbers a sequence of bytes is made of.\<close>

lemma parse_varint_bounds: "parse_varint m bs = Some (n, v) \<Longrightarrow> 0 < n \<and> n \<le> length bs \<and> n \<le> m"
  by (auto simp: parse_varint_def Let_def split: if_splits)

function varints :: "bytes \<Rightarrow> u64 list option" where
  "varints bs = (if bs = [] then Some [] else
     case parse_varint 10 bs of None \<Rightarrow> None | Some (n, v) \<Rightarrow> map_option ((#) v) (varints (drop n bs)))"
  by pat_completeness auto
termination
  by (relation "measure length") (auto dest: parse_varint_bounds)

declare varints.simps [simp del]

lemma length_takeWhile_take: "length (takeWhile P (take k xs)) = min k (length (takeWhile P xs))"
proof (induction xs arbitrary: k)
  case (Cons x xs)
  then show ?case by (cases k) auto
qed simp

lemma parse_varint_take:
  "parse_varint m (take k bs) = (case parse_varint m bs of None \<Rightarrow> None | Some (n, v) \<Rightarrow> if n \<le> k then Some (n, v) else None)"
  by (auto simp: parse_varint_def Let_def length_takeWhile_take min_def take_all)

text \<open>\<open>Z\<close> is \<open>X\<close> as far as it goes, but at most for \<open>n\<close> bytes.\<close>

definition agrees :: "nat \<Rightarrow> 'b list \<Rightarrow> 'b list \<Rightarrow> bool" where
  "agrees n Z X \<longleftrightarrow> take n Z = take (length Z) (take n X)"

lemma agrees_drop:
  assumes "agrees n Z X" "k \<le> length Z"
  shows "agrees (n - k) (drop k Z) (drop k X)"
proof -
  have "drop k (take n Z) = drop k (take (length Z) (take n X))"
    using assms(1) by (simp add: agrees_def)
  then show ?thesis
    by (simp add: agrees_def drop_take min_diff)
qed

lemma agrees_mono: "agrees n Z X \<Longrightarrow> k \<le> n \<Longrightarrow> agrees k Z X"
  unfolding agrees_def by (metis min.absorb1 take_take min.commute)

lemma parse_varint_agrees:
  assumes "agrees n Z X" "m \<le> n"
  shows "parse_varint m Z = (case parse_varint m X of None \<Rightarrow> None
    | Some (k, v) \<Rightarrow> if k \<le> length Z then Some (k, v) else None)"
proof -
  have le: "parse_varint m (take n bs) = parse_varint m bs" for bs
    using assms(2) parse_varint_bounds[of m bs] by (fastforce simp: parse_varint_take split: option.splits)
  have "parse_varint m Z = parse_varint m (take (length Z) (take n X))"
    using le[of Z] assms(1) unfolding agrees_def by metis
  then show ?thesis
    unfolding parse_varint_take[of m "length Z"] le .
qed

lemma VarintParse_documented:
  assumes "numbers_documented L" "10 \<le> length p"
  shows "VarintParse (VarintParseSlow64 L) p = parse_varint 10 p"
proof (cases "continues (p ! 0)")
  case True
  then have "VarintParseSlow64 L p (ucast (p ! 0)) = parse_varint 10 p"
    using assms by (simp add: numbers_documented_def)
  then show ?thesis
    using True by (simp add: VarintParse_def byte_test)
next
  case False
  then show ?thesis
    using assms(2) by (intro VarintParse_first) auto
qed

lemma append_option: "map_option ((@) []) x = x" "map_option ((@) [v]) x = map_option ((#) v) x"
  by (cases x, simp_all)+

lemma ReadPackedVarintArray_end: "e \<le> ptr \<Longrightarrow> ReadPackedVarintArray L add m ptr (int e) a = Some (Some ptr, a)"
  by (subst ReadPackedVarintArray.simps) simp

lemma ReadPackedVarintArray_ok:
  assumes "numbers_documented L"
  shows "e + 9 \<le> length m \<Longrightarrow> agrees (e - ptr + 9) Z (drop ptr m) \<Longrightarrow> e - ptr \<le> length Z \<Longrightarrow>
    (\<exists>ptr' vs. ReadPackedVarintArray L add m ptr (int e) a = Some (Some ptr', fold add vs a) \<and> e \<le> ptr' \<and> ptr \<le> ptr' \<and>
       ptr' \<le> max ptr (e + 9) \<and>
       varints Z = (if ptr' - ptr \<le> length Z then map_option ((@) vs) (varints (drop (ptr' - ptr) Z)) else None)) \<or>
    (\<exists>a'. ReadPackedVarintArray L add m ptr (int e) a = Some (None, a') \<and> varints Z = None)"
proof (induction "e - ptr" arbitrary: ptr Z a rule: less_induct)
  case less
  show ?case
  proof (cases "ptr < e")
    case False
    then have "ReadPackedVarintArray L add m ptr (int e) a = Some (Some ptr, fold add [] a)"
      by (simp add: ReadPackedVarintArray_end)
    then show ?thesis
      using False by (intro disjI1 exI[of _ ptr] exI[of _ "[]"]) (simp add: append_option)
  next
    case True
    have z: "Z \<noteq> []"
      using less.prems(3) True by auto
    have p: "VarintParse (VarintParseSlow64 L) (drop ptr m) = parse_varint 10 (drop ptr m)"
      using True less.prems(1) by (intro VarintParse_documented[OF assms]) simp
    have rd: "ReadPackedVarintArray L add m ptr (int e) a = (case parse_varint 10 (drop ptr m) of None \<Rightarrow> Some (None, a)
        | Some (k, v) \<Rightarrow> ReadPackedVarintArray L add m (ptr + k) (int e) (add v a))"
      using True less.prems(1) by (subst ReadPackedVarintArray.simps) (simp add: parse_at_def p split: option.splits prod.splits)
    have pz: "(parse_varint 10 Z :: (nat \<times> u64) option) = (case parse_varint 10 (drop ptr m) of None \<Rightarrow> None
        | Some (k, v) \<Rightarrow> if k \<le> length Z then Some (k, v) else None)"
      using True by (intro parse_varint_agrees[OF less.prems(2)]) simp
    show ?thesis
    proof (cases "parse_varint 10 (drop ptr m) :: (nat \<times> u64) option")
      case None
      then show ?thesis
        using rd pz z by (intro disjI2) (simp add: varints.simps[of Z])
    next
      case (Some kv)
      obtain k v where kv: "parse_varint 10 (drop ptr m) = Some (k, v :: u64)"
        using Some by (cases kv) simp
      note k = parse_varint_bounds[OF kv]
      have rd': "ReadPackedVarintArray L add m ptr (int e) a = ReadPackedVarintArray L add m (ptr + k) (int e) (add v a)"
        using rd kv by simp
      show ?thesis
      proof (cases "k \<le> length Z")
        case False
        then have "ReadPackedVarintArray L add m (ptr + k) (int e) (add v a) = Some (Some (ptr + k), fold add [v] a)"
          using less.prems(3) by (simp add: ReadPackedVarintArray_end)
        moreover have "varints Z = None"
          using pz kv z False by (simp add: varints.simps[of Z])
        ultimately show ?thesis
          using False k True less.prems(3) rd' by (intro disjI1 exI[of _ "ptr + k"] exI[of _ "[v]"]) simp
      next
        case True
        have vz: "varints Z = map_option ((#) v) (varints (drop k Z))"
          using pz kv z True by (simp add: varints.simps[of Z])
        show ?thesis
        proof (cases "ptr + k < e")
          case False
          then have "ReadPackedVarintArray L add m (ptr + k) (int e) (add v a) = Some (Some (ptr + k), fold add [v] a)"
            by (simp add: ReadPackedVarintArray_end)
          then show ?thesis
            using False k \<open>ptr < e\<close> True vz rd' by (intro disjI1 exI[of _ "ptr + k"] exI[of _ "[v]"]) (auto simp: append_option)
        next
          case lt: True
          have ag: "agrees (e - (ptr + k) + 9) (drop k Z) (drop (ptr + k) m)"
          proof -
            have "e - ptr + 9 - k = e - (ptr + k) + 9"
              using lt by simp
            then show ?thesis
              using agrees_drop[OF less.prems(2) True] by (simp add: add.commute[of ptr k])
          qed
          have dec: "e - (ptr + k) < e - ptr" "e - (ptr + k) \<le> length (drop k Z)"
            using \<open>ptr < e\<close> k less.prems(3) by auto
          from less.hyps[OF dec(1) less.prems(1) ag dec(2), of "add v a"] show ?thesis
          proof (elim disjE exE conjE)
            fix ptr' vs
            assume r: "ReadPackedVarintArray L add m (ptr + k) (int e) (add v a) = Some (Some ptr', fold add vs (add v a))"
              "e \<le> ptr'" "ptr + k \<le> ptr'" and le: "ptr' \<le> max (ptr + k) (e + 9)"
              and vs: "varints (drop k Z) = (if ptr' - (ptr + k) \<le> length (drop k Z)
                then map_option ((@) vs) (varints (drop (ptr' - (ptr + k)) (drop k Z))) else None)"
            have "varints Z = (if ptr' - ptr \<le> length Z then map_option ((@) (v # vs)) (varints (drop (ptr' - ptr) Z)) else None)"
              using vz vs r(3) True by (cases "varints (drop (ptr' - ptr) Z)") auto
            then show ?thesis
              using r le lt rd' by (intro disjI1 exI[of _ ptr'] exI[of _ "v # vs"]) auto
          next
            fix a'
            assume "ReadPackedVarintArray L add m (ptr + k) (int e) (add v a) = Some (None, a')" "varints (drop k Z) = None"
            then show ?thesis
              using vz rd' by (intro disjI2) simp
          qed
        qed
      qed
    qed
  qed
qed

lemma take_min: "take (min n (length xs)) xs = take n xs"
  by (simp add: min_def)

lemma agrees_window:
  assumes "stands s ptr (Z @ rest) b t" "ptr + n \<le> buffer_end s + 16"
  shows "agrees n Z (drop ptr (ibuf s))"
proof -
  have "take (min n (length Z)) (drop ptr (ibuf s)) = take (min n (length Z)) (Z @ rest)"
    using assms(2) by (intro window[OF assms(1)]) auto
  then show ?thesis
    by (simp add: agrees_def take_min min.commute)
qed

text \<open>The part up to the end of the chunk; the last number may reach into the bytes behind it.\<close>

lemma chunk_varints:
  assumes "numbers_documented L" "stands s ptr (Z @ rest) b t" "buffer_end s < ptr + length Z"
  obtains (read) q vs where "ReadPackedVarintArray L add (ibuf s) ptr (int (buffer_end s)) a = Some (Some q, fold add vs a)"
      "buffer_end s \<le> q" "ptr \<le> q" "q \<le> buffer_end s + 16"
      "varints Z = (if q - ptr \<le> length Z then map_option ((@) vs) (varints (drop (q - ptr) Z)) else None)"
  | (fail) a' where "ReadPackedVarintArray L add (ibuf s) ptr (int (buffer_end s)) a = Some (None, a')" "varints Z = None"
proof (cases "ptr < buffer_end s")
  case True
  note d = standsD[OF assms(2)]
  have "buffer_end s + 9 \<le> length (ibuf s)" "agrees (buffer_end s - ptr + 9) Z (drop ptr (ibuf s))" "buffer_end s - ptr \<le> length Z"
    using True d(6) assms(3) agrees_window[OF assms(2), of "buffer_end s - ptr + 9"] by simp_all
  from ReadPackedVarintArray_ok[OF assms(1) this, of add a] show thesis
  proof (elim disjE exE conjE)
    fix q vs
    assume "ReadPackedVarintArray L add (ibuf s) ptr (int (buffer_end s)) a = Some (Some q, fold add vs a)"
      "buffer_end s \<le> q" "ptr \<le> q" "q \<le> max ptr (buffer_end s + 9)"
      "varints Z = (if q - ptr \<le> length Z then map_option ((@) vs) (varints (drop (q - ptr) Z)) else None)"
    then show thesis
      using True by (intro read[of q vs]) auto
  qed (rule fail)
next
  case False
  then have "ReadPackedVarintArray L add (ibuf s) ptr (int (buffer_end s)) a = Some (Some ptr, fold add [] a)"
    by (simp add: ReadPackedVarintArray_end)
  then show thesis
    using False standsD(2)[OF assms(2)] by (intro read[of ptr "[]"]) (simp_all add: append_option)
qed

text \<open>The part that is read from the copy of the sixteen bytes.\<close>

lemma slop_varints:
  assumes "numbers_documented L" "stands s q (Z @ rest) b t" "buffer_end s \<le> q" "e = q - buffer_end s + length Z" "e \<le> 16"
  shows "(\<exists>vs. varints Z = Some vs \<and>
      ReadPackedVarintArray L add (slop_copy s) (q - buffer_end s) (int e) a = Some (Some e, fold add vs a)) \<or>
    (varints Z = None \<and> (\<exists>r a'. ReadPackedVarintArray L add (slop_copy s) (q - buffer_end s) (int e) a = Some (r, a') \<and> r \<noteq> Some e))"
proof -
  let ?o = "q - buffer_end s"
  note d = standsD[OF assms(2)]
  have zero: "varints [] = Some []"
    by (simp add: varints.simps[of "[]"])
  have "take (length Z) (drop q (ibuf s)) = Z"
    using window[OF assms(2), of "length Z"] assms(3-5) by simp
  moreover have "drop ?o (slop_copy s) = take (16 - ?o) (drop q (ibuf s)) @ replicate 10 0" "length Z \<le> 16 - ?o"
    using assms(3-5) d(6) by (simp_all add: slop_copy_def drop_take)
  ultimately have "take (length Z) (drop ?o (slop_copy s)) = Z"
    using assms(3-5) d(6) by (simp add: min_absorb1)
  then have ag: "agrees (e - ?o + 9) Z (drop ?o (slop_copy s))"
    using assms(4) by (simp add: agrees_def min_def)
  have e: "e + 9 \<le> length (slop_copy s)" "e - ?o \<le> length Z" "e - ?o = length Z" "?o \<le> e"
    using assms(4,5) d(6) by (simp_all add: slop_copy_def)
  from ReadPackedVarintArray_ok[OF assms(1) e(1) ag e(2), of add a] show ?thesis
  proof (elim disjE exE conjE)
    fix p vs
    assume p: "ReadPackedVarintArray L add (slop_copy s) ?o (int e) a = Some (Some p, fold add vs a)" "e \<le> p"
      and vs: "varints Z = (if p - ?o \<le> length Z then map_option ((@) vs) (varints (drop (p - ?o) Z)) else None)"
    show ?thesis
    proof (cases "p = e")
      case True
      then show ?thesis
        using p(1) vs e(3) by (intro disjI1) (simp add: zero)
    next
      case False
      then have "\<not> p - ?o \<le> length Z"
        using p(2) e(3,4) by linarith
      then show ?thesis
        using p(1) vs False by (intro disjI2) simp
    qed
  qed auto
qed

text \<open>The numbers of \<open>Z\<close> are added and the pointer stands behind it, or the result is a null pointer.\<close>

definition packed_result :: "eps_in_lib \<Rightarrow> (u64 \<Rightarrow> 'a \<Rightarrow> 'a) \<Rightarrow> bytes \<Rightarrow> bytes \<Rightarrow> int \<Rightarrow> u32 \<Rightarrow> 'a
    \<Rightarrow> (nat option \<times> eps_in \<times> 'a) option \<Rightarrow> bool" where
  "packed_result L add Z rest b t a r \<longleftrightarrow>
     (case varints Z of
        Some vs \<Rightarrow> \<exists>ptr' s'. r = Some (Some ptr', s', fold add vs a) \<and> stands s' ptr' rest b t
      | None \<Rightarrow> \<exists>s' a'. r = Some (None, s', a'))"

lemma packed_varint_inside:
  assumes "numbers_documented L" "stands s ptr (Z @ rest) b t" "ptr + length Z \<le> buffer_end s"
  shows "packed_result L add Z rest (b - int (length Z)) t a (packed_varint_loop L add ptr (int (length Z)) s a)"
proof -
  define e where "e = ptr + length Z"
  have e: "int ptr + int (length Z) = int e" "e - ptr = length Z"
    by (auto simp: e_def)
  have ep: "int p = int ptr + int (length Z) \<longleftrightarrow> p = ptr + length Z" for p
    by auto
  have eq: "packed_varint_loop L add ptr (int (length Z)) s a = do {
      (r, a) \<leftarrow> ReadPackedVarintArray L add (ibuf s) ptr (int e) a;
      Some (case r of None \<Rightarrow> None | Some p \<Rightarrow> if int p = int ptr + int (length Z) then Some p else None, s, a) }"
    using assms(3) by (subst packed_varint_loop.simps) (simp add: Let_def e(1))
  have st: "stands s e rest (b - int (length Z)) t"
    using stands_advance[OF assms(2), of "length Z"] assms(3) by (simp add: e_def)
  have len: "e + 9 \<le> length (ibuf s)" "agrees (e - ptr + 9) Z (drop ptr (ibuf s))" "e - ptr \<le> length Z"
    using assms(3) standsD(6)[OF assms(2)] by (auto intro!: agrees_window[OF assms(2)] simp: e_def)
  from ReadPackedVarintArray_ok[OF assms(1) len, of add a] show ?thesis
    using st unfolding eq packed_result_def
    by (elim disjE exE conjE) (auto simp: e(2) e_def ep varints.simps[of "[]"] split: option.splits)
qed

text \<open>Behind the first part, which ended at \<open>q\<close>, the rest is within the sixteen bytes.\<close>

lemma packed_varint_near:
  assumes L: "numbers_documented L" and st0: "stands s ptr (Z @ rest) b t"
    and pos: "buffer_end s < ptr + length Z" "ptr + length Z \<le> buffer_end s + 16"
    and read: "ReadPackedVarintArray L add (ibuf s) ptr (int (buffer_end s)) a = Some (Some q, fold add vs a)"
      "buffer_end s \<le> q" "ptr \<le> q" "q \<le> buffer_end s + 16"
      "varints Z = (if q - ptr \<le> length Z then map_option ((@) vs) (varints (drop (q - ptr) Z)) else None)"
  shows "packed_result L add Z rest (b - int (length Z)) t a (packed_varint_loop L add ptr (int (length Z)) s a)"
proof -
  let ?o = "q - buffer_end s" and ?Z = "drop (q - ptr) Z"
  have o: "int q - int (buffer_end s) = int ?o" "0 \<le> int ?o" "?o \<le> 16" "nat (int ?o) = ?o"
    using read(2,4) by auto
  define e where "e = ptr + length Z - buffer_end s"
  have e: "int (length Z) - (int (buffer_end s) - int ptr) = int e" "e \<le> 16"
    using pos by (auto simp: e_def)
  have eq: "packed_varint_loop L add ptr (int (length Z)) s a = do {
      (res, a) \<leftarrow> ReadPackedVarintArray L add (slop_copy s) ?o (int e) (fold add vs a);
      Some (case res of None \<Rightarrow> None
        | Some res \<Rightarrow> if int res \<noteq> int (length Z) - (int (buffer_end s) - int ptr) then None else Some (buffer_end s + res), s, a) }"
    using pos(1) read(1) by (subst packed_varint_loop.simps) (simp add: Let_def o e(1,2))
  show ?thesis
  proof (cases "q - ptr \<le> length Z")
    case inside: True
    have st: "stands s q (?Z @ rest) (b - int (q - ptr)) t"
      using stands_advance[OF st0, of "q - ptr"] read(3,4) inside by simp
    have st': "stands s (buffer_end s + e) rest (b - int (length Z)) t"
      using stands_advance[OF st0, of "length Z"] pos by (simp add: e_def)
    have "e = ?o + length ?Z"
      using inside read(2,3) pos(1) by (simp add: e_def)
    from slop_varints[OF L st read(2) this e(2), of add "fold add vs a"] show ?thesis
      using read(5) inside st' unfolding eq packed_result_def
      by (elim disjE exE conjE) (auto simp: e(1) split: option.splits)
  next
    case False
    then have oe: "e < ?o"
      using read(2,3) pos(1) unfolding e_def by linarith
    then have "ReadPackedVarintArray L add (slop_copy s) ?o (int e) (fold add vs a) = Some (Some ?o, fold add vs a)"
      by (simp add: ReadPackedVarintArray_end)
    then show ?thesis
      using False read(5) oe unfolding eq packed_result_def by (simp add: e(1))
  qed
qed

lemma packed_varint_loop_ok:
  assumes "next_documented L" "numbers_documented L"
  shows "stands s ptr (Z @ rest) b t \<Longrightarrow> int (length Z) \<le> b \<Longrightarrow>
    packed_result L add Z rest (b - int (length Z)) t a (packed_varint_loop L add ptr (int (length Z)) s a)"
proof (induction "length (ahead s)" arbitrary: s ptr Z b a rule: less_induct)
  case less
  note d = standsD[OF less.prems(1)]
  consider "ptr + length Z \<le> buffer_end s" | (over) "buffer_end s < ptr + length Z"
    by linarith
  then show ?case
  proof cases
    case 1
    then show ?thesis
      by (rule packed_varint_inside[OF assms(2) less.prems(1)])
  next
    case over
    show ?thesis
    proof (cases rule: chunk_varints[OF assms(2) less.prems(1) over, of add a, case_names read fail])
      case (fail a')
      then show ?thesis
        using over by (subst packed_varint_loop.simps) (simp add: Let_def packed_result_def)
    next
      case (read q vs)
      let ?o = "q - buffer_end s" and ?Z = "drop (q - ptr) Z"
      show ?thesis
      proof (cases "ptr + length Z \<le> buffer_end s + 16")
        case True
        then show ?thesis
          by (rule packed_varint_near[OF assms(2) less.prems(1) over _ read])
      next
        case far: False
        have o: "int q - int (buffer_end s) = int ?o" "0 \<le> int ?o" "?o \<le> 16" "nat (int ?o) = ?o"
          using read(2,4) by auto
        have inside: "q - ptr \<le> length Z" "int (length ?Z) \<le> b - int (q - ptr)"
          using far read(2-4) less.prems(2) by auto
        have st: "stands s q (?Z @ rest) (b - int (q - ptr)) t"
          using stands_advance[OF less.prems(1), of "q - ptr"] read(3,4) inside by simp
        have lim: "in_limit s > 16" and ah: "ahead s \<noteq> []"
          using far less.prems(2) d(2,4,7) by auto
        obtain s' where s': "Next L s = (Some 0, s')" "stands s' ?o (?Z @ rest) (b - int (q - ptr)) t" "length (ahead s') < length (ahead s)"
          by (rule next_stands[OF assms(1) st read(2) ah lim])
        have sz: "int (length Z) - (int ?o + (int (buffer_end s) - int ptr)) = int (length ?Z)"
          "int ?o + (int (buffer_end s) - int ptr) < int (length Z)"
          "\<not> int (length Z) - (int (buffer_end s) - int ptr) \<le> 16" "int (buffer_end s) - int ptr < int (length Z)"
          using inside(1) read(2-4) far by auto
        have eq: "packed_varint_loop L add ptr (int (length Z)) s a = packed_varint_loop L add ?o (int (length ?Z)) s' (fold add vs a)"
          using read(1) lim s'(1) sz(3,4) by (subst packed_varint_loop.simps) (simp add: Let_def o sz(1,2) del: length_drop)
        have b: "b - int (length Z) = b - int (q - ptr) - int (length ?Z)"
          using inside(1) by simp
        show ?thesis
          using less.hyps[OF s'(3,2) inside(2), of "fold add vs a"] read(5) inside(1) unfolding eq packed_result_def b
          by (cases "varints ?Z") (simp_all del: length_drop)
      qed
    qed
  qed
qed

subsection \<open>Packed fixed-size numbers\<close>

lemma add_block_holds:
  assumes "env_ok e" "sizeof_Element e = int k" "holds e a f ys" "int (length ys + length xs) \<le> INT_MAX"
    "elements_of dec k (length xs) block = xs"
  shows "\<exists>f'. add_block e dec (int (length xs)) block f = Some f' \<and> holds e a f' (ys @ xs)"
proof -
  obtain rest where r: "Reserve e (int (length ys) + int (length xs)) f = Some (fld a (int (length ys)) (map Some ys @ rest))"
    "length xs \<le> length rest" "int (length ys + length rest) \<le> INT_MAX"
    "length ys + length rest = 0 \<or> RepeatedFieldLowerClampLimit e \<le> int (length ys + length rest)"
    using assms by (elim Reserve_room[where k = "length xs"]) auto
  have "add_block e dec (int (length xs)) block f =
      Some (fld a (int (length ys) + int (length xs)) (map Some ys @ map Some xs @ drop (length xs) rest))"
    using assms(3) r(1,2) by (simp add: add_block_def rf_size_def assms(2,5) AddNAlreadyReserved_def nat_int_add)
  moreover have "holds e a (fld a (int (length ys) + int (length xs)) (map Some ys @ map Some xs @ drop (length xs) rest)) (ys @ xs)"
    using r(2-4) by (intro holdsI[where rest = "drop (length xs) rest"]) auto
  ultimately show ?thesis by blast
qed

lemma concat_take:
  assumes "\<And>v. length (W v) = k"
  shows "take (i * k) (concat (map W xs)) = concat (map W (take i xs))" "drop (i * k) (concat (map W xs)) = concat (map W (drop i xs))"
proof (induction xs arbitrary: i)
  case (Cons x xs)
  {
    case 1
    show ?case using Cons.IH(1) by (cases i) (simp_all add: assms)
  next
    case 2
    show ?case using Cons.IH(2) by (cases i) (simp_all add: assms)
  }
qed simp_all

lemma length_concat_fixed: "(\<And>v. length (W v) = k) \<Longrightarrow> length (concat (map W xs)) = length xs * k"
  by (induction xs) simp_all

text \<open>The elements are added wherever the chunks end; an incomplete last element makes the result a null pointer.\<close>

lemma packed_fixed_loop_ok:
  assumes "next_documented L" and e: "env_ok e" "sizeof_Element e = int k"
    and W: "\<And>v. length (W v) = k" "\<And>v. dec (W v) = v" and junk: "length junk < k"
  shows "stands s ptr (concat (map W xs) @ junk @ rest) b t \<Longrightarrow> sz = int (length (concat (map W xs) @ junk)) \<Longrightarrow> sz \<le> b \<Longrightarrow>
    holds e a f ys \<Longrightarrow> int (length ys + length xs) \<le> INT_MAX \<Longrightarrow>
    \<exists>p s' f'. packed_fixed_loop L e dec ptr sz s f = Some (p, s', f') \<and> holds e a f' (ys @ xs) \<and>
      (if junk = [] then \<exists>ptr'. p = Some ptr' \<and> stands s' ptr' rest (b - sz) t else p = None)"
proof (induction "length (ahead s)" arbitrary: s ptr xs b sz f ys rule: less_induct)
  case less
  note d = standsD[OF less.prems(1)]
  have k: "0 < k" "k \<le> 16"
    using e by (simp_all add: env_ok_def)
  define N where "N = buffer_end s + 16 - ptr"
  have N: "chunk_left s ptr = int N" "ptr + N = buffer_end s + 16"
    using d(2) by (simp_all add: chunk_left_def N_def)
  have fixed: "length (concat (map W zs)) = length zs * k" for zs
    by (rule length_concat_fixed) (rule W(1))
  have len: "sz = int (length xs * k + length junk)"
    using less.prems(2) by (simp add: fixed)
  define n where "n = (if sz > int N then N div k else length xs)"
  have n: "n \<le> length xs" "n * k \<le> N"
  proof -
    have "N div k \<le> length xs" if "sz > int N"
    proof -
      have "N < length xs * k + length junk"
        using that by (simp only: len of_nat_less_iff)
      then show ?thesis
        using junk less_mult_imp_div_less[of N "Suc (length xs)" k] by simp
    qed
    then show "n \<le> length xs"
      by (simp add: n_def)
    have "length xs * k + length junk \<le> N" if "\<not> sz > int N"
      using that by (simp only: len of_nat_less_iff not_less)
    then show "n * k \<le> N"
      by (auto simp: n_def)
  qed
  have nk_le: "n * k \<le> length (concat (map W xs))"
    using n(1) by (simp add: fixed mult_le_mono1)
  have part: "take (n * k) (concat (map W xs)) = concat (map W (take n xs))"
    "drop (n * k) (concat (map W xs) @ junk @ rest) = concat (map W (drop n xs)) @ junk @ rest"
    using nk_le concat_take[of W k n xs, OF W(1)] by simp_all
  have "int ptr + int (n * k) \<le> int (buffer_end s) + 16"
    using n(2) N(2) by (simp flip: of_nat_add of_nat_mult)
  then have block: "peek (ibuf s) ptr (int (n * k)) = Some (concat (map W (take n xs)))"
    using peek_window[OF less.prems(1), of "int (n * k)"] nk_le by (simp add: part(1) del: of_nat_mult)
  have "elements_of dec k (length (take n xs)) (concat (map W (take n xs))) = take n xs"
    by (rule elements_of_concat[OF W])
  then obtain f1 where f1: "add_block e dec (int n) (concat (map W (take n xs))) f = Some f1" "holds e a f1 (ys @ take n xs)"
    using add_block_holds[OF e less.prems(4), of "take n xs" dec] n(1) less.prems(5) by fastforce
  show ?case
  proof (cases "sz > int N")
    case True
    define q where "q = ptr + n * k"
    have nk: "n = N div k" "n * k \<le> N" "N - n * k < k"
      using True k(1) by (simp_all add: n_def minus_div_mult_eq_mod)
    have q: "buffer_end s \<le> q" "q \<le> buffer_end s + 16" "q - buffer_end s = nat (16 - (int N - int (n * k)))"
    proof -
      define m where "m = n * k"
      have "m \<le> N" "N - m < k" "q = ptr + m"
        using nk(2,3) by (simp_all add: m_def q_def)
      then show "buffer_end s \<le> q" "q \<le> buffer_end s + 16" "q - buffer_end s = nat (16 - (int N - int (n * k)))"
        using N(2) k(2) unfolding m_def[symmetric] by auto
    qed
    let ?xs = "drop n xs"
    have st: "stands s q (concat (map W ?xs) @ junk @ rest) (b - int (n * k)) t"
      using stands_advance[OF less.prems(1), of "n * k"] q(2) nk_le unfolding part(2) by (simp add: q_def)
    have lim: "in_limit s > 16" and ah: "ahead s \<noteq> []"
      using True less.prems(2,3) d(2,4,7) N(2) by auto
    obtain s' where s': "Next L s = (Some 0, s')" "stands s' (q - buffer_end s) (concat (map W ?xs) @ junk @ rest) (b - int (n * k)) t"
        "length (ahead s') < length (ahead s)"
      by (rule next_stands[OF assms(1) st q(1) ah lim])
    have sz: "sz - int (n * k) = int (length (concat (map W ?xs) @ junk))"
      using n(1) by (simp add: len fixed left_diff_distrib of_nat_diff)
    have eq: "packed_fixed_loop L e dec ptr sz s f = packed_fixed_loop L e dec (q - buffer_end s) (sz - int (n * k)) s' f1"
      using True lim s'(1) block f1(1) by (subst packed_fixed_loop.simps) (simp add: Let_def N(1) e(2) q(3) nk(1) flip: zdiv_int)
    show ?thesis
      using less.hyps[OF s'(3,2) sz _ f1(2)] less.prems(3,5) n(1) unfolding eq by force
  next
    case False
    then have n': "n = length xs" "sz div int k = int n"
      using len junk k(1) by (simp_all add: n_def flip: zdiv_int)
    have "stands s (ptr + nat sz) rest (b - sz) t" if "junk = []"
      using stands_advance[OF less.prems(1), of "nat sz"] that less.prems(2) False N(2) by simp
    then show ?thesis
      using False block f1 n' len less.prems(4) k(1)
      by (subst packed_fixed_loop.simps) (auto simp: Let_def N(1) e(2) nat_add_distrib)
  qed
qed


subsection \<open>Numbers at the pointer\<close>

lemma number_at:
  assumes "stands s ptr (UnsafeVarint v @ rest) b t" "length (UnsafeVarint v) \<le> m" "ptr + m \<le> buffer_end s + 16"
  shows "parse_varint m (drop ptr (ibuf s)) = Some (length (UnsafeVarint v), v)"
proof -
  have "agrees m (UnsafeVarint v @ rest) (drop ptr (ibuf s))"
    using agrees_window[of s ptr "UnsafeVarint v @ rest" "[]" b t m] assms(1,3) by simp
  then have "parse_varint m (UnsafeVarint v @ rest) = (case parse_varint m (drop ptr (ibuf s)) of None \<Rightarrow> None
      | Some (k, w :: 'a word) \<Rightarrow> if k \<le> length (UnsafeVarint v @ rest) then Some (k, w) else None)"
    by (rule parse_varint_agrees) simp
  then show ?thesis
    using parse_UnsafeVarint[OF assms(2), of rest] by (auto split: option.splits if_splits)
qed

lemma ReadSize_documented:
  assumes "numbers_documented L" "5 \<le> length p" "parse_varint 5 p = Some (n, v :: u64)" "int (unat v) \<le> INT_MAX - 16"
  shows "ReadSize (ReadSizeFallback L) p = Some (n, ucast v)"
proof (cases "continues (p ! 0)")
  case True
  then have "ReadSizeFallback L p (ucast (p ! 0)) = Some (n, ucast v)"
    using assms(1)[unfolded numbers_documented_def, THEN conjunct2, THEN conjunct2, rule_format, of p] assms(2-4) by simp
  then show ?thesis
    using True low_less_128(2)[of "p ! 0"] by (simp add: ReadSize_def)
next
  case False
  have "p \<noteq> []" using assms(2) by auto
  then have "n = 1 \<and> v = ucast (p ! 0)"
    using parse_varint_one[of p 5, where 'a = 64] False assms(3) by simp
  moreover have "(ucast (ucast (p ! 0) :: u64) :: u32) = ucast (p ! 0)"
    by (rule bit_word_eqI) (auto simp: bit_simps)
  ultimately show ?thesis
    using False low_less_128(2)[of "p ! 0"] by (simp add: ReadSize_def)
qed

lemma size_at:
  assumes "numbers_documented L" "stands s ptr (UnsafeVarint (of_nat n :: u32) @ rest) b t" "int n \<le> INT_MAX - 16" "ptr + 5 \<le> buffer_end s + 16"
  shows "parse_at 5 (ReadSize (ReadSizeFallback L)) (ibuf s) ptr = Some (Some (ptr + length (UnsafeVarint (of_nat n :: u32)), of_nat n))"
    "sint (of_nat n :: u32) = int n"
proof -
  have u: "unat (of_nat n :: u32) = n"
    using assms(3) by (intro unat_of_nat_small) (simp add: INT_MAX_def)
  have len: "ptr + 5 \<le> length (ibuf s)"
    using assms(4) standsD(6)[OF assms(2)] by simp
  have u64: "unat (of_nat n :: u64) = n"
    using assms(3) by (intro unat_of_nat_small) (simp add: INT_MAX_def)
  have wide: "(of_nat n :: u64) = ucast (of_nat n :: u32)"
    by (rule of_nat_unat[of "of_nat n :: u32", where 'a = u64, unfolded u])
  have narrow: "ucast (of_nat n :: u64) = (of_nat n :: u32)"
    by (rule of_nat_unat[of "of_nat n :: u64", where 'a = u32, unfolded u64, symmetric])
  have "stands s ptr (UnsafeVarint (of_nat n :: u64) @ rest) b t" "length (UnsafeVarint (of_nat n :: u64)) \<le> 5"
    using assms(2) length_UnsafeVarint_bound(1)[of "of_nat n"] by (simp_all only: wide UnsafeVarint_widen)
  from number_at[OF this assms(4)]
  have "parse_varint 5 (drop ptr (ibuf s)) = Some (length (UnsafeVarint (of_nat n :: u32)), of_nat n :: u64)"
    by (simp only: wide UnsafeVarint_widen)
  then have "ReadSize (ReadSizeFallback L) (drop ptr (ibuf s)) = Some (length (UnsafeVarint (of_nat n :: u32)), ucast (of_nat n :: u64))"
    using len assms(3) by (intro ReadSize_documented[OF assms(1)]) (simp_all add: u64)
  then have "ReadSize (ReadSizeFallback L) (drop ptr (ibuf s)) = Some (length (UnsafeVarint (of_nat n :: u32)), of_nat n)"
    by (simp only: narrow)
  then show "parse_at 5 (ReadSize (ReadSizeFallback L)) (ibuf s) ptr = Some (Some (ptr + length (UnsafeVarint (of_nat n :: u32)), of_nat n))"
    using len by (simp add: parse_at_def)
  show "sint (of_nat n :: u32) = int n"
    using assms(3) by (simp add: signed_of_nat signed_take_bit_int_eq_self INT_MAX_def)
qed

lemma stands_size:
  assumes "stands s ptr (UnsafeVarint (of_nat n :: u32) @ rest) b t" "ptr + 5 \<le> buffer_end s + 16"
  shows "stands s (ptr + length (UnsafeVarint (of_nat n :: u32))) rest (b - int (length (UnsafeVarint (of_nat n :: u32)))) t"
  using stands_advance[OF assms(1), of "length (UnsafeVarint (of_nat n :: u32))"] assms(2)
    length_UnsafeVarint_bound(1)[of "of_nat n"] by simp

subsection \<open>A library\<close>

text \<open>
  A library that presents the input in chunks of \<open>n\<close> bytes, except that \<open>DoneFallback\<close> goes on to all the
  rest at once.
\<close>

definition chunk_of :: "nat \<Rightarrow> eps_in \<Rightarrow> eps_in" where
  "chunk_of n s =
     (let c = take n (ahead s); l = in_limit s - int (length c)
      in s\<lparr>ibuf := take (length c + 16) (ahead s @ replicate 16 0), buffer_end := length c, ahead := drop n (ahead s),
           next_chunk := (if drop n (ahead s) = [] then NoChunk else PatchChunk), in_limit := l,
           limit_end := int (length c) + min 0 l\<rparr>)"

definition whole_rest :: "eps_in \<Rightarrow> eps_in" where
  "whole_rest s =
     (let l = in_limit s - int (length (ahead s))
      in s\<lparr>ibuf := line s @ replicate 16 0, buffer_end := length (line s), ahead := [], next_chunk := NoChunk, in_limit := l,
           limit_end := int (length (line s)) + min 0 l\<rparr>)"

definition chunk_lib :: "nat \<Rightarrow> eps_in_lib" where
  "chunk_lib n = \<lparr>Next = (\<lambda>s. if next_chunk s = NoChunk then (None, s\<lparr>limit_end := int (buffer_end s), last_tag_minus_1 := 1\<rparr>)
       else (Some 0, chunk_of n s)),
     DoneFallback = (\<lambda>overrun d s. if overrun > in_limit s \<or> overrun > int (length (ahead s)) then ((None, True), s)
       else if overrun = int (length (ahead s)) then ((Some (length (line s)), True), SetEndOfStream s)
       else ((Some (nat (overrun + int (buffer_end s))), False), whole_rest s)),
     InitFrom_stream = (\<lambda>s. (None, s)), StreamBackUp_zcis = (\<lambda>_ s. s), SkipFallback = (\<lambda>_ _ s. (None, s)),
     ReadStringFallback = (\<lambda>_ _ str s. (None, str, s)), AppendStringFallback = (\<lambda>_ _ str s. (None, str, s)),
     ReadCordFallback = (\<lambda>_ _ str s. (None, str, s)),
     VarintParseSlow64 = (\<lambda>p _. parse_varint 10 p), VarintParseSlow32 = (\<lambda>p _. parse_varint 10 p),
     ReadTagFallback = (\<lambda>p _. parse_varint 5 p),
     ReadSizeFallback = (\<lambda>p _. case parse_varint 5 p of None \<Rightarrow> None
       | Some (n, v :: u64) \<Rightarrow> if int (unat v) \<le> INT_MAX - int In_kSlopBytes then Some (n, ucast v) else None),
     failed_size = (\<lambda>_. 0)\<rparr>"

lemma chunk_of_ok:
  assumes "in_limit s > 16" "ahead s \<noteq> []" "0 < n"
  shows "in_ok (chunk_of n s)" "line (chunk_of n s) = ahead s" "0 < buffer_end (chunk_of n s)"
proof -
  let ?c = "take n (ahead s)"
  have "take (length ?c) (ahead s @ replicate 16 0) = ?c" "drop (length ?c) (ahead s @ replicate 16 0) = drop n (ahead s) @ replicate 16 0"
    by (simp_all add: min_def)
  then have take: "take (length ?c + 16) (ahead s @ replicate 16 0) = ?c @ take 16 (drop n (ahead s) @ replicate 16 0)"
    by (simp only: take_add)
  show "in_ok (chunk_of n s)"
    using assms(1) by (simp add: chunk_of_def Let_def in_ok_def take) (simp add: min_def drop_take)
  show "line (chunk_of n s) = ahead s"
    by (simp add: chunk_of_def Let_def line_def take min_def)
  show "0 < buffer_end (chunk_of n s)"
    using assms(2,3) by (simp add: chunk_of_def Let_def)
qed

lemma whole_rest_ok:
  assumes "in_ok s" "ptr < length (line s)" "ptr \<le> buffer_end s + 16" "int ptr - int (buffer_end s) < in_limit s"
  shows "stands (whole_rest s) ptr (rest_at s ptr) (EI_BytesUntilLimit ptr s) (last_tag_minus_1 s)" "int ptr < limit_end (whole_rest s)"
proof -
  have l: "length (line s) = buffer_end s + length (ahead s)"
    by (rule length_line[OF assms(1)])
  have line: "line (whole_rest s) = line s"
    by (simp add: line_def[of "whole_rest s"]) (simp add: whole_rest_def Let_def)
  have "in_ok (whole_rest s)"
    using assms(1) l by (simp add: whole_rest_def Let_def in_ok_def)
  then show "stands (whole_rest s) ptr (rest_at s ptr) (EI_BytesUntilLimit ptr s) (last_tag_minus_1 s)"
    using assms(2) l by (simp add: stands_def rest_at_def EI_BytesUntilLimit_def line) (simp add: whole_rest_def Let_def)
  show "int ptr < limit_end (whole_rest s)"
    using assms(2,4) l by (simp add: whole_rest_def Let_def min_def)
qed

lemma in_documented_chunk_lib:
  assumes "0 < n"
  shows "in_documented (chunk_lib n)"
  unfolding in_documented_def
proof (intro conjI)
  show "next_documented (chunk_lib n)"
    using chunk_of_ok assms unfolding next_documented_def
    by (auto simp: chunk_lib_def in_ok_def[of "_ :: eps_in"]) (auto simp: chunk_of_def Let_def)
  show "done_documented (chunk_lib n)"
    unfolding done_documented_def using whole_rest_ok length_line
    by (auto simp: chunk_lib_def EndedAtEndOfStream_def SetEndOfStream_def)
  show "numbers_documented (chunk_lib n)"
    by (auto simp: numbers_documented_def chunk_lib_def split: option.splits prod.splits)
qed

text \<open>A stream at the start of its input: a flat array, and one in chunks of \<open>n\<close> bytes.\<close>

lemma InitFrom_stands:
  assumes "InitFrom flat (new_EpsCopyInputStream aliasing) = (ptr, s)"
  shows "ptr = 0" "stands s 0 flat (int (length flat)) 0"
proof -
  let ?s = "new_EpsCopyInputStream aliasing"
  have s: "ptr = fst (InitFrom flat ?s)" "s = snd (InitFrom flat ?s)"
    using assms by simp_all
  show "ptr = 0"
    by (simp add: s InitFrom_def Let_def)
  have "length (ibuf ?s) = 32" "last_tag_minus_1 ?s = 0"
    by (simp_all add: new_EpsCopyInputStream_def kPatchBufferSize_def)
  then show "stands s 0 flat (int (length flat)) 0"
    by (auto simp: s InitFrom_def Let_def stands_def in_ok_def line_def rest_at_def EI_BytesUntilLimit_def min_def)
qed

definition fed :: "nat \<Rightarrow> bytes \<Rightarrow> eps_in" where
  "fed n inp = chunk_of n ((new_EpsCopyInputStream False)\<lparr>ahead := inp, next_chunk := PatchChunk, in_limit := INT_MAX\<rparr>)"

lemma fed_stands:
  assumes "0 < n" "inp \<noteq> []"
  shows "stands (fed n inp) 0 inp INT_MAX 0"
proof -
  let ?s = "(new_EpsCopyInputStream False)\<lparr>ahead := inp, next_chunk := PatchChunk, in_limit := INT_MAX\<rparr>"
  have "in_ok (chunk_of n ?s)" "line (chunk_of n ?s) = inp"
    using chunk_of_ok[of ?s n] assms by (simp_all add: INT_MAX_def)
  then show ?thesis
    by (simp add: fed_def stands_def rest_at_def EI_BytesUntilLimit_def)
      (simp add: chunk_of_def Let_def new_EpsCopyInputStream_def)
qed


subsection \<open>Reading does not depend on the chunks\<close>

text \<open>
  Appending bytes to a string, a given number of them or all up to the limit, takes over every end
  of a chunk exactly the next bytes of the input and leaves the pointer behind them, as long as input
  and limit have so many.
\<close>

theorem append_any_chunks:
  assumes "in_documented L" "stands s ptr rest b t" "n \<le> length rest" "int n \<le> b"
  shows "(chunk_left s ptr < int n \<longrightarrow> (\<exists>ptr' s'. AppendSize L (\<lambda>bs str. str @ bs) ptr (int n) s str = Some (Some ptr', s', str @ take n rest) \<and>
      stands s' ptr' (drop n rest) (b - int n) t)) \<and>
    (b = int n \<longrightarrow> (\<exists>ptr' s'. AppendString_end L ptr s str = Some (Some (int ptr'), s', str @ take n rest) \<and>
      stands s' ptr' (drop n rest) 0 t))"
proof -
  have app: "(\<lambda>bs str. str @ bs) = appends_str"
    by (simp add: fun_eq_iff appends_str_def)
  have "next_documented L"
    using assms(1) by (simp add: in_documented_def)
  note ok = append_size_loop_ok[OF this assms(2), of "int n" str] append_end_loop_ok[OF this assms(2), of str]
  show ?thesis
    using ok assms(3,4) standsD(4)[OF assms(2)] by (auto simp: AppendSize_def AppendString_end_def AppendUntilEnd_def app)
qed

theorem append_any_chunks_witness:
  "\<exists>ptr' s'. AppendString_end (chunk_lib 2) 0 ((fed 2 [1, 2, 3, 4, 5, 6])\<lparr>in_limit := 3\<rparr>) [9] = Some (Some (int ptr'), s', [9, 1, 2, 3, 4, 5]) \<and>
    stands s' ptr' [6] 0 0"
proof -
  have "stands ((fed 2 [1, 2, 3, 4, 5, 6])\<lparr>in_limit := 3\<rparr>) 0 [1, 2, 3, 4, 5, 6] 5 0"
    using fed_stands[of 2 "[1, 2, 3, 4, 5, 6]"]
    by (simp add: stands_def in_ok_def line_def rest_at_def EI_BytesUntilLimit_def fed_def chunk_of_def Let_def new_EpsCopyInputStream_def INT_MAX_def)
  from append_any_chunks[OF in_documented_chunk_lib this, of 2 5 "[9]"] show ?thesis
    by simp
qed

text \<open>
  C13: A packed field of varints is read wherever the chunks end, also within its length, within a
  number, or within the sixteen bytes behind a chunk: the values are those of the reference, each is
  added once and in order, and the pointer is behind the field. A field that is not a sequence of
  varints, or that ends within one, is refused.
\<close>

theorem packed_varint_any_chunks:
  assumes "in_documented L" "stands s ptr (UnsafeVarint (of_nat (length Z) :: u32) @ Z @ rest) b t"
    and "int (length Z) \<le> INT_MAX - 16" "ptr + 5 \<le> buffer_end s + 16"
    and "b = int (length (UnsafeVarint (of_nat (length Z) :: u32)) + length Z) + left" "0 \<le> left"
  shows "(\<forall>vs. varints Z = Some vs \<longrightarrow> (\<exists>ptr' s'.
      ReadPackedVarint L add size_callback ptr s a = Some (Some ptr', s', fold add vs (size_callback (int (length Z)) a)) \<and>
      stands s' ptr' rest left t)) \<and>
    (varints Z = None \<longrightarrow> (\<exists>s' a'. ReadPackedVarint L add size_callback ptr s a = Some (None, s', a')))"
proof -
  have L: "next_documented L" "numbers_documented L"
    using assms(1) by (simp_all add: in_documented_def)
  note sz = size_at[OF L(2) assms(2-4)] and st = stands_size[OF assms(2,4)]
  have "ReadPackedVarint L add size_callback ptr s a = packed_varint_loop L add
      (ptr + length (UnsafeVarint (of_nat (length Z) :: u32))) (int (length Z)) s (size_callback (int (length Z)) a)"
    by (simp add: ReadPackedVarint_def sz)
  then show ?thesis
    using packed_varint_loop_ok[OF L st, of add "size_callback (int (length Z)) a"] assms(5,6)
    by (auto simp: packed_result_def split: option.splits)
qed

lemma UnsafeVarint_one: "unat (w :: 'a::len word) < 128 \<Longrightarrow> UnsafeVarint w = [ucast w]"
  by (subst UnsafeVarint.simps) simp

theorem packed_varint_any_chunks_witness:
  "\<exists>ptr' s'. ReadPackedVarint (chunk_lib 2) (\<lambda>v vs. vs @ [v]) (\<lambda>_ vs. vs) 0 (fed 2 [3, 0xAC, 2, 5, 8]) [] = Some (Some ptr', s', [300, 5]) \<and>
    stands s' ptr' [8] (INT_MAX - 4) 0"
proof -
  have vs: "varints [0xAC, 2, 5] = Some [300, 5]"
    by (simp add: varints.simps parse_varint_def continues_def)
  have "stands (fed 2 [3, 0xAC, 2, 5, 8]) 0 (UnsafeVarint (of_nat (length [0xAC, 2, 5 :: byte]) :: u32) @ [0xAC, 2, 5] @ [8]) INT_MAX 0"
    using fed_stands[of 2 "[3, 0xAC, 2, 5, 8]"] by (simp add: UnsafeVarint_one)
  from packed_varint_any_chunks[OF in_documented_chunk_lib[of 2] this, where left = "INT_MAX - 4" and add = "\<lambda>v vs. vs @ [v]"
    and size_callback = "\<lambda>_ vs. vs" and a = "[]"] vs show ?thesis
    by (simp add: INT_MAX_def UnsafeVarint_one)
qed

text \<open>
  A packed field of fixed-size numbers is read wherever the chunks end, also within a number: the
  elements are appended to the field in order and the pointer is behind them. When the length is not
  a multiple of the size, the complete elements are appended and the field is refused.
\<close>

theorem packed_fixed_any_chunks:
  assumes "in_documented L" "env_ok e" "sizeof_Element e = int k" "rf_ok e f"
    and "\<And>v. length (W v) = k" "\<And>v. dec (W v) = v" "length junk < k"
    and "stands s ptr (concat (map W xs) @ junk @ rest) b t" "int (length xs * k + length junk) \<le> b"
    and "int (length (contents f) + length xs) \<le> INT_MAX"
  shows "\<exists>p s' f'. ReadPackedFixed L e dec (Some ptr) (int (length xs * k + length junk)) s f = Some (p, s', f') \<and>
    rf_ok e f' \<and> contents f' = contents f @ xs \<and>
    (if junk = [] then \<exists>ptr'. p = Some ptr' \<and> stands s' ptr' rest (b - int (length xs * k)) t else p = None)"
proof -
  have L: "next_documented L"
    using assms(1) by (simp add: in_documented_def)
  have len: "int (length xs * k + length junk) = int (length (concat (map W xs) @ junk))"
    using length_concat_fixed[of W k xs, OF assms(5)] by simp
  from packed_fixed_loop_ok[where W = W and dec = dec, OF L assms(2,3,5,6,7,8) len assms(9) rf_ok_holds[OF assms(4)] assms(10)]
  show ?thesis
    using holds_rf_ok by (fastforce simp: ReadPackedFixed_def)
qed

theorem packed_fixed_any_chunks_witness:
  "\<exists>p s' f'. ReadPackedFixed (chunk_lib 3) \<lparr>sizeof_Element = 4, allocate_at_least_hook = None\<rparr> image32 (Some 0) 8
      (fed 3 (concat (map (le_bytes 4) [7, 1000000 :: u32]) @ [8])) (fld None 0 []) = Some (p, s', f') \<and>
    contents f' = [7, 1000000] \<and> (\<exists>ptr'. p = Some ptr' \<and> stands s' ptr' [8] (INT_MAX - 8) 0)"
proof -
  let ?e = "\<lparr>sizeof_Element = 4, allocate_at_least_hook = None\<rparr>" and ?xs = "[7, 1000000 :: u32]"
  have e: "env_ok ?e"
    by (simp add: env_ok_def)
  have f: "rf_ok ?e (fld None 0 [] :: u32 RepeatedField)" "contents (fld None 0 [] :: u32 RepeatedField) = []"
    using holds_rf_ok[OF holds_new] by blast+
  have st: "stands (fed 3 (concat (map (le_bytes 4) ?xs) @ [8])) 0 (concat (map (le_bytes 4) ?xs) @ [] @ [8]) INT_MAX 0"
    using fed_stands[of 3 "concat (map (le_bytes 4) ?xs) @ [8]"] by simp
  have "\<exists>p s' f'. ReadPackedFixed (chunk_lib 3) ?e image32 (Some 0) (int (length ?xs * 4 + length ([] :: bytes)))
      (fed 3 (concat (map (le_bytes 4) ?xs) @ [8])) (fld None 0 []) = Some (p, s', f') \<and> rf_ok ?e f' \<and>
      contents f' = contents (fld None 0 [] :: u32 RepeatedField) @ ?xs \<and>
      (if ([] :: bytes) = [] then \<exists>ptr'. p = Some ptr' \<and> stands s' ptr' [8] (INT_MAX - int (length ?xs * 4)) 0 else p = None)"
    by (rule packed_fixed_any_chunks[OF in_documented_chunk_lib e _ f(1) _ _ _ st]) (simp_all add: image_le_bytes INT_MAX_def f(2))
  then show ?thesis
    by (auto simp: f(2))
qed

end
