(* ===== verification/Parse_Context.thy ===== *)
theory Parse_Context
  imports Eps_Input
begin

text \<open>
  \<open>ParseContext\<close>, \<open>FieldParser\<close> and \<open>WireFormatParser\<close> of \<open>google/protobuf/parse_context.h\<close>: the
  recursion depth, nested messages and groups, and the loop that takes a message apart. The classes
  a template parameter stands for are arguments. Shown is that the loop delivers every scalar field
  as it was written, for any chunks of the input, also within a nested message.
\<close>


subsection \<open>\<open>ParseContext\<close>\<close>

definition INT_MIN :: int where "INT_MIN = - (2 ^ 31)"

record parse_ctx =
  stream :: eps_in
  depth :: int
  group_depth :: int
  data :: "nat option \<times> nat option"

text \<open>
  \<open>data\<close> has the addresses of the descriptor pool and of the message factory. \<open>init\<close> is the \<open>InitFrom\<close>
  for the arguments of the constructor.
\<close>

definition new_ParseContext :: "int \<Rightarrow> bool \<Rightarrow> (eps_in \<Rightarrow> 'p \<times> eps_in) \<Rightarrow> 'p \<times> parse_ctx" where
  "new_ParseContext d aliasing init =
     (case init (new_EpsCopyInputStream aliasing) of (start, s) \<Rightarrow> (start, \<lparr>stream = s, depth = d, group_depth = INT_MIN, data = (None, None)\<rparr>))"

definition spawn_ParseContext :: "parse_ctx \<Rightarrow> (eps_in \<Rightarrow> 'p \<times> eps_in) \<Rightarrow> 'p \<times> parse_ctx" where
  "spawn_ParseContext ctx init =
     (case init (new_EpsCopyInputStream False) of (start, s) \<Rightarrow>
       (start, \<lparr>stream = s, depth = depth ctx, group_depth = INT_MIN, data = data ctx\<rparr>))"

definition TrackCorrectEnding :: "parse_ctx \<Rightarrow> parse_ctx" where "TrackCorrectEnding c = c\<lparr>group_depth := 0\<rparr>"

definition Done :: "eps_in_lib \<Rightarrow> nat \<Rightarrow> parse_ctx \<Rightarrow> ((nat option \<times> bool) \<times> parse_ctx) option" where
  "Done L ptr c = do { (r, s) \<leftarrow> DoneWithCheck L (group_depth c) ptr (stream c); Some (r, c\<lparr>stream := s\<rparr>) }"

text \<open>A parse function gets the pointer and the context and works on a message.\<close>

type_synonym 'm parse = "nat \<Rightarrow> parse_ctx \<Rightarrow> 'm \<Rightarrow> (nat option \<times> parse_ctx \<times> 'm) option"
type_synonym size_reader = "nat \<Rightarrow> parse_ctx \<Rightarrow> ((nat \<times> int) option \<times> parse_ctx) option"

definition ReadSizeAndPushLimitAndDepthInlined :: "eps_in_lib \<Rightarrow> size_reader" where
  "ReadSizeAndPushLimitAndDepthInlined L ptr c = do {
     r \<leftarrow> parse_at 5 (ReadSize (ReadSizeFallback L)) (ibuf (stream c)) ptr;
     case r of None \<Rightarrow> Some (None, c)
     | Some (ptr, sz) \<Rightarrow>
         if depth c \<le> 0 then Some (None, c)
         else do {
           (old_limit, s) \<leftarrow> EI_PushLimit ptr (sint sz) (stream c);
           Some (Some (ptr, old_limit), c\<lparr>stream := s, depth := depth c - 1\<rparr>)
         }
   }"

definition pop_depth_and_limit :: "int \<Rightarrow> nat option \<Rightarrow> parse_ctx \<Rightarrow> 'm \<Rightarrow> nat option \<times> parse_ctx \<times> 'm" where
  "pop_depth_and_limit old ptr c msg =
     (case EI_PopLimit old (stream c) of (ok, s) \<Rightarrow> (if \<not> ok then None else ptr, c\<lparr>stream := s, depth := depth c + 1\<rparr>, msg))"

text \<open>The two variants with a message differ in the function that reads the size and in the parser.\<close>

definition ParseMessage :: "size_reader \<Rightarrow> 'm parse \<Rightarrow> 'm parse" where
  "ParseMessage ReadSizeAndPush InternalParse ptr c msg = do {
     (r, c) \<leftarrow> ReadSizeAndPush ptr c;
     case r of None \<Rightarrow> Some (None, c, msg)
     | Some (ptr, old) \<Rightarrow> do {
         let old_depth = depth c;
         (ptr, c, msg) \<leftarrow> InternalParse ptr c msg;
         DCHECK (ptr \<noteq> None \<longrightarrow> old_depth = depth c);
         Some (pop_depth_and_limit old ptr c msg)
       }
   }"

definition ParseMessage_table :: "eps_in_lib \<Rightarrow> 'm parse \<Rightarrow> 'm parse" where
  "ParseMessage_table L ParseLoop ptr c msg = ParseMessage (ReadSizeAndPushLimitAndDepthInlined L) ParseLoop ptr c msg"

definition ParseLengthDelimitedInlined :: "eps_in_lib \<Rightarrow> 'm parse \<Rightarrow> 'm parse" where
  "ParseLengthDelimitedInlined L func ptr c msg = do {
     (r, c) \<leftarrow> ReadSizeAndPushLimitAndDepthInlined L ptr c;
     case r of None \<Rightarrow> Some (None, c, msg)
     | Some (ptr, old) \<Rightarrow> do {
         (ptr, c, msg) \<leftarrow> func ptr c msg;
         Some (pop_depth_and_limit old ptr c msg)
       }
   }"

definition ParseGroup :: "'m parse \<Rightarrow> u32 \<Rightarrow> 'm parse" where
  "ParseGroup InternalParse tag ptr c msg =
     (let c = c\<lparr>depth := depth c - 1\<rparr> in
      if depth c < 0 then Some (None, c, msg)
      else
        let c = c\<lparr>group_depth := group_depth c + 1\<rparr>; old_depth = depth c; old_group_depth = group_depth c in do {
        (ptr, c, msg) \<leftarrow> InternalParse ptr c msg;
        DCHECK (ptr \<noteq> None \<longrightarrow> old_depth = depth c);
        DCHECK (ptr \<noteq> None \<longrightarrow> old_group_depth = group_depth c);
        let c = c\<lparr>group_depth := group_depth c - 1, depth := depth c + 1\<rparr>;
        let (ok, s) = ConsumeEndGroup tag (stream c);
        Some (if \<not> ok then None else ptr, c\<lparr>stream := s\<rparr>, msg)
      })"

subsection \<open>Fields\<close>

record 'p field_parser =
  AddVarint :: "u32 \<Rightarrow> u64 \<Rightarrow> 'p \<Rightarrow> 'p"
  AddFixed64 :: "u32 \<Rightarrow> u64 \<Rightarrow> 'p \<Rightarrow> 'p"
  AddFixed32 :: "u32 \<Rightarrow> u32 \<Rightarrow> 'p \<Rightarrow> 'p"
  ParseLengthDelimited :: "u32 \<Rightarrow> 'p parse"
  FP_ParseGroup :: "u32 \<Rightarrow> 'p parse"

definition InlineCordParser :: "eps_in_lib \<Rightarrow> bytes \<Rightarrow> nat \<Rightarrow> eps_in \<Rightarrow> (nat option \<times> bytes \<times> eps_in) option" where
  "InlineCordParser L cord ptr s = do {
     r \<leftarrow> parse_at 5 (ReadSize (ReadSizeFallback L)) (ibuf s) ptr;
     case r of None \<Rightarrow> Some (None, cord, s) | Some (ptr, sz) \<Rightarrow> EI_ReadCord L ptr (sint sz) cord s
   }"

text \<open>An end tag does not get here: the program would end, the outer \<open>None\<close>.\<close>

definition FieldParser :: "eps_in_lib \<Rightarrow> 'p field_parser \<Rightarrow> u64 \<Rightarrow> 'p parse" where
  "FieldParser L T tag ptr c p =
     (let number = (ucast (drop_bit 3 tag) :: u32); m = ibuf (stream c) in
      if number = 0 then Some (None, c, p)
      else if tag AND 7 = 0 then do {
        r \<leftarrow> parse_at 10 (VarintParse (VarintParseSlow64 L)) m ptr;
        Some (case r of None \<Rightarrow> (None, c, p) | Some (ptr, v) \<Rightarrow> (Some ptr, c, AddVarint T number v p))
      }
      else if tag AND 7 = 1 then do {
        bs \<leftarrow> peek m ptr 8;
        Some (Some (ptr + 8), c, AddFixed64 T number (UnalignedLoad64 bs) p)
      }
      else if tag AND 7 = 2 then ParseLengthDelimited T number ptr c p
      else if tag AND 7 = 3 then FP_ParseGroup T number ptr c p
      else if tag AND 7 = 4 then None
      else if tag AND 7 = 5 then do {
        bs \<leftarrow> peek m ptr 4;
        Some (Some (ptr + 4), c, AddFixed32 T number (UnalignedLoad32 bs) p)
      }
      else Some (None, c, p))"

partial_function (option) WireFormatParser :: "eps_in_lib \<Rightarrow> 'p field_parser \<Rightarrow> 'p parse" where
  "WireFormatParser L T ptr c p = do {
     ((ptr, fin), c) \<leftarrow> Done L ptr c;
     if fin then Some (ptr, c, p)
     else case ptr of None \<Rightarrow> None
     | Some ptr \<Rightarrow> do {
         r \<leftarrow> parse_at 5 (ReadTag (ReadTagFallback L)) (ibuf (stream c)) ptr;
         case r of None \<Rightarrow> Some (None, c, p)
         | Some (ptr, tag) \<Rightarrow>
             if tag = 0 \<or> tag AND 7 = 4 then Some (Some ptr, c\<lparr>stream := EI_SetLastTag tag (stream c)\<rparr>, p)
             else do {
               (ptr, c, p) \<leftarrow> FieldParser L T (ucast tag) ptr c p;
               case ptr of None \<Rightarrow> Some (None, c, p) | Some ptr \<Rightarrow> WireFormatParser L T ptr c p
             }
       }
   }"


subsection \<open>The values of fields\<close>

text \<open>What a field has on the wire behind its tag, and what the loop calls for it.\<close>

datatype wire_value = RVarint u64 | R64 u64 | R32 u32

fun value_of :: "scalar \<Rightarrow> wire_value" where
  "value_of (VInt32 v) = RVarint (scast v)"
| "value_of (VInt64 v) = RVarint v"
| "value_of (VUInt32 v) = RVarint (ucast v)"
| "value_of (VUInt64 v) = RVarint v"
| "value_of (VSInt32 v) = RVarint (ucast (ZigZagEncode32 v))"
| "value_of (VSInt64 v) = RVarint (ZigZagEncode64 v)"
| "value_of (VFixed32 v) = R32 v"
| "value_of (VFixed64 v) = R64 v"
| "value_of (VSFixed32 v) = R32 v"
| "value_of (VSFixed64 v) = R64 v"
| "value_of (VFloat v) = R32 (EncodeFloat v)"
| "value_of (VDouble v) = R64 (EncodeDouble v)"
| "value_of (VBool v) = RVarint (if v then 1 else 0)"
| "value_of (VEnum v) = RVarint (scast v)"

fun value_bytes :: "wire_value \<Rightarrow> bytes" where
  "value_bytes (RVarint w) = UnsafeVarint w"
| "value_bytes (R64 w) = le_bytes 8 w"
| "value_bytes (R32 w) = le_bytes 4 w"

fun deliver :: "'p field_parser \<Rightarrow> i32 \<times> scalar \<Rightarrow> 'p \<Rightarrow> 'p" where
  "deliver T (n, v) p = (case value_of v of RVarint w \<Rightarrow> AddVarint T n w p | R64 w \<Rightarrow> AddFixed64 T n w p | R32 w \<Rightarrow> AddFixed32 T n w p)"

fun field_bytes :: "i32 \<times> scalar \<Rightarrow> bytes" where
  "field_bytes (n, v) = write_scalar n v []"

fun number_ok :: "i32 \<times> scalar \<Rightarrow> bool" where
  "number_ok (n, v) \<longleftrightarrow> n \<noteq> 0 \<and> unat n < 2 ^ 29"

lemmas tagged_eqs = wInt32.Tagged_eq wInt64.Tagged_eq wUInt32.Tagged_eq wUInt64.Tagged_eq wSInt32.Tagged_eq wSInt64.Tagged_eq
  wFixed32.Tagged_eq wFixed64.Tagged_eq wSFixed32.Tagged_eq wSFixed64.Tagged_eq wFloat.Tagged_eq wDouble.Tagged_eq wBool.Tagged_eq wEnum.Tagged_eq

lemma write_scalar_eq: "write_scalar n v [] = UnsafeVarint (MakeTag n (wire_of v)) @ value_bytes (value_of v)"
  by (cases v) (simp_all add: tagged_eqs writer_simps UnsafeVarint_widen UnsafeVarint_bit)

lemma tag_parts:
  assumes "n \<noteq> 0" "unat n < 2 ^ 29"
  shows "ucast (drop_bit 3 (ucast (MakeTag n w) :: u64)) = n" "ucast (MakeTag n w) AND 7 = (ucast (wire_number w) :: u64)"
    "MakeTag n w AND 7 = wire_number w" "MakeTag n w \<noteq> 0"
proof -
  have m: "7 = (mask 3 :: 'a::len word)"
    by (simp add: mask_eq_exp_minus_1)
  show w: "MakeTag n w AND 7 = wire_number w"
    using GetTagWireType_MakeTag[of n w] by (simp add: GetTagWireType_def mask_3 flip: m)
  have "ucast (MakeTag n w) AND 7 = (ucast (MakeTag n w AND 7) :: u64)"
    by (rule bit_word_eqI) (auto simp: bit_simps m)
  then show "ucast (MakeTag n w) AND 7 = (ucast (wire_number w) :: u64)"
    by (simp add: w)
  have f: "drop_bit 3 (MakeTag n w) = n"
    using GetTagFieldNumber_MakeTag[OF assms(2)] by (simp add: GetTagFieldNumber_def kTagTypeBits_def)
  have "ucast (drop_bit 3 (ucast (MakeTag n w) :: u64)) = drop_bit 3 (MakeTag n w)"
    by (rule bit_word_eqI) (auto simp: bit_simps dest: bit_imp_le_length)
  then show "ucast (drop_bit 3 (ucast (MakeTag n w) :: u64)) = n"
    by (simp add: f)
  show "MakeTag n w \<noteq> 0"
    using f assms(1) by auto
qed

lemma wire_of_value: "wire_number (wire_of v) = (case value_of v of RVarint _ \<Rightarrow> 0 | R64 _ \<Rightarrow> 1 | R32 _ \<Rightarrow> 5)"
  by (cases v) simp_all

lemma length_value_bytes: "length (value_bytes r) \<le> 10"
  by (cases r) (simp_all add: length_UnsafeVarint_bound)

lemma field_step:
  assumes "numbers_documented L" "stands (stream c) ptr (value_bytes (value_of v) @ rest) b t" "ptr \<le> buffer_end (stream c) + 4" "number_ok (n, v)"
  shows "FieldParser L T (ucast (MakeTag n (wire_of v))) ptr c p =
      Some (Some (ptr + length (value_bytes (value_of v))), c, deliver T (n, v) p)"
    "stands (stream c) (ptr + length (value_bytes (value_of v))) rest (b - int (length (value_bytes (value_of v)))) t"
proof -
  let ?r = "value_of v" and ?s = "stream c"
  have len: "ptr + 10 \<le> length (ibuf ?s)"
    using standsD(6)[OF assms(2)] assms(3) by simp
  have n: "n \<noteq> 0" "unat n < 2 ^ 29"
    using assms(4) by simp_all
  note t = tag_parts[OF n, of "wire_of v"]
  have pk: "peek (ibuf ?s) ptr (int (length (value_bytes ?r))) = Some (value_bytes ?r)"
    using peek_window[OF assms(2), of "int (length (value_bytes ?r))"] assms(3) length_value_bytes[of ?r] by simp
  show "FieldParser L T (ucast (MakeTag n (wire_of v))) ptr c p =
      Some (Some (ptr + length (value_bytes ?r)), c, deliver T (n, v) p)"
  proof (cases ?r)
    case (RVarint w)
    then have "parse_varint 10 (drop ptr (ibuf ?s)) = Some (length (UnsafeVarint w), w)"
      using number_at[of ?s ptr w rest b t 10] assms(2,3) length_UnsafeVarint_bound(2)[of w] by simp
    moreover have "VarintParse (VarintParseSlow64 L) (drop ptr (ibuf ?s)) = parse_varint 10 (drop ptr (ibuf ?s))"
      using len by (intro VarintParse_documented[OF assms(1)]) simp
    ultimately show ?thesis
      using n len by (simp add: FieldParser_def t wire_of_value RVarint parse_at_def Let_def)
  next
    case (R64 w)
    then show ?thesis
      using n pk by (simp add: FieldParser_def t wire_of_value Let_def UnalignedLoad64_def EndianHelper_Load_def le_value_word)
  next
    case (R32 w)
    then show ?thesis
      using n pk by (simp add: FieldParser_def t wire_of_value Let_def UnalignedLoad32_def EndianHelper_Load_def le_value_word)
  qed
  show "stands ?s (ptr + length (value_bytes ?r)) rest (b - int (length (value_bytes ?r))) t"
    using stands_advance[OF assms(2), of "length (value_bytes ?r)"] assms(3) length_value_bytes[of ?r] by simp
qed

subsection \<open>The end of a message\<close>

lemma Done_more:
  assumes "done_documented L" "stands (stream c) ptr rest b t" "rest \<noteq> []" "0 < b" "group_depth c < 0"
  obtains ptr' s' where "Done L ptr c = Some ((Some ptr', False), c\<lparr>stream := s'\<rparr>)" "stands s' ptr' rest b t" "ptr' < buffer_end s'"
proof (cases "int ptr < limit_end (stream c)")
  case True
  moreover have "limit_end (stream c) \<le> int (buffer_end (stream c))"
    using standsD(1)[OF assms(2)] by (simp add: in_ok_def)
  ultimately show thesis
    using assms(2) by (intro that[of ptr "stream c"]) (simp_all add: Done_def DoneWithCheck_def)
next
  case False
  note d = standsD[OF assms(2)]
  let ?o = "int ptr - int (buffer_end (stream c))"
  have o: "?o < in_limit (stream c)" "ptr < length (line (stream c))" "?o \<le> 16"
    using length_greater_0_conv[THEN iffD2, OF assms(3)] assms(4) d(2,4,7) length_line[OF d(1)] by simp_all
  then obtain s' ptr' where s': "DoneFallback L ?o (group_depth c) (stream c) = ((Some ptr', False), s')" "int ptr' < limit_end s'"
      "stands s' ptr' (rest_at (stream c) ptr) (EI_BytesUntilLimit ptr (stream c)) (last_tag_minus_1 (stream c))"
    using assms(1)[unfolded done_documented_def, THEN spec, THEN spec, THEN spec, of "stream c" ptr "group_depth c"] d(1,2) False assms(5)
    by auto
  have "limit_end s' \<le> int (buffer_end s')"
    using standsD(1)[OF s'(3)] by (simp add: in_ok_def)
  moreover have "stands s' ptr' rest b t"
    using s'(3) assms(2) by (simp add: stands_def[of "stream c"])
  ultimately show thesis
    using s'(1,2) o False by (intro that[of ptr' s']) (simp_all add: Done_def DoneWithCheck_def Let_def)
qed

lemma Done_limit:
  assumes "stands (stream c) ptr rest 0 t"
  shows "Done L ptr c = Some ((Some ptr, True), c)"
proof -
  note d = standsD[OF assms]
  have "limit_end (stream c) = int (buffer_end (stream c)) + min 0 (in_limit (stream c))" "next_chunk (stream c) = NoChunk \<longleftrightarrow> ahead (stream c) = []"
    using d(1) by (simp_all add: in_ok_def)
  then show ?thesis
    using d(2,4,8) by (auto simp: Done_def DoneWithCheck_def Let_def)
qed

lemma Done_end:
  assumes "done_documented L" "stands (stream c) ptr [] b t" "0 < b" "group_depth c < 0"
  obtains ptr' s' where "Done L ptr c = Some ((Some ptr', True), c\<lparr>stream := s'\<rparr>)" "EndedAtEndOfStream s'"
proof -
  note d = standsD[OF assms(2)]
  let ?o = "int ptr - int (buffer_end (stream c))"
  have p: "ptr = length (line (stream c))"
    using d(7,8) length_line[OF d(1)] by simp
  have o: "?o < in_limit (stream c)" "?o \<le> 16" "limit_end (stream c) \<le> int ptr"
    using assms(3) d(1,2,4) p length_line[OF d(1)] by (auto simp: in_ok_def)
  then obtain s' ptr' where "DoneFallback L ?o (group_depth c) (stream c) = ((Some ptr', True), s')" "EndedAtEndOfStream s'"
    using assms(1)[unfolded done_documented_def, THEN spec, THEN spec, THEN spec, of "stream c" ptr "group_depth c"] d(1,2) p assms(4)
    by auto
  then show thesis
    using o by (intro that[of ptr' s']) (simp_all add: Done_def DoneWithCheck_def Let_def)
qed

subsection \<open>The parse loop\<close>

lemma ReadTag_documented:
  assumes "numbers_documented L" "5 \<le> length p"
  shows "ReadTag (ReadTagFallback L) p = parse_varint 5 p"
  using ReadTag_two[OF assms(2), of "ReadTagFallback L"] assms by (auto simp: numbers_documented_def)

lemma tag_at:
  assumes "numbers_documented L" "stands s ptr (UnsafeVarint (tag :: u32) @ rest) b t" "ptr < buffer_end s"
  shows "parse_at 5 (ReadTag (ReadTagFallback L)) (ibuf s) ptr = Some (Some (ptr + length (UnsafeVarint tag), tag))"
    "stands s (ptr + length (UnsafeVarint tag)) rest (b - int (length (UnsafeVarint tag))) t"
    "ptr + length (UnsafeVarint tag) \<le> buffer_end s + 4"
proof -
  note l = length_UnsafeVarint_bound(1)[of tag]
  have "parse_varint 5 (drop ptr (ibuf s)) = Some (length (UnsafeVarint tag), tag)"
    using assms(3) l by (intro number_at[OF assms(2)]) simp_all
  moreover have "5 \<le> length (drop ptr (ibuf s))"
    using assms(3) standsD(6)[OF assms(2)] by simp
  ultimately show "parse_at 5 (ReadTag (ReadTagFallback L)) (ibuf s) ptr = Some (Some (ptr + length (UnsafeVarint tag), tag))"
    using ReadTag_documented[OF assms(1)] by (simp add: parse_at_def)
  show "stands s (ptr + length (UnsafeVarint tag)) rest (b - int (length (UnsafeVarint tag))) t"
    using stands_advance[OF assms(2), of "length (UnsafeVarint tag)"] assms(3) l by simp
  show "ptr + length (UnsafeVarint tag) \<le> buffer_end s + 4"
    using assms(3) l by simp
qed

text \<open>One turn of the loop takes the tag of a field and then the field.\<close>

lemma tag_turn:
  assumes "in_documented L" "stands (stream c) ptr (UnsafeVarint (MakeTag n w) @ rest) b t" "int (length (UnsafeVarint (MakeTag n w))) \<le> b"
    "n \<noteq> 0" "unat n < 2 ^ 29" "wire_number w \<noteq> 4" "group_depth c < 0"
  obtains q s' where "WireFormatParser L T ptr c p = do {
      (r, c, p) \<leftarrow> FieldParser L T (ucast (MakeTag n w)) q (c\<lparr>stream := s'\<rparr>) p;
      case r of None \<Rightarrow> Some (None, c, p) | Some ptr \<Rightarrow> WireFormatParser L T ptr c p }"
    "stands s' q rest (b - int (length (UnsafeVarint (MakeTag n w)))) t" "q \<le> buffer_end s' + 4"
proof -
  let ?tag = "MakeTag n w"
  have L: "done_documented L" "numbers_documented L"
    using assms(1) by (simp_all add: in_documented_def)
  have "UnsafeVarint ?tag @ rest \<noteq> []" "0 < b"
    using length_UnsafeVarint_pos[of ?tag] assms(3) by (simp, linarith)
  from Done_more[OF L(1) assms(2) this assms(7)] obtain q s' where
    q: "Done L ptr c = Some ((Some q, False), c\<lparr>stream := s'\<rparr>)" "stands s' q (UnsafeVarint ?tag @ rest) b t" "q < buffer_end s'"
    by auto
  note t = tag_at[OF L(2) q(2,3)]
  show thesis
    using q(1) t(1) tag_parts(3,4)[OF assms(4,5), of w] assms(6)
    by (intro that[OF _ t(2,3)], subst WireFormatParser.simps) simp
qed

lemma parser_turn:
  assumes "in_documented L" "stands (stream c) ptr (field_bytes f @ rest) b t" "int (length (field_bytes f)) \<le> b"
    "number_ok f" "group_depth c < 0"
  obtains ptr' s' where "WireFormatParser L T ptr c p = WireFormatParser L T ptr' (c\<lparr>stream := s'\<rparr>) (deliver T f p)"
    "stands s' ptr' rest (b - int (length (field_bytes f))) t"
proof -
  obtain n v where f: "f = (n, v)"
    by (cases f)
  let ?tag = "MakeTag n (wire_of v)" and ?r = "value_bytes (value_of v)"
  have L: "numbers_documented L"
    using assms(1) by (simp add: in_documented_def)
  have bytes: "field_bytes f = UnsafeVarint ?tag @ ?r"
    by (simp add: f write_scalar_eq)
  have num: "n \<noteq> 0" "unat n < 2 ^ 29" "wire_number (wire_of v) \<noteq> 4" "number_ok (n, v)"
    using assms(4) by (auto simp: f wire_of_value split: wire_value.splits)
  have st: "stands (stream c) ptr (UnsafeVarint ?tag @ ?r @ rest) b t" "int (length (UnsafeVarint ?tag)) \<le> b"
    using assms(2,3) by (simp_all add: bytes)
  obtain q s' where turn: "WireFormatParser L T ptr c p = do {
        (r, c, p) \<leftarrow> FieldParser L T (ucast ?tag) q (c\<lparr>stream := s'\<rparr>) p;
        case r of None \<Rightarrow> Some (None, c, p) | Some ptr \<Rightarrow> WireFormatParser L T ptr c p }"
      and q: "stands s' q (?r @ rest) (b - int (length (UnsafeVarint ?tag))) t" "q \<le> buffer_end s' + 4"
    by (rule tag_turn[OF assms(1) st num(1-3) assms(5)])
  note step = field_step[OF L, of "c\<lparr>stream := s'\<rparr>" q v rest "b - int (length (UnsafeVarint ?tag))" t n]
  show thesis
    using turn step(1)[of T p] step(2) q num(4)
    by (intro that[of "q + length ?r" s']) (simp_all add: f write_scalar_eq diff_diff_eq)
qed

lemma parser_fields:
  assumes "in_documented L"
  shows "stands (stream c) ptr (concat (map field_bytes fs) @ rest) b t \<Longrightarrow> list_all number_ok fs \<Longrightarrow> group_depth c < 0 \<Longrightarrow>
    int (length (concat (map field_bytes fs))) \<le> b \<Longrightarrow>
    \<exists>ptr' s'. WireFormatParser L T ptr c p = WireFormatParser L T ptr' (c\<lparr>stream := s'\<rparr>) (fold (deliver T) fs p) \<and>
      stands s' ptr' rest (b - int (length (concat (map field_bytes fs)))) t"
proof (induction fs arbitrary: c ptr b p)
  case Nil
  then show ?case
    by (auto intro!: exI[of _ ptr] exI[of _ "stream c"])
next
  case (Cons f fs)
  let ?F = "concat (map field_bytes fs)"
  have pre: "stands (stream c) ptr (field_bytes f @ ?F @ rest) b t" "int (length (field_bytes f)) \<le> b" "number_ok f"
    using Cons.prems by auto
  obtain ptr' s' where s': "WireFormatParser L T ptr c p = WireFormatParser L T ptr' (c\<lparr>stream := s'\<rparr>) (deliver T f p)"
      "stands s' ptr' (?F @ rest) (b - int (length (field_bytes f))) t"
    by (rule parser_turn[OF assms pre Cons.prems(3)])
  have "\<exists>p' s''. WireFormatParser L T ptr' (c\<lparr>stream := s'\<rparr>) (deliver T f p) =
        WireFormatParser L T p' (c\<lparr>stream := s'\<rparr>\<lparr>stream := s''\<rparr>) (fold (deliver T) fs (deliver T f p)) \<and>
      stands s'' p' rest (b - int (length (field_bytes f)) - int (length ?F)) t"
    using s'(2) Cons.prems(2-4) by (intro Cons.IH) auto
  then show ?case
    using s'(1) by (auto simp: algebra_simps)
qed

lemma parser_limit:
  assumes "stands (stream c) ptr rest 0 t"
  shows "WireFormatParser L T ptr c p = Some (Some ptr, c, p)"
  by (subst WireFormatParser.simps) (simp add: Done_limit[OF assms])

lemma parser_loop:
  assumes "in_documented L" "stands (stream c) ptr (concat (map field_bytes fs) @ rest) b t" "list_all number_ok fs" "group_depth c < 0"
    and "b = int (length (concat (map field_bytes fs))) \<or> int (length (concat (map field_bytes fs))) < b \<and> rest = []"
  shows "\<exists>ptr' s'. WireFormatParser L T ptr c p = Some (Some ptr', c\<lparr>stream := s'\<rparr>, fold (deliver T) fs p) \<and>
      (if b = int (length (concat (map field_bytes fs))) then stands s' ptr' rest 0 t else EndedAtEndOfStream s')"
proof -
  let ?F = "concat (map field_bytes fs)"
  obtain ptr' s' where s': "WireFormatParser L T ptr c p = WireFormatParser L T ptr' (c\<lparr>stream := s'\<rparr>) (fold (deliver T) fs p)"
      "stands s' ptr' rest (b - int (length ?F)) t"
    using parser_fields[OF assms(1-4), of T p] assms(5) by auto
  show ?thesis
  proof (cases "b = int (length ?F)")
    case True
    then show ?thesis
      using s' parser_limit[of "c\<lparr>stream := s'\<rparr>" ptr' rest t L T] by auto
  next
    case False
    then have "0 < b - int (length ?F)" "rest = []"
      using assms(5) by auto
    then obtain q s'' where "Done L ptr' (c\<lparr>stream := s'\<rparr>) = Some ((Some q, True), c\<lparr>stream := s'\<rparr>\<lparr>stream := s''\<rparr>)" "EndedAtEndOfStream s''"
      using Done_end[of L "c\<lparr>stream := s'\<rparr>" ptr' "b - int (length ?F)" t] assms(1,4) s'(2) by (auto simp: in_documented_def)
    then show ?thesis
      using False s'(1) by (subst (asm) (2) WireFormatParser.simps) auto
  qed
qed

text \<open>
  The parse loop delivers every scalar field of a message as it was written, once and in order, for
  any chunks of the input. It returns when the limit is reached, with the pointer behind the last
  field, or when the input ends there, which is remembered.
\<close>

theorem parse_loop_any_chunks:
  assumes "in_documented L" "stands (stream c) ptr (concat (map field_bytes fs) @ rest) b t" "list_all number_ok fs" "group_depth c < 0"
    and "b = int (length (concat (map field_bytes fs))) \<or> int (length (concat (map field_bytes fs))) < b \<and> rest = []"
  shows "\<exists>ptr' s'. WireFormatParser L T ptr c p = Some (Some ptr', c\<lparr>stream := s'\<rparr>, fold (deliver T) fs p) \<and>
    (if b = int (length (concat (map field_bytes fs))) then stands s' ptr' rest 0 t else EndedAtEndOfStream s')"
  using parser_loop[OF assms] .

text \<open>
  C12: Parsing inverts serialising: a new context over a flat array that has the scalar fields of a message
  gives the parse loop every field as it was written, once and in order, with the whole array read
  and the end at the limit remembered. This holds for every length, also for arrays that are copied to
  the patch buffer.
\<close>

theorem flat_parse_roundtrip:
  assumes "in_documented L" "list_all number_ok fs"
    and "new_ParseContext d aliasing (InitFrom (concat (map field_bytes fs))) = (ptr, c)"
  shows "\<exists>ptr' s'. WireFormatParser L T ptr c p = Some (Some ptr', c\<lparr>stream := s'\<rparr>, fold (deliver T) fs p) \<and>
    rest_at s' ptr' = [] \<and> EndedAtLimit s'"
proof -
  let ?F = "concat (map field_bytes fs)"
  obtain s where "InitFrom ?F (new_EpsCopyInputStream aliasing) = (ptr, s)" and c: "c = \<lparr>stream = s, depth = d, group_depth = INT_MIN, data = (None, None)\<rparr>"
    using assms(3) by (auto simp: new_ParseContext_def split: prod.splits)
  then have "stands (stream c) ptr (?F @ []) (int (length ?F)) 0"
    using InitFrom_stands[of ?F aliasing ptr s] by simp
  then obtain ptr' s' where "WireFormatParser L T ptr c p = Some (Some ptr', c\<lparr>stream := s'\<rparr>, fold (deliver T) fs p)" "stands s' ptr' [] 0 0"
    using parser_loop[OF assms(1) _ assms(2), of c ptr "[]" "int (length ?F)" 0 T p] c by (auto simp: INT_MIN_def)
  then show ?thesis
    by (auto simp: stands_def EndedAtLimit_def)
qed

subsection \<open>Nested messages\<close>

lemma push_stands:
  assumes "stands s ptr rest b t" "0 \<le> n" "n \<le> INT_MAX - 16"
  obtains s' where "EI_PushLimit ptr n s = Some (b - n, s')" "stands s' ptr rest n t"
proof -
  let ?n = "n + (int ptr - int (buffer_end s))"
  let ?s = "s\<lparr>limit_end := int (buffer_end s) + min 0 ?n, in_limit := ?n\<rparr>"
  have "stands ?s ptr rest n t"
    using assms(1,2) by (auto simp: stands_def in_ok_def line_def rest_at_def EI_BytesUntilLimit_def)
  moreover have "EI_PushLimit ptr n s = Some (b - n, ?s)"
    using assms by (simp add: EI_PushLimit_def Let_def standsD(4)[OF assms(1)])
  ultimately show thesis
    by (rule that[rotated])
qed

lemma pop_stands:
  assumes "stands s ptr rest b 0" "0 \<le> b + delta"
  obtains s' where "EI_PopLimit delta s = (True, s')" "stands s' ptr rest (b + delta) 0"
proof -
  let ?s = "s\<lparr>in_limit := in_limit s + delta, limit_end := int (buffer_end s) + min 0 (in_limit s + delta)\<rparr>"
  have "stands ?s ptr rest (b + delta) 0"
    using assms by (auto simp: stands_def in_ok_def line_def rest_at_def EI_BytesUntilLimit_def)
  moreover have "EI_PopLimit delta s = (True, ?s)"
    using standsD(5)[OF assms(1)] by (simp add: EI_PopLimit_def Let_def EndedAtLimit_def)
  ultimately show thesis
    by (rule that[rotated])
qed

lemma size_and_depth:
  assumes "numbers_documented L" "stands (stream c) ptr (UnsafeVarint (of_nat n :: u32) @ rest) b t"
    and "int n \<le> INT_MAX - 16" "ptr + 5 \<le> buffer_end (stream c) + 16"
  defines "k \<equiv> length (UnsafeVarint (of_nat n :: u32))"
  obtains s' where "ReadSizeAndPushLimitAndDepthInlined L ptr c = Some
      (if depth c \<le> 0 then (None, c) else (Some (ptr + k, b - int k - int n), c\<lparr>depth := depth c - 1, stream := s'\<rparr>))"
    "stands s' (ptr + k) rest (int n) t"
proof -
  note sz = size_at[OF assms(1-4)] and st = stands_size[OF assms(2,4)]
  obtain s' where "EI_PushLimit (ptr + k) (int n) (stream c) = Some (b - int k - int n, s')" "stands s' (ptr + k) rest (int n) t"
    using push_stands[OF st, of "int n"] assms(3) unfolding k_def by auto
  then show thesis
    by (intro that[of s']) (simp_all add: ReadSizeAndPushLimitAndDepthInlined_def sz flip: k_def)
qed

text \<open>A message with its size: the parser of the message gets a context with the limit of the message and one level less.\<close>

definition sized :: "bytes \<Rightarrow> bytes" where
  "sized F = UnsafeVarint (of_nat (length F) :: u32) @ F"

lemma message_frame:
  assumes "numbers_documented L" "stands (stream c) ptr (sized F @ rest) b 0"
    and "ptr + 5 \<le> buffer_end (stream c) + 16" "int (length F) \<le> INT_MAX - 16" "int (length (sized F)) \<le> b"
    and parse: "\<And>q s. 0 < depth c \<Longrightarrow> stands s q (F @ rest) (int (length F)) 0 \<Longrightarrow>
      \<exists>q' s'. InternalParse q (c\<lparr>depth := depth c - 1, stream := s\<rparr>) p =
        Some (Some q', c\<lparr>depth := depth c - 1, stream := s'\<rparr>, p') \<and> stands s' q' rest 0 0"
  shows "if depth c \<le> 0 then ParseMessage_table L InternalParse ptr c p = Some (None, c, p)
    else \<exists>ptr' s'. ParseMessage_table L InternalParse ptr c p = Some (Some ptr', c\<lparr>stream := s'\<rparr>, p') \<and>
      stands s' ptr' rest (b - int (length (sized F))) 0"
proof -
  let ?len = "UnsafeVarint (of_nat (length F) :: u32)"
  let ?old = "b - int (length ?len) - int (length F)"
  have st: "stands (stream c) ptr (?len @ F @ rest) b 0"
    using assms(2) by (simp add: sized_def)
  obtain s1 where s1: "ReadSizeAndPushLimitAndDepthInlined L ptr c = Some (if depth c \<le> 0 then (None, c)
        else (Some (ptr + length ?len, ?old), c\<lparr>depth := depth c - 1, stream := s1\<rparr>))"
      "stands s1 (ptr + length ?len) (F @ rest) (int (length F)) 0"
    by (rule size_and_depth[OF assms(1) st assms(4,3)])
  show ?thesis
  proof (cases "depth c \<le> 0")
    case True
    then show ?thesis
      using s1(1) by (simp add: ParseMessage_table_def ParseMessage_def)
  next
    case False
    then obtain q' s2 where s2: "InternalParse (ptr + length ?len) (c\<lparr>depth := depth c - 1, stream := s1\<rparr>) p =
        Some (Some q', c\<lparr>depth := depth c - 1, stream := s2\<rparr>, p')" "stands s2 q' rest 0 0"
      using parse[OF _ s1(2)] by auto
    obtain s3 where s3: "EI_PopLimit ?old s2 = (True, s3)" "stands s3 q' rest ?old 0"
      using pop_stands[OF s2(2), of ?old] assms(5) by (auto simp: sized_def)
    show ?thesis
      using False s1(1) s2(1) s3
      by (auto simp: ParseMessage_table_def ParseMessage_def pop_depth_and_limit_def sized_def diff_diff_eq intro!: exI[of _ s3])
  qed
qed

text \<open>
  C14: A message within a message is read for any chunks of the input: its fields are delivered once and
  in order, the outer limit and the depth are those from before it, and the pointer is behind it. No
  field of it is read when it is nested deeper than allowed.
\<close>

theorem nested_message_any_chunks:
  fixes fs :: "(i32 \<times> scalar) list"
  defines "F \<equiv> concat (map field_bytes fs)"
  defines "len \<equiv> UnsafeVarint (of_nat (length F) :: u32)"
  assumes "in_documented L" "stands (stream c) ptr (len @ F @ rest) b 0" "list_all number_ok fs" "group_depth c < 0"
    and "ptr + 5 \<le> buffer_end (stream c) + 16" "int (length F) \<le> INT_MAX - 16" "int (length len + length F) \<le> b"
  shows "if depth c \<le> 0 then ParseMessage_table L (WireFormatParser L T) ptr c p = Some (None, c, p)
    else \<exists>ptr' s'. ParseMessage_table L (WireFormatParser L T) ptr c p = Some (Some ptr', c\<lparr>stream := s'\<rparr>, fold (deliver T) fs p) \<and>
      stands s' ptr' rest (b - int (length len + length F)) 0"
proof -
  have L: "numbers_documented L"
    using assms(3) by (simp add: in_documented_def)
  have "\<exists>q' s'. WireFormatParser L T q (c\<lparr>depth := depth c - 1, stream := s\<rparr>) p =
      Some (Some q', c\<lparr>depth := depth c - 1, stream := s'\<rparr>, fold (deliver T) fs p) \<and> stands s' q' rest 0 0"
    if "stands s q (F @ rest) (int (length F)) 0" for q s
    using parser_loop[OF assms(3), where c = "c\<lparr>depth := depth c - 1, stream := s\<rparr>" and fs = fs and rest = rest
        and b = "int (length F)" and t = 0 and T = T and ptr = q and p = p] that assms(5,6)
    unfolding F_def by auto
  then show ?thesis
    using message_frame[OF L, of c ptr F rest b "WireFormatParser L T" p "fold (deliver T) fs p"] assms(4,7-9)
    unfolding len_def sized_def length_append append_assoc by blast
qed

subsection \<open>Groups\<close>

lemma stands_end_tag: "stands s ptr rest b t \<Longrightarrow> stands (EI_SetLastTag tag s) ptr rest b (tag - 1)"
  "stands s ptr rest b t \<Longrightarrow> stands (s\<lparr>last_tag_minus_1 := 0\<rparr>) ptr rest b 0"
  by (auto simp: stands_def in_ok_def line_def rest_at_def EI_BytesUntilLimit_def EI_SetLastTag_def)

lemma end_tag_start_tag:
  assumes "unat m < 2 ^ 29" "unat n < 2 ^ 29"
  shows "MakeTag n WIRETYPE_END_GROUP - 1 = MakeTag m WIRETYPE_START_GROUP \<longleftrightarrow> m = n"
proof -
  have "bit (4 :: u32) k \<Longrightarrow> k = 2" for k
    using bit_exp_iff[of 2 k, where ?'a = u32] by simp
  then have "push_bit 3 n + 4 = push_bit 3 n OR 4"
    by (intro disjunctive_add) (fastforce simp: bit_simps)
  moreover have "push_bit 3 n + mask 2 = push_bit 3 n OR mask 2"
    by (rule disjunctive_add) (simp add: bit_simps)
  ultimately have "push_bit 3 n OR 4 = push_bit 3 n + 4" "push_bit 3 n OR 3 = push_bit 3 n + 3"
    by (simp_all add: mask_eq_exp_minus_1)
  then have "MakeTag n WIRETYPE_END_GROUP - 1 = MakeTag n WIRETYPE_START_GROUP"
    by (simp add: MakeTag_def GOOGLE_PROTOBUF_WIRE_FORMAT_MAKE_TAG_def kTagTypeBits_def)
  then show ?thesis
    using GetTagFieldNumber_MakeTag[OF assms(1)] GetTagFieldNumber_MakeTag[OF assms(2)] by metis
qed

lemma parser_end_tag:
  assumes "in_documented L" "stands (stream c) ptr (UnsafeVarint (MakeTag n WIRETYPE_END_GROUP) @ rest) b t" "n \<noteq> 0" "unat n < 2 ^ 29"
    "group_depth c < 0" "int (length (UnsafeVarint (MakeTag n WIRETYPE_END_GROUP))) \<le> b"
  obtains ptr' s' where "WireFormatParser L T ptr c p = Some (Some ptr', c\<lparr>stream := s'\<rparr>, p)"
    "stands s' ptr' rest (b - int (length (UnsafeVarint (MakeTag n WIRETYPE_END_GROUP)))) (MakeTag n WIRETYPE_END_GROUP - 1)"
proof -
  let ?tag = "MakeTag n WIRETYPE_END_GROUP"
  have L: "done_documented L" "numbers_documented L"
    using assms(1) by (simp_all add: in_documented_def)
  have "UnsafeVarint ?tag @ rest \<noteq> []" "0 < b"
    using length_UnsafeVarint_pos[of ?tag] assms(6) by (simp, linarith)
  from Done_more[OF L(1) assms(2) this assms(5)] obtain q s' where
    q: "Done L ptr c = Some ((Some q, False), c\<lparr>stream := s'\<rparr>)" "stands s' q (UnsafeVarint ?tag @ rest) b t" "q < buffer_end s'"
    by auto
  note t = tag_at[OF L(2) q(2,3)]
  have "?tag AND 7 = 4"
    using tag_parts(3)[OF assms(3,4), of WIRETYPE_END_GROUP] by simp
  then have "WireFormatParser L T ptr c p = Some (Some (q + length (UnsafeVarint ?tag)), c\<lparr>stream := EI_SetLastTag ?tag s'\<rparr>, p)"
    using q(1) t(1) by (subst WireFormatParser.simps) simp
  then show thesis
    using stands_end_tag(1)[OF t(2), of ?tag] by (rule that)
qed

text \<open>
  C25: A group is read for any chunks of the input: its fields are delivered once and in order, and it is
  accepted exactly when its end tag has the field number of its start tag. The depth and the count of
  open groups are those from before it. A group nested deeper than allowed is refused unread.
\<close>

theorem group_any_chunks:
  fixes fs :: "(i32 \<times> scalar) list" and m n :: i32
  defines "F \<equiv> concat (map field_bytes fs)" and "E \<equiv> UnsafeVarint (MakeTag n WIRETYPE_END_GROUP)"
  assumes "in_documented L" "stands (stream c) ptr (F @ E @ rest) b t" "list_all number_ok fs" "group_depth c < -1"
    and "n \<noteq> 0" "unat n < 2 ^ 29" "unat m < 2 ^ 29" "int (length F + length E) \<le> b"
  shows "if depth c \<le> 0
    then ParseGroup (WireFormatParser L T) (MakeTag m WIRETYPE_START_GROUP) ptr c p = Some (None, c\<lparr>depth := depth c - 1\<rparr>, p)
    else \<exists>ptr' s'. ParseGroup (WireFormatParser L T) (MakeTag m WIRETYPE_START_GROUP) ptr c p =
        Some (if m = n then Some ptr' else None, c\<lparr>stream := s'\<rparr>, fold (deliver T) fs p) \<and>
      stands s' ptr' rest (b - int (length F + length E)) 0"
proof (cases "depth c \<le> 0")
  case True
  then show ?thesis
    by (simp add: ParseGroup_def Let_def)
next
  case False
  let ?c = "c\<lparr>depth := depth c - 1, group_depth := group_depth c + 1\<rparr>"
  obtain p1 s1 where s1: "WireFormatParser L T ptr ?c p = WireFormatParser L T p1 (?c\<lparr>stream := s1\<rparr>) (fold (deliver T) fs p)"
      "stands s1 p1 (E @ rest) (b - int (length F)) t"
    using parser_fields[OF assms(3), where c = ?c and fs = fs and rest = "E @ rest" and b = b and t = t and T = T
        and ptr = ptr and p = p] assms(4-6,10)
    unfolding F_def by auto
  obtain p2 s2 where s2: "WireFormatParser L T p1 (?c\<lparr>stream := s1\<rparr>) (fold (deliver T) fs p) =
        Some (Some p2, ?c\<lparr>stream := s1\<rparr>\<lparr>stream := s2\<rparr>, fold (deliver T) fs p)"
      "stands s2 p2 rest (b - int (length F) - int (length E)) (MakeTag n WIRETYPE_END_GROUP - 1)"
    using parser_end_tag[OF assms(3), where c = "?c\<lparr>stream := s1\<rparr>" and T = T and n = n and ptr = p1
        and rest = rest and b = "b - int (length F)" and t = t and p = "fold (deliver T) fs p"] s1(2) assms(6-8,10)
    unfolding E_def by auto
  have "last_tag_minus_1 s2 = MakeTag n WIRETYPE_END_GROUP - 1"
    using standsD(5)[OF s2(2)] .
  then have "ConsumeEndGroup (MakeTag m WIRETYPE_START_GROUP) s2 = (m = n, s2\<lparr>last_tag_minus_1 := 0\<rparr>)"
    using end_tag_start_tag[OF assms(9,8)] by (simp add: ConsumeEndGroup_def)
  then show ?thesis
    using False s1(1) s2(1) stands_end_tag(2)[OF s2(2)]
    by (auto simp: ParseGroup_def Let_def diff_diff_eq intro!: exI[of _ p2] exI[of _ "s2\<lparr>last_tag_minus_1 := 0\<rparr>"])
qed

subsection \<open>Examples\<close>

definition collector :: "(i32 \<times> wire_value) list field_parser" where
  "collector = \<lparr>AddVarint = (\<lambda>n v p. p @ [(n, RVarint v)]), AddFixed64 = (\<lambda>n v p. p @ [(n, R64 v)]), AddFixed32 = (\<lambda>n v p. p @ [(n, R32 v)]),
     ParseLengthDelimited = (\<lambda>_ _ c p. Some (None, c, p)), FP_ParseGroup = (\<lambda>_ _ c p. Some (None, c, p))\<rparr>"

definition context_of :: "eps_in \<Rightarrow> int \<Rightarrow> parse_ctx" where
  "context_of s d = \<lparr>stream = s, depth = d, group_depth = INT_MIN, data = (None, None)\<rparr>"

definition sample_fields :: "(i32 \<times> scalar) list" where
  "sample_fields = [(1, VUInt32 300), (2, VFixed32 7)]"

lemma sample_fields:
  "concat (map field_bytes sample_fields) = [8, 0xAC, 2, 0x15, 7, 0, 0, 0]" "list_all number_ok sample_fields"
  "fold (deliver collector) sample_fields [] = [(1, RVarint 300), (2, R32 7)]"
proof -
  have v: "UnsafeVarint (300 :: u64) = [0xAC, 2]"
    by (subst UnsafeVarint.simps) (simp add: UnsafeVarint_one)
  have "le_bytes (Suc (Suc (Suc (Suc 0)))) (7 :: u32) = [7, 0, 0, 0]"
    by simp
  then have l: "le_bytes 4 (7 :: u32) = [7, 0, 0, 0]"
    by (simp only: numeral_nat)
  have m: "MakeTag 1 WIRETYPE_VARINT = 8" "MakeTag 2 WIRETYPE_FIXED32 = 0x15"
    by (simp_all add: MakeTag_def GOOGLE_PROTOBUF_WIRE_FORMAT_MAKE_TAG_def kTagTypeBits_def)
  show "concat (map field_bytes sample_fields) = [8, 0xAC, 2, 0x15, 7, 0, 0, 0]"
    by (simp add: sample_fields_def write_scalar_eq m v l UnsafeVarint_one)
qed (simp_all add: sample_fields_def collector_def)

theorem parse_loop_any_chunks_witness:
  "\<exists>ptr' s'. WireFormatParser (chunk_lib 3) collector 0 (context_of (fed 3 [8, 0xAC, 2, 0x15, 7, 0, 0, 0]) 100) [] =
      Some (Some ptr', context_of s' 100, [(1, RVarint 300), (2, R32 7)]) \<and> EndedAtEndOfStream s'"
proof -
  let ?c = "context_of (fed 3 (concat (map field_bytes sample_fields))) 100"
  have "\<exists>ptr' s'. WireFormatParser (chunk_lib 3) collector 0 ?c [] = Some (Some ptr', ?c\<lparr>stream := s'\<rparr>, fold (deliver collector) sample_fields []) \<and>
      (if INT_MAX = int (length (concat (map field_bytes sample_fields))) then stands s' ptr' [] 0 0 else EndedAtEndOfStream s')"
    using fed_stands[of 3 "concat (map field_bytes sample_fields)"]
    by (intro parse_loop_any_chunks[OF in_documented_chunk_lib]) (simp_all add: sample_fields INT_MAX_def INT_MIN_def context_of_def)
  then show ?thesis
    by (simp add: sample_fields INT_MAX_def context_of_def)
qed

theorem nested_message_any_chunks_witness:
  "\<exists>ptr' s'. ParseMessage_table (chunk_lib 3) (WireFormatParser (chunk_lib 3) collector) 0
      (context_of (fed 3 [8, 8, 0xAC, 2, 0x15, 7, 0, 0, 0, 9]) 100) [] =
      Some (Some ptr', context_of s' 100, [(1, RVarint 300), (2, R32 7)]) \<and> stands s' ptr' [9] (INT_MAX - 9) 0"
proof -
  let ?F = "concat (map field_bytes sample_fields)"
  let ?n = "UnsafeVarint (of_nat (length ?F) :: u32)"
  let ?c = "context_of (fed 3 (?n @ ?F @ [9])) 100"
  have "if depth ?c \<le> 0 then ParseMessage_table (chunk_lib 3) (WireFormatParser (chunk_lib 3) collector) 0 ?c [] = Some (None, ?c, [])
    else \<exists>ptr' s'. ParseMessage_table (chunk_lib 3) (WireFormatParser (chunk_lib 3) collector) 0 ?c [] =
        Some (Some ptr', ?c\<lparr>stream := s'\<rparr>, fold (deliver collector) sample_fields []) \<and>
      stands s' ptr' [9] (INT_MAX - int (length ?n + length ?F)) 0"
    using fed_stands[of 3 "?n @ ?F @ [9]"]
    by (intro nested_message_any_chunks[OF in_documented_chunk_lib])
      (simp_all add: sample_fields UnsafeVarint_one INT_MAX_def INT_MIN_def context_of_def)
  then show ?thesis
    by (simp add: sample_fields UnsafeVarint_one context_of_def)
qed

theorem group_any_chunks_witness:
  "\<exists>ptr' s'. ParseGroup (WireFormatParser (chunk_lib 3) collector) (MakeTag 5 WIRETYPE_START_GROUP) 0
      (context_of (fed 3 [8, 0xAC, 2, 0x15, 7, 0, 0, 0, 0x2C, 9]) 100) [] =
      Some (Some ptr', context_of s' 100, [(1, RVarint 300), (2, R32 7)]) \<and> stands s' ptr' [9] (INT_MAX - 9) 0"
proof -
  let ?F = "concat (map field_bytes sample_fields)"
  let ?E = "UnsafeVarint (MakeTag 5 WIRETYPE_END_GROUP)"
  let ?c = "context_of (fed 3 (?F @ ?E @ [9])) 100"
  have e: "MakeTag 5 WIRETYPE_END_GROUP = 0x2C"
    by (simp add: MakeTag_def GOOGLE_PROTOBUF_WIRE_FORMAT_MAKE_TAG_def kTagTypeBits_def)
  have "if depth ?c \<le> 0
    then ParseGroup (WireFormatParser (chunk_lib 3) collector) (MakeTag 5 WIRETYPE_START_GROUP) 0 ?c [] = Some (None, ?c\<lparr>depth := depth ?c - 1\<rparr>, [])
    else \<exists>ptr' s'. ParseGroup (WireFormatParser (chunk_lib 3) collector) (MakeTag 5 WIRETYPE_START_GROUP) 0 ?c [] =
        Some (if (5 :: i32) = 5 then Some ptr' else None, ?c\<lparr>stream := s'\<rparr>, fold (deliver collector) sample_fields []) \<and>
      stands s' ptr' [9] (INT_MAX - int (length ?F + length ?E)) 0"
    using fed_stands[of 3 "?F @ ?E @ [9]"]
    by (intro group_any_chunks[OF in_documented_chunk_lib])
      (simp_all add: sample_fields e UnsafeVarint_one INT_MAX_def INT_MIN_def context_of_def)
  then show ?thesis
    by (simp add: sample_fields e UnsafeVarint_one context_of_def)
qed

theorem flat_parse_roundtrip_witness:
  "\<exists>ptr' s'. WireFormatParser (chunk_lib 3) collector 0 (snd (new_ParseContext 100 False (InitFrom [8, 0xAC, 2, 0x15, 7, 0, 0, 0]))) [] =
      Some (Some ptr', context_of s' 100, [(1, RVarint 300), (2, R32 7)]) \<and> rest_at s' ptr' = [] \<and> EndedAtLimit s'"
proof -
  let ?c = "context_of (snd (InitFrom (concat (map field_bytes sample_fields)) (new_EpsCopyInputStream False))) 100"
  have c: "new_ParseContext 100 False (InitFrom (concat (map field_bytes sample_fields))) = (0, ?c)"
    by (simp add: new_ParseContext_def context_of_def InitFrom_def Let_def sample_fields)
  from flat_parse_roundtrip[OF in_documented_chunk_lib[of 3] sample_fields(2) c, of collector "[]"] c show ?thesis
    by (simp add: sample_fields context_of_def)
qed

end
