(* ===== verification/Message_Wire.thy ===== *)
theory Message_Wire
  imports Parse_Context Messages
begin

text \<open>
  The messages of \<open>master.proto\<close> and \<open>slave.proto\<close> on the wire. A declaration in these files fixes the number
  and the type of a field; here every message is written with the array writers of
  \<open>wire_format_lite.h\<close> in the order of the numbers and read with the parse loop of \<open>parse_context.h\<close>.
  Shown is that a packet is read as it was written, however its bytes arrive, so that the
  classes \<open>protoc\<close> generates for these declarations can be what the two programs take them for.
\<close>


subsection \<open>Fields that may be absent\<close>

definition write_opt :: "('v \<Rightarrow> bytes \<Rightarrow> bytes) \<Rightarrow> 'v option \<Rightarrow> bytes \<Rightarrow> bytes" where
  "write_opt w f target = (case f of None \<Rightarrow> target | Some v \<Rightarrow> w v target)"

text \<open>\<open>WriteStringWithSizeToArray\<close> as it is documented.\<close>

definition size_and_string :: "bytes \<Rightarrow> bytes \<Rightarrow> bytes" where
  "size_and_string str target = target @ sized str"

definition string_bytes :: "string \<Rightarrow> bytes" where
  "string_bytes s = map byte_of_char s"

definition write_string :: "i32 \<Rightarrow> string \<Rightarrow> bytes \<Rightarrow> bytes" where
  "write_string n s target = WriteStringToArray size_and_string n (string_bytes s) target"

text \<open>A message within a message is written by its own writer, \<open>body\<close>, with the size of what that gives.\<close>

definition write_message :: "('m \<Rightarrow> bytes) \<Rightarrow> i32 \<Rightarrow> 'm \<Rightarrow> bytes \<Rightarrow> bytes" where
  "write_message body n m target =
     InternalWriteMessageNoVirtualToArray (\<lambda>m. of_nat (length (body m))) (\<lambda>m target. target @ body m) n m target"

subsection \<open>Writing the messages of master.proto\<close>

definition Task_bytes :: "Master_Task \<Rightarrow> bytes" where
  "Task_bytes t =
     (let target = write_opt (WriteUInt32ToArray 1) (tk_id t) [];
          target = write_opt (write_string 2) (tk_project t) target;
          target = write_opt (write_string 3) (tk_outputFile t) target;
          target = write_opt (write_string 4) (tk_application t) target;
          target = write_opt (write_string 5) (tk_commandline t) target;
          target = write_opt (write_string 6) (tk_workingDir t) target;
          target = write_opt (write_string 7) (tk_sourceFile t) target;
          target = write_opt (write_string 8) (tk_inputData t) target
      in write_opt (WriteBoolToArray 9) (tk_abortOnError t) target)"

definition System_bytes :: "Master_System \<Rightarrow> bytes" where
  "System_bytes y = write_opt (WriteBoolToArray 1) (sys_close y) []"

definition Master_Packet_bytes :: "Master_Packet \<Rightarrow> bytes" where
  "Master_Packet_bytes p =
     (let target = write_opt (write_message Task_bytes 1) (mp_task p) []
      in write_opt (write_message System_bytes 2) (mp_system p) target)"

subsection \<open>Writing the messages of slave.proto\<close>

definition Info_bytes :: "Slave_Info \<Rightarrow> bytes" where
  "Info_bytes i = write_opt (WriteInt32ToArray 1) (inf_task_count i) []"

definition Result_bytes :: "Slave_Result \<Rightarrow> bytes" where
  "Result_bytes r =
     (let target = write_opt (WriteUInt32ToArray 1) (rs_id r) [];
          target = write_opt (WriteInt32ToArray 2) (rs_exit_code r) target;
          target = write_opt (WriteInt32ToArray 3) (rs_process_code r) target;
          target = write_opt (write_string 4) (rs_outputFile r) target
      in write_opt (write_string 5) (rs_outputData r) target)"

definition Slave_Packet_bytes :: "Slave_Packet \<Rightarrow> bytes" where
  "Slave_Packet_bytes p =
     (let target = write_opt (write_message Info_bytes 1) (sp_info p) []
      in write_opt (write_message Result_bytes 2) (sp_result p) target)"

subsection \<open>Reading\<close>

text \<open>
  A string is read with its size into an empty string. A message within a message is read into the one
  that is there, or into an empty one.
\<close>

definition read_string :: "eps_in_lib \<Rightarrow> (string \<Rightarrow> 'p \<Rightarrow> 'p) \<Rightarrow> 'p parse" where
  "read_string L put ptr c p = do {
     r \<leftarrow> parse_at 5 (ReadSize (ReadSizeFallback L)) (ibuf (stream c)) ptr;
     case r of None \<Rightarrow> Some (None, c, p)
     | Some (ptr, sz) \<Rightarrow> do {
         (ptr, str, s) \<leftarrow> EI_ReadString L ptr (sint sz) [] (stream c);
         Some (ptr, c\<lparr>stream := s\<rparr>, put (map char_of_byte str) p)
       }
   }"

definition read_message :: "eps_in_lib \<Rightarrow> 'm field_parser \<Rightarrow> ('p \<Rightarrow> 'm) \<Rightarrow> ('m \<Rightarrow> 'p \<Rightarrow> 'p) \<Rightarrow> 'p parse" where
  "read_message L T get put ptr c p = do {
     (ptr, c, m) \<leftarrow> ParseMessage_table L (WireFormatParser L T) ptr c (get p);
     Some (ptr, c, put m p)
   }"

text \<open>
  A group that no message declares is skipped with its fields, the nested ones too: its content is
  parsed and not stored. The number counts the levels that may still be nested; \<open>ParseGroup\<close> refuses a
  group below depth 0 before the number is used up.
\<close>

primrec skip_group :: "nat \<Rightarrow> eps_in_lib \<Rightarrow> u32 \<Rightarrow> 'p parse" where
  "skip_group 0 L = (\<lambda>_ _ c p. Some (None, c, p))"
| "skip_group (Suc k) L = (\<lambda>n. ParseGroup (WireFormatParser L
     \<lparr>AddVarint = (\<lambda>_ _ p. p), AddFixed64 = (\<lambda>_ _ p. p), AddFixed32 = (\<lambda>_ _ p. p),
      ParseLengthDelimited = (\<lambda>_. read_string L (\<lambda>_ p. p)), FP_ParseGroup = skip_group k L\<rparr>) (n * 8 + 3))"

text \<open>
  A field that a message does not declare, or declares with another type, is read and not stored. No
  message has groups or fixed-size numbers.
\<close>

definition message_parser :: "eps_in_lib \<Rightarrow> (u32 \<Rightarrow> u64 \<Rightarrow> 'p \<Rightarrow> 'p) \<Rightarrow> (u32 \<Rightarrow> 'p parse) \<Rightarrow> 'p field_parser" where
  "message_parser L add_varint delimited =
     \<lparr>AddVarint = add_varint, AddFixed64 = (\<lambda>_ _ p. p), AddFixed32 = (\<lambda>_ _ p. p), ParseLengthDelimited = delimited,
      FP_ParseGroup = (\<lambda>n ptr c. skip_group (Suc (nat (depth c))) L n ptr c)\<rparr>"

definition Task_varint :: "u32 \<Rightarrow> u64 \<Rightarrow> Master_Task \<Rightarrow> Master_Task" where
  "Task_varint n v t =
     (if n = 1 then t\<lparr>tk_id := Some (ucast v)\<rparr> else if n = 9 then t\<lparr>tk_abortOnError := Some (v \<noteq> 0)\<rparr> else t)"

definition Task_string :: "u32 \<Rightarrow> string \<Rightarrow> Master_Task \<Rightarrow> Master_Task" where
  "Task_string n s t =
     (if n = 2 then t\<lparr>tk_project := Some s\<rparr>
      else if n = 3 then t\<lparr>tk_outputFile := Some s\<rparr>
      else if n = 4 then t\<lparr>tk_application := Some s\<rparr>
      else if n = 5 then t\<lparr>tk_commandline := Some s\<rparr>
      else if n = 6 then t\<lparr>tk_workingDir := Some s\<rparr>
      else if n = 7 then t\<lparr>tk_sourceFile := Some s\<rparr>
      else if n = 8 then t\<lparr>tk_inputData := Some s\<rparr>
      else t)"

definition Task_parser :: "eps_in_lib \<Rightarrow> Master_Task field_parser" where
  "Task_parser L = message_parser L Task_varint (\<lambda>n. read_string L (Task_string n))"

definition System_varint :: "u32 \<Rightarrow> u64 \<Rightarrow> Master_System \<Rightarrow> Master_System" where
  "System_varint n v y = (if n = 1 then y\<lparr>sys_close := Some (v \<noteq> 0)\<rparr> else y)"

definition System_parser :: "eps_in_lib \<Rightarrow> Master_System field_parser" where
  "System_parser L = message_parser L System_varint (\<lambda>_. read_string L (\<lambda>_ y. y))"

definition Master_Packet_parser :: "eps_in_lib \<Rightarrow> Master_Packet field_parser" where
  "Master_Packet_parser L = message_parser L (\<lambda>_ _ p. p)
     (\<lambda>n. if n = 1 then read_message L (Task_parser L) (\<lambda>p. get_or Master_Task_default (mp_task p)) (\<lambda>t p. p\<lparr>mp_task := Some t\<rparr>)
      else if n = 2 then read_message L (System_parser L) (\<lambda>p. get_or \<lparr>sys_close = None\<rparr> (mp_system p)) (\<lambda>y p. p\<lparr>mp_system := Some y\<rparr>)
      else read_string L (\<lambda>_ p. p))"

definition Info_varint :: "u32 \<Rightarrow> u64 \<Rightarrow> Slave_Info \<Rightarrow> Slave_Info" where
  "Info_varint n v i = (if n = 1 then i\<lparr>inf_task_count := Some (ucast v)\<rparr> else i)"

definition Info_parser :: "eps_in_lib \<Rightarrow> Slave_Info field_parser" where
  "Info_parser L = message_parser L Info_varint (\<lambda>_. read_string L (\<lambda>_ i. i))"

definition Result_varint :: "u32 \<Rightarrow> u64 \<Rightarrow> Slave_Result \<Rightarrow> Slave_Result" where
  "Result_varint n v r =
     (if n = 1 then r\<lparr>rs_id := Some (ucast v)\<rparr>
      else if n = 2 then r\<lparr>rs_exit_code := Some (ucast v)\<rparr>
      else if n = 3 then r\<lparr>rs_process_code := Some (ucast v)\<rparr>
      else r)"

definition Result_string :: "u32 \<Rightarrow> string \<Rightarrow> Slave_Result \<Rightarrow> Slave_Result" where
  "Result_string n s r =
     (if n = 4 then r\<lparr>rs_outputFile := Some s\<rparr> else if n = 5 then r\<lparr>rs_outputData := Some s\<rparr> else r)"

definition Result_parser :: "eps_in_lib \<Rightarrow> Slave_Result field_parser" where
  "Result_parser L = message_parser L Result_varint (\<lambda>n. read_string L (Result_string n))"

definition Result_default :: Slave_Result where
  "Result_default = \<lparr>rs_id = None, rs_exit_code = None, rs_process_code = None, rs_outputFile = None, rs_outputData = None\<rparr>"

definition Slave_Packet_parser :: "eps_in_lib \<Rightarrow> Slave_Packet field_parser" where
  "Slave_Packet_parser L = message_parser L (\<lambda>_ _ p. p)
     (\<lambda>n. if n = 1 then read_message L (Info_parser L) (\<lambda>p. get_or \<lparr>inf_task_count = None\<rparr> (sp_info p)) (\<lambda>i p. p\<lparr>sp_info := Some i\<rparr>)
      else if n = 2 then read_message L (Result_parser L) (\<lambda>p. get_or Result_default (sp_result p)) (\<lambda>r p. p\<lparr>sp_result := Some r\<rparr>)
      else read_string L (\<lambda>_ p. p))"

subsection \<open>Whole packets\<close>

text \<open>\<open>ParseFromArray\<close> clears the message first; what it leaves behind is read also when the parse fails.\<close>

definition parse_array :: "eps_in_lib \<Rightarrow> int \<Rightarrow> 'm field_parser \<Rightarrow> 'm \<Rightarrow> bytes \<Rightarrow> 'm" where
  "parse_array L d T m flat =
     (case new_ParseContext d False (InitFrom flat) of (ptr, c) \<Rightarrow>
        case WireFormatParser L T ptr c m of None \<Rightarrow> m | Some (_, _, m) \<Rightarrow> m)"

definition wire_codec :: "eps_in_lib \<Rightarrow> int \<Rightarrow> codec" where
  "wire_codec L d =
     \<lparr>enc_master = Master_Packet_bytes,
      dec_master = parse_array L d (Master_Packet_parser L) \<lparr>mp_task = None, mp_system = None\<rparr>,
      enc_slave = Slave_Packet_bytes,
      dec_slave = parse_array L d (Slave_Packet_parser L) \<lparr>sp_info = None, sp_result = None\<rparr>\<rparr>"

subsection \<open>Reading a string\<close>

text \<open>
  The documented behaviour of the fallback for strings that go beyond the chunk: it replaces the
  string by the next bytes of the input, if input and limit have so many.
\<close>

definition strings_documented :: "eps_in_lib \<Rightarrow> bool" where
  "strings_documented L \<longleftrightarrow> (\<forall>s ptr rest b t n str. stands s ptr rest b t \<and> chunk_left s ptr < int n \<and> n \<le> length rest \<and> int n \<le> b \<longrightarrow>
     (\<exists>ptr' s'. ReadStringFallback L ptr (int n) str s = (Some ptr', take n rest, s') \<and> stands s' ptr' (drop n rest) (b - int n) t))"

lemma ReadString_any_chunks:
  assumes "strings_documented L" "stands s ptr (bs @ rest) b t" "int (length bs) \<le> b"
  obtains ptr' s' where "EI_ReadString L ptr (int (length bs)) str s = Some (Some ptr', bs, s')" "stands s' ptr' rest (b - int (length bs)) t"
proof (cases "int (length bs) \<le> chunk_left s ptr")
  case True
  then have "ptr + length bs \<le> buffer_end s + 16"
    by (simp add: chunk_left_def)
  then show thesis
    using True peek_window[OF assms(2), of "int (length bs)"] stands_advance[OF assms(2), of "length bs"]
    by (intro that[of "ptr + length bs" s]) (simp_all add: EI_ReadString_def)
next
  case False
  then obtain ptr' s' where "ReadStringFallback L ptr (int (length bs)) str s = (Some ptr', take (length bs) (bs @ rest), s')"
      "stands s' ptr' (drop (length bs) (bs @ rest)) (b - int (length bs)) t"
    using assms(1)[unfolded strings_documented_def, rule_format, of s ptr "bs @ rest" b t "length bs" str] assms(2,3) by auto
  then show thesis
    using False by (intro that[of ptr' s']) (simp_all add: EI_ReadString_def)
qed

lemma string_chars [simp]: "map char_of_byte (string_bytes s) = s"
  by (simp add: string_bytes_def o_def)

lemma read_string_any_chunks:
  assumes "numbers_documented L" "strings_documented L" "stands (stream c) ptr (sized (string_bytes x) @ rest) b t"
    and "ptr + 5 \<le> buffer_end (stream c) + 16" "int (length (sized (string_bytes x))) \<le> b" "int (length (string_bytes x)) \<le> INT_MAX - 16"
  shows "\<exists>ptr' s'. read_string L put ptr c p = Some (Some ptr', c\<lparr>stream := s'\<rparr>, put x p) \<and>
    stands s' ptr' rest (b - int (length (sized (string_bytes x)))) t"
proof -
  let ?bs = "string_bytes x"
  let ?len = "UnsafeVarint (of_nat (length ?bs) :: u32)"
  have st: "stands (stream c) ptr (?len @ ?bs @ rest) b t"
    using assms(3) by (simp add: sized_def)
  note sz = size_at[OF assms(1) st assms(6,4)] and st' = stands_size[OF st assms(4)]
  have "int (length ?bs) \<le> b - int (length ?len)"
    using assms(5) by (simp add: sized_def)
  then obtain ptr' s' where "EI_ReadString L (ptr + length ?len) (int (length ?bs)) [] (stream c) = Some (Some ptr', ?bs, s')"
      "stands s' ptr' rest (b - int (length ?len) - int (length ?bs)) t"
    by (rule ReadString_any_chunks[OF assms(2) st'])
  then show ?thesis
    by (auto simp: read_string_def sz sized_def diff_diff_eq)
qed

subsection \<open>The layout of a message\<close>

text \<open>
  The fields of a message are numbers, or strings and messages, which have their size before them.
  \<open>add\<close> and \<open>put\<close> say what the message becomes with a field.
\<close>

datatype 'm item = Scalar scalar | Sized 'm

fun item_bytes :: "('m \<Rightarrow> bytes) \<Rightarrow> i32 \<times> 'm item \<Rightarrow> bytes" where
  "item_bytes body (n, Scalar v) = write_scalar n v []"
| "item_bytes body (n, Sized x) = UnsafeVarint (MakeTag n WIRETYPE_LENGTH_DELIMITED) @ sized (body x)"

fun put_item :: "(i32 \<Rightarrow> scalar \<Rightarrow> 'p \<Rightarrow> 'p) \<Rightarrow> (i32 \<Rightarrow> 'm \<Rightarrow> 'p \<Rightarrow> 'p) \<Rightarrow> i32 \<times> 'm item \<Rightarrow> 'p \<Rightarrow> 'p" where
  "put_item add put (n, Scalar v) p = add n v p"
| "put_item add put (n, Sized x) p = put n x p"

fun item_ok :: "(i32 \<Rightarrow> 'm \<Rightarrow> bool) \<Rightarrow> i32 \<times> 'm item \<Rightarrow> bool" where
  "item_ok takes (n, Scalar v) \<longleftrightarrow> n \<noteq> 0 \<and> unat n < 2 ^ 29"
| "item_ok takes (n, Sized x) \<longleftrightarrow> n \<noteq> 0 \<and> unat n < 2 ^ 29 \<and> takes n x"

definition items_bytes :: "('m \<Rightarrow> bytes) \<Rightarrow> (i32 \<times> 'm item) list \<Rightarrow> bytes" where
  "items_bytes body is = concat (map (item_bytes body) is)"

lemma items_bytes_simps [simp]:
  "items_bytes body [] = []" "items_bytes body (i # is) = item_bytes body i @ items_bytes body is"
  "items_bytes body (is @ js) = items_bytes body is @ items_bytes body js"
  by (simp_all add: items_bytes_def)

text \<open>
  What a parser promises for the fields with a size, with \<open>levels\<close> levels of nesting left, and what
  follows for the messages it reads.
\<close>

locale message_layout =
  fixes T :: "eps_in_lib \<Rightarrow> 'p field_parser" and body :: "'m \<Rightarrow> bytes" and add :: "i32 \<Rightarrow> scalar \<Rightarrow> 'p \<Rightarrow> 'p"
    and put :: "i32 \<Rightarrow> 'm \<Rightarrow> 'p \<Rightarrow> 'p" and takes :: "i32 \<Rightarrow> 'm \<Rightarrow> bool" and levels :: int
  assumes scalar: "deliver (T L) (n, v) p = add n v p"
    and delimited: "in_documented L \<Longrightarrow> strings_documented L \<Longrightarrow> takes n x \<Longrightarrow> stands (stream c) ptr (sized (body x) @ rest) b 0 \<Longrightarrow>
      ptr + 5 \<le> buffer_end (stream c) + 16 \<Longrightarrow> int (length (sized (body x))) \<le> b \<Longrightarrow> int (length (body x)) \<le> INT_MAX - 16 \<Longrightarrow>
      group_depth c < 0 \<Longrightarrow> levels \<le> depth c \<Longrightarrow>
      \<exists>ptr' s'. ParseLengthDelimited (T L) n ptr c p = Some (Some ptr', c\<lparr>stream := s'\<rparr>, put n x p) \<and>
        stands s' ptr' rest (b - int (length (sized (body x)))) 0"
begin

abbreviation bytes_of :: "(i32 \<times> 'm item) list \<Rightarrow> bytes" where
  "bytes_of \<equiv> items_bytes body"

lemma turn:
  assumes "in_documented L" "strings_documented L" "stands (stream c) ptr (item_bytes body i @ rest) b 0" "int (length (item_bytes body i)) \<le> b"
    "item_ok takes i" "int (length (item_bytes body i)) \<le> INT_MAX - 16" "group_depth c < 0" "levels \<le> depth c"
  shows "\<exists>ptr' s'. WireFormatParser L (T L) ptr c p = WireFormatParser L (T L) ptr' (c\<lparr>stream := s'\<rparr>) (put_item add put i p) \<and>
    stands s' ptr' rest (b - int (length (item_bytes body i))) 0"
proof -
  obtain n k where i: "i = (n, k)"
    by (cases i)
  show ?thesis
  proof (cases k)
    case (Scalar v)
    have pre: "stands (stream c) ptr (field_bytes (n, v) @ rest) b 0" "int (length (field_bytes (n, v))) \<le> b" "number_ok (n, v)"
      using assms(3-5) by (simp_all add: i Scalar)
    show ?thesis
      by (rule parser_turn[OF assms(1) pre assms(7), of "T L" p]) (auto simp: i Scalar scalar simp del: deliver.simps)
  next
    case (Sized x)
    let ?tag = "MakeTag n WIRETYPE_LENGTH_DELIMITED"
    have ok: "n \<noteq> 0" "unat n < 2 ^ 29" "wire_number WIRETYPE_LENGTH_DELIMITED \<noteq> 4" "takes n x"
      using assms(5) by (simp_all add: i Sized)
    have st: "stands (stream c) ptr (UnsafeVarint ?tag @ sized (body x) @ rest) b 0" "int (length (UnsafeVarint ?tag)) \<le> b"
      using assms(3,4) by (simp_all add: i Sized)
    obtain q s' where turn: "WireFormatParser L (T L) ptr c p = do {
          (r, c, p) \<leftarrow> FieldParser L (T L) (ucast ?tag) q (c\<lparr>stream := s'\<rparr>) p;
          case r of None \<Rightarrow> Some (None, c, p) | Some ptr \<Rightarrow> WireFormatParser L (T L) ptr c p }"
        and q: "stands s' q (sized (body x) @ rest) (b - int (length (UnsafeVarint ?tag))) 0" "q \<le> buffer_end s' + 4"
      by (rule tag_turn[OF assms(1) st ok(1-3) assms(7)])
    have "FieldParser L (T L) (ucast ?tag) q (c\<lparr>stream := s'\<rparr>) p = ParseLengthDelimited (T L) n q (c\<lparr>stream := s'\<rparr>) p"
      using ok(1) by (simp add: FieldParser_def tag_parts[OF ok(1,2)] Let_def)
    moreover obtain q' s'' where "ParseLengthDelimited (T L) n q (c\<lparr>stream := s'\<rparr>) p = Some (Some q', c\<lparr>stream := s'\<rparr>\<lparr>stream := s''\<rparr>, put n x p)"
        "stands s'' q' rest (b - int (length (UnsafeVarint ?tag)) - int (length (sized (body x)))) 0"
      using delimited[OF assms(1,2) ok(4), of "c\<lparr>stream := s'\<rparr>" q rest "b - int (length (UnsafeVarint ?tag))" p] q assms(4,6,7,8)
      by (auto simp: i Sized sized_def[of "body x"])
    ultimately show ?thesis
      using turn by (auto simp: i Sized diff_diff_eq)
  qed
qed

lemma items:
  assumes L: "in_documented L" "strings_documented L"
  shows "stands (stream c) ptr (bytes_of is @ rest) b 0 \<Longrightarrow> list_all (item_ok takes) is \<Longrightarrow> int (length (bytes_of is)) \<le> b \<Longrightarrow>
    int (length (bytes_of is)) \<le> INT_MAX - 16 \<Longrightarrow> group_depth c < 0 \<Longrightarrow> levels \<le> depth c \<Longrightarrow>
    \<exists>ptr' s'. WireFormatParser L (T L) ptr c p = WireFormatParser L (T L) ptr' (c\<lparr>stream := s'\<rparr>) (fold (put_item add put) is p) \<and>
      stands s' ptr' rest (b - int (length (bytes_of is))) 0"
proof (induction "is" arbitrary: c ptr b p)
  case Nil
  then show ?case
    by (auto intro!: exI[of _ ptr] exI[of _ "stream c"])
next
  case (Cons i "is")
  let ?i = "int (length (item_bytes body i))"
  obtain ptr' s' where s': "WireFormatParser L (T L) ptr c p = WireFormatParser L (T L) ptr' (c\<lparr>stream := s'\<rparr>) (put_item add put i p)"
      "stands s' ptr' (bytes_of is @ rest) (b - ?i) 0"
    using turn[OF L, of c ptr i "bytes_of is @ rest" b p] Cons.prems by auto
  have "\<exists>p' s''. WireFormatParser L (T L) ptr' (c\<lparr>stream := s'\<rparr>) (put_item add put i p) =
        WireFormatParser L (T L) p' (c\<lparr>stream := s'\<rparr>\<lparr>stream := s''\<rparr>) (fold (put_item add put) is (put_item add put i p)) \<and>
      stands s'' p' rest (b - ?i - int (length (bytes_of is))) 0"
    using s'(2) Cons.prems by (intro Cons.IH) auto
  then show ?case
    using s'(1) by (auto simp: algebra_simps)
qed

lemma loop:
  assumes "in_documented L" "strings_documented L" "stands (stream c) ptr (bytes_of is @ rest) (int (length (bytes_of is))) 0"
    and "list_all (item_ok takes) is" "int (length (bytes_of is)) \<le> INT_MAX - 16" "group_depth c < 0" "levels \<le> depth c"
  shows "\<exists>ptr' s'. WireFormatParser L (T L) ptr c p = Some (Some ptr', c\<lparr>stream := s'\<rparr>, fold (put_item add put) is p) \<and> stands s' ptr' rest 0 0"
proof -
  obtain ptr' s' where "WireFormatParser L (T L) ptr c p = WireFormatParser L (T L) ptr' (c\<lparr>stream := s'\<rparr>) (fold (put_item add put) is p)"
      "stands s' ptr' rest 0 0"
    using items[OF assms(1-4), of p] assms(5-7) by auto
  then show ?thesis
    using parser_limit[of "c\<lparr>stream := s'\<rparr>" ptr' rest 0 L "T L"] by auto
qed

lemma nested:
  assumes "in_documented L" "strings_documented L" "stands (stream c) ptr (sized (bytes_of is) @ rest) b 0" "list_all (item_ok takes) is"
    and "ptr + 5 \<le> buffer_end (stream c) + 16" "int (length (sized (bytes_of is))) \<le> b" "int (length (bytes_of is)) \<le> INT_MAX - 16"
    and "group_depth c < 0" "levels < depth c" "0 \<le> levels"
  shows "\<exists>ptr' s'. ParseMessage_table L (WireFormatParser L (T L)) ptr c p = Some (Some ptr', c\<lparr>stream := s'\<rparr>, fold (put_item add put) is p) \<and>
    stands s' ptr' rest (b - int (length (sized (bytes_of is)))) 0"
proof -
  have L: "numbers_documented L"
    using assms(1) by (simp add: in_documented_def)
  have "\<exists>q' s'. WireFormatParser L (T L) q (c\<lparr>depth := depth c - 1, stream := s\<rparr>) p =
      Some (Some q', c\<lparr>depth := depth c - 1, stream := s'\<rparr>, fold (put_item add put) is p) \<and> stands s' q' rest 0 0"
    if "stands s q (bytes_of is @ rest) (int (length (bytes_of is))) 0" for q s
    using loop[OF assms(1,2), of "c\<lparr>depth := depth c - 1, stream := s\<rparr>" q "is" rest p] that assms(4,7-9) by auto
  then show ?thesis
    using message_frame[OF L assms(3,5,7,6), of "WireFormatParser L (T L)" p "fold (put_item add put) is p"] assms(9,10) by auto
qed

lemma flat:
  assumes "in_documented L" "strings_documented L" "list_all (item_ok takes) is" "int (length (bytes_of is)) \<le> INT_MAX - 16" "levels \<le> d"
  shows "parse_array L d (T L) p (bytes_of is) = fold (put_item add put) is p"
proof -
  obtain ptr s where s: "InitFrom (bytes_of is) (new_EpsCopyInputStream False) = (ptr, s)"
    by (cases "InitFrom (bytes_of is) (new_EpsCopyInputStream False)")
  let ?c = "\<lparr>stream = s, depth = d, group_depth = INT_MIN, data = (None, None)\<rparr>"
  have "stands (stream ?c) ptr (bytes_of is @ []) (int (length (bytes_of is))) 0"
    using InitFrom_stands[OF s] by simp
  then obtain ptr' s' where "WireFormatParser L (T L) ptr ?c p = Some (Some ptr', ?c\<lparr>stream := s'\<rparr>, fold (put_item add put) is p)"
    using loop[OF assms(1,2), of ?c ptr "is" "[]" p] assms(3-5) by (auto simp: INT_MIN_def)
  then show ?thesis
    by (simp add: parse_array_def new_ParseContext_def s)
qed

end

subsection \<open>The messages as lists of fields\<close>

definition opt_item :: "i32 \<Rightarrow> ('v \<Rightarrow> 'm item) \<Rightarrow> 'v option \<Rightarrow> (i32 \<times> 'm item) list" where
  "opt_item n k f = (case f of None \<Rightarrow> [] | Some v \<Rightarrow> [(n, k v)])"

definition Task_items :: "Master_Task \<Rightarrow> (i32 \<times> string item) list" where
  "Task_items t = opt_item 1 (Scalar \<circ> VUInt32) (tk_id t) @ opt_item 2 Sized (tk_project t) @ opt_item 3 Sized (tk_outputFile t) @
     opt_item 4 Sized (tk_application t) @ opt_item 5 Sized (tk_commandline t) @ opt_item 6 Sized (tk_workingDir t) @
     opt_item 7 Sized (tk_sourceFile t) @ opt_item 8 Sized (tk_inputData t) @ opt_item 9 (Scalar \<circ> VBool) (tk_abortOnError t)"

definition System_items :: "Master_System \<Rightarrow> (i32 \<times> string item) list" where
  "System_items y = opt_item 1 (Scalar \<circ> VBool) (sys_close y)"

definition Master_Packet_items :: "Master_Packet \<Rightarrow> (i32 \<times> (Master_Task + Master_System) item) list" where
  "Master_Packet_items p = opt_item 1 (Sized \<circ> Inl) (mp_task p) @ opt_item 2 (Sized \<circ> Inr) (mp_system p)"

definition Info_items :: "Slave_Info \<Rightarrow> (i32 \<times> string item) list" where
  "Info_items i = opt_item 1 (Scalar \<circ> VInt32) (inf_task_count i)"

definition Result_items :: "Slave_Result \<Rightarrow> (i32 \<times> string item) list" where
  "Result_items r = opt_item 1 (Scalar \<circ> VUInt32) (rs_id r) @ opt_item 2 (Scalar \<circ> VInt32) (rs_exit_code r) @
     opt_item 3 (Scalar \<circ> VInt32) (rs_process_code r) @ opt_item 4 Sized (rs_outputFile r) @ opt_item 5 Sized (rs_outputData r)"

definition Slave_Packet_items :: "Slave_Packet \<Rightarrow> (i32 \<times> (Slave_Info + Slave_Result) item) list" where
  "Slave_Packet_items p = opt_item 1 (Sized \<circ> Inl) (sp_info p) @ opt_item 2 (Sized \<circ> Inr) (sp_result p)"

text \<open>An absent field writes nothing; a present one appends its bytes.\<close>

lemma write_opt_bytes:
  "write_opt (WriteUInt32ToArray n) f0 target = target @ items_bytes string_bytes (opt_item n (Scalar \<circ> VUInt32) f0)"
  "write_opt (WriteInt32ToArray n) f1 target = target @ items_bytes string_bytes (opt_item n (Scalar \<circ> VInt32) f1)"
  "write_opt (WriteBoolToArray n) f2 target = target @ items_bytes string_bytes (opt_item n (Scalar \<circ> VBool) f2)"
  "write_opt (write_string n) f3 target = target @ items_bytes string_bytes (opt_item n Sized f3)"
  by (simp_all add: write_opt_def opt_item_def write_string_def WriteStringToArray_def size_and_string_def WriteTagToArray_eq tagged_eqs
      writer_simps Let_def split: option.split)

lemma write_opt_message:
  "(\<And>m. body (g m) = w m) \<Longrightarrow> write_opt (write_message w n) f target = target @ items_bytes body (opt_item n (Sized \<circ> g) f)"
  by (simp add: write_opt_def opt_item_def write_message_def InternalWriteMessageNoVirtualToArray_def WriteTagToArray_eq
      WriteVarint32ToArray_def sized_def Let_def split: option.split)

lemma message_items:
  "Task_bytes t = items_bytes string_bytes (Task_items t)"
  "System_bytes y = items_bytes string_bytes (System_items y)"
  "Info_bytes i = items_bytes string_bytes (Info_items i)"
  "Result_bytes r = items_bytes string_bytes (Result_items r)"
  by (simp_all only: Task_bytes_def Task_items_def System_bytes_def System_items_def Info_bytes_def Info_items_def Result_bytes_def Result_items_def
      write_opt_bytes Let_def items_bytes_simps append_assoc append_Nil)

lemma packet_items:
  "Master_Packet_bytes p = items_bytes (case_sum Task_bytes System_bytes) (Master_Packet_items p)"
  "Slave_Packet_bytes q = items_bytes (case_sum Info_bytes Result_bytes) (Slave_Packet_items q)"
  by (simp_all add: Master_Packet_bytes_def Master_Packet_items_def Slave_Packet_bytes_def Slave_Packet_items_def
      write_opt_message[where body = "case_sum Task_bytes System_bytes" and g = Inl] write_opt_message[where body = "case_sum Task_bytes System_bytes" and g = Inr]
      write_opt_message[where body = "case_sum Info_bytes Result_bytes" and g = Inl] write_opt_message[where body = "case_sum Info_bytes Result_bytes" and g = Inr])

subsection \<open>The parsers keep to the layout\<close>

definition varint_add :: "(u32 \<Rightarrow> u64 \<Rightarrow> 'p \<Rightarrow> 'p) \<Rightarrow> i32 \<Rightarrow> scalar \<Rightarrow> 'p \<Rightarrow> 'p" where
  "varint_add add_varint n v p = (case value_of v of RVarint w \<Rightarrow> add_varint n w p | _ \<Rightarrow> p)"

lemma message_parser_simps [simp]:
  "deliver (message_parser L add_varint delimited) (n, v) p = varint_add add_varint n v p"
  "ParseLengthDelimited (message_parser L add_varint delimited) = delimited"
  by (simp_all add: message_parser_def varint_add_def split: wire_value.split)

text \<open>Messages of numbers and strings.\<close>

lemma string_layout:
  assumes "\<And>L. T L = message_parser L add_varint (\<lambda>n. read_string L (put n))"
  shows "message_layout T string_bytes (varint_add add_varint) put (\<lambda>_ _. True) 0"
  by (unfold_locales; unfold assms message_parser_simps; (rule refl | rule read_string_any_chunks))
    (simp_all add: in_documented_def)

interpretation task: message_layout Task_parser string_bytes "varint_add Task_varint" Task_string "\<lambda>_ _. True" 0
  by (rule string_layout) (rule Task_parser_def)

interpretation sys: message_layout System_parser string_bytes "varint_add System_varint" "\<lambda>_ _ y. y" "\<lambda>_ _. True" 0
  by (rule string_layout) (rule System_parser_def)

interpretation info: message_layout Info_parser string_bytes "varint_add Info_varint" "\<lambda>_ _ i. i" "\<lambda>_ _. True" 0
  by (rule string_layout) (rule Info_parser_def)

interpretation result: message_layout Result_parser string_bytes "varint_add Result_varint" Result_string "\<lambda>_ _. True" 0
  by (rule string_layout) (rule Result_parser_def)

text \<open>What reading a message adds to the one that is there: the present fields replace the old ones.\<close>

definition over :: "'v option \<Rightarrow> 'v option \<Rightarrow> 'v option" where
  "over new old = (case new of None \<Rightarrow> old | Some v \<Rightarrow> Some v)"

lemma over_simps [simp]: "over new None = new" "over None old = old" "over (Some v) old = Some v"
  by (simp_all add: over_def split: option.split)

definition Task_merge :: "Master_Task \<Rightarrow> Master_Task \<Rightarrow> Master_Task" where
  "Task_merge t old =
     \<lparr>tk_id = over (tk_id t) (tk_id old), tk_project = over (tk_project t) (tk_project old),
      tk_outputFile = over (tk_outputFile t) (tk_outputFile old), tk_application = over (tk_application t) (tk_application old),
      tk_commandline = over (tk_commandline t) (tk_commandline old), tk_workingDir = over (tk_workingDir t) (tk_workingDir old),
      tk_sourceFile = over (tk_sourceFile t) (tk_sourceFile old), tk_inputData = over (tk_inputData t) (tk_inputData old),
      tk_abortOnError = over (tk_abortOnError t) (tk_abortOnError old)\<rparr>"

definition System_merge :: "Master_System \<Rightarrow> Master_System \<Rightarrow> Master_System" where
  "System_merge y old = \<lparr>sys_close = over (sys_close y) (sys_close old)\<rparr>"

definition Info_merge :: "Slave_Info \<Rightarrow> Slave_Info \<Rightarrow> Slave_Info" where
  "Info_merge i old = \<lparr>inf_task_count = over (inf_task_count i) (inf_task_count old)\<rparr>"

definition Result_merge :: "Slave_Result \<Rightarrow> Slave_Result \<Rightarrow> Slave_Result" where
  "Result_merge r old =
     \<lparr>rs_id = over (rs_id r) (rs_id old), rs_exit_code = over (rs_exit_code r) (rs_exit_code old),
      rs_process_code = over (rs_process_code r) (rs_process_code old), rs_outputFile = over (rs_outputFile r) (rs_outputFile old),
      rs_outputData = over (rs_outputData r) (rs_outputData old)\<rparr>"

lemma fold_opt_item:
  "fold (put_item add put) (opt_item n (Scalar \<circ> k) f) p = (case f of None \<Rightarrow> p | Some v \<Rightarrow> add n (k v) p)"
  "fold (put_item add put) (opt_item n Sized g) p = (case g of None \<Rightarrow> p | Some s \<Rightarrow> put n s p)"
  "fold (put_item add put) (opt_item n (Sized \<circ> k') h) p = (case h of None \<Rightarrow> p | Some m \<Rightarrow> put n (k' m) p)"
  by (simp_all add: opt_item_def split: option.split)

lemma ucast_narrow [simp]: "ucast (ucast v :: u64) = (v :: u32)" "ucast (scast v :: u64) = (v :: u32)"
  by (rule bit_word_eqI, auto simp: bit_simps)+

lemma put_task:
  "(case f of None \<Rightarrow> p | Some v \<Rightarrow> varint_add Task_varint 1 (VUInt32 v) p) = p\<lparr>tk_id := over f (tk_id p)\<rparr>"
  "(case g of None \<Rightarrow> p | Some v \<Rightarrow> varint_add Task_varint 9 (VBool v) p) = p\<lparr>tk_abortOnError := over g (tk_abortOnError p)\<rparr>"
  "(case h of None \<Rightarrow> p | Some s \<Rightarrow> Task_string 2 s p) = p\<lparr>tk_project := over h (tk_project p)\<rparr>"
  "(case h of None \<Rightarrow> p | Some s \<Rightarrow> Task_string 3 s p) = p\<lparr>tk_outputFile := over h (tk_outputFile p)\<rparr>"
  "(case h of None \<Rightarrow> p | Some s \<Rightarrow> Task_string 4 s p) = p\<lparr>tk_application := over h (tk_application p)\<rparr>"
  "(case h of None \<Rightarrow> p | Some s \<Rightarrow> Task_string 5 s p) = p\<lparr>tk_commandline := over h (tk_commandline p)\<rparr>"
  "(case h of None \<Rightarrow> p | Some s \<Rightarrow> Task_string 6 s p) = p\<lparr>tk_workingDir := over h (tk_workingDir p)\<rparr>"
  "(case h of None \<Rightarrow> p | Some s \<Rightarrow> Task_string 7 s p) = p\<lparr>tk_sourceFile := over h (tk_sourceFile p)\<rparr>"
  "(case h of None \<Rightarrow> p | Some s \<Rightarrow> Task_string 8 s p) = p\<lparr>tk_inputData := over h (tk_inputData p)\<rparr>"
  by (simp_all add: varint_add_def Task_varint_def Task_string_def split: option.split)

lemma put_result:
  "(case f of None \<Rightarrow> p | Some v \<Rightarrow> varint_add Result_varint 1 (VUInt32 v) p) = p\<lparr>rs_id := over f (rs_id p)\<rparr>"
  "(case g of None \<Rightarrow> p | Some v \<Rightarrow> varint_add Result_varint 2 (VInt32 v) p) = p\<lparr>rs_exit_code := over g (rs_exit_code p)\<rparr>"
  "(case g of None \<Rightarrow> p | Some v \<Rightarrow> varint_add Result_varint 3 (VInt32 v) p) = p\<lparr>rs_process_code := over g (rs_process_code p)\<rparr>"
  "(case h of None \<Rightarrow> p | Some s \<Rightarrow> Result_string 4 s p) = p\<lparr>rs_outputFile := over h (rs_outputFile p)\<rparr>"
  "(case h of None \<Rightarrow> p | Some s \<Rightarrow> Result_string 5 s p) = p\<lparr>rs_outputData := over h (rs_outputData p)\<rparr>"
  by (simp_all add: varint_add_def Result_varint_def Result_string_def split: option.split)

lemma merge_items:
  "fold (put_item (varint_add Task_varint) Task_string) (Task_items t) p = Task_merge t p"
  "fold (put_item (varint_add System_varint) (\<lambda>_ _ y. y)) (System_items y) q = System_merge y q"
  "fold (put_item (varint_add Info_varint) (\<lambda>_ _ i. i)) (Info_items i) j = Info_merge i j"
  "fold (put_item (varint_add Result_varint) Result_string) (Result_items r) o' = Result_merge r o'"
  subgoal by (simp add: Task_items_def fold_opt_item put_task Task_merge_def)
  subgoal by (simp add: System_items_def fold_opt_item System_merge_def varint_add_def System_varint_def split: option.split)
  subgoal by (simp add: Info_items_def fold_opt_item Info_merge_def varint_add_def Info_varint_def split: option.split)
  subgoal by (simp add: Result_items_def fold_opt_item put_result Result_merge_def)
  done

lemma merge_default [simp]:
  "Task_merge t Master_Task_default = t" "System_merge y \<lparr>sys_close = None\<rparr> = y" "Info_merge i \<lparr>inf_task_count = None\<rparr> = i" "Result_merge r Result_default = r"
  by (simp_all add: Task_merge_def Master_Task_default_def System_merge_def Info_merge_def Result_merge_def Result_default_def)

lemma items_ok:
  "list_all (item_ok (\<lambda>_ _. True)) (Task_items t)" "list_all (item_ok (\<lambda>_ _. True)) (System_items y)"
  "list_all (item_ok (\<lambda>_ _. True)) (Info_items i)" "list_all (item_ok (\<lambda>_ _. True)) (Result_items r)"
  by (simp_all add: Task_items_def System_items_def Info_items_def Result_items_def opt_item_def split: option.split)

text \<open>Packets: their fields are messages, one level down.\<close>

definition Master_put :: "i32 \<Rightarrow> Master_Task + Master_System \<Rightarrow> Master_Packet \<Rightarrow> Master_Packet" where
  "Master_put n x p = (case x of Inl t \<Rightarrow> p\<lparr>mp_task := Some (Task_merge t (get_or Master_Task_default (mp_task p)))\<rparr>
     | Inr y \<Rightarrow> p\<lparr>mp_system := Some (System_merge y (get_or \<lparr>sys_close = None\<rparr> (mp_system p)))\<rparr>)"

definition Slave_put :: "i32 \<Rightarrow> Slave_Info + Slave_Result \<Rightarrow> Slave_Packet \<Rightarrow> Slave_Packet" where
  "Slave_put n x p = (case x of Inl i \<Rightarrow> p\<lparr>sp_info := Some (Info_merge i (get_or \<lparr>inf_task_count = None\<rparr> (sp_info p)))\<rparr>
     | Inr r \<Rightarrow> p\<lparr>sp_result := Some (Result_merge r (get_or Result_default (sp_result p)))\<rparr>)"

definition first_or_second :: "i32 \<Rightarrow> 'a + 'b \<Rightarrow> bool" where
  "first_or_second n x \<longleftrightarrow> n = (case x of Inl _ \<Rightarrow> 1 | Inr _ \<Rightarrow> 2)"

interpretation master: message_layout Master_Packet_parser "case_sum Task_bytes System_bytes" "varint_add (\<lambda>_ _ p. p)" Master_put first_or_second 1
proof
  fix L n x ptr rest b p and c :: parse_ctx
  assume L: "in_documented L" "strings_documented L" and x: "first_or_second n x"
    and st: "stands (stream c) ptr (sized (case_sum Task_bytes System_bytes x) @ rest) b 0" "ptr + 5 \<le> buffer_end (stream c) + 16"
      "int (length (sized (case_sum Task_bytes System_bytes x))) \<le> b" "int (length (case_sum Task_bytes System_bytes x)) \<le> INT_MAX - 16"
      "group_depth c < 0" "1 \<le> depth c"
  show "\<exists>ptr' s'. ParseLengthDelimited (Master_Packet_parser L) n ptr c p = Some (Some ptr', c\<lparr>stream := s'\<rparr>, Master_put n x p) \<and>
      stands s' ptr' rest (b - int (length (sized (case_sum Task_bytes System_bytes x)))) 0"
  proof (cases x)
    case (Inl t)
    then show ?thesis
      using task.nested[OF L, of c ptr "Task_items t" rest b "get_or Master_Task_default (mp_task p)"] st x
      by (auto simp: message_items items_ok merge_items Master_Packet_parser_def read_message_def first_or_second_def Master_put_def)
  next
    case (Inr y)
    then show ?thesis
      using sys.nested[OF L, of c ptr "System_items y" rest b "get_or \<lparr>sys_close = None\<rparr> (mp_system p)"] st x
      by (auto simp: message_items items_ok merge_items Master_Packet_parser_def read_message_def first_or_second_def Master_put_def)
  qed
qed (simp add: Master_Packet_parser_def del: deliver.simps)

interpretation slave: message_layout Slave_Packet_parser "case_sum Info_bytes Result_bytes" "varint_add (\<lambda>_ _ p. p)" Slave_put first_or_second 1
proof
  fix L n x ptr rest b p and c :: parse_ctx
  assume L: "in_documented L" "strings_documented L" and x: "first_or_second n x"
    and st: "stands (stream c) ptr (sized (case_sum Info_bytes Result_bytes x) @ rest) b 0" "ptr + 5 \<le> buffer_end (stream c) + 16"
      "int (length (sized (case_sum Info_bytes Result_bytes x))) \<le> b" "int (length (case_sum Info_bytes Result_bytes x)) \<le> INT_MAX - 16"
      "group_depth c < 0" "1 \<le> depth c"
  show "\<exists>ptr' s'. ParseLengthDelimited (Slave_Packet_parser L) n ptr c p = Some (Some ptr', c\<lparr>stream := s'\<rparr>, Slave_put n x p) \<and>
      stands s' ptr' rest (b - int (length (sized (case_sum Info_bytes Result_bytes x)))) 0"
  proof (cases x)
    case (Inl i)
    then show ?thesis
      using info.nested[OF L, of c ptr "Info_items i" rest b "get_or \<lparr>inf_task_count = None\<rparr> (sp_info p)"] st x
      by (auto simp: message_items items_ok merge_items Slave_Packet_parser_def read_message_def first_or_second_def Slave_put_def)
  next
    case (Inr r)
    then show ?thesis
      using result.nested[OF L, of c ptr "Result_items r" rest b "get_or Result_default (sp_result p)"] st x
      by (auto simp: message_items items_ok merge_items Slave_Packet_parser_def read_message_def first_or_second_def Slave_put_def)
  qed
qed (simp add: Slave_Packet_parser_def del: deliver.simps)

lemma packet_items_ok:
  "list_all (item_ok first_or_second) (Master_Packet_items p)" "list_all (item_ok first_or_second) (Slave_Packet_items q)"
  by (simp_all add: Master_Packet_items_def Slave_Packet_items_def opt_item_def first_or_second_def split: option.split)

lemma packet_put:
  "fold (put_item (varint_add (\<lambda>_ _ p. p)) Master_put) (Master_Packet_items p) \<lparr>mp_task = None, mp_system = None\<rparr> = p"
  "fold (put_item (varint_add (\<lambda>_ _ p. p)) Slave_put) (Slave_Packet_items q) \<lparr>sp_info = None, sp_result = None\<rparr> = q"
  by (cases p; cases q; simp add: Master_Packet_items_def Slave_Packet_items_def fold_opt_item Master_put_def Slave_put_def split: option.split)+

subsection \<open>Packets are read as they were written\<close>

text \<open>
  C9: The packets of both directions are read as they were written, for any chunks of the input: every
  field of the packet and of the messages in it, present or absent, numbers of their width and strings of any
  length, also where a chunk ends within a field. Nothing behind the packet is read, and the limit and
  the depth of the context are kept.
\<close>

theorem packets_any_chunks:
  fixes p :: Master_Packet and q :: Slave_Packet
  defines "M \<equiv> Master_Packet_bytes p" and "S \<equiv> Slave_Packet_bytes q"
  assumes "in_documented L" "strings_documented L" "group_depth c < 0" "1 \<le> depth c"
  shows "(int (length M) \<le> INT_MAX - 16 \<and> stands (stream c) ptr (M @ rest) (int (length M)) 0 \<longrightarrow>
      (\<exists>ptr' s'. WireFormatParser L (Master_Packet_parser L) ptr c \<lparr>mp_task = None, mp_system = None\<rparr> = Some (Some ptr', c\<lparr>stream := s'\<rparr>, p) \<and>
        stands s' ptr' rest 0 0)) \<and>
    (int (length S) \<le> INT_MAX - 16 \<and> stands (stream c) ptr (S @ rest) (int (length S)) 0 \<longrightarrow>
      (\<exists>ptr' s'. WireFormatParser L (Slave_Packet_parser L) ptr c \<lparr>sp_info = None, sp_result = None\<rparr> = Some (Some ptr', c\<lparr>stream := s'\<rparr>, q) \<and>
        stands s' ptr' rest 0 0))"
  using master.loop[OF assms(3,4), of c ptr "Master_Packet_items p" rest "\<lparr>mp_task = None, mp_system = None\<rparr>"]
    slave.loop[OF assms(3,4), of c ptr "Slave_Packet_items q" rest "\<lparr>sp_info = None, sp_result = None\<rparr>"] assms(5,6)
  unfolding M_def S_def by (simp add: packet_items packet_items_ok packet_put)

text \<open>From one array.\<close>

lemma wire_codec_inverse:
  assumes "in_documented L" "strings_documented L" "1 \<le> d"
  shows "int (length (Master_Packet_bytes p)) \<le> INT_MAX - 16 \<Longrightarrow> dec_master (wire_codec L d) (enc_master (wire_codec L d) p) = p"
    and "int (length (Slave_Packet_bytes q)) \<le> INT_MAX - 16 \<Longrightarrow> dec_slave (wire_codec L d) (enc_slave (wire_codec L d) q) = q"
  using master.flat[OF assms(1,2) packet_items_ok(1) _ assms(3), of p] slave.flat[OF assms(1,2) packet_items_ok(2) _ assms(3), of q]
  by (simp_all add: wire_codec_def packet_items packet_put)

lemma wire_codec_nonempty:
  "mp_task p \<noteq> None \<or> mp_system p \<noteq> None \<Longrightarrow> 0 < length (enc_master (wire_codec L d) p)"
  "sp_info q \<noteq> None \<or> sp_result q \<noteq> None \<Longrightarrow> 0 < length (enc_slave (wire_codec L d) q)"
  using length_UnsafeVarint_pos
  by (auto simp: wire_codec_def packet_items Master_Packet_items_def Slave_Packet_items_def opt_item_def split: option.splits)

text \<open>A packet is hardly longer than its strings.\<close>

definition texts :: "string option list \<Rightarrow> nat" where
  "texts fs = sum_list (map (\<lambda>f. length (get_or [] f)) fs)"

definition Master_texts :: "Master_Packet \<Rightarrow> nat" where
  "Master_texts p = (case mp_task p of None \<Rightarrow> 0 | Some t \<Rightarrow>
     texts [tk_project t, tk_outputFile t, tk_application t, tk_commandline t, tk_workingDir t, tk_sourceFile t, tk_inputData t])"

definition Slave_texts :: "Slave_Packet \<Rightarrow> nat" where
  "Slave_texts p = (case sp_result p of None \<Rightarrow> 0 | Some r \<Rightarrow> texts [rs_outputFile r, rs_outputData r])"

lemma length_sized: "length (sized F) \<le> 5 + length F"
  using length_UnsafeVarint_bound(1)[of "of_nat (length F)"] by (simp add: sized_def)

lemma length_opt_item:
  "length (items_bytes body (opt_item n (Scalar \<circ> k) f)) \<le> 15"
  "length (items_bytes string_bytes (opt_item n Sized g)) \<le> 10 + length (get_or [] g)"
  "length (items_bytes body (opt_item n (Sized \<circ> k') h)) \<le> 10 + (case h of None \<Rightarrow> 0 | Some m \<Rightarrow> length (body (k' m)))"
proof -
  have tag: "length (UnsafeVarint (MakeTag n w)) \<le> 5" for w
    by (rule length_UnsafeVarint_bound)
  show "length (items_bytes body (opt_item n (Scalar \<circ> k) f)) \<le> 15"
    using add_mono[OF tag length_value_bytes] by (simp add: opt_item_def write_scalar_eq split: option.split)
  show "length (items_bytes string_bytes (opt_item n Sized g)) \<le> 10 + length (get_or [] g)"
    using add_mono[OF tag length_sized[of "string_bytes (the g)"]] by (cases g) (simp_all add: opt_item_def string_bytes_def)
  show "length (items_bytes body (opt_item n (Sized \<circ> k') h)) \<le> 10 + (case h of None \<Rightarrow> 0 | Some m \<Rightarrow> length (body (k' m)))"
    using add_mono[OF tag length_sized] by (simp add: opt_item_def split: option.split)
qed

lemma message_length:
  "length (Task_bytes t) \<le> 100 + texts [tk_project t, tk_outputFile t, tk_application t, tk_commandline t, tk_workingDir t, tk_sourceFile t, tk_inputData t]"
  "length (System_bytes y) \<le> 15" "length (Info_bytes i) \<le> 15" "length (Result_bytes r) \<le> 65 + texts [rs_outputFile r, rs_outputData r]"
  unfolding message_items Task_items_def System_items_def Info_items_def Result_items_def items_bytes_simps length_append texts_def
  subgoal by (rule order_trans[OF add_mono[OF length_opt_item(1) add_mono[OF length_opt_item(2) add_mono[OF length_opt_item(2) add_mono[OF length_opt_item(2) add_mono[OF length_opt_item(2) add_mono[OF length_opt_item(2) add_mono[OF length_opt_item(2) add_mono[OF length_opt_item(2) length_opt_item(1)]]]]]]]]]) simp
  subgoal by (rule length_opt_item)
  subgoal by (rule length_opt_item)
  subgoal by (rule order_trans[OF add_mono[OF length_opt_item(1) add_mono[OF length_opt_item(1) add_mono[OF length_opt_item(1) add_mono[OF length_opt_item(2) length_opt_item(2)]]]]]) simp
  done

lemma packet_length:
  "length (Master_Packet_bytes p) \<le> 135 + Master_texts p" "length (Slave_Packet_bytes q) \<le> 100 + Slave_texts q"
proof -
  have "(case mp_task p of None \<Rightarrow> 0 | Some t \<Rightarrow> length (Task_bytes t)) \<le> 100 + Master_texts p"
    "(case mp_system p of None \<Rightarrow> 0 | Some y \<Rightarrow> length (System_bytes y)) \<le> 15"
    "(case sp_info q of None \<Rightarrow> 0 | Some i \<Rightarrow> length (Info_bytes i)) \<le> 15"
    "(case sp_result q of None \<Rightarrow> 0 | Some r \<Rightarrow> length (Result_bytes r)) \<le> 65 + Slave_texts q"
    using message_length by (auto simp: Master_texts_def Slave_texts_def split: option.split)
  note b = this
  have "length (Master_Packet_bytes p) \<le> (10 + (case mp_task p of None \<Rightarrow> 0 | Some t \<Rightarrow> length (Task_bytes t))) +
      (10 + (case mp_system p of None \<Rightarrow> 0 | Some y \<Rightarrow> length (System_bytes y)))"
    using add_mono[OF length_opt_item(3)[of "case_sum Task_bytes System_bytes" 1 Inl "mp_task p"]
        length_opt_item(3)[of "case_sum Task_bytes System_bytes" 2 Inr "mp_system p"]]
    by (simp add: packet_items Master_Packet_items_def cong: option.case_cong)
  then show "length (Master_Packet_bytes p) \<le> 135 + Master_texts p"
    using b(1,2) by linarith
  have "length (Slave_Packet_bytes q) \<le> (10 + (case sp_info q of None \<Rightarrow> 0 | Some i \<Rightarrow> length (Info_bytes i))) +
      (10 + (case sp_result q of None \<Rightarrow> 0 | Some r \<Rightarrow> length (Result_bytes r)))"
    using add_mono[OF length_opt_item(3)[of "case_sum Info_bytes Result_bytes" 1 Inl "sp_info q"]
        length_opt_item(3)[of "case_sum Info_bytes Result_bytes" 2 Inr "sp_result q"]]
    by (simp add: packet_items Slave_Packet_items_def cong: option.case_cong)
  then show "length (Slave_Packet_bytes q) \<le> 100 + Slave_texts q"
    using b(3,4) by linarith
qed

subsection \<open>A library for strings\<close>

text \<open>Chunks of \<open>n\<close> bytes, with the fallback for strings as a loop over the chunks.\<close>

definition string_lib :: "nat \<Rightarrow> eps_in_lib" where
  "string_lib n = (chunk_lib n)\<lparr>ReadStringFallback := (\<lambda>ptr sz str s.
     case AppendSize (chunk_lib n) (\<lambda>bs str. str @ bs) ptr sz s [] of None \<Rightarrow> (None, [], s) | Some (r, s, str) \<Rightarrow> (r, str, s))\<rparr>"

lemma string_lib_documented:
  assumes "0 < n"
  shows "in_documented (string_lib n)" "strings_documented (string_lib n)"
proof -
  have "Next (string_lib n) = Next (chunk_lib n)" "DoneFallback (string_lib n) = DoneFallback (chunk_lib n)"
    "VarintParseSlow64 (string_lib n) = VarintParseSlow64 (chunk_lib n)" "VarintParseSlow32 (string_lib n) = VarintParseSlow32 (chunk_lib n)"
    "ReadTagFallback (string_lib n) = ReadTagFallback (chunk_lib n)" "ReadSizeFallback (string_lib n) = ReadSizeFallback (chunk_lib n)"
    by (simp_all add: string_lib_def)
  then show "in_documented (string_lib n)"
    using in_documented_chunk_lib[OF assms]
    by (simp only: in_documented_def next_documented_def done_documented_def numbers_documented_def)
  have "\<exists>ptr' s'. AppendSize (chunk_lib n) (\<lambda>bs str. str @ bs) ptr (int m) s [] = Some (Some ptr', s', take m rest) \<and>
      stands s' ptr' (drop m rest) (b - int m) t"
    if "stands s ptr rest b t" "chunk_left s ptr < int m" "m \<le> length rest" "int m \<le> b" for s ptr rest b t m
  proof -
    have N: "next_documented (chunk_lib n)"
      using in_documented_chunk_lib[OF assms] by (simp add: in_documented_def)
    have "(\<lambda>bs str. str @ bs) = appends_str"
      by (simp add: fun_eq_iff appends_str_def)
    then show ?thesis
      using append_size_loop_ok[OF N that(1,2), of "[]"] that(3,4) by (auto simp: AppendSize_def)
  qed
  then show "strings_documented (string_lib n)"
    unfolding strings_documented_def by (fastforce simp: string_lib_def)
qed

subsection \<open>Examples\<close>

definition sample_task_packet :: Master_Packet where
  "sample_task_packet = \<lparr>mp_task = Some (Master_Task_default\<lparr>tk_id := Some 300, tk_project := Some ''ab''\<rparr>), mp_system = None\<rparr>"

definition sample_info_packet :: Slave_Packet where
  "sample_info_packet = \<lparr>sp_info = Some \<lparr>inf_task_count = Some 5\<rparr>, sp_result = None\<rparr>"

lemma sample_packet_bytes:
  "Master_Packet_bytes sample_task_packet = [0x0A, 7, 8, 0xAC, 2, 0x12, 2, 97, 98]"
  "Slave_Packet_bytes sample_info_packet = [0x0A, 2, 8, 5]"
proof -
  have v: "UnsafeVarint (300 :: u64) = [0xAC, 2]"
    by (subst UnsafeVarint.simps) (simp add: UnsafeVarint_one)
  have m: "MakeTag 1 WIRETYPE_VARINT = 8" "MakeTag 1 WIRETYPE_LENGTH_DELIMITED = 0x0A" "MakeTag 2 WIRETYPE_LENGTH_DELIMITED = 0x12"
    by (simp_all add: MakeTag_def GOOGLE_PROTOBUF_WIRE_FORMAT_MAKE_TAG_def kTagTypeBits_def)
  show "Master_Packet_bytes sample_task_packet = [0x0A, 7, 8, 0xAC, 2, 0x12, 2, 97, 98]"
    "Slave_Packet_bytes sample_info_packet = [0x0A, 2, 8, 5]"
    by (simp_all add: packet_items Master_Packet_items_def Slave_Packet_items_def sample_task_packet_def sample_info_packet_def message_items Task_items_def Info_items_def
        opt_item_def Master_Task_default_def write_scalar_eq m v sized_def UnsafeVarint_one string_bytes_def byte_of_char_def)
qed

theorem packets_any_chunks_witness:
  "(\<exists>ptr' s'. WireFormatParser (string_lib 3) (Master_Packet_parser (string_lib 3)) 0
      (context_of ((fed 3 [0x0A, 7, 8, 0xAC, 2, 0x12, 2, 97, 98])\<lparr>in_limit := 6\<rparr>) 100) \<lparr>mp_task = None, mp_system = None\<rparr> =
      Some (Some ptr', context_of s' 100, sample_task_packet) \<and> stands s' ptr' [] 0 0) \<and>
   (\<exists>ptr' s'. WireFormatParser (string_lib 3) (Slave_Packet_parser (string_lib 3)) 0
      (context_of ((fed 3 [0x0A, 2, 8, 5])\<lparr>in_limit := 1\<rparr>) 100) \<lparr>sp_info = None, sp_result = None\<rparr> =
      Some (Some ptr', context_of s' 100, sample_info_packet) \<and> stands s' ptr' [] 0 0)"
proof -
  let ?m = "(fed 3 [0x0A, 7, 8, 0xAC, 2, 0x12, 2, 97, 98])\<lparr>in_limit := 6\<rparr>" and ?s = "(fed 3 [0x0A, 2, 8, 5])\<lparr>in_limit := 1\<rparr>"
  have "stands ?m 0 [0x0A, 7, 8, 0xAC, 2, 0x12, 2, 97, 98] 9 0" "stands ?s 0 [0x0A, 2, 8, 5] 4 0"
    by (simp_all add: stands_def in_ok_def line_def rest_at_def EI_BytesUntilLimit_def fed_def chunk_of_def Let_def new_EpsCopyInputStream_def INT_MAX_def)
  moreover have L: "in_documented (string_lib 3)" "strings_documented (string_lib 3)"
    by (simp_all add: string_lib_documented)
  ultimately show ?thesis
    using packets_any_chunks[OF L, where c = "context_of ?m 100" and ptr = 0 and rest = "[]" and p = sample_task_packet and q = sample_info_packet]
      packets_any_chunks[OF L, where c = "context_of ?s 100" and ptr = 0 and rest = "[]" and p = sample_task_packet and q = sample_info_packet]
    by (simp add: sample_packet_bytes context_of_def INT_MIN_def INT_MAX_def)
qed

end
