(* ===== verification/Repeated_Ptr_Field.thy ===== *)
theory Repeated_Ptr_Field
  imports Repeated_Field
begin

text \<open>
  \<open>google/protobuf/repeated_ptr_field.h\<close>: the array of pointers behind a repeated field of strings or
  messages. It owns its elements; removed elements are cleared and kept for reuse behind the used ones.

  Elements live in a heap: an object has a value, the arena \<open>GetArena\<close> reports for it, and its
  owner, an arena that will release it or \<open>None\<close>. The result \<open>None\<close> of an operation is undefined
  behaviour: the use of a released object or of a pointer nobody has written, the release of an object that an
  arena owns, an access outside the array, or a violated \<open>ABSL_DCHECK\<close>. What the header only declares is
  a record of parameters with its documented behaviour.

  Theory \<open>Ptr_Ownership\<close> has the properties.
\<close>

subsection \<open>Objects\<close>

record 'v obj =
  obj_value :: 'v
  obj_arena :: "nat option"
  obj_owner :: "nat option"

record 'v heap =
  objs :: "nat \<rightharpoonup> 'v obj"
  next_obj :: nat

text \<open>\<open>new\<close> or \<open>Arena::Create\<close>, \<open>delete\<close>, \<open>Arena::Own\<close>, reading an object and assigning to it.\<close>

definition Create :: "nat option \<Rightarrow> 'v \<Rightarrow> 'v heap \<Rightarrow> nat \<times> 'v heap" where
  "Create arena v h = (next_obj h,
     h\<lparr>objs := (objs h)(next_obj h \<mapsto> \<lparr>obj_value = v, obj_arena = arena, obj_owner = arena\<rparr>), next_obj := Suc (next_obj h)\<rparr>)"

definition delete_obj :: "nat \<Rightarrow> 'v heap \<Rightarrow> 'v heap option" where
  "delete_obj a h = do { x \<leftarrow> objs h a; DCHECK (obj_owner x = None); Some (h\<lparr>objs := (objs h)(a := None)\<rparr>) }"

definition Own :: "nat \<Rightarrow> nat \<Rightarrow> 'v heap \<Rightarrow> 'v heap option" where
  "Own arena a h = do { x \<leftarrow> objs h a; DCHECK (obj_owner x = None); Some (h\<lparr>objs := (objs h)(a \<mapsto> x\<lparr>obj_owner := Some arena\<rparr>)\<rparr>) }"

definition deref :: "nat \<Rightarrow> 'v heap \<Rightarrow> 'v option" where
  "deref a h = map_option obj_value (objs h a)"

definition assign :: "nat \<Rightarrow> 'v \<Rightarrow> 'v heap \<Rightarrow> 'v heap option" where
  "assign a v h = do { x \<leftarrow> objs h a; Some (h\<lparr>objs := (objs h)(a \<mapsto> x\<lparr>obj_value := v\<rparr>)\<rparr>) }"

subsection \<open>Type handlers\<close>

text \<open>What the element class provides. A string does not know its arena.\<close>

record 'v handler =
  h_new :: 'v
  h_Clear :: "'v \<Rightarrow> 'v"
  h_Merge :: "'v \<Rightarrow> 'v \<Rightarrow> 'v"
  h_GetArena :: "'v obj \<Rightarrow> nat option"
  h_SpaceUsedLong :: "'v \<Rightarrow> nat"

definition GenericTypeHandler :: "'v \<Rightarrow> ('v \<Rightarrow> 'v) \<Rightarrow> ('v \<Rightarrow> 'v \<Rightarrow> 'v) \<Rightarrow> ('v \<Rightarrow> nat) \<Rightarrow> 'v handler" where
  "GenericTypeHandler new_value clear merge space_used =
     \<lparr>h_new = new_value, h_Clear = clear, h_Merge = merge, h_GetArena = obj_arena, h_SpaceUsedLong = space_used\<rparr>"

definition StringTypeHandler :: "nat \<Rightarrow> (string \<Rightarrow> nat) \<Rightarrow> string handler" where
  "StringTypeHandler sizeof_string StringSpaceUsedExcludingSelfLong =
     \<lparr>h_new = [], h_Clear = (\<lambda>_. []), h_Merge = (\<lambda>from _. from), h_GetArena = (\<lambda>_. None),
      h_SpaceUsedLong = (\<lambda>v. sizeof_string + StringSpaceUsedExcludingSelfLong v)\<rparr>"

definition th_New :: "'v handler \<Rightarrow> nat option \<Rightarrow> 'v heap \<Rightarrow> nat \<times> 'v heap" where
  "th_New H arena h = Create arena (h_new H) h"

definition th_NewFromPrototype :: "'v handler \<Rightarrow> nat \<Rightarrow> nat option \<Rightarrow> 'v heap \<Rightarrow> nat \<times> 'v heap" where
  "th_NewFromPrototype H prototype arena h = th_New H arena h"

definition th_Delete :: "nat \<Rightarrow> nat option \<Rightarrow> 'v heap \<Rightarrow> 'v heap option" where
  "th_Delete a arena h = (if arena \<noteq> None then Some h else delete_obj a h)"

definition th_GetArena :: "'v handler \<Rightarrow> nat \<Rightarrow> 'v heap \<Rightarrow> nat option option" where
  "th_GetArena H a h = map_option (h_GetArena H) (objs h a)"

definition th_Clear :: "'v handler \<Rightarrow> nat \<Rightarrow> 'v heap \<Rightarrow> 'v heap option" where
  "th_Clear H a h = do { v \<leftarrow> deref a h; assign a (h_Clear H v) h }"

definition th_Merge :: "'v handler \<Rightarrow> nat \<Rightarrow> nat \<Rightarrow> 'v heap \<Rightarrow> 'v heap option" where
  "th_Merge H from to h = do { v \<leftarrow> deref from h; w \<leftarrow> deref to h; assign to (h_Merge H v w) h }"

text \<open>Creates a copy on an arena: the functor of \<open>MergeFrom\<close> and \<open>copy\<close>.\<close>

definition CopyMessage :: "'v handler \<Rightarrow> nat option \<Rightarrow> nat \<Rightarrow> 'v heap \<Rightarrow> (nat \<times> 'v heap) option" where
  "CopyMessage H arena src h = do {
     let (msg, h) = th_New H arena h;
     h \<leftarrow> th_Merge H src msg h;
     Some (msg, h)
   }"

definition RP_copy :: "'v handler \<Rightarrow> nat \<Rightarrow> 'v heap \<Rightarrow> (nat \<times> 'v heap) option" where
  "RP_copy H a h = do {
     let (new_value, h) = th_NewFromPrototype H a None h;
     h \<leftarrow> th_Merge H a new_value h;
     Some (new_value, h)
   }"

subsection \<open>The array\<close>

text \<open>
  \<open>tagged_rep_or_elem_\<close> is the only element or null, or, with its lowest bit set, the address of a \<open>Rep\<close>.
  A cell nobody has written is \<open>None\<close>.
\<close>

datatype rep_or_elem = Elem "nat option" | Rep (rep_allocated: int) (rep_cells: "nat option list")

record ptr_field =
  tagged_rep_or_elem :: rep_or_elem
  pf_current_size :: int
  pf_total_size :: int
  pf_arena :: "nat option"

record 'v ptr_lib =
  InternalExtend :: "int \<Rightarrow> ptr_field \<Rightarrow> ptr_field"
  RP_Reserve :: "int \<Rightarrow> ptr_field \<Rightarrow> ptr_field"
  CloseGap :: "int \<Rightarrow> int \<Rightarrow> ptr_field \<Rightarrow> ptr_field"
  AddOutOfLineHelper :: "nat \<Rightarrow> ptr_field \<Rightarrow> ptr_field"
  AddOutOfLineHelper_factory :: "(nat option \<Rightarrow> 'v heap \<Rightarrow> nat \<times> 'v heap) \<Rightarrow> ptr_field \<Rightarrow> 'v heap \<Rightarrow> nat \<times> ptr_field \<times> 'v heap"
  MergeFromConcreteMessage :: "(nat option \<Rightarrow> nat \<Rightarrow> 'v heap \<Rightarrow> (nat \<times> 'v heap) option) \<Rightarrow> ptr_field \<Rightarrow> ptr_field \<Rightarrow> 'v heap
    \<Rightarrow> (ptr_field \<times> 'v heap) option"

definition kSSOCapacity :: int where "kSSOCapacity = 1"

definition new_RepeatedPtrField :: "nat option \<Rightarrow> ptr_field" where
  "new_RepeatedPtrField arena = \<lparr>tagged_rep_or_elem = Elem None, pf_current_size = 0, pf_total_size = kSSOCapacity, pf_arena = arena\<rparr>"

definition using_sso :: "ptr_field \<Rightarrow> bool" where
  "using_sso f \<longleftrightarrow> (case tagged_rep_or_elem f of Elem _ \<Rightarrow> True | Rep _ _ \<Rightarrow> False)"

definition elements :: "ptr_field \<Rightarrow> nat option list" where
  "elements f = (case tagged_rep_or_elem f of Elem p \<Rightarrow> [p] | Rep _ cells \<Rightarrow> cells)"

definition allocated_size :: "ptr_field \<Rightarrow> int" where
  "allocated_size f = (case tagged_rep_or_elem f of Elem p \<Rightarrow> (if p \<noteq> None then 1 else 0) | Rep n _ \<Rightarrow> n)"

definition element_at :: "int \<Rightarrow> ptr_field \<Rightarrow> nat option" where
  "element_at index f = (if 0 \<le> index \<and> index < int (length (elements f)) then elements f ! nat index else None)"

definition set_element_at :: "int \<Rightarrow> nat \<Rightarrow> ptr_field \<Rightarrow> ptr_field option" where
  "set_element_at index a f =
     (if 0 \<le> index \<and> index < int (length (elements f))
      then Some (f\<lparr>tagged_rep_or_elem := (case tagged_rep_or_elem f of Elem _ \<Rightarrow> Elem (Some a) | Rep n cells \<Rightarrow> Rep n (cells[nat index := Some a]))\<rparr>)
      else None)"

text \<open>\<open>rep()->allocated_size += d\<close>, which needs a \<open>Rep\<close>, and the same only if there is one.\<close>

definition add_allocated :: "int \<Rightarrow> ptr_field \<Rightarrow> ptr_field option" where
  "add_allocated d f = (case tagged_rep_or_elem f of Elem _ \<Rightarrow> None | Rep n cells \<Rightarrow> Some (f\<lparr>tagged_rep_or_elem := Rep (n + d) cells\<rparr>))"

definition add_allocated_rep :: "int \<Rightarrow> ptr_field \<Rightarrow> ptr_field option" where
  "add_allocated_rep d f = (if \<not> using_sso f then add_allocated d f else Some f)"

definition RP_ExchangeCurrentSize :: "int \<Rightarrow> ptr_field \<Rightarrow> int \<times> ptr_field" where
  "RP_ExchangeCurrentSize new_size f = (pf_current_size f, f\<lparr>pf_current_size := new_size\<rparr>)"

text \<open>Reading \<open>n\<close> cells from position \<open>i\<close> on.\<close>

definition slots :: "int \<Rightarrow> int \<Rightarrow> ptr_field \<Rightarrow> nat list option" where
  "slots i n f =
     (if 0 \<le> i \<and> 0 \<le> n \<and> i + n \<le> int (length (elements f)) \<and> None \<notin> set (take (nat n) (drop (nat i) (elements f)))
      then Some (map the (take (nat n) (drop (nat i) (elements f)))) else None)"

definition MaybeExtend :: "'v ptr_lib \<Rightarrow> ptr_field \<Rightarrow> ptr_field option" where
  "MaybeExtend L f =
     (if (case tagged_rep_or_elem f of Elem p \<Rightarrow> p \<noteq> None | Rep n _ \<Rightarrow> n = pf_total_size f)
      then do { DCHECK (allocated_size f = pf_total_size f); Some (InternalExtend L 1 f) }
      else do { DCHECK (allocated_size f \<noteq> pf_total_size f); Some f })"

text \<open>The result of \<open>InternalReserve\<close> is a pointer to the cell behind the last element.\<close>

definition InternalReserve :: "'v ptr_lib \<Rightarrow> int \<Rightarrow> ptr_field \<Rightarrow> int \<times> ptr_field" where
  "InternalReserve L n f =
     (if n \<le> pf_total_size f then (pf_current_size f, f)
      else let f = InternalExtend L (n - pf_total_size f) f in (pf_current_size f, f))"

subsection \<open>Access\<close>

definition RP_empty :: "ptr_field \<Rightarrow> bool" where "RP_empty f \<longleftrightarrow> pf_current_size f = 0"
definition RP_size :: "ptr_field \<Rightarrow> int" where "RP_size f = pf_current_size f"
definition RP_Capacity :: "ptr_field \<Rightarrow> int" where "RP_Capacity f = pf_total_size f"
definition ClearedCount :: "ptr_field \<Rightarrow> int" where "ClearedCount f = allocated_size f - pf_current_size f"
definition PrepareForParse :: "ptr_field \<Rightarrow> bool" where "PrepareForParse f \<longleftrightarrow> allocated_size f = pf_current_size f"
definition NeedsDestroy :: "ptr_field \<Rightarrow> bool" where "NeedsDestroy f \<longleftrightarrow> tagged_rep_or_elem f \<noteq> Elem None \<and> pf_arena f = None"

definition RP_Mutable :: "int \<Rightarrow> ptr_field \<Rightarrow> nat option" where
  "RP_Mutable index f = do { DCHECK (index \<ge> 0); DCHECK (index < pf_current_size f); element_at index f }"

definition RP_Get :: "int \<Rightarrow> ptr_field \<Rightarrow> 'v heap \<Rightarrow> 'v option" where
  "RP_Get index f h = do { DCHECK (index \<ge> 0); DCHECK (index < pf_current_size f); a \<leftarrow> element_at index f; deref a h }"

definition RP_at :: "int \<Rightarrow> ptr_field \<Rightarrow> 'v heap \<Rightarrow> (check_error + 'v) option" where
  "RP_at index f h =
     (if \<not> index \<ge> 0 then Some (Inl CheckFailed)
      else if \<not> index < pf_current_size f then Some (Inl CheckFailed)
      else do { a \<leftarrow> element_at index f; v \<leftarrow> deref a h; Some (Inr v) })"

definition RP_SwapElements :: "int \<Rightarrow> int \<Rightarrow> ptr_field \<Rightarrow> ptr_field option" where
  "RP_SwapElements index1 index2 f = do {
     a \<leftarrow> element_at index1 f;
     b \<leftarrow> element_at index2 f;
     f \<leftarrow> set_element_at index1 b f;
     set_element_at index2 a f
   }"

text \<open>\<open>space_loop\<close> adds up the space of the elements, also of the cleared ones; a pointer has 8 bytes.\<close>

fun space_loop :: "'v handler \<Rightarrow> nat list \<Rightarrow> 'v heap \<Rightarrow> int \<Rightarrow> int option" where
  "space_loop H [] h n = Some n"
| "space_loop H (a # as) h n = do { v \<leftarrow> deref a h; space_loop H as h (n + int (h_SpaceUsedLong H v)) }"

definition RP_SpaceUsedExcludingSelfLong :: "'v handler \<Rightarrow> ptr_field \<Rightarrow> 'v heap \<Rightarrow> int option" where
  "RP_SpaceUsedExcludingSelfLong H f h = do {
     let allocated_bytes = (if using_sso f then 0 else pf_total_size f * 8 + 8);
     elems \<leftarrow> slots 0 (allocated_size f) f;
     space_loop H elems h allocated_bytes
   }"

subsection \<open>Adding\<close>

definition RP_Add :: "'v handler \<Rightarrow> 'v ptr_lib \<Rightarrow> ptr_field \<Rightarrow> 'v heap \<Rightarrow> nat \<times> ptr_field \<times> 'v heap" where
  "RP_Add H L f h = AddOutOfLineHelper_factory L (th_New H) f h"

definition RP_Add_prototype :: "'v handler \<Rightarrow> 'v ptr_lib \<Rightarrow> nat \<Rightarrow> ptr_field \<Rightarrow> 'v heap \<Rightarrow> (nat \<times> ptr_field \<times> 'v heap) option" where
  "RP_Add_prototype H L prototype f h =
     (if pf_current_size f < allocated_size f then do {
        let (i, f) = RP_ExchangeCurrentSize (pf_current_size f + 1) f;
        a \<leftarrow> element_at i f;
        Some (a, f, h)
      }
      else let (result, h) = th_NewFromPrototype H prototype (pf_arena f) h in Some (result, AddOutOfLineHelper L result f, h))"

definition RP_Add_move :: "'v ptr_lib \<Rightarrow> 'v \<Rightarrow> ptr_field \<Rightarrow> 'v heap \<Rightarrow> (ptr_field \<times> 'v heap) option" where
  "RP_Add_move L v f h =
     (if pf_current_size f < allocated_size f then do {
        let (i, f) = RP_ExchangeCurrentSize (pf_current_size f + 1) f;
        a \<leftarrow> element_at i f;
        h \<leftarrow> assign a v h;
        Some (f, h)
      }
      else do {
        f \<leftarrow> MaybeExtend L f;
        f \<leftarrow> add_allocated_rep 1 f;
        let (result, h) = Create (pf_arena f) v h;
        let (i, f) = RP_ExchangeCurrentSize (pf_current_size f + 1) f;
        f \<leftarrow> set_element_at i result f;
        Some (f, h)
      })"

definition AddFromCleared :: "ptr_field \<Rightarrow> (nat option \<times> ptr_field) option" where
  "AddFromCleared f =
     (if pf_current_size f < allocated_size f then do {
        let (i, f) = RP_ExchangeCurrentSize (pf_current_size f + 1) f;
        a \<leftarrow> element_at i f;
        Some (Some a, f)
      }
      else Some (None, f))"

definition AddAllocatedForParse :: "'v ptr_lib \<Rightarrow> nat \<Rightarrow> ptr_field \<Rightarrow> ptr_field option" where
  "AddAllocatedForParse L a f = do {
     DCHECK (pf_current_size f = allocated_size f);
     f \<leftarrow> MaybeExtend L f;
     let (i, f) = RP_ExchangeCurrentSize (pf_current_size f + 1) f;
     f \<leftarrow> set_element_at i a f;
     add_allocated_rep 1 f
   }"

definition RP_UnsafeArenaAddAllocated :: "'v ptr_lib \<Rightarrow> nat \<Rightarrow> ptr_field \<Rightarrow> 'v heap \<Rightarrow> (ptr_field \<times> 'v heap) option" where
  "RP_UnsafeArenaAddAllocated L a f h = do {
     (f, h) \<leftarrow>
       (if pf_current_size f = pf_total_size f then do {
          f \<leftarrow> add_allocated 1 (RP_Reserve L (pf_total_size f + 1) f);
          Some (f, h)
        }
        else if allocated_size f = pf_total_size f then do {
          c \<leftarrow> element_at (pf_current_size f) f;
          h \<leftarrow> th_Delete c (pf_arena f) h;
          Some (f, h)
        }
        else if pf_current_size f < allocated_size f then do {
          c \<leftarrow> element_at (pf_current_size f) f;
          f \<leftarrow> set_element_at (allocated_size f) c f;
          f \<leftarrow> add_allocated 1 f;
          Some (f, h)
        }
        else do {
          f \<leftarrow> add_allocated_rep 1 f;
          Some (f, h)
        });
     let (i, f) = RP_ExchangeCurrentSize (pf_current_size f + 1) f;
     f \<leftarrow> set_element_at i a f;
     Some (f, h)
   }"

text \<open>The fast path of both variants of \<open>AddAllocatedInternal\<close>: there is a cell that is not allocated.\<close>

definition add_in_place :: "nat \<Rightarrow> ptr_field \<Rightarrow> ptr_field option" where
  "add_in_place a f = do {
     f \<leftarrow> (if pf_current_size f < allocated_size f then do {
         c \<leftarrow> element_at (pf_current_size f) f;
         set_element_at (allocated_size f) c f
       } else Some f);
     let (i, f) = RP_ExchangeCurrentSize (pf_current_size f + 1) f;
     f \<leftarrow> set_element_at i a f;
     add_allocated_rep 1 f
   }"

definition AddAllocatedSlowWithCopy :: "'v handler \<Rightarrow> 'v ptr_lib \<Rightarrow> nat \<Rightarrow> nat option \<Rightarrow> nat option \<Rightarrow> ptr_field \<Rightarrow> 'v heap
    \<Rightarrow> (ptr_field \<times> 'v heap) option" where
  "AddAllocatedSlowWithCopy H L a value_arena my_arena f h = do {
     (a, h) \<leftarrow>
       (if my_arena \<noteq> None \<and> value_arena = None then do { h \<leftarrow> Own (the my_arena) a h; Some (a, h) }
        else if my_arena \<noteq> value_arena then do {
          let (new_value, h) = th_NewFromPrototype H a my_arena h;
          h \<leftarrow> th_Merge H a new_value h;
          h \<leftarrow> th_Delete a value_arena h;
          Some (new_value, h)
        }
        else Some (a, h));
     RP_UnsafeArenaAddAllocated L a f h
   }"

definition AddAllocatedInternal :: "'v handler \<Rightarrow> 'v ptr_lib \<Rightarrow> nat \<Rightarrow> ptr_field \<Rightarrow> 'v heap \<Rightarrow> (ptr_field \<times> 'v heap) option" where
  "AddAllocatedInternal H L a f h = do {
     element_arena \<leftarrow> th_GetArena H a h;
     let arena = pf_arena f;
     if arena = element_arena \<and> allocated_size f < pf_total_size f
     then do { f \<leftarrow> add_in_place a f; Some (f, h) }
     else AddAllocatedSlowWithCopy H L a element_arena arena f h
   }"

definition AddAllocatedInternal_nocopy :: "'v ptr_lib \<Rightarrow> nat \<Rightarrow> ptr_field \<Rightarrow> 'v heap \<Rightarrow> (ptr_field \<times> 'v heap) option" where
  "AddAllocatedInternal_nocopy L a f h =
     (if allocated_size f < pf_total_size f then do { f \<leftarrow> add_in_place a f; Some (f, h) }
      else RP_UnsafeArenaAddAllocated L a f h)"

text \<open>\<open>merges\<close> says whether the element class implements \<open>MergeFrom\<close>.\<close>

definition RP_AddAllocated :: "'v handler \<Rightarrow> bool \<Rightarrow> 'v ptr_lib \<Rightarrow> nat \<Rightarrow> ptr_field \<Rightarrow> 'v heap \<Rightarrow> (ptr_field \<times> 'v heap) option" where
  "RP_AddAllocated H merges L a f h = (if merges then AddAllocatedInternal H L a f h else AddAllocatedInternal_nocopy L a f h)"

definition AddCleared :: "'v handler \<Rightarrow> 'v ptr_lib \<Rightarrow> nat \<Rightarrow> ptr_field \<Rightarrow> 'v heap \<Rightarrow> ptr_field option" where
  "AddCleared H L a f h = do {
     DCHECK (pf_arena f = None);
     value_arena \<leftarrow> th_GetArena H a h;
     DCHECK (value_arena = None);
     f \<leftarrow> MaybeExtend L f;
     if using_sso f then Some (f\<lparr>tagged_rep_or_elem := Elem (Some a)\<rparr>)
     else do {
       let i = allocated_size f;
       f \<leftarrow> add_allocated 1 f;
       set_element_at i a f
     }
   }"

subsection \<open>Removing\<close>

definition RP_RemoveLast :: "'v handler \<Rightarrow> ptr_field \<Rightarrow> 'v heap \<Rightarrow> (ptr_field \<times> 'v heap) option" where
  "RP_RemoveLast H f h = do {
     DCHECK (pf_current_size f > 0);
     let (_, f) = RP_ExchangeCurrentSize (pf_current_size f - 1) f;
     a \<leftarrow> element_at (pf_current_size f) f;
     h \<leftarrow> th_Clear H a h;
     Some (f, h)
   }"

fun clear_loop :: "'v handler \<Rightarrow> nat list \<Rightarrow> 'v heap \<Rightarrow> 'v heap option" where
  "clear_loop H [] h = Some h"
| "clear_loop H (a # as) h = do { h \<leftarrow> th_Clear H a h; clear_loop H as h }"

definition ClearNonEmpty :: "'v handler \<Rightarrow> ptr_field \<Rightarrow> 'v heap \<Rightarrow> (ptr_field \<times> 'v heap) option" where
  "ClearNonEmpty H f h = do {
     let n = pf_current_size f;
     DCHECK (n > 0);
     elems \<leftarrow> slots 0 n f;
     h \<leftarrow> clear_loop H elems h;
     Some (snd (RP_ExchangeCurrentSize 0 f), h)
   }"

definition RP_Clear :: "'v handler \<Rightarrow> ptr_field \<Rightarrow> 'v heap \<Rightarrow> (ptr_field \<times> 'v heap) option" where
  "RP_Clear H f h = do {
     let n = pf_current_size f;
     DCHECK (n \<ge> 0);
     if n > 0 then ClearNonEmpty H f h else Some (f, h)
   }"

fun delete_loop :: "nat list \<Rightarrow> nat option \<Rightarrow> 'v heap \<Rightarrow> 'v heap option" where
  "delete_loop [] arena h = Some h"
| "delete_loop (a # as) arena h = do { h \<leftarrow> th_Delete a arena h; delete_loop as arena h }"

definition RP_Delete :: "int \<Rightarrow> ptr_field \<Rightarrow> 'v heap \<Rightarrow> 'v heap option" where
  "RP_Delete index f h = do {
     DCHECK (index \<ge> 0);
     DCHECK (index < pf_current_size f);
     a \<leftarrow> element_at index f;
     th_Delete a (pf_arena f) h
   }"

text \<open>The release of the array itself is left out.\<close>

definition RP_Destroy :: "ptr_field \<Rightarrow> 'v heap \<Rightarrow> 'v heap option" where
  "RP_Destroy f h =
     (if pf_arena f \<noteq> None then Some h
      else do { elems \<leftarrow> slots 0 (allocated_size f) f; delete_loop elems None h })"

definition RP_UnsafeArenaReleaseLast :: "ptr_field \<Rightarrow> (nat \<times> ptr_field) option" where
  "RP_UnsafeArenaReleaseLast f = do {
     DCHECK (pf_current_size f > 0);
     let (_, f) = RP_ExchangeCurrentSize (pf_current_size f - 1) f;
     result \<leftarrow> element_at (pf_current_size f) f;
     f \<leftarrow> (if using_sso f then Some (f\<lparr>tagged_rep_or_elem := Elem None\<rparr>)
       else do {
         f \<leftarrow> add_allocated (- 1) f;
         if pf_current_size f < allocated_size f then do {
           c \<leftarrow> element_at (allocated_size f) f;
           set_element_at (pf_current_size f) c f
         }
         else Some f
       });
     Some (result, f)
   }"

definition ReleaseLastInternal :: "'v handler \<Rightarrow> ptr_field \<Rightarrow> 'v heap \<Rightarrow> (nat \<times> ptr_field \<times> 'v heap) option" where
  "ReleaseLastInternal H f h = do {
     (result, f) \<leftarrow> RP_UnsafeArenaReleaseLast f;
     (new_result, h) \<leftarrow> (if pf_arena f = None then Some (result, h) else RP_copy H result h);
     Some (new_result, f, h)
   }"

definition ReleaseLastInternal_nocopy :: "ptr_field \<Rightarrow> 'v heap \<Rightarrow> (nat \<times> ptr_field \<times> 'v heap) option" where
  "ReleaseLastInternal_nocopy f h = do {
     DCHECK (pf_arena f = None);
     (result, f) \<leftarrow> RP_UnsafeArenaReleaseLast f;
     Some (result, f, h)
   }"

definition RP_ReleaseLast :: "'v handler \<Rightarrow> bool \<Rightarrow> ptr_field \<Rightarrow> 'v heap \<Rightarrow> (nat \<times> ptr_field \<times> 'v heap) option" where
  "RP_ReleaseLast H merges f h = (if merges then ReleaseLastInternal H f h else ReleaseLastInternal_nocopy f h)"

definition ReleaseCleared :: "ptr_field \<Rightarrow> (nat \<times> ptr_field) option" where
  "ReleaseCleared f = do {
     DCHECK (pf_arena f = None);
     DCHECK (tagged_rep_or_elem f \<noteq> Elem None);
     DCHECK (allocated_size f > pf_current_size f);
     if using_sso f then do { result \<leftarrow> element_at 0 f; Some (result, f\<lparr>tagged_rep_or_elem := Elem None\<rparr>) }
     else do { f \<leftarrow> add_allocated (- 1) f; result \<leftarrow> element_at (allocated_size f) f; Some (result, f) }
   }"

text \<open>Extracted pointers are returned; the caller may pass a null pointer instead of an array for them.\<close>

definition RP_UnsafeArenaExtractSubrange :: "'v ptr_lib \<Rightarrow> int \<Rightarrow> int \<Rightarrow> bool \<Rightarrow> ptr_field \<Rightarrow> (nat list \<times> ptr_field) option" where
  "RP_UnsafeArenaExtractSubrange L start num elements_given f = do {
     DCHECK (start \<ge> 0);
     DCHECK (num \<ge> 0);
     DCHECK (start + num \<le> pf_current_size f);
     if num > 0 then do {
       saved \<leftarrow> (if elements_given then slots start num f else Some []);
       Some (saved, CloseGap L start num f)
     }
     else Some ([], f)
   }"

fun copy_loop :: "'v handler \<Rightarrow> nat list \<Rightarrow> 'v heap \<Rightarrow> (nat list \<times> 'v heap) option" where
  "copy_loop H [] h = Some ([], h)"
| "copy_loop H (a # as) h = do { (b, h) \<leftarrow> RP_copy H a h; (bs, h) \<leftarrow> copy_loop H as h; Some (b # bs, h) }"

definition ExtractSubrangeInternal :: "'v handler \<Rightarrow> 'v ptr_lib \<Rightarrow> int \<Rightarrow> int \<Rightarrow> bool \<Rightarrow> ptr_field \<Rightarrow> 'v heap
    \<Rightarrow> (nat list \<times> ptr_field \<times> 'v heap) option" where
  "ExtractSubrangeInternal H L start num elements_given f h = do {
     DCHECK (start \<ge> 0);
     DCHECK (num \<ge> 0);
     DCHECK (start + num \<le> pf_current_size f);
     if num = 0 then Some ([], f, h)
     else do {
       DCHECK elements_given;
       extracted \<leftarrow> slots start num f;
       (elems, h) \<leftarrow> (if pf_arena f \<noteq> None then copy_loop H extracted h else Some (extracted, h));
       Some (elems, CloseGap L start num f, h)
     }
   }"

definition ExtractSubrangeInternal_nocopy :: "'v ptr_lib \<Rightarrow> int \<Rightarrow> int \<Rightarrow> bool \<Rightarrow> ptr_field \<Rightarrow> 'v heap \<Rightarrow> (nat list \<times> ptr_field \<times> 'v heap) option" where
  "ExtractSubrangeInternal_nocopy L start num elements_given f h = do {
     DCHECK (pf_arena f = None);
     (elems, f) \<leftarrow> RP_UnsafeArenaExtractSubrange L start num elements_given f;
     Some (elems, f, h)
   }"

definition RP_ExtractSubrange :: "'v handler \<Rightarrow> bool \<Rightarrow> 'v ptr_lib \<Rightarrow> int \<Rightarrow> int \<Rightarrow> bool \<Rightarrow> ptr_field \<Rightarrow> 'v heap
    \<Rightarrow> (nat list \<times> ptr_field \<times> 'v heap) option" where
  "RP_ExtractSubrange H merges L start num elements_given f h =
     (if merges then ExtractSubrangeInternal H L start num elements_given f h
      else ExtractSubrangeInternal_nocopy L start num elements_given f h)"

definition RP_DeleteSubrange :: "'v ptr_lib \<Rightarrow> int \<Rightarrow> int \<Rightarrow> ptr_field \<Rightarrow> 'v heap \<Rightarrow> (ptr_field \<times> 'v heap) option" where
  "RP_DeleteSubrange L start num f h = do {
     DCHECK (start \<ge> 0);
     DCHECK (num \<ge> 0);
     DCHECK (start + num \<le> pf_current_size f);
     subrange \<leftarrow> slots start num f;
     h \<leftarrow> delete_loop subrange (pf_arena f) h;
     (_, f) \<leftarrow> RP_UnsafeArenaExtractSubrange L start num False f;
     Some (f, h)
   }"

text \<open>Iterators are offsets from \<open>begin()\<close>.\<close>

definition RP_erase_range :: "'v ptr_lib \<Rightarrow> int \<Rightarrow> int \<Rightarrow> ptr_field \<Rightarrow> 'v heap \<Rightarrow> (int \<times> ptr_field \<times> 'v heap) option" where
  "RP_erase_range L first lst f h = do { (f, h) \<leftarrow> RP_DeleteSubrange L first (lst - first) f h; Some (first, f, h) }"

definition RP_erase :: "'v ptr_lib \<Rightarrow> int \<Rightarrow> ptr_field \<Rightarrow> 'v heap \<Rightarrow> (int \<times> ptr_field \<times> 'v heap) option" where
  "RP_erase L position f h = RP_erase_range L position (position + 1) f h"

subsection \<open>Whole fields\<close>

definition RP_MergeFrom :: "'v handler \<Rightarrow> 'v ptr_lib \<Rightarrow> ptr_field \<Rightarrow> ptr_field \<Rightarrow> 'v heap \<Rightarrow> (ptr_field \<times> 'v heap) option" where
  "RP_MergeFrom H L from f h = MergeFromConcreteMessage L (CopyMessage H) from f h"

definition RPF_MergeFrom :: "'v handler \<Rightarrow> 'v ptr_lib \<Rightarrow> ptr_field \<Rightarrow> ptr_field \<Rightarrow> 'v heap \<Rightarrow> (ptr_field \<times> 'v heap) option" where
  "RPF_MergeFrom H L other f h = (if RP_empty other then Some (f, h) else RP_MergeFrom H L other f h)"

text \<open>The flag says whether both operands are the same object.\<close>

definition RP_CopyFrom :: "'v handler \<Rightarrow> 'v ptr_lib \<Rightarrow> bool \<Rightarrow> ptr_field \<Rightarrow> ptr_field \<Rightarrow> 'v heap \<Rightarrow> (ptr_field \<times> 'v heap) option" where
  "RP_CopyFrom H L same other f h =
     (if same then Some (f, h)
      else do {
        (f, h) \<leftarrow> RP_Clear H f h;
        if RP_empty other then Some (f, h) else RP_MergeFrom H L other f h
      })"

definition new_RepeatedPtrField_copy :: "'v handler \<Rightarrow> 'v ptr_lib \<Rightarrow> nat option \<Rightarrow> ptr_field \<Rightarrow> 'v heap \<Rightarrow> (ptr_field \<times> 'v heap) option" where
  "new_RepeatedPtrField_copy H L arena rhs h = RPF_MergeFrom H L rhs (new_RepeatedPtrField arena) h"

text \<open>All but the arena is exchanged.\<close>

definition RP_InternalSwap :: "ptr_field \<times> ptr_field \<Rightarrow> ptr_field \<times> ptr_field" where
  "RP_InternalSwap fg = (case fg of (f, g) \<Rightarrow> (g\<lparr>pf_arena := pf_arena f\<rparr>, f\<lparr>pf_arena := pf_arena g\<rparr>))"

definition SwapFallback :: "'v handler \<Rightarrow> 'v ptr_lib \<Rightarrow> ptr_field \<times> ptr_field \<Rightarrow> 'v heap \<Rightarrow> ((ptr_field \<times> ptr_field) \<times> 'v heap) option" where
  "SwapFallback H L fg h = (case fg of (f, other) \<Rightarrow> do {
     DCHECK (pf_arena other \<noteq> pf_arena f);
     let temp = new_RepeatedPtrField (pf_arena other);
     (temp, h) \<leftarrow> (if \<not> RP_empty f then RP_MergeFrom H L f temp h else Some (temp, h));
     (f, h) \<leftarrow> RP_CopyFrom H L False other f h;
     let (other, temp) = RP_InternalSwap (other, temp);
     h \<leftarrow> RP_Destroy temp h;
     Some ((f, other), h)
   })"

definition RP_Swap :: "'v handler \<Rightarrow> 'v ptr_lib \<Rightarrow> ptr_field \<times> ptr_field \<Rightarrow> 'v heap \<Rightarrow> ((ptr_field \<times> ptr_field) \<times> 'v heap) option" where
  "RP_Swap H L fg h =
     (if pf_arena (fst fg) = pf_arena (snd fg) then Some (RP_InternalSwap fg, h) else SwapFallback H L fg h)"

definition RP_UnsafeArenaSwap :: "ptr_field \<times> ptr_field \<Rightarrow> (ptr_field \<times> ptr_field) option" where
  "RP_UnsafeArenaSwap fg = do { DCHECK (pf_arena (fst fg) = pf_arena (snd fg)); Some (RP_InternalSwap fg) }"

definition new_RepeatedPtrField_move :: "'v handler \<Rightarrow> 'v ptr_lib \<Rightarrow> ptr_field \<Rightarrow> 'v heap \<Rightarrow> ((ptr_field \<times> ptr_field) \<times> 'v heap) option" where
  "new_RepeatedPtrField_move H L other h =
     (if pf_arena other \<noteq> None then do { (f, h) \<leftarrow> RP_CopyFrom H L False other (new_RepeatedPtrField None) h; Some ((f, other), h) }
      else Some (RP_InternalSwap (new_RepeatedPtrField None, other), h))"

definition RP_move_assign :: "'v handler \<Rightarrow> 'v ptr_lib \<Rightarrow> ptr_field \<times> ptr_field \<Rightarrow> 'v heap \<Rightarrow> ((ptr_field \<times> ptr_field) \<times> 'v heap) option" where
  "RP_move_assign H L fg h = (case fg of (f, other) \<Rightarrow>
     if pf_arena f \<noteq> pf_arena other then do { (f, h) \<leftarrow> RP_CopyFrom H L False other f h; Some ((f, other), h) }
     else Some (RP_InternalSwap (f, other), h))"

fun add_loop :: "'v handler \<Rightarrow> 'v ptr_lib \<Rightarrow> 'v list \<Rightarrow> ptr_field \<Rightarrow> 'v heap \<Rightarrow> (ptr_field \<times> 'v heap) option" where
  "add_loop H L [] f h = Some (f, h)"
| "add_loop H L (v # vs) f h = do {
     let (a, f, h) = RP_Add H L f h;
     h \<leftarrow> assign a v h;
     add_loop H L vs f h
   }"

definition RP_Add_range :: "'v handler \<Rightarrow> 'v ptr_lib \<Rightarrow> bool \<Rightarrow> 'v list \<Rightarrow> ptr_field \<Rightarrow> 'v heap \<Rightarrow> (ptr_field \<times> 'v heap) option" where
  "RP_Add_range H L forward_iterator src_range f h =
     add_loop H L src_range (if forward_iterator then RP_Reserve L (pf_current_size f + int (length src_range)) f else f) h"

definition new_RepeatedPtrField_range :: "'v handler \<Rightarrow> 'v ptr_lib \<Rightarrow> bool \<Rightarrow> 'v list \<Rightarrow> 'v heap \<Rightarrow> (ptr_field \<times> 'v heap) option" where
  "new_RepeatedPtrField_range H L forward_iterator src_range h = RP_Add_range H L forward_iterator src_range (new_RepeatedPtrField None) h"

definition RP_Assign :: "'v handler \<Rightarrow> 'v ptr_lib \<Rightarrow> bool \<Rightarrow> 'v list \<Rightarrow> ptr_field \<Rightarrow> 'v heap \<Rightarrow> (ptr_field \<times> 'v heap) option" where
  "RP_Assign H L forward_iterator src_range f h = do {
     (f, h) \<leftarrow> RP_Clear H f h;
     RP_Add_range H L forward_iterator src_range f h
   }"

end
