(* ===== verification/Ptr_Ownership.thy ===== *)
theory Ptr_Ownership
  imports Repeated_Ptr_Field
begin

text \<open>
  The elements of a \<open>RepeatedPtrField\<close>: the used and the cleared pointers of a field, the objects of the heap by their
  owners, and how each operation of \<open>Repeated_Ptr_Field\<close> changes both. Shown is that any sequence of operations has
  defined behaviour, acts on the values as on a list, and neither loses an object nor releases one twice. The
  laws an element class must have are the locale \<open>type_handler\<close>, interpreted for strings.
\<close>

subsection \<open>Well-formed fields\<close>

text \<open>The used pointers and, behind them, the pointers of cleared elements.\<close>

inductive rep_ok :: "ptr_field \<Rightarrow> nat list \<Rightarrow> nat list \<Rightarrow> bool" where
  no_element: "rep_ok \<lparr>tagged_rep_or_elem = Elem None, pf_current_size = 0, pf_total_size = 1, pf_arena = r\<rparr> [] []"
| one_used: "rep_ok \<lparr>tagged_rep_or_elem = Elem (Some a), pf_current_size = 1, pf_total_size = 1, pf_arena = r\<rparr> [a] []"
| one_cleared: "rep_ok \<lparr>tagged_rep_or_elem = Elem (Some a), pf_current_size = 0, pf_total_size = 1, pf_arena = r\<rparr> [] [a]"
| array: "rep_ok \<lparr>tagged_rep_or_elem = Rep (int (length U + length C)) (map Some U @ map Some C @ rest), pf_current_size = int (length U),
      pf_total_size = int (length U + length C + length rest), pf_arena = r\<rparr> U C"
  if "0 < length U + length C + length rest" "int (length U + length C + length rest) \<le> INT_MAX"

lemmas pf_ops = using_sso_def elements_def allocated_size_def element_at_def set_element_at_def add_allocated_def add_allocated_rep_def
  RP_ExchangeCurrentSize_def slots_def

lemma rep_ok_sizes:
  assumes "rep_ok f U C"
  shows "pf_current_size f = int (length U)" "allocated_size f = int (length U + length C)" "int (length U + length C) \<le> pf_total_size f"
    "pf_total_size f \<le> INT_MAX" "using_sso f \<Longrightarrow> pf_total_size f = 1"
  using assms by (auto simp: pf_ops INT_MAX_def elim!: rep_ok.cases)

lemma rep_ok_total: "rep_ok f U C \<Longrightarrow> 0 < pf_total_size f"
  by (erule rep_ok.cases) (simp_all only: of_nat_0_less_iff ptr_field.simps zero_less_one)

lemma rep_ok_element:
  assumes "rep_ok f U C" "i < length U + length C"
  shows "element_at (int i) f = Some ((U @ C) ! i)"
  using assms by (auto simp: pf_ops nth_append elim!: rep_ok.cases)

lemma rep_ok_slots:
  assumes "rep_ok f U C" "i + n \<le> length U + length C"
  shows "slots (int i) (int n) f = Some (take n (drop i (U @ C)))"
proof -
  obtain rest where e: "elements f = map Some (U @ C) @ rest"
    using assms(1) by cases (auto simp: elements_def)
  then have "take n (drop i (elements f)) = map Some (take n (drop i (U @ C)))"
    using assms(2) by (simp add: take_map drop_map del: map_append)
  moreover have "i + n \<le> length (elements f)"
    using assms(2) by (simp add: e)
  ultimately show ?thesis
    by (auto simp: slots_def)
qed

text \<open>Steps of the operations: reuse and return of the cell at the border, and a new last element.\<close>

lemma rep_ok_reuse:
  assumes "rep_ok f U (c # C)"
  shows "rep_ok (f\<lparr>pf_current_size := pf_current_size f + 1\<rparr>) (U @ [c]) C"
  using assms
proof cases
  case (one_cleared r)
  then show ?thesis
    using rep_ok.one_used[of c r] by simp
next
  case (array rest r)
  then show ?thesis
    using rep_ok.array[of "U @ [c]" C rest r] by (simp add: algebra_simps)
qed

lemma rep_ok_shrink:
  assumes "rep_ok f (U @ V) C"
  shows "rep_ok (f\<lparr>pf_current_size := int (length U)\<rparr>) U (V @ C)"
  using assms
proof cases
  case (no_element r)
  then show ?thesis
    using rep_ok.no_element[of r] by simp
next
  case (one_used a r)
  then consider "U = []" "V = [a]" | "U = [a]" "V = []"
    by (auto simp: append_eq_Cons_conv)
  then show ?thesis
    using one_used rep_ok.one_used[of a r] rep_ok.one_cleared[of a r] by cases auto
next
  case (one_cleared a r)
  then show ?thesis
    using rep_ok.one_cleared[of a r] by simp
next
  case (array rest r)
  then show ?thesis
    using rep_ok.array[of U "V @ C" rest r] by (simp add: algebra_simps)
qed

lemma rep_ok_push:
  assumes "rep_ok f U []" "int (length U) < pf_total_size f"
  shows "\<exists>f'. do { f \<leftarrow> add_allocated_rep 1 f; let (i, f) = RP_ExchangeCurrentSize (pf_current_size f + 1) f; set_element_at i a f } = Some f' \<and>
      rep_ok f' (U @ [a]) [] \<and> pf_arena f' = pf_arena f"
    "\<exists>f'. do { let (i, f) = RP_ExchangeCurrentSize (pf_current_size f + 1) f; f \<leftarrow> set_element_at i a f; add_allocated_rep 1 f } = Some f' \<and>
      rep_ok f' (U @ [a]) [] \<and> pf_arena f' = pf_arena f"
proof -
  have "\<exists>f'. rep_ok f' (U @ [a]) [] \<and> pf_arena f' = pf_arena f \<and>
    do { f \<leftarrow> add_allocated_rep 1 f; let (i, f) = RP_ExchangeCurrentSize (pf_current_size f + 1) f; set_element_at i a f } = Some f' \<and>
    do { let (i, f) = RP_ExchangeCurrentSize (pf_current_size f + 1) f; f \<leftarrow> set_element_at i a f; add_allocated_rep 1 f } = Some f'"
    using assms(1)
  proof cases
    case (no_element r)
    then show ?thesis
      using rep_ok.one_used[of a r] by (auto simp: pf_ops)
  next
    case (one_used b r)
    then show ?thesis
      using assms(2) by simp
  next
    case (array rest r)
    then obtain y ys where rest: "rest = y # ys"
      using assms(2) by (cases rest) auto
    then show ?thesis
      using array rep_ok.array[of "U @ [a]" "[]" ys r] by (auto simp: pf_ops list_update_append algebra_simps)
  qed
  then show "\<exists>f'. do { f \<leftarrow> add_allocated_rep 1 f; let (i, f) = RP_ExchangeCurrentSize (pf_current_size f + 1) f; set_element_at i a f } = Some f' \<and>
      rep_ok f' (U @ [a]) [] \<and> pf_arena f' = pf_arena f"
    "\<exists>f'. do { let (i, f) = RP_ExchangeCurrentSize (pf_current_size f + 1) f; f \<leftarrow> set_element_at i a f; add_allocated_rep 1 f } = Some f' \<and>
      rep_ok f' (U @ [a]) [] \<and> pf_arena f' = pf_arena f"
    by auto
qed

lemma rep_ok_replace:
  assumes "rep_ok f U (c # C)"
  shows "\<exists>f'. (let (i, f) = RP_ExchangeCurrentSize (pf_current_size f + 1) f in set_element_at i a f) = Some f' \<and>
      rep_ok f' (U @ [a]) C \<and> pf_arena f' = pf_arena f"
  using assms
proof cases
  case (one_cleared r)
  then show ?thesis
    using rep_ok.one_used[of a r] by (simp add: pf_ops)
next
  case (array rest r)
  then show ?thesis
    using rep_ok.array[of "U @ [a]" C rest r] by (auto simp: pf_ops list_update_append algebra_simps)
qed

lemma rep_ok_rotate:
  assumes "rep_ok f U (c # C)" "int (length U + length (c # C)) < pf_total_size f"
  shows "\<exists>f'. set_element_at (allocated_size f) c f \<bind> add_allocated 1 = Some f' \<and> rep_ok f' U (c # C @ [c]) \<and> pf_arena f' = pf_arena f"
    "\<not> using_sso f"
proof -
  have "(\<exists>f'. set_element_at (allocated_size f) c f \<bind> add_allocated 1 = Some f' \<and> rep_ok f' U (c # C @ [c]) \<and> pf_arena f' = pf_arena f) \<and> \<not> using_sso f"
    using assms(1)
  proof cases
    case (one_cleared r)
    then show ?thesis
      using assms(2) by simp
  next
    case (array rest r)
    then obtain y ys where "rest = y # ys"
      using assms(2) by (cases rest) auto
    then show ?thesis
      using array rep_ok.array[of U "c # C @ [c]" ys r] by (auto simp: pf_ops list_update_append algebra_simps nat_add_distrib)
  qed
  then show "\<exists>f'. set_element_at (allocated_size f) c f \<bind> add_allocated 1 = Some f' \<and> rep_ok f' U (c # C @ [c]) \<and> pf_arena f' = pf_arena f"
    "\<not> using_sso f"
    by auto
qed

lemma set_then_allocate:
  "(set_element_at i a f \<bind> add_allocated 1) = (add_allocated 1 f \<bind> set_element_at i a)"
  "pf_current_size f = n \<Longrightarrow> (let (i, f) = RP_ExchangeCurrentSize m f in set_element_at i a f \<bind> add_allocated 1) =
     (add_allocated 1 f \<bind> (\<lambda>f. let (i, f) = RP_ExchangeCurrentSize m f in set_element_at i a f))"
  by (auto simp: pf_ops split: rep_or_elem.splits)

lemma add_in_place_ok:
  assumes "rep_ok f U C" "int (length U + length C) < pf_total_size f"
  obtains f' where "add_in_place a f = Some f'" "rep_ok f' (U @ [a]) (rotate1 C)" "pf_arena f' = pf_arena f"
proof (cases C)
  case Nil
  then show thesis
    using rep_ok_push(2)[of f U a] assms rep_ok_sizes[OF assms(1)] that by (auto simp: add_in_place_def)
next
  case (Cons c C')
  note s = rep_ok_sizes[OF assms(1)] and r = rep_ok_rotate[of f U c C']
  obtain f1 where f1: "set_element_at (allocated_size f) c f \<bind> add_allocated 1 = Some f1" "rep_ok f1 U (c # C' @ [c])" "pf_arena f1 = pf_arena f"
    using r(1) assms Cons by auto
  obtain g where g: "set_element_at (allocated_size f) c f = Some g" "add_allocated 1 g = Some f1"
    using f1(1) by (auto simp: bind_eq_Some_conv)
  then have cur: "pf_current_size f1 = pf_current_size g" "pf_current_size g = pf_current_size f" "\<not> using_sso g"
    by (auto simp: pf_ops split: rep_or_elem.splits if_splits)
  obtain f2 where f2: "(let (i, f) = RP_ExchangeCurrentSize (pf_current_size f1 + 1) f1 in set_element_at i a f) = Some f2"
      "rep_ok f2 (U @ [a]) (C' @ [c])" "pf_arena f2 = pf_arena f1"
    using rep_ok_replace[OF f1(2), of a] by auto
  have "element_at (pf_current_size f) f = Some c"
    using rep_ok_element[OF assms(1), of "length U"] Cons s(1) by simp
  then have "add_in_place a f = (let (i, f) = RP_ExchangeCurrentSize (pf_current_size g + 1) g in set_element_at i a f \<bind> add_allocated_rep 1)"
    using g(1) s Cons by (simp add: add_in_place_def)
  also have "\<dots> = (let (i, f) = RP_ExchangeCurrentSize (pf_current_size g + 1) g in set_element_at i a f \<bind> add_allocated 1)"
    using cur(3) by (auto simp: pf_ops split: rep_or_elem.splits)
  also have "\<dots> = Some f2"
    using f2(1) g(2) cur(1) by (simp add: set_then_allocate(2)[OF refl])
  finally show thesis
    using f2(2,3) f1(3) Cons by (intro that[of f2]) auto
qed

text \<open>The new last element takes the place of the first cleared one when the array is full.\<close>

definition reserve_documented :: "'v ptr_lib \<Rightarrow> bool" where
  "reserve_documented L \<longleftrightarrow> (\<forall>f U C n. rep_ok f U C \<and> n \<le> INT_MAX \<longrightarrow>
     rep_ok (RP_Reserve L n f) U C \<and> max n (pf_total_size f) \<le> pf_total_size (RP_Reserve L n f) \<and> pf_arena (RP_Reserve L n f) = pf_arena f)"

lemma UnsafeArenaAddAllocated_ok:
  assumes "reserve_documented L" "rep_ok f U C" "int (length U) < INT_MAX"
  obtains f' where "RP_UnsafeArenaAddAllocated L a f h =
      (if C \<noteq> [] \<and> int (length U + length C) = pf_total_size f then do { h \<leftarrow> th_Delete (hd C) (pf_arena f) h; Some (f', h) } else Some (f', h))"
    "rep_ok f' (U @ [a]) (if C \<noteq> [] \<and> int (length U + length C) = pf_total_size f then tl C else rotate1 C)" "pf_arena f' = pf_arena f"
proof -
  note s = rep_ok_sizes[OF assms(2)]
  consider (grow) "int (length U) = pf_total_size f" "C = []" | (replace) c C' where "C = c # C'" "int (length U + length C) = pf_total_size f"
    | (rotate) c C' where "C = c # C'" "int (length U + length C) < pf_total_size f" | (push) "C = []" "int (length U) < pf_total_size f"
    using s(3) by (cases C) fastforce+
  then show thesis
  proof cases
    case grow
    let ?g = "RP_Reserve L (pf_total_size f + 1) f"
    have g: "rep_ok ?g U []" "pf_total_size f + 1 \<le> pf_total_size ?g" "pf_arena ?g = pf_arena f"
      using assms grow s unfolding reserve_documented_def by (metis add.commute max.bounded_iff zless_imp_add1_zle)+
    have "\<not> using_sso ?g"
      using g(2) rep_ok_sizes(5)[OF g(1)] rep_ok_total[OF assms(2)] by auto
    then show thesis
      using rep_ok_push(1)[OF g(1), of a] g grow s that
      by (auto simp: RP_UnsafeArenaAddAllocated_def add_allocated_rep_def bind_eq_Some_conv RP_ExchangeCurrentSize_def)
  next
    case replace
    then show thesis
      using rep_ok_replace[of f U c C' a] assms(2) s that rep_ok_element[OF assms(2), of "length U"]
      by (auto simp: RP_UnsafeArenaAddAllocated_def bind_eq_Some_conv split: prod.splits)
  next
    case rotate
    obtain f1 where f1: "set_element_at (allocated_size f) c f \<bind> add_allocated 1 = Some f1" "rep_ok f1 U (c # C' @ [c])" "pf_arena f1 = pf_arena f"
      using rep_ok_rotate(1)[of f U c C'] assms(2) rotate by auto
    obtain f2 where f2: "(let (i, f) = RP_ExchangeCurrentSize (pf_current_size f1 + 1) f1 in set_element_at i a f) = Some f2"
        "rep_ok f2 (U @ [a]) (C' @ [c])" "pf_arena f2 = pf_arena f1"
      using rep_ok_replace[OF f1(2), of a] by auto
    show thesis
      using rotate f1 f2 s rep_ok_element[OF assms(2), of "length U"]
      by (intro that[of f2]) (auto simp: RP_UnsafeArenaAddAllocated_def bind_eq_Some_conv split: prod.splits)
  next
    case push
    then show thesis
      using rep_ok_push(1)[of f U a] assms(2) s that
      by (auto simp: RP_UnsafeArenaAddAllocated_def bind_eq_Some_conv RP_ExchangeCurrentSize_def)
  qed
qed

lemma UnsafeArenaReleaseLast_ok:
  assumes "rep_ok f (U @ [a]) C"
  obtains f' where "RP_UnsafeArenaReleaseLast f = Some (a, f')" "rep_ok f' U (if C = [] then [] else last C # butlast C)" "pf_arena f' = pf_arena f"
  using assms
proof cases
  case (one_used b r)
  then show thesis
    using that[of "\<lparr>tagged_rep_or_elem = Elem None, pf_current_size = 0, pf_total_size = 1, pf_arena = r\<rparr>"] rep_ok.no_element[of r]
    by (auto simp: RP_UnsafeArenaReleaseLast_def pf_ops)
next
  case (array rest r)
  show thesis
  proof (cases C rule: rev_cases)
    case Nil
    then show thesis
      using array rep_ok.array[of U "[]" "Some a # rest" r] that
      by (auto simp: RP_UnsafeArenaReleaseLast_def pf_ops nth_append algebra_simps)
  next
    case (snoc C' c)
    then show thesis
      using array rep_ok.array[of U "c # C'" "Some c # rest" r] that
      by (auto simp: RP_UnsafeArenaReleaseLast_def pf_ops nth_append list_update_append algebra_simps nat_add_distrib)
  qed
qed auto

lemma SwapElements_ok:
  assumes "rep_ok f U C" "i < length U" "j < length U"
  shows "\<exists>f'. RP_SwapElements (int i) (int j) f = Some f' \<and> rep_ok f' (U[i := U ! j, j := U ! i]) C \<and> pf_arena f' = pf_arena f"
  using assms(1)
proof cases
  case (one_used a r)
  then show ?thesis
    using assms rep_ok.one_used[of a r] by (simp add: RP_SwapElements_def pf_ops)
next
  case (array rest r)
  then show ?thesis
    using assms rep_ok.array[of "U[i := U ! j, j := U ! i]" C rest r]
    by (simp add: RP_SwapElements_def pf_ops nth_append list_update_append1 map_update)
qed (use assms in auto)

subsection \<open>The heap\<close>

text \<open>The objects at \<open>as\<close> are live, have the values \<open>vs\<close> and belong to \<open>r\<close>.\<close>

definition cells :: "'v heap \<Rightarrow> nat option \<Rightarrow> nat list \<Rightarrow> 'v list \<Rightarrow> bool" where
  "cells h r as vs \<longleftrightarrow> list_all2 (\<lambda>a v. \<exists>x. objs h a = Some x \<and> obj_value x = v \<and> obj_owner x = r) as vs"

lemma cells_simps [simp]:
  "cells h r [] vs \<longleftrightarrow> vs = []"
  "cells h r (a # as) (v # vs) \<longleftrightarrow> (\<exists>x. objs h a = Some x \<and> obj_value x = v \<and> obj_owner x = r) \<and> cells h r as vs"
  by (simp_all add: cells_def)

lemma cells_length: "cells h r as vs \<Longrightarrow> length as = length vs"
  by (auto simp: cells_def dest: list_all2_lengthD)

lemma cells_frame: "(\<And>a. a \<in> set as \<Longrightarrow> objs h' a = objs h a) \<Longrightarrow> cells h' r as vs \<longleftrightarrow> cells h r as vs"
  by (auto simp: cells_def list_all2_conv_all_nth)

lemma cells_append: "length as = length us \<Longrightarrow> cells h r (as @ bs) (us @ vs) \<longleftrightarrow> cells h r as us \<and> cells h r bs vs"
  by (simp add: cells_def list_all2_append)

lemma cells_append1: "cells h r (as @ bs) ws \<longleftrightarrow> cells h r as (take (length as) ws) \<and> cells h r bs (drop (length as) ws)"
proof (cases "length as \<le> length ws")
  case True
  then show ?thesis
    using cells_append[of as "take (length as) ws" h r bs "drop (length as) ws"] by simp
qed (auto dest: cells_length)

lemma cells_nth: "cells h r as vs \<Longrightarrow> i < length as \<Longrightarrow> \<exists>x. objs h (as ! i) = Some x \<and> obj_value x = vs ! i \<and> obj_owner x = r"
  by (simp add: cells_def list_all2_conv_all_nth)

lemma cells_owner: "cells h r as vs \<Longrightarrow> a \<in> set as \<Longrightarrow> \<exists>x. objs h a = Some x \<and> obj_owner x = r"
  by (auto simp: in_set_conv_nth dest: cells_nth)

lemma cells_const: "cells h r as (replicate (length as) v) \<longleftrightarrow> (\<forall>a \<in> set as. \<exists>x. objs h a = Some x \<and> obj_value x = v \<and> obj_owner x = r)"
  by (induction as) simp_all

text \<open>
  Every object that no arena owns is one of \<open>S\<close> or belongs to the environment \<open>e\<close>, which is as it was:
  nothing is lost.
\<close>

definition accounted :: "(nat \<rightharpoonup> 'v obj) \<Rightarrow> 'v heap \<Rightarrow> nat set \<Rightarrow> bool" where
  "accounted e h S \<longleftrightarrow>
     (\<forall>a. a \<in> dom (objs h) \<longrightarrow> a < next_obj h) \<and>
     (\<forall>a x. objs h a = Some x \<and> obj_owner x = None \<longrightarrow> a \<in> dom e \<union> S) \<and>
     (\<forall>a \<in> dom e. a \<notin> S \<and> objs h a = e a)"

text \<open>
  The heap of a field on arena \<open>r\<close>: its used elements \<open>U\<close> have the values \<open>xs\<close>, its cleared elements \<open>C\<close> are
  as new, the objects \<open>out\<close> with the values \<open>ys\<close> were handed to the caller.
\<close>

definition world :: "(nat \<rightharpoonup> 'v obj) \<Rightarrow> 'v handler \<Rightarrow> nat option \<Rightarrow> 'v heap \<Rightarrow> nat list \<Rightarrow> 'v list \<Rightarrow> nat list \<Rightarrow> nat list \<Rightarrow> 'v list \<Rightarrow> bool" where
  "world e H r h U xs C out ys \<longleftrightarrow> distinct (U @ C @ out) \<and>
     cells h r U xs \<and> cells h r C (replicate (length C) (h_new H)) \<and> cells h None out ys \<and> accounted e h (set (U @ C @ out))"

lemma worldD:
  assumes "world e H r h U xs C out ys"
  shows "distinct (U @ C @ out)" "cells h r U xs" "cells h r C (replicate (length C) (h_new H))" "cells h None out ys" "accounted e h (set (U @ C @ out))"
    "length U = length xs" "length out = length ys"
  using assms by (auto simp: world_def dest: cells_length)

lemma worldI:
  assumes "distinct (U @ C @ out)" "cells h r U xs" "cells h r C (replicate (length C) (h_new H))" "cells h None out ys"
    "accounted e h S" "set (U @ C @ out) = S"
  shows "world e H r h U xs C out ys"
  using assms by (simp add: world_def)

lemma world_live: "world e H r h U xs C out ys \<Longrightarrow> a \<in> set (U @ C @ out) \<union> dom e \<Longrightarrow> a \<in> dom (objs h)"
  unfolding world_def accounted_def
  by (elim conjE UnE) (auto dest: cells_owner, simp add: domIff)

lemma world_fresh:
  assumes "world e H r h U xs C out ys"
  shows "next_obj h \<notin> set U" "next_obj h \<notin> set C" "next_obj h \<notin> set out" "next_obj h \<notin> dom e"
proof -
  have "next_obj h \<notin> dom (objs h)"
    using worldD(5)[OF assms] by (auto simp: accounted_def)
  then have "next_obj h \<notin> set (U @ C @ out) \<union> dom e"
    using world_live[OF assms] by blast
  then show "next_obj h \<notin> set U" "next_obj h \<notin> set C" "next_obj h \<notin> set out" "next_obj h \<notin> dom e"
    by auto
qed

lemma cells_update: "a \<notin> set as \<Longrightarrow> cells (h\<lparr>objs := (objs h)(a := y)\<rparr>) r as vs \<longleftrightarrow> cells h r as vs"
  by (intro cells_frame) auto

lemma Create_cells:
  assumes "Create ar v h = (a, h')" "next_obj h \<notin> set as"
  shows "cells h' r as vs \<longleftrightarrow> cells h r as vs"
  using assms by (auto simp: Create_def intro!: cells_frame)

lemma accounted_Create:
  assumes "accounted e h S" "Create ar v h = (a, h')" "next_obj h \<notin> dom e"
  shows "a = next_obj h" "cells h' ar [a] [v]" "accounted e h' (insert a S)" "ar \<noteq> None \<Longrightarrow> accounted e h' S"
proof -
  have a: "a = next_obj h" "objs h' = (objs h)(a \<mapsto> \<lparr>obj_value = v, obj_arena = ar, obj_owner = ar\<rparr>)" "next_obj h' = Suc (next_obj h)"
    using assms(2) by (auto simp: Create_def)
  then show "a = next_obj h" "cells h' ar [a] [v]"
    by simp_all
  show "accounted e h' (insert a S)" "ar \<noteq> None \<Longrightarrow> accounted e h' S"
    using assms(1,3) a by (auto simp: accounted_def less_Suc_eq)
qed

lemma world_Create:
  assumes "world e H r h U xs C out ys" "Create ar v h = (a, h')"
  shows "ar = r \<Longrightarrow> world e H r h' (U @ [a]) (xs @ [v]) C out ys"
    "ar = None \<Longrightarrow> world e H r h' U xs C (out @ [a]) (ys @ [v])"
    "ar \<noteq> None \<Longrightarrow> world e H r h' U xs C out ys"
proof -
  note w = worldD[OF assms(1)] and n = world_fresh[OF assms(1)]
  note c = Create_cells[OF assms(2) n(1)] Create_cells[OF assms(2) n(2)] Create_cells[OF assms(2) n(3)]
  note a = accounted_Create[OF w(5) assms(2) n(4)]
  have d: "a \<notin> set (U @ C @ out)"
    using n a(1) by simp
  show "world e H r h' (U @ [a]) (xs @ [v]) C out ys" if "ar = r"
    using w(1-4) d a(2) that by (intro worldI[OF _ _ _ _ a(3)]) (simp_all add: c cells_append[OF w(6)])
  show "world e H r h' U xs C (out @ [a]) (ys @ [v])" if "ar = None"
    using w(1-4) d a(2) that by (intro worldI[OF _ _ _ _ a(3)]) (simp_all add: c cells_append[OF w(7)])
  show "world e H r h' U xs C out ys" if "ar \<noteq> None"
    using w(1-4) by (intro worldI[OF _ _ _ _ a(4)[OF that]]) (simp_all add: c)
qed

lemma accounted_update:
  assumes "accounted e h S" "a \<notin> dom e" "a \<in> dom (objs h)" "y = None \<or> a \<in> T" "S \<subseteq> insert a T" "T \<subseteq> S"
  shows "accounted e (h\<lparr>objs := (objs h)(a := y)\<rparr>) T"
  using assms by (auto simp: accounted_def split: if_splits)

lemma cells_assign:
  assumes "objs h a = Some x" "cells h r as vs" "distinct as" "i < length as" "a = as ! i"
  shows "cells (h\<lparr>objs := (objs h)(a \<mapsto> x\<lparr>obj_value := v\<rparr>)\<rparr>) r as (vs[i := v])"
  using assms by (auto simp: cells_def list_all2_conv_all_nth nth_list_update nth_eq_iff_index_eq)

lemma world_assign:
  assumes "world e H r h U xs C out ys" "i < length U"
  obtains h' where "assign (U ! i) v h = Some h'" "world e H r h' U (xs[i := v]) C out ys"
proof -
  note w = worldD[OF assms(1)]
  have "U ! i \<in> set U"
    using assms(2) by simp
  then have n: "U ! i \<in> set (U @ C @ out)" "U ! i \<notin> set C" "U ! i \<notin> set out" "U ! i \<notin> dom e"
    using w(1,5) by (auto simp: accounted_def)
  obtain x where x: "objs h (U ! i) = Some x" "obj_owner x = r"
    using cells_nth[OF w(2) assms(2)] by auto
  let ?h = "h\<lparr>objs := (objs h)(U ! i \<mapsto> x\<lparr>obj_value := v\<rparr>)\<rparr>"
  have "accounted e ?h (set (U @ C @ out))"
    using x n by (intro accounted_update[OF w(5)]) auto
  then have "world e H r ?h U (xs[i := v]) C out ys"
    using w(1-4) cells_assign[OF x(1) w(2) _ assms(2) refl] n by (intro worldI) (simp_all add: cells_update)
  then show thesis
    using x by (intro that[of ?h]) (simp_all add: assign_def)
qed

text \<open>Ownership moves between the lists.\<close>

lemma world_reuse:
  assumes "world e H r h U xs (c # C) out ys"
  shows "world e H r h (U @ [c]) (xs @ [h_new H]) C out ys"
proof -
  note w = worldD[OF assms]
  show ?thesis
    using w(1-4) by (intro worldI[OF _ _ _ _ w(5)]) (auto simp: cells_append[OF w(6)])
qed

lemma world_shift:
  assumes "world e H r h (U @ V) (xs @ replicate (length V) (h_new H)) C out ys"
  shows "world e H r h U xs (V @ C) out ys"
proof -
  note w = worldD[OF assms]
  have "length U = length xs"
    using w(6) by simp
  then show ?thesis
    using w(1-4) by (intro worldI[OF _ _ _ _ w(5)]) (simp_all add: cells_append replicate_add)
qed

lemma world_cleared:
  assumes "world e H r h U xs C out ys" "distinct C'" "set C' = set C"
  shows "world e H r h U xs C' out ys"
proof -
  note w = worldD[OF assms(1)]
  show ?thesis
    using w(1-4) assms(2,3) by (intro worldI[OF _ _ _ _ w(5)]) (simp_all add: cells_const)
qed

lemma cells_remove:
  assumes "length as = length us" "length bs = length vs"
  shows "cells h r (as @ bs @ cs) (us @ vs @ ws) \<longleftrightarrow> cells h r as us \<and> cells h r bs vs \<and> cells h r cs ws"
  using assms by (simp add: cells_append)

text \<open>Elements that leave a field on the heap are handed out; on an arena they stay with the arena.\<close>

lemma accounted_forget:
  assumes "accounted e h S" "cells h (Some q) V vs" "S \<subseteq> set V \<union> T" "T \<subseteq> S"
  shows "accounted e h T"
proof -
  have "obj_owner x \<noteq> None" if "objs h a = Some x" "a \<in> set V" for a x
    using cells_owner[OF assms(2) that(2)] that(1) by auto
  then show ?thesis
    using assms(1,3,4) unfolding accounted_def by blast
qed

lemma world_remove:
  assumes "world e H r h (U @ V @ W) (us @ vs @ ws) C out ys" "length U = length us" "length V = length vs"
  shows "r = None \<Longrightarrow> world e H r h (U @ W) (us @ ws) C (out @ V) (ys @ vs)" "r \<noteq> None \<Longrightarrow> world e H r h (U @ W) (us @ ws) C out ys"
proof -
  note w = worldD[OF assms(1)]
  have c: "cells h r U us" "cells h r V vs" "cells h r W ws"
    using w(2) by (simp_all add: cells_remove[OF assms(2,3)])
  show "world e H r h (U @ W) (us @ ws) C (out @ V) (ys @ vs)" if "r = None"
    using w(1,3,4) c that by (intro worldI[OF _ _ _ _ w(5)]) (auto simp: cells_append[OF assms(2)] cells_append[OF w(7)])
  show "world e H r h (U @ W) (us @ ws) C out ys" if "r \<noteq> None"
  proof -
    from that obtain q where q: "r = Some q"
      by auto
    have "accounted e h (set ((U @ W) @ C @ out))"
      by (rule accounted_forget[OF w(5) c(2)[unfolded q]]) auto
    then show ?thesis
      using w(1,3,4) c by (intro worldI) (auto simp: cells_append[OF assms(2)])
  qed
qed

lemma world_adopt:
  assumes "world e H None h U xs C (out @ [a]) (ys @ [v])"
  shows "world e H None h (U @ [a]) (xs @ [v]) C out ys"
proof -
  note w = worldD[OF assms]
  have "length out = length ys"
    using w(7) by simp
  then show ?thesis
    using w(1-4) by (intro worldI[OF _ _ _ _ w(5)]) (auto simp: cells_append[OF w(6)] cells_append)
qed

lemma world_Own:
  assumes "world e H (Some r) h U xs C (out @ [a]) (ys @ [v])"
  obtains h' where "Own r a h = Some h'" "world e H (Some r) h' (U @ [a]) (xs @ [v]) C out ys"
proof -
  note w = worldD[OF assms]
  have l: "length out = length ys"
    using w(7) by simp
  have n: "a \<notin> set U" "a \<notin> set C" "a \<notin> set out" "a \<notin> dom e"
    using w(1,5) by (auto simp: accounted_def)
  obtain x where x: "objs h a = Some x" "obj_value x = v" "obj_owner x = None" and out: "cells h None out ys"
    using w(4) unfolding cells_append[OF l] by auto
  let ?h = "h\<lparr>objs := (objs h)(a \<mapsto> x\<lparr>obj_owner := Some r\<rparr>)\<rparr>"
  have "accounted e ?h (set ((U @ [a]) @ C @ out))"
    using x n by (intro accounted_update[OF w(5)]) auto
  then have "world e H (Some r) ?h (U @ [a]) (xs @ [v]) C out ys"
    using w(1-3) out x n by (intro worldI) (simp_all add: cells_append[OF w(6)] cells_update)
  then show thesis
    using x by (intro that[of ?h]) (simp_all add: Own_def)
qed

text \<open>An element is released: on the heap it is deleted, on an arena it stays.\<close>

lemma world_Delete:
  assumes "world e H r h (U @ a # W) (us @ v # ws) C out ys" "length U = length us"
  obtains h' where "th_Delete a r h = Some h'" "world e H r h' (U @ W) (us @ ws) C out ys"
proof (cases r)
  case (Some q)
  then show thesis
    using world_remove(2)[of e H r h U "[a]" W us "[v]" ws C out ys] assms by (intro that[of h]) (simp_all add: th_Delete_def)
next
  case None
  have r: "world e H r h (U @ W) (us @ ws) C (out @ [a]) (ys @ [v])"
    using world_remove(1)[of e H r h U "[a]" W us "[v]" ws C out ys] assms None by simp
  note w = worldD[OF r]
  have l: "length out = length ys"
    using w(7) by simp
  have n: "a \<notin> set (U @ W)" "a \<notin> set C" "a \<notin> set out" "a \<notin> dom e"
    using w(1,5) by (auto simp: accounted_def)
  obtain x where x: "objs h a = Some x" "obj_owner x = None" and out: "cells h None out ys"
    using w(4) unfolding cells_append[OF l] by auto
  let ?h = "h\<lparr>objs := (objs h)(a := None)\<rparr>"
  have "accounted e ?h (set ((U @ W) @ C @ out))"
    using x n by (intro accounted_update[OF w(5)]) auto
  then have "world e H r ?h (U @ W) (us @ ws) C out ys"
    using w(1-3) out n by (intro worldI) (simp_all add: cells_update[OF n(1), simplified] cells_update)
  then show thesis
    using x None by (intro that[of ?h]) (simp_all add: th_Delete_def delete_obj_def)
qed

lemma world_Delete_cleared:
  assumes "world e H r h U xs (c # C) out ys"
  obtains h' where "th_Delete c r h = Some h'" "world e H r h' U xs C out ys"
  using world_Delete[of e H r h U c "[]" xs "h_new H" "[]" C out ys] world_reuse[OF assms] worldD(6)[OF assms] that by auto

lemma world_assign_last:
  assumes "world e H r h (U @ [a]) (xs @ [w]) C out ys"
  obtains h' where "assign a v h = Some h'" "world e H r h' (U @ [a]) (xs @ [v]) C out ys"
proof -
  have "length U = length xs"
    using worldD(6)[OF assms] by simp
  then have u: "(U @ [a]) ! length U = a" "(xs @ [w])[length U := v] = xs @ [v]"
    by (simp_all add: nth_append list_update_append)
  show thesis
    by (rule world_assign[OF assms, of "length U" v]) (simp, rule that, simp_all only: u)
qed

subsection \<open>Documented behaviour\<close>

text \<open>
  Clearing an element makes it as new; merging into a new element copies it. The compiled functions grow the
  array and keep its contents, close a gap in it, and append elements, reusing cleared ones first.
\<close>

locale type_handler =
  fixes H :: "'v handler"
  assumes Clear_new: "h_Clear H v = h_new H"
    and Merge_new: "h_Merge H v (h_new H) = v"

definition extend_documented :: "'v ptr_lib \<Rightarrow> bool" where
  "extend_documented L \<longleftrightarrow> (\<forall>f U C n. rep_ok f U C \<and> 0 < n \<and> pf_total_size f + n \<le> INT_MAX \<longrightarrow>
     rep_ok (InternalExtend L n f) U C \<and> pf_total_size f + n \<le> pf_total_size (InternalExtend L n f) \<and> pf_arena (InternalExtend L n f) = pf_arena f)"

definition close_documented :: "'v ptr_lib \<Rightarrow> bool" where
  "close_documented L \<longleftrightarrow> (\<forall>f U V W C. rep_ok f (U @ V @ W) C \<longrightarrow>
     rep_ok (CloseGap L (int (length U)) (int (length V)) f) (U @ W) C \<and> pf_arena (CloseGap L (int (length U)) (int (length V)) f) = pf_arena f)"

definition factory_documented :: "'v ptr_lib \<Rightarrow> bool" where
  "factory_documented L \<longleftrightarrow> (\<forall>f U C h factory. rep_ok f U C \<and> int (length U) < INT_MAX \<longrightarrow>
     (case (case C of [] \<Rightarrow> factory (pf_arena f) h | c # _ \<Rightarrow> (c, h)) of (a, h') \<Rightarrow>
       \<exists>f'. AddOutOfLineHelper_factory L factory f h = (a, f', h') \<and> rep_ok f' (U @ [a]) (tl C) \<and> pf_arena f' = pf_arena f))"

text \<open>Elements are merged into cleared ones as long as there are any, then copied.\<close>

fun merge_elems :: "'v handler \<Rightarrow> nat option \<Rightarrow> nat list \<Rightarrow> nat list \<Rightarrow> 'v heap \<Rightarrow> (nat list \<times> nat list \<times> 'v heap) option" where
  "merge_elems H r [] C h = Some ([], C, h)"
| "merge_elems H r (v # V) (c # C) h = do { h \<leftarrow> th_Merge H v c h; (W, C, h) \<leftarrow> merge_elems H r V C h; Some (c # W, C, h) }"
| "merge_elems H r (v # V) [] h = do { (c, h) \<leftarrow> CopyMessage H r v h; (W, C, h) \<leftarrow> merge_elems H r V [] h; Some (c # W, C, h) }"

definition merge_documented :: "'v handler \<Rightarrow> 'v ptr_lib \<Rightarrow> bool" where
  "merge_documented H L \<longleftrightarrow> (\<forall>from V D f U C h W C' h'. rep_ok from V D \<and> rep_ok f U C \<and> int (length U + length V) \<le> INT_MAX \<and>
     merge_elems H (pf_arena f) V C h = Some (W, C', h') \<longrightarrow>
     (\<exists>f'. MergeFromConcreteMessage L (CopyMessage H) from f h = Some (f', h') \<and> rep_ok f' (U @ W) C' \<and> pf_arena f' = pf_arena f))"

definition ptr_documented :: "'v handler \<Rightarrow> 'v ptr_lib \<Rightarrow> bool" where
  "ptr_documented H L \<longleftrightarrow> reserve_documented L \<and> extend_documented L \<and> close_documented L \<and> factory_documented L \<and> merge_documented H L"

subsection \<open>Operations on the values\<close>

lemma deref_nth: "world e H r h U xs C out ys \<Longrightarrow> i < length U \<Longrightarrow> deref (U ! i) h = Some (xs ! i)"
  using cells_nth[of h r U xs i] by (auto simp: world_def deref_def)

lemma Add_move_ok:
  assumes "extend_documented L" "rep_ok f U C" "world e H (pf_arena f) h U xs C out ys" "int (length U) < INT_MAX"
  obtains f' h' a where "RP_Add_move L v f h = Some (f', h')" "rep_ok f' (U @ [a]) (tl C)" "pf_arena f' = pf_arena f"
    "world e H (pf_arena f) h' (U @ [a]) (xs @ [v]) (tl C) out ys"
proof (cases C)
  case (Cons c C')
  let ?f = "f\<lparr>pf_current_size := pf_current_size f + 1\<rparr>"
  have r: "rep_ok ?f (U @ [c]) C'" "world e H (pf_arena f) h (U @ [c]) (xs @ [h_new H]) C' out ys"
    using rep_ok_reuse[of f U c C'] world_reuse[of e H "pf_arena f" h U xs c C'] assms(2,3) Cons by simp_all
  obtain h' where h': "assign c v h = Some h'" "world e H (pf_arena f) h' (U @ [c]) (xs @ [v]) C' out ys"
    by (rule world_assign_last[OF r(2)])
  then show thesis
    using r(1) rep_ok_sizes[OF assms(2)] rep_ok_element[OF r(1), of "length U"] Cons
    by (intro that[of ?f h' c]) (simp_all add: RP_Add_move_def RP_ExchangeCurrentSize_def)
next
  case Nil
  note s = rep_ok_sizes[OF assms(2)]
  obtain g where g: "MaybeExtend L f = Some g" "rep_ok g U []" "int (length U) < pf_total_size g" "pf_arena g = pf_arena f"
  proof (cases "int (length U) = pf_total_size f")
    case True
    let ?g = "InternalExtend L 1 f"
    have "rep_ok ?g U []" "pf_total_size f + 1 \<le> pf_total_size ?g" "pf_arena ?g = pf_arena f"
      using assms(1)[unfolded extend_documented_def, THEN spec, THEN spec, THEN spec, THEN spec, of f U "[]" 1] assms(2,4) Nil True by auto
    moreover have "MaybeExtend L f = Some ?g"
      using s True Nil by (auto simp: MaybeExtend_def allocated_size_def using_sso_def split: rep_or_elem.splits if_splits option.splits)
    ultimately show thesis
      using True by (intro that[of ?g]) auto
  next
    case False
    then have "MaybeExtend L f = Some f"
      using s Nil by (auto simp: MaybeExtend_def allocated_size_def using_sso_def split: rep_or_elem.splits if_splits option.splits)
    then show thesis
      using False s(3) assms(2) Nil by (intro that) auto
  qed
  obtain a h' where c: "Create (pf_arena f) v h = (a, h')"
    by fastforce
  obtain f' where f': "do { f \<leftarrow> add_allocated_rep 1 g; let (i, f) = RP_ExchangeCurrentSize (pf_current_size f + 1) f; set_element_at i a f } = Some f'"
      "rep_ok f' (U @ [a]) []" "pf_arena f' = pf_arena g"
    using rep_ok_push(1)[OF g(2,3), of a] by auto
  have "pf_arena x = pf_arena g" if "add_allocated_rep 1 g = Some x" for x
    using that by (auto simp: pf_ops split: rep_or_elem.splits if_splits)
  then have "RP_Add_move L v f h = Some (f', h')"
    using f'(1) g(1,4) c s Nil by (auto simp: RP_Add_move_def bind_eq_Some_conv RP_ExchangeCurrentSize_def)
  then show thesis
    using f'(2,3) g(4) world_Create(1)[OF assms(3) c] Nil by (intro that[of f' h' a]) auto
qed

lemma factory_documentedD:
  assumes "factory_documented L" "rep_ok f U C" "int (length U) < INT_MAX" "(case C of [] \<Rightarrow> factory (pf_arena f) h | c # _ \<Rightarrow> (c, h)) = (a, h')"
  obtains f' where "AddOutOfLineHelper_factory L factory f h = (a, f', h')" "rep_ok f' (U @ [a]) (tl C)" "pf_arena f' = pf_arena f"
proof -
  have "case (case C of [] \<Rightarrow> factory (pf_arena f) h | c # _ \<Rightarrow> (c, h)) of (a, h') \<Rightarrow>
       \<exists>f'. AddOutOfLineHelper_factory L factory f h = (a, f', h') \<and> rep_ok f' (U @ [a]) (tl C) \<and> pf_arena f' = pf_arena f"
    by (rule assms(1)[unfolded factory_documented_def, rule_format]) (intro conjI assms)
  then show thesis
    unfolding assms(4) using that by auto
qed

lemma Add_ok:
  assumes "factory_documented L" "rep_ok f U C" "world e H (pf_arena f) h U xs C out ys" "int (length U) < INT_MAX"
  obtains f' h' a where "RP_Add H L f h = (a, f', h')" "rep_ok f' (U @ [a]) (tl C)" "pf_arena f' = pf_arena f"
    "world e H (pf_arena f) h' (U @ [a]) (xs @ [h_new H]) (tl C) out ys"
proof -
  obtain a h' where c: "(case C of [] \<Rightarrow> th_New H (pf_arena f) h | c # _ \<Rightarrow> (c, h)) = (a, h')"
    by fastforce
  then have "world e H (pf_arena f) h' (U @ [a]) (xs @ [h_new H]) (tl C) out ys"
    using assms(3) world_Create(1)[OF assms(3), of "pf_arena f" "h_new H" a h'] world_reuse[of e H "pf_arena f" h U xs a "tl C" out ys]
    by (cases C) (simp_all add: th_New_def)
  moreover obtain f' where "AddOutOfLineHelper_factory L (th_New H) f h = (a, f', h')" "rep_ok f' (U @ [a]) (tl C)" "pf_arena f' = pf_arena f"
    by (rule factory_documentedD[where factory = "th_New H", OF assms(1,2,4) c])
  ultimately show thesis
    by (intro that[of a f' h']) (simp_all add: RP_Add_def)
qed

lemma add_loop_ok:
  assumes "factory_documented L"
  shows "rep_ok f U C \<Longrightarrow> world e H (pf_arena f) h U xs C out ys \<Longrightarrow> int (length U + length vs) \<le> INT_MAX \<Longrightarrow>
    \<exists>f' h' U' C'. add_loop H L vs f h = Some (f', h') \<and> rep_ok f' U' C' \<and> pf_arena f' = pf_arena f \<and>
      world e H (pf_arena f) h' U' (xs @ vs) C' out ys"
proof (induction vs arbitrary: f h U C xs)
  case Nil
  then show ?case
    by auto
next
  case (Cons v vs)
  have "int (length U) < INT_MAX"
    using Cons.prems(3) by simp
  from Add_ok[OF assms Cons.prems(1,2) this] obtain f1 h1 a where 1: "RP_Add H L f h = (a, f1, h1)" "rep_ok f1 (U @ [a]) (tl C)"
      "pf_arena f1 = pf_arena f" "world e H (pf_arena f) h1 (U @ [a]) (xs @ [h_new H]) (tl C) out ys"
    by metis
  obtain h2 where 2: "assign a v h1 = Some h2" "world e H (pf_arena f) h2 (U @ [a]) (xs @ [v]) (tl C) out ys"
    by (rule world_assign_last[OF 1(4)])
  have "int (length (U @ [a]) + length vs) \<le> INT_MAX"
    using Cons.prems(3) by simp
  from Cons.IH[OF 1(2) 2(2)[folded 1(3)] this] show ?case
    using 1(1,3) 2(1) by auto
qed

lemma delete_loop_ok:
  "world e H r h (U @ V @ W) (us @ vs @ ws) C out ys \<Longrightarrow> length U = length us \<Longrightarrow> length V = length vs \<Longrightarrow>
    \<exists>h'. delete_loop V r h = Some h' \<and> world e H r h' (U @ W) (us @ ws) C out ys"
proof (induction V arbitrary: vs h)
  case Nil
  then show ?case
    by simp
next
  case (Cons a V)
  then obtain v vs' where vs: "vs = v # vs'"
    by (cases vs) auto
  have "world e H r h (U @ a # V @ W) (us @ v # vs' @ ws) C out ys"
    using Cons.prems(1) vs by simp
  from world_Delete[OF this Cons.prems(2)] obtain h1 where h1: "th_Delete a r h = Some h1" "world e H r h1 (U @ V @ W) (us @ vs' @ ws) C out ys"
    by blast
  with Cons.IH[OF h1(2) Cons.prems(2)] Cons.prems(3) show ?case
    by (simp add: vs)
qed

lemma Destroy_ok:
  assumes "rep_ok f U C" "world e H (pf_arena f) h U xs C out ys" "pf_arena f = None"
  obtains h' where "RP_Destroy f h = Some h'" "world e H None h' [] [] [] out ys"
proof -
  have w: "world e H None h ([] @ (U @ C) @ []) ([] @ (xs @ replicate (length C) (h_new H)) @ []) [] out ys"
    using worldD[OF assms(2)] assms(3) by (intro worldI[OF _ _ _ _ worldD(5)[OF assms(2)]]) (simp_all add: cells_append)
  have "length (U @ C) = length (xs @ replicate (length C) (h_new H))"
    using worldD(6)[OF assms(2)] by simp
  from delete_loop_ok[OF w _ this] obtain h' where "delete_loop (U @ C) None h = Some h'" "world e H None h' [] [] [] out ys"
    by auto
  then show thesis
    using rep_ok_slots[OF assms(1), of 0 "length U + length C"] rep_ok_sizes[OF assms(1)] assms(3)
    by (intro that[of h']) (simp_all add: RP_Destroy_def)
qed

lemma rep_ok_part:
  assumes "rep_ok f (U @ V @ W) C"
  shows "slots (int (length U)) (int (length V)) f = Some V" "pf_current_size f = int (length U + length V + length W)"
  using rep_ok_slots[OF assms, of "length U" "length V"] rep_ok_sizes[OF assms] by simp_all

lemma DeleteSubrange_ok:
  assumes "close_documented L" "rep_ok f (U @ V @ W) C" "world e H (pf_arena f) h (U @ V @ W) (us @ vs @ ws) C out ys"
    "length U = length us" "length V = length vs"
  obtains f' h' where "RP_DeleteSubrange L (int (length U)) (int (length V)) f h = Some (f', h')" "rep_ok f' (U @ W) C" "pf_arena f' = pf_arena f"
    "world e H (pf_arena f) h' (U @ W) (us @ ws) C out ys"
proof -
  obtain h' where h': "delete_loop V (pf_arena f) h = Some h'" "world e H (pf_arena f) h' (U @ W) (us @ ws) C out ys"
    using delete_loop_ok[OF assms(3-5)] by auto
  let ?f = "if V = [] then f else CloseGap L (int (length U)) (int (length V)) f"
  have "rep_ok ?f (U @ W) C \<and> pf_arena ?f = pf_arena f"
    using assms(1,2) by (auto simp: close_documented_def)
  then show thesis
    using h' rep_ok_part[OF assms(2)]
    by (intro that[of ?f h']) (simp_all add: RP_DeleteSubrange_def RP_UnsafeArenaExtractSubrange_def)
qed

context type_handler
begin

lemma th_Clear_ok:
  assumes "world e H r h (U @ a # W) (us @ v # ws) C out ys" "length U = length us"
  obtains h' where "th_Clear H a h = Some h'" "world e H r h' (U @ a # W) (us @ h_new H # ws) C out ys"
proof -
  let ?U = "U @ a # W" and ?us = "us @ v # ws"
  have i: "length U < length ?U" "?U ! length U = a" "?us[length U := h_new H] = us @ h_new H # ws" "?us ! length U = v"
    using assms(2) by (simp_all add: nth_append list_update_append)
  obtain h' where "assign a (h_new H) h = Some h'" "world e H r h' ?U (us @ h_new H # ws) C out ys"
    using world_assign[OF assms(1) i(1), of "h_new H"] unfolding i(2,3) by blast
  moreover have "deref a h = Some v"
    using deref_nth[OF assms(1) i(1)] unfolding i(2,4) .
  ultimately show thesis
    by (intro that[of h']) (simp_all add: th_Clear_def Clear_new)
qed

lemma clear_loop_ok:
  "world e H r h (U @ V) (us @ vs) C out ys \<Longrightarrow> length U = length us \<Longrightarrow>
    \<exists>h'. clear_loop H V h = Some h' \<and> world e H r h' (U @ V) (us @ replicate (length V) (h_new H)) C out ys"
proof (induction V arbitrary: U us vs h)
  case Nil
  then show ?case
    using worldD(6)[OF Nil(1)] by simp
next
  case (Cons a V)
  then obtain v vs' where vs: "vs = v # vs'"
    using worldD(6)[OF Cons.prems(1)] by (cases vs) auto
  obtain h1 where h1: "th_Clear H a h = Some h1" "world e H r h1 (U @ a # V) (us @ h_new H # vs') C out ys"
    using th_Clear_ok[of e r h U a V us v vs' C out ys] Cons.prems vs by blast
  then have "world e H r h1 ((U @ [a]) @ V) ((us @ [h_new H]) @ vs') C out ys"
    by simp
  from Cons.IH[OF this] Cons.prems(2) h1(1) show ?case
    by simp
qed

lemma RemoveLast_ok:
  assumes "rep_ok f (U @ [a]) C" "world e H (pf_arena f) h (U @ [a]) (xs @ [v]) C out ys"
  obtains f' h' where "RP_RemoveLast H f h = Some (f', h')" "rep_ok f' U (a # C)" "pf_arena f' = pf_arena f"
    "world e H (pf_arena f) h' U xs (a # C) out ys"
proof -
  have l: "length U = length xs"
    using worldD(6)[OF assms(2)] by simp
  obtain h' where h': "th_Clear H a h = Some h'" "world e H (pf_arena f) h' (U @ [a]) (xs @ [h_new H]) C out ys"
    using th_Clear_ok[of e "pf_arena f" h U a "[]" xs v "[]" C out ys] assms(2) l by auto
  let ?f = "f\<lparr>pf_current_size := int (length U)\<rparr>"
  have r: "rep_ok ?f U (a # C)"
    using rep_ok_shrink[OF assms(1)] by simp
  have "world e H (pf_arena f) h' U xs (a # C) out ys"
    using world_shift[of e H "pf_arena f" h' U "[a]" xs C out ys] h'(2) by simp
  then show thesis
    using h'(1) r rep_ok_element[OF r, of "length U"] rep_ok_sizes(1)[OF assms(1)]
    by (intro that[of ?f h']) (simp_all add: RP_RemoveLast_def RP_ExchangeCurrentSize_def)
qed

lemma Clear_ok:
  assumes "rep_ok f U C" "world e H (pf_arena f) h U xs C out ys"
  obtains f' h' where "RP_Clear H f h = Some (f', h')" "rep_ok f' [] (U @ C)" "pf_arena f' = pf_arena f" "world e H (pf_arena f) h' [] [] (U @ C) out ys"
proof -
  obtain h' where h': "clear_loop H U h = Some h'" "world e H (pf_arena f) h' U (replicate (length U) (h_new H)) C out ys"
    using clear_loop_ok[of e "pf_arena f" h "[]" U "[]" xs C out ys] assms(2) by auto
  have w: "world e H (pf_arena f) h' [] [] (U @ C) out ys"
    using world_shift[of e H "pf_arena f" h' "[]" U "[]" C out ys] h'(2) by simp
  have r: "rep_ok (f\<lparr>pf_current_size := 0\<rparr>) [] (U @ C)"
    using rep_ok_shrink[of f "[]" U C] assms(1) by simp
  have f: "U = [] \<Longrightarrow> f\<lparr>pf_current_size := 0\<rparr> = f"
    using rep_ok_sizes(1)[OF assms(1)] by (cases f) simp
  show thesis
    using h'(1) w r f rep_ok_sizes(1)[OF assms(1)] rep_ok_slots[OF assms(1), of 0 "length U"]
    by (intro that[of "f\<lparr>pf_current_size := 0\<rparr>" h']) (auto simp: RP_Clear_def ClearNonEmpty_def RP_ExchangeCurrentSize_def)
qed

lemma CopyMessage_eq:
  assumes "deref a h = Some v" "a \<noteq> next_obj h"
  shows "CopyMessage H r a h = Some (Create r v h)" "RP_copy H a h = Some (Create None v h)"
  using assms by (auto simp: CopyMessage_def RP_copy_def th_NewFromPrototype_def th_New_def th_Merge_def Create_def deref_def assign_def Merge_new)

end

text \<open>The heap already counts the new element \<open>b\<close> as one of the field.\<close>

lemma store_new_ok:
  assumes "rep_ok f U C" "world e H (pf_arena f) h (U @ [b]) zs C out ys"
  shows "reserve_documented L \<Longrightarrow> int (length U) < INT_MAX \<Longrightarrow> \<exists>f' h' C'. RP_UnsafeArenaAddAllocated L b f h = Some (f', h') \<and>
      rep_ok f' (U @ [b]) C' \<and> pf_arena f' = pf_arena f \<and> world e H (pf_arena f) h' (U @ [b]) zs C' out ys"
    "allocated_size f < pf_total_size f \<Longrightarrow> \<exists>f' C'. add_in_place b f = Some f' \<and>
      rep_ok f' (U @ [b]) C' \<and> pf_arena f' = pf_arena f \<and> world e H (pf_arena f) h (U @ [b]) zs C' out ys"
proof -
  have d: "distinct C"
    using worldD(1)[OF assms(2)] by simp
  have w: "world e H (pf_arena f) h (U @ [b]) zs (rotate1 C) out ys"
    using world_cleared[OF assms(2)] d by simp
  show "\<exists>f' h' C'. RP_UnsafeArenaAddAllocated L b f h = Some (f', h') \<and>
      rep_ok f' (U @ [b]) C' \<and> pf_arena f' = pf_arena f \<and> world e H (pf_arena f) h' (U @ [b]) zs C' out ys"
    if "reserve_documented L" "int (length U) < INT_MAX"
  proof (rule UnsafeArenaAddAllocated_ok[OF that(1) assms(1) that(2), of b h])
    fix f'
    assume f': "RP_UnsafeArenaAddAllocated L b f h = (if C \<noteq> [] \<and> int (length U + length C) = pf_total_size f
          then do { h \<leftarrow> th_Delete (hd C) (pf_arena f) h; Some (f', h) } else Some (f', h))"
      "rep_ok f' (U @ [b]) (if C \<noteq> [] \<and> int (length U + length C) = pf_total_size f then tl C else rotate1 C)" "pf_arena f' = pf_arena f"
    show ?thesis
    proof (cases "C \<noteq> [] \<and> int (length U + length C) = pf_total_size f")
      case True
      then have "world e H (pf_arena f) h (U @ [b]) zs (hd C # tl C) out ys"
        using assms(2) by simp
      then obtain h' where "th_Delete (hd C) (pf_arena f) h = Some h'" "world e H (pf_arena f) h' (U @ [b]) zs (tl C) out ys"
        by (rule world_Delete_cleared)
      then show ?thesis
        using f' True by auto
    next
      case False
      then show ?thesis
        using f' w by auto
    qed
  qed
  show "\<exists>f' C'. add_in_place b f = Some f' \<and> rep_ok f' (U @ [b]) C' \<and> pf_arena f' = pf_arena f \<and> world e H (pf_arena f) h (U @ [b]) zs C' out ys"
    if "allocated_size f < pf_total_size f"
  proof (rule add_in_place_ok[OF assms(1)])
    show "int (length U + length C) < pf_total_size f"
      using rep_ok_sizes(2)[OF assms(1)] that by simp
  qed (use w in blast)
qed

context type_handler
begin

lemma AddAllocated_ok:
  assumes "reserve_documented L" "rep_ok f U C" "world e H (pf_arena f) h U xs C out ys" "int (length U) < INT_MAX"
    and "Create ar v h = (a, h1)" "h_GetArena H \<lparr>obj_value = v, obj_arena = ar, obj_owner = ar\<rparr> = ar"
  shows "\<exists>f' h' U' C'. RP_AddAllocated H True L a f h1 = Some (f', h') \<and> rep_ok f' U' C' \<and> pf_arena f' = pf_arena f \<and>
    world e H (pf_arena f) h' U' (xs @ [v]) C' out ys"
proof -
  let ?r = "pf_arena f"
  have a: "th_GetArena H a h1 = Some ar" "deref a h1 = Some v" "a \<noteq> next_obj h1"
    using assms(5,6) by (auto simp: Create_def th_GetArena_def deref_def)
  note store = store_new_ok(1)[OF assms(2) _ assms(1,4)] and place = store_new_ok(2)[OF assms(2)]
  consider (same) "?r = ar" | (own) q where "?r = Some q" "ar = None" | (copy) "?r \<noteq> ar" "ar \<noteq> None"
    by (cases "?r"; cases ar) auto
  then show ?thesis
  proof cases
    case same
    then have w: "world e H ?r h1 (U @ [a]) (xs @ [v]) C out ys"
      using world_Create(1)[OF assms(3,5)] by simp
    show ?thesis
    proof (cases "allocated_size f < pf_total_size f")
      case True
      then show ?thesis
        using place[OF w] same a(1) by (simp add: RP_AddAllocated_def AddAllocatedInternal_def) (elim exE conjE, simp, blast)
    next
      case False
      then have "RP_AddAllocated H True L a f h1 = RP_UnsafeArenaAddAllocated L a f h1"
        using same a(1) by (auto simp: RP_AddAllocated_def AddAllocatedInternal_def AddAllocatedSlowWithCopy_def)
      then show ?thesis
        using store[OF w] by metis
    qed
  next
    case own
    then have "world e H (Some q) h1 U xs C (out @ [a]) (ys @ [v])"
      using world_Create(2)[OF assms(3,5)] by simp
    then obtain h2 where h2: "Own q a h1 = Some h2" "world e H ?r h2 (U @ [a]) (xs @ [v]) C out ys"
      using own by (auto elim!: world_Own)
    have "RP_AddAllocated H True L a f h1 = RP_UnsafeArenaAddAllocated L a f h2"
      using h2(1) own a(1) by (auto simp: RP_AddAllocated_def AddAllocatedInternal_def AddAllocatedSlowWithCopy_def)
    then show ?thesis
      using store[OF h2(2)] by metis
  next
    case copy
    have w: "world e H ?r h1 U xs C out ys"
      using world_Create(3)[OF assms(3,5)] copy by simp
    obtain b h2 where h2: "Create ?r v h1 = (b, h2)"
      by fastforce
    then have "do { let (new_value, h) = th_NewFromPrototype H a ?r h1; h \<leftarrow> th_Merge H a new_value h; Some (new_value, h) } = Some (b, h2)"
      using CopyMessage_eq(1)[OF a(2,3), of ?r] by (simp add: CopyMessage_def th_NewFromPrototype_def)
    then have "RP_AddAllocated H True L a f h1 = RP_UnsafeArenaAddAllocated L b f h2"
      using copy a(1) by (auto simp: RP_AddAllocated_def AddAllocatedInternal_def AddAllocatedSlowWithCopy_def th_Delete_def bind_eq_Some_conv split: prod.splits)
    then show ?thesis
      using store[OF world_Create(1)[OF w h2 refl]] by metis
  qed
qed

lemma ReleaseLast_ok:
  assumes "rep_ok f (U @ [a]) C" "world e H (pf_arena f) h (U @ [a]) (xs @ [v]) C out ys"
  shows "\<exists>b f' h' C'. RP_ReleaseLast H True f h = Some (b, f', h') \<and> rep_ok f' U C' \<and> pf_arena f' = pf_arena f \<and>
    world e H (pf_arena f) h' U xs C' (out @ [b]) (ys @ [v])"
proof -
  have l: "length U = length xs"
    using worldD(6)[OF assms(2)] by simp
  let ?C = "if C = [] then [] else last C # butlast C"
  obtain f' where f': "RP_UnsafeArenaReleaseLast f = Some (a, f')" "rep_ok f' U ?C" "pf_arena f' = pf_arena f"
    by (rule UnsafeArenaReleaseLast_ok[OF assms(1)])
  have C: "distinct ?C" "set ?C = set C"
    using worldD(1)[OF assms(2)] by (cases C rule: rev_cases; auto)+
  show ?thesis
  proof (cases "pf_arena f")
    case None
    then have "world e H None h U xs C (out @ [a]) (ys @ [v])"
      using world_remove(1)[of e H "pf_arena f" h U "[a]" "[]" xs "[v]" "[]" C out ys] assms(2) l by simp
    from world_cleared[OF this C] show ?thesis
      using f' None by (intro exI[of _ a] exI[of _ f'] exI[of _ h] exI[of _ ?C]) (simp add: RP_ReleaseLast_def ReleaseLastInternal_def)
  next
    case (Some q)
    have w: "world e H (Some q) h U xs C out ys"
      using world_remove(2)[of e H "pf_arena f" h U "[a]" "[]" xs "[v]" "[]" C out ys] assms(2) l Some by simp
    have "deref a h = Some v"
      using deref_nth[OF assms(2), of "length U"] l by (simp add: nth_append)
    moreover have "a \<noteq> next_obj h"
      using world_fresh(1)[OF assms(2)] by auto
    ultimately have "RP_copy H a h = Some (Create None v h)"
      by (rule CopyMessage_eq)
    moreover obtain b h' where c: "Create None v h = (b, h')"
      by fastforce
    ultimately show ?thesis
      using f' Some world_cleared[OF world_Create(2)[OF w c refl] C]
      by (intro exI[of _ b] exI[of _ f'] exI[of _ h'] exI[of _ ?C]) (simp add: RP_ReleaseLast_def ReleaseLastInternal_def)
  qed
qed

end

context type_handler
begin

lemma copy_loop_ok:
  "world e H r h U xs C out ys \<Longrightarrow> (\<And>i. i < length V \<Longrightarrow> deref (V ! i) h = Some (vs ! i)) \<Longrightarrow> length V = length vs \<Longrightarrow>
    \<exists>B h'. copy_loop H V h = Some (B, h') \<and> world e H r h' U xs C (out @ B) (ys @ vs)"
proof (induction V arbitrary: vs h out ys)
  case Nil
  then show ?case
    by simp
next
  case (Cons a V)
  then obtain v vs' where vs: "vs = v # vs'"
    by (cases vs) auto
  obtain b h1 where c: "Create None v h = (b, h1)"
    by fastforce
  have fr: "x \<noteq> next_obj h" if "deref x h = Some y" for x y
    using worldD(5)[OF Cons.prems(1)] that by (auto simp: accounted_def deref_def)
  have a: "deref a h = Some v"
    using Cons.prems(2)[of 0] vs by simp
  have "deref (V ! i) h1 = Some (vs' ! i)" if "i < length V" for i
    using Cons.prems(2)[of "Suc i"] that vs c fr[of "V ! i"] by (auto simp: Create_def deref_def)
  from Cons.IH[OF world_Create(2)[OF Cons.prems(1) c refl] this] Cons.prems(3)
  obtain B h' where "copy_loop H V h1 = Some (B, h')" "world e H r h' U xs C ((out @ [b]) @ B) ((ys @ [v]) @ vs')"
    by (auto simp: vs)
  then show ?case
    using CopyMessage_eq(2)[OF a fr[OF a]] c by (intro exI[of _ "b # B"] exI[of _ h']) (simp add: vs)
qed

lemma ExtractSubrange_ok:
  assumes "close_documented L" "rep_ok f (U @ V @ W) C" "world e H (pf_arena f) h (U @ V @ W) (us @ vs @ ws) C out ys"
    "length U = length us" "length V = length vs"
  shows "\<exists>B f' h'. RP_ExtractSubrange H True L (int (length U)) (int (length V)) True f h = Some (B, f', h') \<and> rep_ok f' (U @ W) C \<and>
    pf_arena f' = pf_arena f \<and> world e H (pf_arena f) h' (U @ W) (us @ ws) C (out @ B) (ys @ vs)"
proof (cases "V = []")
  case True
  then show ?thesis
    using assms rep_ok_part[OF assms(2)] by (simp add: RP_ExtractSubrange_def ExtractSubrangeInternal_def)
next
  case V: False
  let ?f = "CloseGap L (int (length U)) (int (length V)) f"
  have f: "rep_ok ?f (U @ W) C" "pf_arena ?f = pf_arena f"
    using assms(1,2) by (auto simp: close_documented_def)
  note p = rep_ok_part[OF assms(2)] and rem = world_remove[OF assms(3-5)]
  show ?thesis
  proof (cases "pf_arena f")
    case None
    then show ?thesis
      using V f p rem(1) by (intro exI[of _ V] exI[of _ ?f] exI[of _ h]) (simp add: RP_ExtractSubrange_def ExtractSubrangeInternal_def)
  next
    case (Some q)
    have d: "deref (V ! i) h = Some (vs ! i)" if "i < length V" for i
    proof -
      have "length U + i < length (U @ V @ W)" "(U @ V @ W) ! (length U + i) = V ! i" "(us @ vs @ ws) ! (length U + i) = vs ! i"
        using that assms(4,5) by (simp_all add: nth_append)
      then show ?thesis
        using deref_nth[OF assms(3), of "length U + i"] by simp
    qed
    have "world e H (pf_arena f) h (U @ W) (us @ ws) C out ys"
      using rem(2) Some by simp
    from copy_loop_ok[OF this d assms(5)] obtain B h' where "copy_loop H V h = Some (B, h')"
        "world e H (pf_arena f) h' (U @ W) (us @ ws) C (out @ B) (ys @ vs)"
      by auto
    then show ?thesis
      using V f p Some by (intro exI[of _ B] exI[of _ ?f] exI[of _ h']) (simp add: RP_ExtractSubrange_def ExtractSubrangeInternal_def)
  qed
qed

text \<open>The elements of another field belong to the environment.\<close>

lemma world_env:
  assumes "world e H r h U xs C out ys" "e a = Some x"
  shows "deref a h = Some (obj_value x)" "a \<noteq> next_obj h"
  using worldD(5)[OF assms(1)] world_fresh(4)[OF assms(1)] assms(2) by (auto simp: accounted_def deref_def domIff)

lemma merge_elems_ok:
  "world e H r h U xs C out ys \<Longrightarrow> set V \<subseteq> dom e \<Longrightarrow>
    \<exists>W h'. merge_elems H r V C h = Some (W, drop (length V) C, h') \<and> length W = length V \<and>
      world e H r h' (U @ W) (xs @ map (\<lambda>a. obj_value (the (e a))) V) (drop (length V) C) out ys"
proof (induction V arbitrary: h U xs C)
  case Nil
  then show ?case
    by simp
next
  case (Cons a V)
  obtain x where x: "e a = Some x"
    using Cons.prems(2) by auto
  note env = world_env[OF Cons.prems(1) x]
  obtain c h1 where 1: "merge_elems H r (a # V) C h = do { (W, C, h) \<leftarrow> merge_elems H r V (tl C) h1; Some (c # W, C, h) }"
      "world e H r h1 (U @ [c]) (xs @ [obj_value x]) (tl C) out ys"
  proof (cases C)
    case Nil
    obtain c h1 where c: "Create r (obj_value x) h = (c, h1)"
      by fastforce
    then show thesis
      using that[of h1 c] CopyMessage_eq(1)[OF env] world_Create(1)[OF Cons.prems(1) c refl] Nil by simp
  next
    case (Cons c C')
    have w: "world e H r h (U @ [c]) (xs @ [h_new H]) C' out ys"
      using world_reuse[of e H r h U xs c C' out ys] Cons.prems(1) Cons by simp
    obtain h1 where h1: "assign c (obj_value x) h = Some h1" "world e H r h1 (U @ [c]) (xs @ [obj_value x]) C' out ys"
      by (rule world_assign_last[OF w])
    have "deref c h = Some (h_new H)"
      using deref_nth[OF w, of "length U"] worldD(6)[OF Cons.prems(1)] by (simp add: nth_append)
    then have "th_Merge H a c h = Some h1"
      using env(1) h1(1) by (simp add: th_Merge_def Merge_new)
    then show thesis
      using that[of h1 c] h1(2) Cons by simp
  qed
  from Cons.IH[OF 1(2)] Cons.prems(2) obtain W h' where "merge_elems H r V (tl C) h1 = Some (W, drop (length V) (tl C), h')" "length W = length V"
      "world e H r h' ((U @ [c]) @ W) ((xs @ [obj_value x]) @ map (\<lambda>a. obj_value (the (e a))) V) (drop (length V) (tl C)) out ys"
    by auto
  then show ?case
    using 1(1) x by (intro exI[of _ "c # W"] exI[of _ h']) (simp add: drop_Suc)
qed

lemma MergeFrom_ok:
  assumes "merge_documented H L" "rep_ok g V D" "set V \<subseteq> dom e" "rep_ok f U C" "world e H (pf_arena f) h U xs C out ys"
    "int (length U + length V) \<le> INT_MAX"
  shows "\<exists>f' h' U' C'. RP_MergeFrom H L g f h = Some (f', h') \<and> rep_ok f' U' C' \<and> pf_arena f' = pf_arena f \<and>
    world e H (pf_arena f) h' U' (xs @ map (\<lambda>a. obj_value (the (e a))) V) C' out ys"
proof -
  obtain W h' where W: "merge_elems H (pf_arena f) V C h = Some (W, drop (length V) C, h')"
      "world e H (pf_arena f) h' (U @ W) (xs @ map (\<lambda>a. obj_value (the (e a))) V) (drop (length V) C) out ys"
    using merge_elems_ok[OF assms(5,3)] by blast
  have "\<exists>f'. MergeFromConcreteMessage L (CopyMessage H) g f h = Some (f', h') \<and> rep_ok f' (U @ W) (drop (length V) C) \<and> pf_arena f' = pf_arena f"
    by (rule assms(1)[unfolded merge_documented_def, rule_format, OF conjI[OF assms(2) conjI[OF assms(4) conjI[OF assms(6) W(1)]]]])
  then show ?thesis
    using W(2) unfolding RP_MergeFrom_def by blast
qed

end

subsection \<open>Sequences of operations\<close>

text \<open>
  The state has the field, the heap and the objects handed to the caller. \<open>PAddAllocated\<close> adds an object the
  caller made on an arena or on the heap. Other fields are part of the environment.
\<close>

datatype 'v pf_op = PAdd 'v | PAddMove 'v | PAddRange bool "'v list" | PAssign bool "'v list" | PSet int 'v | PRemoveLast | PClear
  | PSwapElements int int | PAddAllocated "nat option" 'v | PReleaseLast | PExtractSubrange int int | PDeleteSubrange int int
  | PReserve int | PMergeFrom ptr_field | PCopyFrom ptr_field

fun exec_pf :: "'v handler \<Rightarrow> 'v ptr_lib \<Rightarrow> 'v pf_op \<Rightarrow> ptr_field \<times> 'v heap \<times> nat list \<Rightarrow> (ptr_field \<times> 'v heap \<times> nat list) option" where
  "exec_pf H L (PAdd v) (f, h, out) = do { let (a, f, h) = RP_Add H L f h; h \<leftarrow> assign a v h; Some (f, h, out) }"
| "exec_pf H L (PAddMove v) (f, h, out) = do { (f, h) \<leftarrow> RP_Add_move L v f h; Some (f, h, out) }"
| "exec_pf H L (PAddRange fwd vs) (f, h, out) = do { (f, h) \<leftarrow> RP_Add_range H L fwd vs f h; Some (f, h, out) }"
| "exec_pf H L (PAssign fwd vs) (f, h, out) = do { (f, h) \<leftarrow> RP_Assign H L fwd vs f h; Some (f, h, out) }"
| "exec_pf H L (PSet i v) (f, h, out) = do { a \<leftarrow> RP_Mutable i f; h \<leftarrow> assign a v h; Some (f, h, out) }"
| "exec_pf H L PRemoveLast (f, h, out) = do { (f, h) \<leftarrow> RP_RemoveLast H f h; Some (f, h, out) }"
| "exec_pf H L PClear (f, h, out) = do { (f, h) \<leftarrow> RP_Clear H f h; Some (f, h, out) }"
| "exec_pf H L (PSwapElements i j) (f, h, out) = do { f \<leftarrow> RP_SwapElements i j f; Some (f, h, out) }"
| "exec_pf H L (PAddAllocated ar v) (f, h, out) = do { let (a, h) = Create ar v h; (f, h) \<leftarrow> RP_AddAllocated H True L a f h; Some (f, h, out) }"
| "exec_pf H L PReleaseLast (f, h, out) = do { (a, f, h) \<leftarrow> RP_ReleaseLast H True f h; Some (f, h, out @ [a]) }"
| "exec_pf H L (PExtractSubrange s n) (f, h, out) = do { (as, f, h) \<leftarrow> RP_ExtractSubrange H True L s n True f h; Some (f, h, out @ as) }"
| "exec_pf H L (PDeleteSubrange s n) (f, h, out) = do { (f, h) \<leftarrow> RP_DeleteSubrange L s n f h; Some (f, h, out) }"
| "exec_pf H L (PReserve n) (f, h, out) = Some (RP_Reserve L n f, h, out)"
| "exec_pf H L (PMergeFrom g) (f, h, out) = do { (f, h) \<leftarrow> RPF_MergeFrom H L g f h; Some (f, h, out) }"
| "exec_pf H L (PCopyFrom g) (f, h, out) = do { (f, h) \<leftarrow> RP_CopyFrom H L False g f h; Some (f, h, out) }"

text \<open>What they do to the list of values and to the values handed out.\<close>

definition used :: "ptr_field \<Rightarrow> nat list" where
  "used f = map the (take (nat (pf_current_size f)) (elements f))"

definition cleared :: "ptr_field \<Rightarrow> nat list" where
  "cleared f = map the (take (nat (allocated_size f - pf_current_size f)) (drop (nat (pf_current_size f)) (elements f)))"

definition values_of :: "(nat \<rightharpoonup> 'v obj) \<Rightarrow> ptr_field \<Rightarrow> 'v list" where
  "values_of e g = map (\<lambda>a. obj_value (the (e a))) (used g)"

fun list_pf :: "(nat \<rightharpoonup> 'v obj) \<Rightarrow> 'v pf_op \<Rightarrow> 'v list \<times> 'v list \<Rightarrow> ('v list \<times> 'v list) option" where
  "list_pf e (PAdd v) (xs, ys) = (if int (length xs) < INT_MAX then Some (xs @ [v], ys) else None)"
| "list_pf e (PAddMove v) (xs, ys) = (if int (length xs) < INT_MAX then Some (xs @ [v], ys) else None)"
| "list_pf e (PAddRange _ vs) (xs, ys) = (if int (length xs + length vs) \<le> INT_MAX then Some (xs @ vs, ys) else None)"
| "list_pf e (PAssign _ vs) (xs, ys) = (if int (length vs) \<le> INT_MAX then Some (vs, ys) else None)"
| "list_pf e (PSet i v) (xs, ys) = (if 0 \<le> i \<and> i < int (length xs) then Some (xs[nat i := v], ys) else None)"
| "list_pf e PRemoveLast (xs, ys) = (if xs = [] then None else Some (butlast xs, ys))"
| "list_pf e PClear (xs, ys) = Some ([], ys)"
| "list_pf e (PSwapElements i j) (xs, ys) = (if 0 \<le> i \<and> i < int (length xs) \<and> 0 \<le> j \<and> j < int (length xs)
      then Some (xs[nat i := xs ! nat j, nat j := xs ! nat i], ys) else None)"
| "list_pf e (PAddAllocated _ v) (xs, ys) = (if int (length xs) < INT_MAX then Some (xs @ [v], ys) else None)"
| "list_pf e PReleaseLast (xs, ys) = (if xs = [] then None else Some (butlast xs, ys @ [last xs]))"
| "list_pf e (PExtractSubrange s n) (xs, ys) = (if 0 \<le> s \<and> 0 \<le> n \<and> s + n \<le> int (length xs)
      then Some (take (nat s) xs @ drop (nat (s + n)) xs, ys @ take (nat n) (drop (nat s) xs)) else None)"
| "list_pf e (PDeleteSubrange s n) (xs, ys) = (if 0 \<le> s \<and> 0 \<le> n \<and> s + n \<le> int (length xs)
      then Some (take (nat s) xs @ drop (nat (s + n)) xs, ys) else None)"
| "list_pf e (PReserve n) (xs, ys) = (if n \<le> INT_MAX then Some (xs, ys) else None)"
| "list_pf e (PMergeFrom g) (xs, ys) = (if int (length xs + length (used g)) \<le> INT_MAX then Some (xs @ values_of e g, ys) else None)"
| "list_pf e (PCopyFrom g) (xs, ys) = Some (values_of e g, ys)"

text \<open>A string that is added must come from the heap; another field has its elements in the environment.\<close>

fun pf_op_ok :: "(nat \<rightharpoonup> 'v obj) \<Rightarrow> 'v handler \<Rightarrow> 'v pf_op \<Rightarrow> bool" where
  "pf_op_ok e H (PAddAllocated ar v) \<longleftrightarrow> h_GetArena H \<lparr>obj_value = v, obj_arena = ar, obj_owner = ar\<rparr> = ar"
| "pf_op_ok e H (PMergeFrom g) \<longleftrightarrow> rep_ok g (used g) (cleared g) \<and> set (used g) \<subseteq> dom e"
| "pf_op_ok e H (PCopyFrom g) \<longleftrightarrow> rep_ok g (used g) (cleared g) \<and> set (used g) \<subseteq> dom e"
| "pf_op_ok e H _ \<longleftrightarrow> True"

fun exec_pfs :: "'v handler \<Rightarrow> 'v ptr_lib \<Rightarrow> 'v pf_op list \<Rightarrow> ptr_field \<times> 'v heap \<times> nat list \<Rightarrow> (ptr_field \<times> 'v heap \<times> nat list) option" where
  "exec_pfs H L [] s = Some s"
| "exec_pfs H L (x # ops) s = exec_pf H L x s \<bind> exec_pfs H L ops"

fun list_pfs :: "(nat \<rightharpoonup> 'v obj) \<Rightarrow> 'v pf_op list \<Rightarrow> 'v list \<times> 'v list \<Rightarrow> ('v list \<times> 'v list) option" where
  "list_pfs e [] s = Some s"
| "list_pfs e (x # ops) s = list_pf e x s \<bind> list_pfs e ops"

text \<open>The field and its heap stand for the values \<open>xs\<close>, with the values \<open>ys\<close> handed out.\<close>

definition stands_for :: "(nat \<rightharpoonup> 'v obj) \<Rightarrow> 'v handler \<Rightarrow> nat option \<Rightarrow> ptr_field \<times> 'v heap \<times> nat list \<Rightarrow> 'v list \<times> 'v list \<Rightarrow> bool" where
  "stands_for e H r s l = (case (s, l) of ((f, h, out), xs, ys) \<Rightarrow>
     pf_arena f = r \<and> (\<exists>U C. rep_ok f U C \<and> world e H r h U xs C out ys))"

lemma stands_forI: "rep_ok f U C \<Longrightarrow> pf_arena f = r \<Longrightarrow> world e H r h U xs C out ys \<Longrightarrow> stands_for e H r (f, h, out) (xs, ys)"
  by (auto simp: stands_for_def)

lemma split_last: "xs \<noteq> [] \<Longrightarrow> length U = length xs \<Longrightarrow> \<exists>U' a. U = U' @ [a] \<and> length U' = length (butlast xs) \<and> xs = butlast xs @ [last xs]"
  by (cases U rule: rev_cases) auto

lemma split_part:
  assumes "0 \<le> s" "0 \<le> n" "s + n \<le> int (length U)" "length U = length xs"
  obtains U1 V W us vs ws where "U = U1 @ V @ W" "xs = us @ vs @ ws" "length U1 = length us" "length V = length vs" "s = int (length U1)" "n = int (length V)"
    "us = take (nat s) xs" "vs = take (nat n) (drop (nat s) xs)" "ws = drop (nat (s + n)) xs"
proof -
  have d: "as = take (nat s) as @ take (nat n) (drop (nat s) as) @ drop (nat (s + n)) as" for as :: "'c list"
    using assms(1,2) by (metis append_take_drop_id drop_drop add.commute nat_add_distrib)
  show thesis
    using assms by (intro that[OF d[of U] d[of xs]]) auto
qed

lemma world_swap:
  assumes "world e H r h U xs C out ys" "i < length U" "j < length U"
  shows "world e H r h (U[i := U ! j, j := U ! i]) (xs[i := xs ! j, j := xs ! i]) C out ys"
proof -
  note w = worldD[OF assms(1)]
  have "set (U[i := U ! j, j := U ! i]) = set U"
    using set_swap[OF assms(2,3)] .
  moreover have "cells h r (U[i := U ! j, j := U ! i]) (xs[i := xs ! j, j := xs ! i])"
    using w(2) assms(2,3) w(6) by (simp add: cells_def list_all2_conv_all_nth nth_list_update)
  ultimately show ?thesis
    using w(1,3,4) assms(2,3) by (intro worldI[OF _ _ _ _ w(5)]) (simp_all add: distinct_swap)
qed

lemma used_rep_ok: "rep_ok f U C \<Longrightarrow> used f = U \<and> cleared f = C"
  by (erule rep_ok.cases) (simp_all add: used_def cleared_def elements_def allocated_size_def take_map[symmetric] map_idI comp_def)

context type_handler
begin

lemma Add_range_ok:
  assumes "ptr_documented H L" "rep_ok f U C" "world e H (pf_arena f) h U xs C out ys" "int (length U + length vs) \<le> INT_MAX"
  shows "\<exists>f' h' U' C'. RP_Add_range H L fwd vs f h = Some (f', h') \<and> rep_ok f' U' C' \<and> pf_arena f' = pf_arena f \<and>
      world e H (pf_arena f) h' U' (xs @ vs) C' out ys"
proof -
  have L: "factory_documented L" "reserve_documented L"
    using assms(1) by (simp_all add: ptr_documented_def)
  let ?g = "if fwd then RP_Reserve L (pf_current_size f + int (length vs)) f else f"
  have g: "rep_ok ?g U C" "pf_arena ?g = pf_arena f"
    using L(2) assms(2,4) rep_ok_sizes(1)[OF assms(2)] by (auto simp: reserve_documented_def)
  then show ?thesis
    using add_loop_ok[OF L(1) g(1), of e H h xs out ys vs] assms(3,4) by (simp add: RP_Add_range_def)
qed

lemma CopyFrom_ok:
  assumes "ptr_documented H L" "rep_ok g (used g) (cleared g)" "set (used g) \<subseteq> dom e" "rep_ok f U C" "world e H (pf_arena f) h U xs C out ys"
  shows "\<exists>f' h' U' C'. RP_CopyFrom H L False g f h = Some (f', h') \<and> rep_ok f' U' C' \<and> pf_arena f' = pf_arena f \<and>
    world e H (pf_arena f) h' U' (values_of e g) C' out ys"
proof -
  have L: "merge_documented H L"
    using assms(1) by (simp add: ptr_documented_def)
  obtain f1 h1 where 1: "RP_Clear H f h = Some (f1, h1)" "rep_ok f1 [] (U @ C)" "pf_arena f1 = pf_arena f" "world e H (pf_arena f) h1 [] [] (U @ C) out ys"
    by (rule Clear_ok[OF assms(4,5)])
  note s = rep_ok_sizes[OF assms(2)]
  show ?thesis
  proof (cases "used g = []")
    case True
    then have "RP_CopyFrom H L False g f h = Some (f1, h1)"
      using 1(1) s(1) by (simp add: RP_CopyFrom_def RP_empty_def)
    then show ?thesis
      using 1(2-4) True unfolding values_of_def by auto
  next
    case False
    then have "RP_CopyFrom H L False g f h = RP_MergeFrom H L g f1 h1"
      using 1(1) s(1) by (simp add: RP_CopyFrom_def RP_empty_def)
    moreover have "int (length ([] :: nat list) + length (used g)) \<le> INT_MAX"
      using s(3,4) by simp
    ultimately show ?thesis
      using MergeFrom_ok[OF L assms(2,3) 1(2) 1(4)[folded 1(3)]] 1(3) by (simp add: values_of_def)
  qed
qed

lemma exec_pf_ok:
  assumes "ptr_documented H L" "stands_for e H r s l" "pf_op_ok e H x" "list_pf e x l = Some l'"
  shows "\<exists>s'. exec_pf H L x s = Some s' \<and> stands_for e H r s' l'"
proof -
  obtain f h out xs ys where sl: "s = (f, h, out)" "l = (xs, ys)"
    by (cases s, cases l) auto
  obtain U C where rw: "rep_ok f U C" "world e H r h U xs C out ys" and r: "pf_arena f = r"
    using assms(2) by (auto simp: stands_for_def sl)
  note w = rw(2)[folded r]
  have L: "reserve_documented L" "extend_documented L" "close_documented L" "factory_documented L" "merge_documented H L"
    using assms(1) by (simp_all add: ptr_documented_def)
  have len: "length U = length xs"
    using worldD(6)[OF rw(2)] .
  note s = rep_ok_sizes[OF rw(1)]
  show ?thesis
  proof (cases x)
    case (PAdd v)
    then show ?thesis
      using add_loop_ok[OF L(4) rw(1) w, of "[v]"] assms(4) len r by (auto simp: sl bind_eq_Some_conv intro: stands_forI split: if_splits prod.splits)
  next
    case (PAddMove v)
    have "int (length U) < INT_MAX"
      using assms(4) PAddMove len by (simp add: sl split: if_splits)
    then obtain f' h' a where "RP_Add_move L v f h = Some (f', h')" "rep_ok f' (U @ [a]) (tl C)" "pf_arena f' = r"
        "world e H r h' (U @ [a]) (xs @ [v]) (tl C) out ys"
      using Add_move_ok[OF L(2) rw(1) w] r by metis
    then show ?thesis
      using assms(4) PAddMove by (auto simp: sl intro: stands_forI split: if_splits)
  next
    case (PAddRange fwd vs)
    then show ?thesis
      using Add_range_ok[OF assms(1) rw(1) w, of vs fwd] assms(4) len r by (auto simp: sl intro: stands_forI split: if_splits)
  next
    case (PAssign fwd vs)
    obtain f1 h1 where 1: "RP_Clear H f h = Some (f1, h1)" "rep_ok f1 [] (U @ C)" "pf_arena f1 = pf_arena f"
        "world e H (pf_arena f) h1 [] [] (U @ C) out ys"
      by (rule Clear_ok[OF rw(1) w])
    then show ?thesis
      using Add_range_ok[OF assms(1) 1(2), of e h1 "[]" out ys vs fwd] assms(4) PAssign r
      by (auto simp: sl RP_Assign_def intro: stands_forI split: if_splits)
  next
    case (PSet i v)
    then have i: "nat i < length U" "0 \<le> i" "l' = (xs[nat i := v], ys)"
      using assms(4) len by (auto simp: sl split: if_splits)
    have "RP_Mutable i f = Some (U ! nat i)"
      using rep_ok_element[OF rw(1), of "nat i"] i s(1) by (simp add: RP_Mutable_def nth_append)
    moreover obtain h' where "assign (U ! nat i) v h = Some h'" "world e H r h' U (xs[nat i := v]) C out ys"
      by (rule world_assign[OF rw(2) i(1)])
    ultimately show ?thesis
      using PSet i(3) rw(1) r by (auto simp: sl intro: stands_forI)
  next
    case PRemoveLast
    then obtain U' a where U: "U = U' @ [a]" "xs = butlast xs @ [last xs]" "l' = (butlast xs, ys)"
      using assms(4) split_last[of xs U] len by (auto simp: sl split: if_splits)
    obtain f' h' where "RP_RemoveLast H f h = Some (f', h')" "rep_ok f' U' (a # C)" "pf_arena f' = pf_arena f"
      "world e H (pf_arena f) h' U' (butlast xs) (a # C) out ys"
      using RemoveLast_ok[of f U' a C e h "butlast xs" "last xs" out ys] rw(1) w U(1,2) by metis
    then show ?thesis
      using PRemoveLast U(3) r by (auto simp: sl intro: stands_forI)
  next
    case PClear
    obtain f1 h1 where "RP_Clear H f h = Some (f1, h1)" "rep_ok f1 [] (U @ C)" "pf_arena f1 = pf_arena f"
        "world e H (pf_arena f) h1 [] [] (U @ C) out ys"
      by (rule Clear_ok[OF rw(1) w])
    then show ?thesis
      using PClear assms(4) r by (auto simp: sl intro: stands_forI)
  next
    case (PSwapElements i j)
    then have ij: "nat i < length U" "nat j < length U" "int (nat i) = i" "int (nat j) = j" "l' = (xs[nat i := xs ! nat j, nat j := xs ! nat i], ys)"
      using assms(4) len by (auto simp: sl split: if_splits)
    then show ?thesis
      using SwapElements_ok[OF rw(1) ij(1,2)] world_swap[OF rw(2) ij(1,2)] PSwapElements r by (auto simp: sl intro: stands_forI)
  next
    case (PAddAllocated ar v)
    obtain a h1 where c: "Create ar v h = (a, h1)"
      by fastforce
    then show ?thesis
      using AddAllocated_ok[OF L(1) rw(1) w _ c] assms(3,4) PAddAllocated len r by (auto simp: sl intro: stands_forI split: if_splits)
  next
    case PReleaseLast
    then obtain U' a where U: "U = U' @ [a]" "xs = butlast xs @ [last xs]" "l' = (butlast xs, ys @ [last xs])"
      using assms(4) split_last[of xs U] len by (auto simp: sl split: if_splits)
    have "\<exists>b f' h' C'. RP_ReleaseLast H True f h = Some (b, f', h') \<and> rep_ok f' U' C' \<and> pf_arena f' = pf_arena f \<and>
      world e H (pf_arena f) h' U' (butlast xs) C' (out @ [b]) (ys @ [last xs])"
      using ReleaseLast_ok[of f U' a C e h "butlast xs" "last xs" out ys] rw(1) w U(1,2) by metis
    then show ?thesis
      using PReleaseLast U(3) r by (auto simp: sl intro: stands_forI)
  next
    case (PExtractSubrange i n)
    then have b: "0 \<le> i" "0 \<le> n" "i + n \<le> int (length U)" and l': "l' = (take (nat i) xs @ drop (nat (i + n)) xs, ys @ take (nat n) (drop (nat i) xs))"
      using assms(4) len by (auto simp: sl split: if_splits)
    show ?thesis
    proof (rule split_part[OF b len])
      fix U1 V W us vs ws
      assume p: "U = U1 @ V @ W" "xs = us @ vs @ ws" "length U1 = length us" "length V = length vs" "i = int (length U1)" "n = int (length V)"
        "us = take (nat i) xs" "vs = take (nat n) (drop (nat i) xs)" "ws = drop (nat (i + n)) xs"
      show ?thesis
        using ExtractSubrange_ok[OF L(3), of f U1 V W C e h us vs ws out ys] rw(1) w p(1-6) l'[folded p(7-9)] PExtractSubrange r
        by (auto simp: sl intro: stands_forI)
    qed
  next
    case (PDeleteSubrange i n)
    then have b: "0 \<le> i" "0 \<le> n" "i + n \<le> int (length U)" and l': "l' = (take (nat i) xs @ drop (nat (i + n)) xs, ys)"
      using assms(4) len by (auto simp: sl split: if_splits)
    show ?thesis
    proof (rule split_part[OF b len])
      fix U1 V W us vs ws
      assume p: "U = U1 @ V @ W" "xs = us @ vs @ ws" "length U1 = length us" "length V = length vs" "i = int (length U1)" "n = int (length V)"
        "us = take (nat i) xs" "vs = take (nat n) (drop (nat i) xs)" "ws = drop (nat (i + n)) xs"
      have pre: "rep_ok f (U1 @ V @ W) C" "world e H (pf_arena f) h (U1 @ V @ W) (us @ vs @ ws) C out ys"
        using rw(1) w p(1,2) by simp_all
      obtain f' h' where "RP_DeleteSubrange L (int (length U1)) (int (length V)) f h = Some (f', h')" "rep_ok f' (U1 @ W) C" "pf_arena f' = pf_arena f"
          "world e H (pf_arena f) h' (U1 @ W) (us @ ws) C out ys"
        by (rule DeleteSubrange_ok[OF L(3) pre p(3,4)])
      then show ?thesis
        using p(5,6) l'[folded p(7,9)] PDeleteSubrange r by (auto simp: sl intro: stands_forI)
    qed
  next
    case (PReserve n)
    then have n: "n \<le> INT_MAX" "l' = (xs, ys)"
      using assms(4) by (auto simp: sl split: if_splits)
    then have "rep_ok (RP_Reserve L n f) U C" "pf_arena (RP_Reserve L n f) = r"
      using L(1) rw(1) r unfolding reserve_documented_def by blast+
    then show ?thesis
      using PReserve n(2) rw(2) by (auto simp: sl intro: stands_forI)
  next
    case (PMergeFrom g)
    then have g: "rep_ok g (used g) (cleared g)" "set (used g) \<subseteq> dom e" and l': "l' = (xs @ values_of e g, ys)" "int (length U + length (used g)) \<le> INT_MAX"
      using assms(3,4) len by (auto simp: sl split: if_splits)
    show ?thesis
    proof (cases "used g = []")
      case True
      then show ?thesis
        using PMergeFrom l'(1) rw r rep_ok_sizes(1)[OF g(1)] by (auto simp: sl RPF_MergeFrom_def RP_empty_def values_of_def intro: stands_forI)
    next
      case False
      then show ?thesis
        using MergeFrom_ok[OF L(5) g rw(1) w l'(2)] PMergeFrom l'(1) r rep_ok_sizes(1)[OF g(1)]
        by (auto simp: sl RPF_MergeFrom_def RP_empty_def values_of_def intro: stands_forI)
    qed
  next
    case (PCopyFrom g)
    then show ?thesis
      using CopyFrom_ok[OF assms(1) _ _ rw(1) w, of g] assms(3,4) r by (auto simp: sl intro: stands_forI)
  qed
qed

lemma exec_pfs_ok:
  assumes "ptr_documented H L"
  shows "stands_for e H r s l \<Longrightarrow> list_all (pf_op_ok e H) ops \<Longrightarrow> list_pfs e ops l = Some l' \<Longrightarrow>
    \<exists>s'. exec_pfs H L ops s = Some s' \<and> stands_for e H r s' l'"
proof (induction ops arbitrary: s l)
  case (Cons x ops)
  then obtain l1 where l1: "list_pf e x l = Some l1" "list_pfs e ops l1 = Some l'"
    by (auto simp: bind_eq_Some_conv)
  obtain s1 where "exec_pf H L x s = Some s1" "stands_for e H r s1 l1"
    using exec_pf_ok[OF assms Cons.prems(1) _ l1(1)] Cons.prems(2) by auto
  then show ?case
    using Cons.IH[of s1 l1] Cons.prems(2) l1(2) by auto
qed simp

end

text \<open>The objects that no arena owns.\<close>

definition heap_objs :: "'v heap \<Rightarrow> nat set" where
  "heap_objs h = {a. \<exists>x. objs h a = Some x \<and> obj_owner x = None}"

lemma heap_objs_world:
  assumes "world (objs h0) H r h U xs C out ys"
  shows "heap_objs h = heap_objs h0 \<union> set out \<union> (if r = None then set U \<union> set C else {})" "a \<in> dom (objs h0) \<Longrightarrow> objs h a = objs h0 a"
proof -
  note w = worldD[OF assms]
  have env: "objs h a = objs h0 a" if "a \<in> dom (objs h0)" for a
    using w(5) that by (auto simp: accounted_def)
  show "a \<in> dom (objs h0) \<Longrightarrow> objs h a = objs h0 a"
    by (rule env)
  have out: "a \<in> heap_objs h" if "a \<in> set out" for a
    using cells_owner[OF w(4) that] by (simp add: heap_objs_def)
  have own: "a \<in> heap_objs h \<longleftrightarrow> r = None" if "a \<in> set U \<union> set C" for a
    using cells_owner[OF w(2), of a] cells_owner[OF w(3), of a] that by (auto simp: heap_objs_def)
  have old: "a \<in> heap_objs h \<longleftrightarrow> a \<in> heap_objs h0" if "a \<in> dom (objs h0)" for a
    using env[OF that] by (simp add: heap_objs_def)
  have sub: "a \<in> dom (objs h0) \<union> set U \<union> set C \<union> set out" if "a \<in> heap_objs h" for a
    using w(5) that by (auto simp: accounted_def heap_objs_def)
  have dis: "a \<notin> set U \<union> set C \<union> set out" if "a \<in> dom (objs h0)" for a
    using w(5) that unfolding accounted_def by simp
  show "heap_objs h = heap_objs h0 \<union> set out \<union> (if r = None then set U \<union> set C else {})"
  proof (rule set_eqI)
    fix a
    show "a \<in> heap_objs h \<longleftrightarrow> a \<in> heap_objs h0 \<union> set out \<union> (if r = None then set U \<union> set C else {})"
    proof (cases "a \<in> dom (objs h0)")
      case True
      then show ?thesis
        using old[OF True] dis[OF True] by auto
    next
      case False
      then have "a \<notin> heap_objs h0"
        by (auto simp: heap_objs_def)
      then show ?thesis
        using False out[of a] own[of a] sub[of a] by auto
    qed
  qed
qed

lemma stands_for_new:
  assumes "\<forall>a \<in> dom (objs h). a < next_obj h"
  shows "stands_for (objs h) H r (new_RepeatedPtrField r, h, []) ([], [])"
  using assms rep_ok.no_element[of r]
  by (auto simp: stands_for_def world_def accounted_def new_RepeatedPtrField_def kSSOCapacity_def intro!: exI[of _ "[]"])

text \<open>
  C15: A repeated field of strings or messages owns its elements. Starting from an empty field, on the heap or on an
  arena, any sequence of operations that is allowed on a list has defined behaviour: no released object is used or released again. The
  values of the elements are those of the list, the objects handed to the caller have the values taken out of
  it and belong to the caller alone, and no other object changes. Once the field is destroyed, exactly the
  objects that were there before and those handed out are left: nothing is lost.
\<close>

theorem ptr_field_owns_elements:
  assumes "type_handler H" "ptr_documented H L" "\<forall>a \<in> dom (objs h). a < next_obj h"
    and "list_all (pf_op_ok (objs h) H) ops" "list_pfs (objs h) ops ([], []) = Some (xs, ys)"
  shows "\<exists>f' h' out. exec_pfs H L ops (new_RepeatedPtrField r, h, []) = Some (f', h', out) \<and>
    rep_ok f' (used f') (cleared f') \<and> cells h' r (used f') xs \<and> cells h' None out ys \<and> distinct (used f' @ cleared f' @ out) \<and>
    (\<forall>a \<in> dom (objs h). a \<notin> set (used f' @ cleared f' @ out) \<and> objs h' a = objs h a) \<and>
    (\<exists>h''. RP_Destroy f' h' = Some h'' \<and> heap_objs h'' = heap_objs h \<union> set out)"
proof -
  obtain s where "exec_pfs H L ops (new_RepeatedPtrField r, h, []) = Some s" "stands_for (objs h) H r s (xs, ys)"
    using type_handler.exec_pfs_ok[OF assms(1,2) stands_for_new[OF assms(3)] assms(4,5)] by blast
  then obtain f' h' out U C where s: "exec_pfs H L ops (new_RepeatedPtrField r, h, []) = Some (f', h', out)"
      "rep_ok f' U C" "pf_arena f' = r" "world (objs h) H r h' U xs C out ys"
    by (cases s) (auto simp: stands_for_def)
  note w = worldD[OF s(4)] and used = used_rep_ok[OF s(2)]
  have "\<exists>h''. RP_Destroy f' h' = Some h'' \<and> heap_objs h'' = heap_objs h \<union> set out"
  proof (cases r)
    case None
    obtain h'' where "RP_Destroy f' h' = Some h''" "world (objs h) H None h'' [] [] [] out ys"
      using Destroy_ok[OF s(2), of "objs h" H h' xs out ys] s(3,4) None by metis
    then show ?thesis
      using heap_objs_world(1)[of h H None h'' "[]" "[]" "[]" out ys] by auto
  next
    case (Some q)
    then show ?thesis
      using heap_objs_world(1)[OF s(4)] s(3) by (simp add: RP_Destroy_def)
  qed
  then show ?thesis
    using s(1,2) w(1,2,4,5) used by (auto simp: accounted_def)
qed

subsection \<open>Examples\<close>

text \<open>Strings are elements as documented, and there is a library as documented: it always allocates an array.\<close>

interpretation string_handler: type_handler "StringTypeHandler n sp" for n sp
  by unfold_locales (simp_all add: StringTypeHandler_def)

definition built :: "nat option \<Rightarrow> nat list \<Rightarrow> nat list \<Rightarrow> nat \<Rightarrow> ptr_field" where
  "built r U C cap =
     \<lparr>tagged_rep_or_elem = Rep (int (length U + length C)) (map Some U @ map Some C @ replicate (cap - length U - length C) None),
      pf_current_size = int (length U), pf_total_size = int (max cap (length U + length C)), pf_arena = r\<rparr>"

definition array_lib :: "'v handler \<Rightarrow> 'v ptr_lib" where
  "array_lib H =
     \<lparr>InternalExtend = (\<lambda>n f. built (pf_arena f) (used f) (cleared f) (nat (pf_total_size f + n))),
      RP_Reserve = (\<lambda>n f. if n \<le> pf_total_size f then f else built (pf_arena f) (used f) (cleared f) (nat n)),
      CloseGap = (\<lambda>i n f. built (pf_arena f) (take (nat i) (used f) @ drop (nat (i + n)) (used f)) (cleared f) (nat (pf_total_size f))),
      AddOutOfLineHelper = (\<lambda>a f. built (pf_arena f) (used f @ [a]) (cleared f) (nat (pf_total_size f))),
      AddOutOfLineHelper_factory = (\<lambda>factory f h.
        let (a, h) = (case cleared f of [] \<Rightarrow> factory (pf_arena f) h | c # _ \<Rightarrow> (c, h))
        in (a, built (pf_arena f) (used f @ [a]) (tl (cleared f)) (nat (pf_total_size f)), h)),
      MergeFromConcreteMessage = (\<lambda>_ from f h. do {
        (W, C, h) \<leftarrow> merge_elems H (pf_arena f) (used from) (cleared f) h;
        Some (built (pf_arena f) (used f @ W) C (nat (pf_total_size f)), h)
      })\<rparr>"

lemma rep_ok_built:
  assumes "0 < cap" "int cap \<le> INT_MAX" "int (length U + length C) \<le> INT_MAX"
  shows "rep_ok (built r U C cap) U C" "int cap \<le> pf_total_size (built r U C cap)" "pf_arena (built r U C cap) = r"
proof -
  have m: "max cap (length U + length C) = length U + length C + length (replicate (cap - length U - length C) (None :: nat option))"
    by simp
  show "rep_ok (built r U C cap) U C"
    unfolding built_def m by (rule rep_ok.array) (use assms in \<open>auto simp: max_def\<close>)
qed (simp_all add: built_def)

lemma merge_elems_length:
  "merge_elems H r V C h = Some (W, C', h') \<Longrightarrow> length W = length V \<and> C' = drop (length V) C"
  by (induction H r V C h arbitrary: W C' h' rule: merge_elems.induct) (auto simp: bind_eq_Some_conv)

lemma ptr_documented_array_lib: "ptr_documented H (array_lib H)"
proof -
  have t: "0 < nat (pf_total_size f)" "int (nat (pf_total_size f)) = pf_total_size f" "used f = U" "cleared f = C" if "rep_ok f U C" for f U C
    using used_rep_ok[OF that] rep_ok_total[OF that] by auto
  have "reserve_documented (array_lib H)"
    unfolding reserve_documented_def
  proof (intro allI impI)
    fix f U C n
    assume "rep_ok f U C \<and> n \<le> INT_MAX"
    then have a: "rep_ok f U C" "n \<le> INT_MAX"
      by auto
    then show "rep_ok (RP_Reserve (array_lib H) n f) U C \<and> max n (pf_total_size f) \<le> pf_total_size (RP_Reserve (array_lib H) n f) \<and>
        pf_arena (RP_Reserve (array_lib H) n f) = pf_arena f"
      using rep_ok_built[of "nat n" U C "pf_arena f"] t[OF a(1)] rep_ok_sizes[OF a(1)] by (auto simp: array_lib_def)
  qed
  moreover have "extend_documented (array_lib H)"
    unfolding extend_documented_def
  proof (intro allI impI)
    fix f U C and n :: int
    assume "rep_ok f U C \<and> 0 < n \<and> pf_total_size f + n \<le> INT_MAX"
    then have a: "rep_ok f U C" "0 < n" "pf_total_size f + n \<le> INT_MAX"
      by auto
    then show "rep_ok (InternalExtend (array_lib H) n f) U C \<and> pf_total_size f + n \<le> pf_total_size (InternalExtend (array_lib H) n f) \<and>
        pf_arena (InternalExtend (array_lib H) n f) = pf_arena f"
      using rep_ok_built[of "nat (pf_total_size f + n)" U C "pf_arena f"] t[OF a(1)] rep_ok_sizes[OF a(1)] by (auto simp: array_lib_def)
  qed
  moreover have "close_documented (array_lib H)"
    unfolding close_documented_def
  proof (intro allI impI)
    fix f U V W C
    assume a: "rep_ok f (U @ V @ W) C"
    have "nat (int (length U) + int (length V)) = length U + length V"
      by simp
    then show "rep_ok (CloseGap (array_lib H) (int (length U)) (int (length V)) f) (U @ W) C \<and>
        pf_arena (CloseGap (array_lib H) (int (length U)) (int (length V)) f) = pf_arena f"
      using rep_ok_built[of "nat (pf_total_size f)" "U @ W" C "pf_arena f"] t[OF a] rep_ok_sizes[OF a] by (auto simp: array_lib_def)
  qed
  moreover have "factory_documented (array_lib H)"
    unfolding factory_documented_def
  proof (intro allI impI)
    fix f U C h and factory :: "nat option \<Rightarrow> 'a heap \<Rightarrow> nat \<times> 'a heap"
    assume "rep_ok f U C \<and> int (length U) < INT_MAX"
    then have a: "rep_ok f U C" "int (length U) < INT_MAX"
      by auto
    have "int (length (U @ [b]) + length (tl C)) \<le> INT_MAX" for b
      using a(2) rep_ok_sizes(3,4)[OF a(1)] by (cases C) auto
    then show "case (case C of [] \<Rightarrow> factory (pf_arena f) h | c # _ \<Rightarrow> (c, h)) of (a, h') \<Rightarrow>
       \<exists>f'. AddOutOfLineHelper_factory (array_lib H) factory f h = (a, f', h') \<and> rep_ok f' (U @ [a]) (tl C) \<and> pf_arena f' = pf_arena f"
      using rep_ok_built[of "nat (pf_total_size f)" "U @ [_]" "tl C" "pf_arena f"] t[OF a(1)] rep_ok_sizes(4)[OF a(1)]
      by (auto simp: array_lib_def split: prod.splits)
  qed
  moreover have "merge_documented H (array_lib H)"
    unfolding merge_documented_def
  proof (intro allI impI)
    fix "from" V D f U C h W C' h'
    assume "rep_ok from V D \<and> rep_ok f U C \<and> int (length U + length V) \<le> INT_MAX \<and> merge_elems H (pf_arena f) V C h = Some (W, C', h')"
    then have a: "rep_ok from V D" "rep_ok f U C" "int (length U + length V) \<le> INT_MAX" and m: "merge_elems H (pf_arena f) V C h = Some (W, C', h')"
      by auto
    have "int (length (U @ W) + length C') \<le> INT_MAX"
      using merge_elems_length[OF m] a(3) rep_ok_sizes(3,4)[OF a(2)] by auto
    then show "\<exists>f'. MergeFromConcreteMessage (array_lib H) (CopyMessage H) from f h = Some (f', h') \<and> rep_ok f' (U @ W) C' \<and> pf_arena f' = pf_arena f"
      using rep_ok_built[of "nat (pf_total_size f)" "U @ W" C' "pf_arena f"] t[OF a(1)] t[OF a(2)] rep_ok_sizes(4)[OF a(2)] m
      by (auto simp: array_lib_def)
  qed
  ultimately show ?thesis
    by (simp add: ptr_documented_def)
qed

definition sample_ops :: "string pf_op list" where
  "sample_ops = [PAdd ''a'', PAddMove ''b'', PRemoveLast, PAddAllocated None ''c'', PAdd ''d'', PReleaseLast, PClear, PAddRange True [''e'', ''f'', ''g''],
     PDeleteSubrange 0 1, PExtractSubrange 1 1]"

theorem ptr_field_owns_elements_witness:
  "\<exists>f' h' out. exec_pfs (StringTypeHandler 32 length) (array_lib (StringTypeHandler 32 length)) sample_ops
      (new_RepeatedPtrField None, \<lparr>objs = Map.empty, next_obj = 0\<rparr>, []) = Some (f', h', out) \<and>
    cells h' None (used f') [''f''] \<and> cells h' None out [''d'', ''g''] \<and>
    (\<exists>h''. RP_Destroy f' h' = Some h'' \<and> heap_objs h'' = set out)"
proof -
  let ?H = "StringTypeHandler 32 length" and ?h = "\<lparr>objs = Map.empty, next_obj = 0\<rparr> :: string heap"
  have ops: "list_all (pf_op_ok (objs ?h) ?H) sample_ops" "list_pfs (objs ?h) sample_ops ([], []) = Some ([''f''], [''d'', ''g''])"
    by (simp_all add: sample_ops_def StringTypeHandler_def INT_MAX_def)
  have fr: "\<forall>a \<in> dom (objs ?h). a < next_obj ?h" and e: "heap_objs ?h = {}"
    by (simp_all add: heap_objs_def)
  from ptr_field_owns_elements[OF string_handler.type_handler_axioms ptr_documented_array_lib fr ops, of None] show ?thesis
    unfolding e by auto
qed

end
