(* ===== verification/Ptr_Swap.thy ===== *)
theory Ptr_Swap
  imports Ptr_Ownership
begin

text \<open>
  Two \<open>RepeatedPtrField\<close>s on the same or on different arenas: what \<open>Swap\<close>, the move constructor and the move assignment of
  \<open>repeated_ptr_field.h\<close> do to the elements of both. Each step works on one of the fields, with the elements of the others
  as a part of the environment that \<open>Ptr_Ownership\<close> shows untouched.
\<close>

subsection \<open>Fields side by side\<close>

text \<open>The field \<open>f\<close> has the elements \<open>U\<close> with the values \<open>xs\<close> and the cleared elements \<open>C\<close>, all its own.\<close>

definition owns :: "'v handler \<Rightarrow> 'v heap \<Rightarrow> ptr_field \<Rightarrow> nat list \<Rightarrow> 'v list \<Rightarrow> nat list \<Rightarrow> bool" where
  "owns H h f U xs C \<longleftrightarrow> rep_ok f U C \<and> distinct (U @ C) \<and> cells h (pf_arena f) U xs \<and> cells h (pf_arena f) C (replicate (length C) (h_new H))"

text \<open>The environment with the objects at \<open>A\<close> added to it.\<close>

definition env_with :: "(nat \<rightharpoonup> 'v obj) \<Rightarrow> 'v heap \<Rightarrow> nat set \<Rightarrow> nat \<rightharpoonup> 'v obj" where
  "env_with e h A a = (if a \<in> A then objs h a else e a)"

lemma owns_live: "owns H h f U xs C \<Longrightarrow> set (U @ C) \<subseteq> dom (objs h)"
  by (auto simp: owns_def dest: cells_owner)

lemma owns_frame:
  assumes "owns H h f U xs C" "\<And>a. a \<in> set (U @ C) \<Longrightarrow> objs h' a = objs h a"
  shows "owns H h' f U xs C"
  using assms by (auto simp: owns_def cells_frame[of U h' h] cells_frame[of C h' h])

lemma owns_new: "owns H h (new_RepeatedPtrField r) [] [] []" "pf_arena (new_RepeatedPtrField r) = r"
  using rep_ok.no_element[of r] by (simp_all add: owns_def new_RepeatedPtrField_def kSSOCapacity_def)

text \<open>A field among others, and back.\<close>

lemma focus:
  assumes "owns H h f U xs C" "accounted e h (set (U @ C) \<union> A)" "set (U @ C) \<inter> A = {}" "A \<subseteq> dom (objs h)"
  shows "world (env_with e h A) H (pf_arena f) h U xs C [] []"
proof -
  have "accounted (env_with e h A) h (set (U @ C))"
    using assms(2-4) by (auto simp: accounted_def env_with_def domIff split: if_splits)
  then show ?thesis
    using assms(1) by (simp add: world_def owns_def)
qed

lemma unfocus:
  assumes "world (env_with e h A) H (pf_arena f) h' U xs C [] []" "rep_ok f U C" "A \<inter> dom e = {}" "A \<subseteq> dom (objs h)"
  shows "owns H h' f U xs C" "accounted e h' (set (U @ C) \<union> A)" "set (U @ C) \<inter> A = {}" "\<And>a. a \<in> A \<Longrightarrow> objs h' a = objs h a"
proof -
  note w = worldD[OF assms(1)]
  show "owns H h' f U xs C"
    using w(1-3) assms(2) by (simp add: owns_def)
  have dom: "dom (env_with e h A) = dom e \<union> A"
    using assms(4) by (auto simp: env_with_def split: if_splits)
  have env: "a \<notin> set (U @ C)" "objs h' a = env_with e h A a" if "a \<in> dom e \<union> A" for a
    using w(5) that unfolding accounted_def dom by simp_all
  show "set (U @ C) \<inter> A = {}" "\<And>a. a \<in> A \<Longrightarrow> objs h' a = objs h a"
    using env by (blast, simp add: env_with_def)
  have "a \<notin> set (U @ C) \<union> A \<and> objs h' a = e a" if "a \<in> dom e" for a
    using env[of a] that assms(3) by (auto simp: env_with_def)
  moreover have "a \<in> dom e \<union> (set (U @ C) \<union> A)" if "objs h' a = Some x" "obj_owner x = None" for a x
    using w(5) that unfolding accounted_def dom by auto
  ultimately show "accounted e h' (set (U @ C) \<union> A)"
    using w(5) unfolding accounted_def by blast
qed

lemma env_values:
  assumes "cells h r U xs" "set U \<subseteq> A"
  shows "map (\<lambda>a. obj_value (the (env_with e h A a))) U = xs"
proof (intro nth_equalityI)
  fix i
  assume "i < length (map (\<lambda>a. obj_value (the (env_with e h A a))) U)"
  then have "i < length U" "U ! i \<in> A"
    using assms(2) nth_mem[of i U] by (auto simp del: nth_mem)
  then show "map (\<lambda>a. obj_value (the (env_with e h A a))) U ! i = xs ! i"
    using cells_nth[OF assms(1), of i] by (auto simp: env_with_def)
qed (simp add: cells_length[OF assms(1)])

lemma accounted_env: "accounted e h (S \<union> A) \<Longrightarrow> A \<inter> dom e = {}"
  by (auto simp: accounted_def)

context type_handler
begin

lemma MergeFrom_among:
  assumes "ptr_documented H L" "owns H h f U xs C" "owns H h g V ys D" "accounted e h (set (U @ C) \<union> A)" "set (U @ C) \<inter> A = {}"
    and "set V \<subseteq> A" "A \<subseteq> dom (objs h)" "int (length U + length V) \<le> INT_MAX"
  shows "\<exists>f' h' U' C'. RP_MergeFrom H L g f h = Some (f', h') \<and> pf_arena f' = pf_arena f \<and> owns H h' f' U' (xs @ ys) C' \<and>
    accounted e h' (set (U' @ C') \<union> A) \<and> set (U' @ C') \<inter> A = {} \<and> (\<forall>a \<in> A. objs h' a = objs h a)"
proof -
  have L: "merge_documented H L" and ok: "rep_ok f U C" "rep_ok g V D" "cells h (pf_arena g) V ys"
    using assms(1-3) by (simp_all add: ptr_documented_def owns_def)
  have V: "set V \<subseteq> dom (env_with e h A)"
    using assms(6,7) by (auto simp: env_with_def)
  obtain f' h' U' C' where f': "RP_MergeFrom H L g f h = Some (f', h')" "rep_ok f' U' C'" "pf_arena f' = pf_arena f"
      "world (env_with e h A) H (pf_arena f) h' U' (xs @ ys) C' [] []"
    using MergeFrom_ok[OF L ok(2) V ok(1) focus[OF assms(2,4,5,7)] assms(8)] env_values[OF ok(3) assms(6), of e] by auto
  show ?thesis
    using f'(1,3) unfocus[OF f'(4)[folded f'(3)] f'(2) accounted_env[OF assms(4)] assms(7)] by blast
qed

lemma CopyFrom_among:
  assumes "ptr_documented H L" "owns H h f U xs C" "owns H h g V ys D" "accounted e h (set (U @ C) \<union> A)" "set (U @ C) \<inter> A = {}"
    and "set V \<subseteq> A" "A \<subseteq> dom (objs h)"
  shows "\<exists>f' h' U' C'. RP_CopyFrom H L False g f h = Some (f', h') \<and> pf_arena f' = pf_arena f \<and> owns H h' f' U' ys C' \<and>
    accounted e h' (set (U' @ C') \<union> A) \<and> set (U' @ C') \<inter> A = {} \<and> (\<forall>a \<in> A. objs h' a = objs h a)"
proof -
  have ok: "rep_ok f U C" "rep_ok g V D" "cells h (pf_arena g) V ys"
    using assms(2,3) by (simp_all add: owns_def)
  note g = used_rep_ok[OF ok(2)]
  have V: "set (used g) \<subseteq> dom (env_with e h A)" "rep_ok g (used g) (cleared g)"
    using assms(6,7) g ok(2) by (auto simp: env_with_def)
  obtain f' h' U' C' where f': "RP_CopyFrom H L False g f h = Some (f', h')" "rep_ok f' U' C'" "pf_arena f' = pf_arena f"
      "world (env_with e h A) H (pf_arena f) h' U' ys C' [] []"
    using CopyFrom_ok[OF assms(1) V(2,1) ok(1) focus[OF assms(2,4,5,7)]] env_values[OF ok(3) assms(6), of e] g by (auto simp: values_of_def)
  show ?thesis
    using f'(1,3) unfocus[OF f'(4)[folded f'(3)] f'(2) accounted_env[OF assms(4)] assms(7)] by blast
qed

lemma Destroy_among:
  assumes "owns H h f U xs C" "accounted e h (set (U @ C) \<union> A)" "set (U @ C) \<inter> A = {}" "A \<subseteq> dom (objs h)"
  shows "\<exists>h'. RP_Destroy f h = Some h' \<and> accounted e h' A \<and> (\<forall>a \<in> A. objs h' a = objs h a)"
proof (cases "pf_arena f")
  case None
  have ok: "rep_ok f U C"
    using assms(1) by (simp add: owns_def)
  obtain h' where h': "RP_Destroy f h = Some h'" "world (env_with e h A) H None h' [] [] [] [] []"
    by (rule Destroy_ok[OF ok focus[OF assms] None])
  have "rep_ok (new_RepeatedPtrField None) [] []" "world (env_with e h A) H (pf_arena (new_RepeatedPtrField None)) h' [] [] [] [] []"
    using owns_new(1)[where h = h' and r = None] owns_new(2)[of None] h'(2) by (simp_all add: owns_def)
  from unfocus[OF this(2,1) accounted_env[OF assms(2)] assms(4)] show ?thesis
    using h'(1) by auto
next
  case (Some q)
  have "\<exists>x. objs h a = Some x \<and> obj_owner x = Some q" if "a \<in> set (U @ C)" for a
    using assms(1) that Some cells_owner[of h "Some q"] by (auto simp: owns_def)
  then have "accounted e h A"
    using assms(2) unfolding accounted_def by (metis UnCI UnE option.distinct(1) option.inject)
  then show ?thesis
    using Some by (simp add: RP_Destroy_def)
qed

end

subsection \<open>Swap and move\<close>

text \<open>Two fields that share no element, with nothing else on the heap but the environment.\<close>

definition side_by_side :: "(nat \<rightharpoonup> 'v obj) \<Rightarrow> 'v handler \<Rightarrow> 'v heap \<Rightarrow> ptr_field \<Rightarrow> 'v list \<Rightarrow> ptr_field \<Rightarrow> 'v list \<Rightarrow> bool" where
  "side_by_side e H h f xs g ys \<longleftrightarrow> (\<exists>U C V D. owns H h f U xs C \<and> owns H h g V ys D \<and> set (U @ C) \<inter> set (V @ D) = {} \<and>
     accounted e h (set (U @ C) \<union> set (V @ D)))"

lemma side_by_side_commute: "side_by_side e H h f xs g ys \<longleftrightarrow> side_by_side e H h g ys f xs"
  unfolding side_by_side_def by (metis Int_commute Un_commute)

lemma InternalSwap_same:
  assumes "side_by_side e H h f xs g ys" "pf_arena f = pf_arena g" "RP_InternalSwap (f, g) = (f', g')"
  shows "side_by_side e H h f' ys g' xs" "pf_arena f' = pf_arena f" "pf_arena g' = pf_arena g"
proof -
  have "f' = g" "g' = f"
    using assms(2,3) by (auto simp: RP_InternalSwap_def)
  then show "side_by_side e H h f' ys g' xs" "pf_arena f' = pf_arena f" "pf_arena g' = pf_arena g"
    using assms(1,2) by (simp_all add: side_by_side_commute)
qed

context type_handler
begin

lemma temp_copy:
  assumes "ptr_documented H L" "owns H h f U xs C" "accounted e h A" "set U \<subseteq> A" "A \<subseteq> dom (objs h)"
  shows "\<exists>t h' T E. (if \<not> RP_empty f then RP_MergeFrom H L f (new_RepeatedPtrField r) h else Some (new_RepeatedPtrField r, h)) = Some (t, h') \<and>
    pf_arena t = r \<and> owns H h' t T xs E \<and> accounted e h' (set (T @ E) \<union> A) \<and> set (T @ E) \<inter> A = {} \<and> (\<forall>a \<in> A. objs h' a = objs h a)"
proof -
  have ok: "rep_ok f U C" "length U = length xs"
    using assms(2) by (auto simp: owns_def dest: cells_length)
  note s = rep_ok_sizes[OF ok(1)]
  have e: "RP_empty f \<longleftrightarrow> U = []"
    using s(1) by (simp add: RP_empty_def)
  show ?thesis
  proof (cases "U = []")
    case True
    then show ?thesis
      using owns_new(1)[where h = h and r = r] owns_new(2)[of r] ok(2) assms(3) e by (intro exI[of _ "new_RepeatedPtrField r"] exI[of _ h] exI[of _ "[]"]) simp
  next
    case False
    have "int (length ([] :: nat list) + length U) \<le> INT_MAX"
      using s(3,4) by simp
    then show ?thesis
      using MergeFrom_among[OF assms(1) owns_new(1)[where h = h and r = r] assms(2) _ _ assms(4,5)] assms(3) owns_new(2)[of r] e False by simp
  qed
qed

text \<open>The first field takes a copy of the second one, which is then released; a third field is not touched.\<close>

lemma copy_and_release:
  assumes "ptr_documented H L" "owns H h f U xs C" "owns H h g V ys D" "owns H h t T zs E"
    and "set (U @ C) \<inter> set (V @ D) = {}" "set (T @ E) \<inter> (set (U @ C) \<union> set (V @ D)) = {}"
    and "accounted e h (set (T @ E) \<union> (set (U @ C) \<union> set (V @ D)))"
  shows "\<exists>f' h1 h2. RP_CopyFrom H L False g f h = Some (f', h1) \<and> pf_arena f' = pf_arena f \<and> RP_Destroy g h1 = Some h2 \<and>
    side_by_side e H h2 f' ys t zs"
proof -
  let ?A = "set (T @ E) \<union> set (V @ D)"
  have live: "?A \<subseteq> dom (objs h)" "set V \<subseteq> ?A"
    using owns_live[OF assms(4)] owns_live[OF assms(3)] by auto
  have acc: "accounted e h (set (U @ C) \<union> ?A)" "set (U @ C) \<inter> ?A = {}"
    using assms(5-7) by (simp only: Un_ac, blast)
  obtain f' h1 U' C' where 1: "RP_CopyFrom H L False g f h = Some (f', h1)" "pf_arena f' = pf_arena f" "owns H h1 f' U' ys C'"
      "accounted e h1 (set (U' @ C') \<union> ?A)" "set (U' @ C') \<inter> ?A = {}" "\<forall>a \<in> ?A. objs h1 a = objs h a"
    using CopyFrom_among[OF assms(1-3) acc live(2,1)] by blast
  have tg: "owns H h1 t T zs E" "owns H h1 g V ys D"
    using owns_frame[OF assms(4), of h1] owns_frame[OF assms(3), of h1] 1(6) by blast+
  let ?B = "set (U' @ C') \<union> set (T @ E)"
  have live1: "?B \<subseteq> dom (objs h1)"
    using owns_live[OF 1(3)] owns_live[OF tg(1)] by blast
  have acc1: "accounted e h1 (set (V @ D) \<union> ?B)" "set (V @ D) \<inter> ?B = {}"
    using 1(4,5) assms(6) by (simp only: Un_ac, blast)
  obtain h2 where 2: "RP_Destroy g h1 = Some h2" "accounted e h2 ?B" "\<forall>a \<in> ?B. objs h2 a = objs h1 a"
    using Destroy_among[OF tg(2) acc1 live1] by auto
  have "owns H h2 f' U' ys C'" "owns H h2 t T zs E"
    using owns_frame[OF 1(3), of h2] owns_frame[OF tg(1), of h2] 2(3) by blast+
  then have "side_by_side e H h2 f' ys t zs"
    using 2(2) 1(5) unfolding side_by_side_def by blast
  then show ?thesis
    using 1(1,2) 2(1) by blast
qed

lemma Swap_ok:
  assumes "ptr_documented H L" "side_by_side e H h f xs g ys"
  shows "\<exists>f' g' h'. RP_Swap H L (f, g) h = Some ((f', g'), h') \<and> side_by_side e H h' f' ys g' xs \<and> pf_arena f' = pf_arena f \<and> pf_arena g' = pf_arena g"
proof (cases "pf_arena f = pf_arena g")
  case True
  obtain f' g' where fg: "RP_InternalSwap (f, g) = (f', g')"
    by fastforce
  then have "RP_Swap H L (f, g) h = Some ((f', g'), h)"
    using True by (simp add: RP_Swap_def)
  then show ?thesis
    using InternalSwap_same[OF assms(2) True fg] by blast
next
  case False
  obtain U C V D where f: "owns H h f U xs C" and g: "owns H h g V ys D" and dis: "set (U @ C) \<inter> set (V @ D) = {}"
      and acc: "accounted e h (set (U @ C) \<union> set (V @ D))"
    using assms(2) by (auto simp: side_by_side_def)
  have live: "set (U @ C) \<union> set (V @ D) \<subseteq> dom (objs h)" "set U \<subseteq> set (U @ C) \<union> set (V @ D)"
    using owns_live[OF f] owns_live[OF g] by auto
  obtain t h1 T E where 1: "(if \<not> RP_empty f then RP_MergeFrom H L f (new_RepeatedPtrField (pf_arena g)) h else Some (new_RepeatedPtrField (pf_arena g), h)) = Some (t, h1)"
      "pf_arena t = pf_arena g" "owns H h1 t T xs E" "accounted e h1 (set (T @ E) \<union> (set (U @ C) \<union> set (V @ D)))"
      "set (T @ E) \<inter> (set (U @ C) \<union> set (V @ D)) = {}" "\<forall>a \<in> set (U @ C) \<union> set (V @ D). objs h1 a = objs h a"
    using temp_copy[OF assms(1) f acc live(2,1), of "pf_arena g"] by blast
  have fg: "owns H h1 f U xs C" "owns H h1 g V ys D"
    using owns_frame[OF f, of h1] owns_frame[OF g, of h1] 1(6) by blast+
  obtain f' h2 h3 where 2: "RP_CopyFrom H L False g f h1 = Some (f', h2)" "pf_arena f' = pf_arena f" "RP_Destroy g h2 = Some h3"
      "side_by_side e H h3 f' ys t xs"
    using copy_and_release[OF assms(1) fg 1(3) dis 1(5,4)] by blast
  have "RP_InternalSwap (g, t) = (t, g)"
    using 1(2) by (simp add: RP_InternalSwap_def)
  then have "RP_Swap H L (f, g) h = Some ((f', t), h3)"
    using False 1(1) 2(1,3) by (simp add: RP_Swap_def SwapFallback_def)
  then show ?thesis
    using 2(2,4) 1(2) by blast
qed

lemma move_assign_ok:
  assumes "ptr_documented H L" "side_by_side e H h f xs g ys"
  shows "\<exists>f' g' h' zs. RP_move_assign H L (f, g) h = Some ((f', g'), h') \<and> side_by_side e H h' f' ys g' zs \<and> pf_arena f' = pf_arena f \<and> pf_arena g' = pf_arena g"
proof (cases "pf_arena f = pf_arena g")
  case True
  obtain f' g' where fg: "RP_InternalSwap (f, g) = (f', g')"
    by fastforce
  then have "RP_move_assign H L (f, g) h = Some ((f', g'), h)"
    using True by (simp add: RP_move_assign_def)
  then show ?thesis
    using InternalSwap_same[OF assms(2) True fg] by blast
next
  case False
  obtain U C V D where f: "owns H h f U xs C" and g: "owns H h g V ys D" and dis: "set (U @ C) \<inter> set (V @ D) = {}"
      and acc: "accounted e h (set (U @ C) \<union> set (V @ D))"
    using assms(2) by (auto simp: side_by_side_def)
  obtain f' h' U' C' where 1: "RP_CopyFrom H L False g f h = Some (f', h')" "pf_arena f' = pf_arena f" "owns H h' f' U' ys C'"
      "accounted e h' (set (U' @ C') \<union> set (V @ D))" "set (U' @ C') \<inter> set (V @ D) = {}" "\<forall>a \<in> set (V @ D). objs h' a = objs h a"
    using CopyFrom_among[OF assms(1) f g acc dis _ owns_live[OF g]] by auto
  have "owns H h' g V ys D"
    using owns_frame[OF g, of h'] 1(6) by blast
  then have "side_by_side e H h' f' ys g ys"
    using 1(3-5) unfolding side_by_side_def by blast
  then show ?thesis
    using False 1(1,2) by (auto simp: RP_move_assign_def)
qed

end

text \<open>
  C16: Two repeated fields of strings or messages exchange their values, also when they are on different arenas or one is on
  the heap: each stays on its arena, owns its elements alone, and every object of the heap still belongs to one of
  them or to whom it belonged before; the elements that were replaced are released. A move assignment gives the
  target the values of the source, and the move constructor is a move assignment to an empty field.
\<close>

theorem swap_keeps_ownership:
  assumes "type_handler H" "ptr_documented H L" "side_by_side e H h f xs g ys"
  shows "(\<exists>f' g' h'. RP_Swap H L (f, g) h = Some ((f', g'), h') \<and> side_by_side e H h' f' ys g' xs \<and>
      pf_arena f' = pf_arena f \<and> pf_arena g' = pf_arena g) \<and>
    (\<exists>f' g' h' zs. RP_move_assign H L (f, g) h = Some ((f', g'), h') \<and> side_by_side e H h' f' ys g' zs \<and>
      pf_arena f' = pf_arena f \<and> pf_arena g' = pf_arena g) \<and>
    new_RepeatedPtrField_move H L g h = RP_move_assign H L (new_RepeatedPtrField None, g) h"
proof -
  have "new_RepeatedPtrField_move H L g h = RP_move_assign H L (new_RepeatedPtrField None, g) h"
    using owns_new(2)[of None] by (cases "pf_arena g") (simp_all add: new_RepeatedPtrField_move_def RP_move_assign_def)
  then show ?thesis
    using type_handler.Swap_ok[OF assms] type_handler.move_assign_ok[OF assms] by blast
qed

text \<open>A field on the heap and one on an arena.\<close>

definition one_element :: "nat \<Rightarrow> nat option \<Rightarrow> ptr_field" where
  "one_element a r = \<lparr>tagged_rep_or_elem = Elem (Some a), pf_current_size = 1, pf_total_size = 1, pf_arena = r\<rparr>"

definition two_strings :: "string heap" where
  "two_strings = \<lparr>objs = [0 \<mapsto> \<lparr>obj_value = ''a'', obj_arena = None, obj_owner = None\<rparr>, 1 \<mapsto> \<lparr>obj_value = ''b'', obj_arena = Some 5, obj_owner = Some 5\<rparr>],
     next_obj = 2\<rparr>"

lemma two_strings: "side_by_side Map.empty (StringTypeHandler 32 length) two_strings (one_element 0 None) [''a''] (one_element 1 (Some 5)) [''b'']"
proof -
  have "owns (StringTypeHandler 32 length) two_strings (one_element 0 None) [0] [''a''] []"
    "owns (StringTypeHandler 32 length) two_strings (one_element 1 (Some 5)) [1] [''b''] []"
    by (simp_all add: owns_def one_element_def two_strings_def rep_ok.one_used)
  moreover have "accounted Map.empty two_strings (set ([0] @ []) \<union> set ([1] @ []))"
    by (auto simp: accounted_def two_strings_def split: if_splits)
  ultimately show ?thesis
    unfolding side_by_side_def by fastforce
qed

theorem swap_keeps_ownership_witness:
  "\<exists>f' g' h'. RP_Swap (StringTypeHandler 32 length) (array_lib (StringTypeHandler 32 length)) (one_element 0 None, one_element 1 (Some 5)) two_strings = Some ((f', g'), h') \<and>
     side_by_side Map.empty (StringTypeHandler 32 length) h' f' [''b''] g' [''a''] \<and> pf_arena f' = None \<and> pf_arena g' = Some 5"
  using swap_keeps_ownership[OF string_handler.type_handler_axioms ptr_documented_array_lib two_strings]
  by (simp add: one_element_def)

end
