(* ===== verification/Spec2Isabelle.thy ===== *)
theory Spec2Isabelle
  imports Globals Node Server Client Udp_Daemon Console_Main Daemon_Main
    Varint_Shuffle Message_Wire Ptr_Swap
begin

text \<open>
  FreeDistributedBuild spreads the build steps of a project over the idle cores of a network. A
  master (\<open>src/console\<close>) reads a task table, announces itself by UDP and serves tasks by TCP;
  daemons (\<open>src/daemon\<close>) answer the announcement, run the tasks as child processes and send the
  results back. Both speak protobuf messages (\<open>src/protocol\<close>), whose headers are part of the
  repository under \<open>src/protocol/include\<close>.

  \<^bold>\<open>Parts and theories.\<close> Each theory models the files it names at its head.
  \<^item> \<open>Prelude\<close>: integer types as words, memory images of numbers, shared lemmas. \<open>External\<close>: records of
    the functions of the submodules \<open>smallUtils\<close> and \<open>tinyxml2\<close> and of the Windows API that the
    sources call. \<open>Samples\<close>: concrete values of them for the witnesses.
  \<^item> \<open>Globals\<close> (\<open>common/global_constants.h\<close>), \<open>Messages\<close> (\<open>master.proto\<close>, \<open>slave.proto\<close>), \<open>Node\<close>
    (\<open>tcp_protobufnode\<close>): constants, messages with their required fields, sending.
  \<^item> \<open>Console_Tasks\<close> (\<open>console.h\<close>, \<open>loadConfig\<close>, \<open>taskGenerator\<close>), \<open>Server\<close> (\<open>TcpProtobufServer\<close>),
    \<open>Console_Main\<close> (\<open>sendBroadcast\<close>, \<open>main\<close>): the master. The task table is shared by the network
    thread and the main loop; their turns are the steps of \<open>net_step\<close> and \<open>console_step\<close>.
  \<^item> \<open>Float32\<close>, \<open>Project\<close> (\<open>common/project\<close>): the settings of a daemon and the number of cores it
    lends, in IEEE single precision.
  \<^item> \<open>Client\<close> (\<open>TcpProtobufClient\<close>), \<open>Udp_Daemon\<close> (\<open>UdpDaemonServer\<close>,
    \<open>whoishere.h\<close>), \<open>Daemon_Main\<close> (\<open>window.cpp\<close>, \<open>daemon.cpp\<close>): the daemon. \<open>Process_App\<close> (\<open>Process.h\<close>,
    \<open>Process.cpp\<close>): a class for child processes beside it, which the build of the daemon leaves out in favour
    of the class of the same name in the submodule; that class is a parameter (record \<open>proc_api\<close>).
  \<^item> \<open>Bits\<close> (\<open>absl/numeric/bits.h\<close>, \<open>absl/numeric/internal/bits.h\<close>), \<open>Varint\<close>, \<open>Varint_Read\<close>, \<open>Varint_Shuffle\<close> (\<open>coded_stream.h\<close>,
    \<open>parse_context.h\<close>, \<open>varint_shuffle.h\<close>), \<open>Wire_Format\<close> and \<open>Wire_Read\<close> (\<open>wire_format_lite.h\<close>),
    \<open>Coded_Input\<close> and \<open>Coded_Output\<close> (\<open>coded_stream.h\<close> and the stream writers of \<open>wire_format_lite.h\<close>),
    \<open>Eps_Input\<close> and \<open>Parse_Context\<close> (\<open>parse_context.h\<close>: the input in chunks and the parse loop),
    \<open>Repeated_Field\<close> (\<open>repeated_field.h\<close>), \<open>Repeated_Ptr_Field\<close>, \<open>Ptr_Ownership\<close> and \<open>Ptr_Swap\<close> (\<open>repeated_ptr_field.h\<close>): the
    inline code by which the messages become bytes and bytes become messages.
  \<^item> \<open>Message_Wire\<close>: the messages of \<open>master.proto\<close> and \<open>slave.proto\<close> written with that code, in the layout the two
    files prescribe, and read with the parse loop (\<open>wire_codec\<close>).

  \<^bold>\<open>Correspondence.\<close> A class is a record with its data members, a method a function on it that
  returns the changed object; names are those of the sources, with a prefix where two classes share
  one. Integers are words of their width, or integers where the code keeps them in range and a
  lemma says so. Pointers into an array are offsets or the list of the bytes from there on.
  Exceptions, aborts and undefined behaviour are values: \<open>None\<close> or a constructor of an error type.

  \<^bold>\<open>What is shown.\<close> For the master: any order of server events acts on the tasks like a pool in
  which a task is pending, assigned or done (\<open>server_refines_pool\<close>, locale \<open>task_pool\<close>); results are
  final and counted once; a return value 0 means that every task has a result. For the daemon: its
  loops visit every task once although they erase from the vector they run over; a queue of task packets
  becomes a queue of started processes; the cores it announces are one too few; it serves one master at a time,
  returns to idle, and reads beyond a datagram exactly in the cases \<open>onRecv_undefined_iff\<close> names. A process
  object releases the handles of the last process it started. For both together: an announcement is
  accepted, a task arrives and is started, a result arrives and is stored, and over the wire
  format a task makes the whole round (below). For the
  settings: the number of cores is the rounded percentage, the rounding of floats never shows.
  For the wire format: every optimised reader is the reference reader; sizes count what the writers
  write; scalar and packed fields are read back (locales \<open>wire_scalar\<close>, \<open>wire_readable\<close>, \<open>wire_fixed\<close>,
  interpreted for each field type); any sequence of writes to a stream stays within its buffers and
  gives the bytes of the array writers (locale \<open>wire_streamed\<close>); a repeated field is a list; the
  parse loop delivers the fields as they were written, also within nested messages and groups, and it
  does not matter where the chunks of the input end; a repeated field of strings or messages is a list that
  owns its elements, also when two of them are exchanged (locale \<open>type_handler\<close>). For the messages: a packet of either direction is read as it was
  written, whatever the chunks (locale \<open>message_layout\<close>, interpreted for each message), so the wire format
  has what master and daemon use of their messages.

  \<^bold>\<open>Termination.\<close> Loops over queues and vectors are functions with a measure. The
  reading loops whose progress depends on compiled code (\<open>packed_loop\<close>, \<open>item_loop\<close>; \<open>append_size_loop\<close>,
  \<open>append_end_loop\<close>, \<open>packed_fixed_loop\<close>, \<open>ReadPackedVarintArray\<close>, \<open>packed_varint_loop\<close>, \<open>WireFormatParser\<close>) are
  partial functions, and the theorems about them state that they return. No fuel is used.

  \<^bold>\<open>Parameters.\<close> Code that is not in the repository is an argument: the submodules, Windows, the
  message classes \<open>protoc\<close> generates (record \<open>codec\<close>, with \<open>wire_codec\<close> as an instance), and the functions the protobuf headers only
  declare (records \<open>input_lib\<close>, \<open>eps_lib\<close>, \<open>eps_in_lib\<close> and \<open>ptr_lib\<close>, with their documented behaviour as
  \<open>documented\<close>, on flat arrays, \<open>eps_documented\<close>, \<open>in_documented\<close>, \<open>strings_documented\<close> and \<open>ptr_documented\<close>). The
  parser of a message that a template takes is a record of its functions (\<open>field_parser\<close>), an element class
  its default value and operations (\<open>handler\<close>).

  \<^bold>\<open>Not modelled.\<close> Terminal output and logs; drawing and menus beyond their messages; threads below the
  level of handler calls; the release of memory other than the elements of a repeated field; the parts of protobuf and absl that do not read,
  write or store message data; build files and resources.
\<close>

section \<open>The way of a task\<close>

text \<open>
  Master and daemon compile the same generated message classes. Of a packet on its way it is used
  that its serialisation is not empty, fits the size type and is parsed to the packet again.
\<close>

definition transports :: "('p \<Rightarrow> bytes) \<Rightarrow> (bytes \<Rightarrow> 'p) \<Rightarrow> 'p \<Rightarrow> bool" where
  "transports enc dec p \<longleftrightarrow> dec (enc p) = p \<and> 0 < length (enc p) \<and> length (enc p) < 2 ^ 64"

lemma offer_sends:
  assumes "server_inv s" "0 < sint (m_freeCores (nodes s n))"
    and "m_tasks s = xs @ t # ys" "\<forall>x \<in> set xs. \<not> free_task x" "free_task t"
    and "transports (enc_master (se_codec env)) dec \<lparr>mp_task = Some (task_packet (se_fs env) (files s) t), mp_system = None\<rparr>"
  shows "sendTasksToSlave env n s = (True, s\<lparr>m_tasks := xs @ t\<lparr>m_node := Some n\<rparr> # ys,
      nodes := (nodes s)(n := sent_node env (files s) (nodes s n) t)\<rparr>)"
    and "sentPackets (sent_node env (files s) (nodes s n) t) = sentPackets (nodes s n) @
      [enc_master (se_codec env) \<lparr>mp_task = Some (task_packet (se_fs env) (files s) t), mp_system = None\<rparr>]"
    and "Task_IsInitialized (task_packet (se_fs env) (files s) t)"
proof -
  let ?p = "\<lparr>mp_task = Some (task_packet (se_fs env) (files s) t), mp_system = None\<rparr>"
  show init: "Task_IsInitialized (task_packet (se_fs env) (files s) t)"
    using assms(1,3) by (intro message_ready_init) (simp add: server_inv_def)
  then show "sendTasksToSlave env n s = (True, s\<lparr>m_tasks := xs @ t\<lparr>m_node := Some n\<rparr> # ys,
      nodes := (nodes s)(n := sent_node env (files s) (nodes s n) t)\<rparr>)"
    using assms(2) send_loop_first[OF assms(4,5), of env n "files s" "nodes s n" ys] by (simp add: sendTasksToSlave_def assms(3))
  show "sentPackets (sent_node env (files s) (nodes s n) t) = sentPackets (nodes s n) @ [enc_master (se_codec env) ?p]"
    using size_t_nonzero[of "length (enc_master (se_codec env) ?p)"] init assms(6)
    by (simp add: transports_def sent_node_def Let_def send_appends master_message_def ml_ByteSizeLong_def Master_IsInitialized_def)
qed

text \<open>An offered task arrives.\<close>

lemma task_arrives:
  assumes "server_inv s" "0 < sint (m_freeCores (nodes s n))"
    and "m_tasks s = xs @ t # ys" "\<forall>x \<in> set xs. \<not> free_task x" "free_task t"
    and "transports (enc_master (se_codec env)) (dec_master (ce_codec cenv))
      \<lparr>mp_task = Some (task_packet (se_fs env) (files s) t), mp_system = None\<rparr>"
    and "recvPackets (cl_node c) = drop (length (sentPackets (nodes s n))) (sentPackets (nodes (snd (sendTasksToSlave env n s)) n))"
    and "getProject (ce_projects cenv) (get_or [] (tk_project (m_message t))) = Some prj"
    and "fs_save (ce_fs cenv) (cl_world c)
      (String_replace (ce_su cenv) (get_or [] (tk_sourceFile (m_message t))) ''$(pdir)'' (m_workPath prj) True)
      (snd (fs_load (se_fs env) (files s) (SourceFile (m_vars t)))) = (fs_OK (ce_fs cenv), w)"
  shows "m_tasks (snd (sendTasksToSlave env n s)) = xs @ t\<lparr>m_node := Some n\<rparr> # ys \<and>
    fst (client_onRecv cenv c) \<and>
    (\<exists>job. cl_tasks (snd (client_onRecv cenv c)) = cl_tasks c @ [job] \<and> ct_id job = get_or 0 (task_id t) \<and>
      (ct_process job, cl_world (snd (client_onRecv cenv c))) = pa_start (ce_proc cenv) w
        (String_replace (ce_su cenv) (get_or [] (tk_application (m_message t))) ''$(pdir)'' (m_path prj) True)
        (String_replace (ce_su cenv) (get_or [] (tk_commandline (m_message t))) ''$(pdir)'' (m_workPath prj) True)
        (String_replace (ce_su cenv) (get_or [] (tk_workingDir (m_message t))) ''$(pdir)'' (m_path prj) True))"
proof -
  let ?m = "task_packet (se_fs env) (files s) t"
  note sent = offer_sends[OF assms(1-6)]
  have q: "recvPackets (cl_node c) = [enc_master (se_codec env) \<lparr>mp_task = Some ?m, mp_system = None\<rparr>]"
    using assms(7) sent(1,2) by simp
  obtain p w' where start: "pa_start (ce_proc cenv) w
        (String_replace (ce_su cenv) (get_or [] (tk_application ?m)) ''$(pdir)'' (m_path prj) True)
        (String_replace (ce_su cenv) (get_or [] (tk_commandline ?m)) ''$(pdir)'' (m_workPath prj) True)
        (String_replace (ce_su cenv) (get_or [] (tk_workingDir ?m)) ''$(pdir)'' (m_path prj) True) = (p, w')"
    by fastforce
  define c' where "c' = snd (runTaskProcess cenv ?m (set_queue [] c))"
  have run: "runTaskProcess cenv ?m (set_queue [] c) = (True, c')" "cl_world c' = w'"
    "\<exists>job. cl_tasks c' = cl_tasks c @ [job] \<and> ct_id job = get_or 0 (task_id t) \<and> ct_process job = p"
    using assms(8,9) start by (auto simp: c'_def runTaskProcess_def task_packet_def Let_def)
  have "client_onRecv cenv c = client_onRecv cenv c'"
    using q run(1) sent(3) assms(6)
    by (subst client_onRecv.simps) (simp add: transports_def Master_IsInitialized_def close_requested_def)
  moreover have "recvPackets (cl_node c') = []"
    by (simp add: c'_def)
  ultimately have "client_onRecv cenv c = (True, c')"
    by (simp add: client_onRecv.simps)
  then show ?thesis
    using sent(1) run start by (auto simp: task_packet_def)
qed

text \<open>
  C4: A task gets from the master to a daemon. When a daemon has announced a free core, the first
  free task is assigned to it, and once the packet arrives, the daemon keeps the connection and runs
  exactly one process more: under the identifier of the task, with the source of the master stored
  in the daemon's copy of the project, and started there with the task's application and command line.
\<close>

theorem task_reaches_daemon:
  assumes "server_inv s" "0 < sint (m_freeCores (nodes s n))"
    and "m_tasks s = xs @ t # ys" "\<forall>x \<in> set xs. \<not> free_task x" "free_task t"
    and "transports (enc_master (se_codec env)) (dec_master (ce_codec cenv))
      \<lparr>mp_task = Some (task_packet (se_fs env) (files s) t), mp_system = None\<rparr>"
    and "recvPackets (cl_node c) = drop (length (sentPackets (nodes s n))) (sentPackets (nodes (snd (sendTasksToSlave env n s)) n))"
    and "getProject (ce_projects cenv) (get_or [] (tk_project (m_message t))) = Some prj"
    and "fs_save (ce_fs cenv) (cl_world c)
      (String_replace (ce_su cenv) (get_or [] (tk_sourceFile (m_message t))) ''$(pdir)'' (m_workPath prj) True)
      (snd (fs_load (se_fs env) (files s) (SourceFile (m_vars t)))) = (fs_OK (ce_fs cenv), w)"
  shows "m_tasks (snd (sendTasksToSlave env n s)) = xs @ t\<lparr>m_node := Some n\<rparr> # ys \<and>
    fst (client_onRecv cenv c) \<and>
    (\<exists>job. cl_tasks (snd (client_onRecv cenv c)) = cl_tasks c @ [job] \<and> ct_id job = get_or 0 (task_id t) \<and>
      (ct_process job, cl_world (snd (client_onRecv cenv c))) = pa_start (ce_proc cenv) w
        (String_replace (ce_su cenv) (get_or [] (tk_application (m_message t))) ''$(pdir)'' (m_path prj) True)
        (String_replace (ce_su cenv) (get_or [] (tk_commandline (m_message t))) ''$(pdir)'' (m_workPath prj) True)
        (String_replace (ce_su cenv) (get_or [] (tk_workingDir (m_message t))) ''$(pdir)'' (m_path prj) True))"
  using task_arrives[OF assms] .

text \<open>An offer does not touch a task that is assigned.\<close>

lemma offer_keeps_assigned:
  assumes "i < length (m_tasks s)" "m_node (m_tasks s ! i) \<noteq> None"
  shows "m_tasks (snd (sendTasksToSlave env n s)) ! i = m_tasks s ! i \<and>
    length (m_tasks (snd (sendTasksToSlave env n s))) = length (m_tasks s) \<and>
    files (snd (sendTasksToSlave env n s)) = files s \<and>
    fullId (nodes (snd (sendTasksToSlave env n s)) n) = fullId (nodes s n)"
proof (cases rule: sendTasksToSlave_cases[where s = s and n = n and env = env])
  case (sent xs t ys)
  then have "i \<noteq> length xs"
    using assms by (auto simp: free_task_def)
  then show ?thesis
    using sent by (auto simp: nth_append nth_Cons split: nat.splits)
qed simp

lemma result_found:
  assumes "server_inv s" "i < length (m_tasks s)" "result_for n r (m_tasks s ! i)"
  shows "m_tasks (snd (applyResultFromSlave env n r s)) ! i =
      fst (apply_result (se_fs env) (fullId (nodes s n)) r (m_tasks s ! i) (files s)) \<and>
    files (snd (applyResultFromSlave env n r s)) =
      snd (apply_result (se_fs env) (fullId (nodes s n)) r (m_tasks s ! i) (files s))"
proof (cases rule: applyResultFromSlave_cases[where s = s and n = n and r = r and env = env])
  case wrong
  then show ?thesis
    using assms(2,3) by auto
next
  case (applied xs t ys)
  have ids: "\<forall>x \<in> set (m_tasks s). task_id x \<noteq> None" "distinct (map task_id (m_tasks s))"
    using assms(1) by (auto simp: server_inv_def)
  obtain k l where k: "task_id (m_tasks s ! i) = Some k" "task_id t = Some l"
    using ids(1) nth_mem[OF assms(2)] applied(1) by fastforce
  then have "task_id (m_tasks s ! i) = task_id (m_tasks s ! length xs)"
    using assms(3) applied(1,2) by (simp add: result_for_def)
  moreover have "length xs < length (m_tasks s)"
    using applied(1) by simp
  ultimately have "i = length xs"
    using nth_eq_iff_index_eq[OF ids(2), of i "length xs"] assms(2) by simp
  then show ?thesis
    using applied by simp
qed

text \<open>A reported result arrives.\<close>

lemma result_arrives:
  assumes "server_inv s" "i < length (m_tasks s)" "m_node (m_tasks s ! i) = Some n"
    and "ct_id job = get_or 0 (task_id (m_tasks s ! i))"
    and "transports (enc_slave (ce_codec cenv)) (dec_slave (se_codec env)) (result_packet cenv c job)"
    and "recvPackets (nodes s n) = [enc_slave (ce_codec cenv) (result_packet cenv c job)]"
    and "pa_exitCode (ce_proc cenv) (cl_world c) (ct_process job) = (code, stored)"
    and "saved = fs_save (se_fs env) (files s) (OutputFile (m_vars (m_tasks s ! i)))
      (snd (fs_load (ce_fs cenv) (cl_world c) (ct_outputFile job)))"
  shows "\<exists>s' t'. onRecvFromNode env n s = (True, s') \<and> m_tasks s' ! i = t' \<and>
    m_result t' = code \<and> m_node t' = None \<and> m_doneIp t' = fullId (nodes s n) \<and>
    (m_exitCode t', files s') =
      (if code = Exited \<and> get_or 0 stored = 0 then saved else (get_or 0 stored, files s))"
proof -
  let ?p = "result_packet cenv c job"
  obtain inf r where p: "?p = \<lparr>sp_info = Some inf, sp_result = Some r\<rparr>" and r: "rs_id r = Some (ct_id job)"
      "rs_exit_code r = Some (get_or 0 stored)" "rs_process_code r = Some code"
      "rs_outputData r = Some (snd (fs_load (ce_fs cenv) (cl_world c) (ct_outputFile job)))"
    using assms(7) by (simp add: result_packet_def)
  define s1 where "s1 = extractRecvPacket n s"
  define s2 where "s2 = s1\<lparr>nodes := (nodes s1)(n := (nodes s1 n)\<lparr>m_freeCores := get_or 0 (inf_task_count inf)\<rparr>)\<rparr>"
  define s3 where "s3 = snd (sendTasksToSlave env n s2)"
  have s2: "m_tasks s2 = m_tasks s" "files s2 = files s" "fullId (nodes s2 n) = fullId (nodes s n)" "recvPackets (nodes s2 n) = []"
      "server_inv s2" "n \<in> set (m_clients s2)"
    using assms(1-3,6) nth_mem[OF assms(2)] by (auto simp: s2_def s1_def extractRecvPacket_def server_inv_def)
  have s3: "m_tasks s3 ! i = m_tasks s ! i" "i < length (m_tasks s3)" "files s3 = files s" "fullId (nodes s3 n) = fullId (nodes s n)"
      "server_inv s3" "recvPackets (nodes s3 n) = []"
    using offer_keeps_assigned[of i s2 env n] sendTasksToSlave_handles[of n s2 env] s2 assms(2,3)
    by (simp_all add: s3_def handles_def)
  have "onRecvFromNode env n s = onRecvFromNode env n (handle_packet env n ?p s1)"
    using assms(5,6) by (subst onRecvFromNode.simps) (simp add: transports_def s1_def)
  also have "handle_packet env n ?p s1 = snd (applyResultFromSlave env n r s3)"
    by (simp add: handle_packet_def p s2_def s3_def Let_def)
  also have "onRecvFromNode env n (snd (applyResultFromSlave env n r s3)) = (True, snd (applyResultFromSlave env n r s3))"
    using s3(6) by (subst onRecvFromNode.simps) simp
  finally have recv: "onRecvFromNode env n s = (True, snd (applyResultFromSlave env n r s3))" .
  have "result_for n r (m_tasks s3 ! i)"
    using assms(3,4) r s3(1) by (simp add: result_for_def)
  then have "m_tasks (snd (applyResultFromSlave env n r s3)) ! i =
        fst (apply_result (se_fs env) (fullId (nodes s n)) r (m_tasks s ! i) (files s)) \<and>
      files (snd (applyResultFromSlave env n r s3)) =
        snd (apply_result (se_fs env) (fullId (nodes s n)) r (m_tasks s ! i) (files s))"
    using result_found[OF s3(5,2), of n r env] s3 by simp
  then show ?thesis
    using recv r assms(8) by (auto simp: apply_result_def split: prod.splits)
qed

text \<open>
  C5: A result gets from a daemon to the master. When the report of a job arrives from the client
  the task is assigned to, the master takes the connection's next offer first and then stores the
  result at that task: its process code and the daemon's name, and the exit code; when the job ended
  well, the output file of the daemon is stored at the master and the status of that decides.
\<close>

theorem result_reaches_master:
  assumes "server_inv s" "i < length (m_tasks s)" "m_node (m_tasks s ! i) = Some n"
    and "ct_id job = get_or 0 (task_id (m_tasks s ! i))"
    and "transports (enc_slave (ce_codec cenv)) (dec_slave (se_codec env)) (result_packet cenv c job)"
    and "recvPackets (nodes s n) = [enc_slave (ce_codec cenv) (result_packet cenv c job)]"
    and "pa_exitCode (ce_proc cenv) (cl_world c) (ct_process job) = (code, stored)"
    and "saved = fs_save (se_fs env) (files s) (OutputFile (m_vars (m_tasks s ! i)))
      (snd (fs_load (ce_fs cenv) (cl_world c) (ct_outputFile job)))"
  shows "\<exists>s' t'. onRecvFromNode env n s = (True, s') \<and> m_tasks s' ! i = t' \<and>
    m_result t' = code \<and> m_node t' = None \<and> m_doneIp t' = fullId (nodes s n) \<and>
    (m_exitCode t', files s') =
      (if code = Exited \<and> get_or 0 stored = 0 then saved else (get_or 0 stored, files s))"
  using result_arrives[OF assms] .

section \<open>The way over the wire\<close>

text \<open>The layouts of \<open>master.proto\<close> and \<open>slave.proto\<close> in the wire format are such a serialisation.\<close>

lemma master_transported:
  assumes "in_documented L" "strings_documented L" "1 \<le> d" "mp_task p \<noteq> None \<or> mp_system p \<noteq> None" "int (Master_texts p) \<le> INT_MAX - 200"
  shows "transports (enc_master (wire_codec L d)) (dec_master (wire_codec L d)) p"
  using wire_codec_inverse(1)[OF assms(1-3), of p] wire_codec_nonempty(1)[OF assms(4), of L d] packet_length(1)[of p] assms(5)
  by (simp add: transports_def) (simp add: wire_codec_def INT_MAX_def)

lemma slave_transported:
  assumes "in_documented L" "strings_documented L" "1 \<le> d" "sp_info q \<noteq> None \<or> sp_result q \<noteq> None" "int (Slave_texts q) \<le> INT_MAX - 200"
  shows "transports (enc_slave (wire_codec L d)) (dec_slave (wire_codec L d)) q"
  using wire_codec_inverse(2)[OF assms(1-3), of q] wire_codec_nonempty(2)[OF assms(4), of L d] packet_length(2)[of q] assms(5)
  by (simp add: transports_def) (simp add: wire_codec_def INT_MAX_def)

text \<open>
  C8: What the programs use of their messages holds for the wire format: every packet that has a message in it
  and whose strings have less than two gigabytes together is written to bytes that are not empty, fit
  the size type and are parsed to the same packet, in both directions.
\<close>

theorem messages_survive_the_wire:
  assumes "in_documented L" "strings_documented L" "1 \<le> d"
  shows "((mp_task p \<noteq> None \<or> mp_system p \<noteq> None) \<and> int (Master_texts p) \<le> INT_MAX - 200 \<longrightarrow>
      transports (enc_master (wire_codec L d)) (dec_master (wire_codec L d)) p) \<and>
    ((sp_info q \<noteq> None \<or> sp_result q \<noteq> None) \<and> int (Slave_texts q) \<le> INT_MAX - 200 \<longrightarrow>
      transports (enc_slave (wire_codec L d)) (dec_slave (wire_codec L d)) q)"
  using master_transported[OF assms, of p] slave_transported[OF assms, of q] by blast

text \<open>
  C3: A task comes back to its place. The master offers a task, the daemon reads the packet from the wire and
  starts a job; when the job has ended and the daemon's report is read from the wire, the
  master stores the result at this very task: the code of the process, the daemon's name, and, when the job
  ended well, the output of the daemon in the task's output file.
\<close>

theorem task_makes_the_round:
  assumes "in_documented L" "strings_documented L" "1 \<le> d" "se_codec env = wire_codec L d" "ce_codec cenv = wire_codec L d"
    and "server_inv s" "0 < sint (m_freeCores (nodes s n))" "n \<in> set (m_clients s)"
    and "m_tasks s = xs @ t # ys" "\<forall>x \<in> set xs. \<not> free_task x" "free_task t"
    and "int (Master_texts \<lparr>mp_task = Some (task_packet (se_fs env) (files s) t), mp_system = None\<rparr>) \<le> INT_MAX - 200"
    and "recvPackets (cl_node c) = drop (length (sentPackets (nodes s n))) (sentPackets (nodes (snd (sendTasksToSlave env n s)) n))"
    and "getProject (ce_projects cenv) (get_or [] (tk_project (m_message t))) = Some prj"
    and "fs_save (ce_fs cenv) (cl_world c)
      (String_replace (ce_su cenv) (get_or [] (tk_sourceFile (m_message t))) ''$(pdir)'' (m_workPath prj) True)
      (snd (fs_load (se_fs env) (files s) (SourceFile (m_vars t)))) = (fs_OK (ce_fs cenv), w)"
    and "job = last (cl_tasks (snd (client_onRecv cenv c)))"
    and "pa_exitCode (ce_proc cenv) (cl_world c') (ct_process job) = (code, stored)"
    and "int (Slave_texts (result_packet cenv c' job)) \<le> INT_MAX - 200"
    and "recvPackets (nodes s n) = []" "s1 = snd (sendTasksToSlave env n s)"
    and "s' = s1\<lparr>nodes := (nodes s1)(n := (nodes s1 n)\<lparr>recvPackets := recvPackets (nodes s1 n) @ [enc_slave (ce_codec cenv) (result_packet cenv c' job)]\<rparr>)\<rparr>"
  shows "\<exists>s'' t'. onRecvFromNode env n s' = (True, s'') \<and> m_tasks s'' ! length xs = t' \<and>
    m_result t' = code \<and> m_node t' = None \<and> m_doneIp t' = fullId (nodes s n) \<and>
    (m_exitCode t', files s'') = (if code = Exited \<and> get_or 0 stored = 0
      then fs_save (se_fs env) (files s) (OutputFile (m_vars t)) (snd (fs_load (ce_fs cenv) (cl_world c') (ct_outputFile job)))
      else (get_or 0 stored, files s))"
proof -
  let ?m = "\<lparr>mp_task = Some (task_packet (se_fs env) (files s) t), mp_system = None\<rparr>" and ?r = "result_packet cenv c' job"
  have tr: "transports (enc_master (se_codec env)) (dec_master (ce_codec cenv)) ?m" "transports (enc_slave (ce_codec cenv)) (dec_slave (se_codec env)) ?r"
    using master_transported[OF assms(1-3), of ?m] slave_transported[OF assms(1-3), of ?r] assms(4,5,12,17,18) by (simp_all add: result_packet_def)
  note sent = offer_sends(1)[OF assms(6,7,9-11) tr(1)]
  obtain j where "cl_tasks (snd (client_onRecv cenv c)) = cl_tasks c @ [j]" "ct_id j = get_or 0 (task_id t)"
    using task_arrives[OF assms(6,7,9-11) tr(1) assms(13-15)] by auto
  then have job: "ct_id job = get_or 0 (task_id t)"
    by (simp add: assms(16))
  have s': "m_tasks s' = xs @ t\<lparr>m_node := Some n\<rparr> # ys" "files s' = files s" "fullId (nodes s' n) = fullId (nodes s n)"
      "recvPackets (nodes s' n) = [enc_slave (ce_codec cenv) ?r]"
    by (simp_all add: assms(19-21) sent)
  have "server_inv s1"
    using sendTasksToSlave_handles[of n s env] assms(6,8) by (simp add: handles_def assms(20))
  then have "server_inv s'"
    by (simp add: assms(21) server_inv_def)
  moreover have t: "m_tasks s' ! length xs = t\<lparr>m_node := Some n\<rparr>" "length xs < length (m_tasks s')"
    by (simp_all add: s'(1))
  ultimately show ?thesis
    using result_arrives[of s' "length xs" n job cenv env c' code stored, OF _ _ _ _ tr(2) s'(4) assms(17) refl] job
    by (simp add: s'(2,3) cong: if_cong)
qed

subsection \<open>Witnesses\<close>

text \<open>The second task of the sample master on its way, and the report of the first one, both on the wire in chunks of three bytes.\<close>

definition the_wire :: codec where "the_wire = wire_codec (string_lib 3) 100"
definition wire_env :: "(string \<rightharpoonup> string) server_env" where "wire_env = sample_env\<lparr>se_codec := the_wire\<rparr>"
definition wire_cenv :: "(u32, AppObject) client_env" where "wire_cenv = sample_cenv\<lparr>ce_codec := the_wire\<rparr>"

definition task_two :: Master_Packet where
  "task_two = \<lparr>mp_task = Some (task_packet map_fs Map.empty (sample_task 2)), mp_system = None\<rparr>"

definition waiting_server :: "bytes list \<Rightarrow> (string \<rightharpoonup> string) server" where
  "waiting_server q = sample_server\<lparr>nodes := (\<lambda>_. (newClient ''ip'')\<lparr>m_freeCores := 3, recvPackets := q\<rparr>)\<rparr>"

definition waiting_client :: "(u32, AppObject) client" where
  "waiting_client = set_queue [enc_master the_wire task_two] (sample_client [] 0)"

lemma string_lib_3: "in_documented (string_lib 3)" "strings_documented (string_lib 3)" "(1 :: int) \<le> 100"
  by (simp_all add: string_lib_documented)

lemma wire_envs [simp]:
  "se_codec wire_env = the_wire" "se_fs wire_env = map_fs" "ce_codec wire_cenv = the_wire" "ce_fs wire_cenv = null_fs"
  "ce_proc wire_cenv = ce_proc sample_cenv" "ce_projects wire_cenv = client_projects"
  "sentPackets (nodes (waiting_server q) 7) = []" "recvPackets (nodes (waiting_server q) 7) = q" "files (waiting_server q) = Map.empty"
  by (simp_all add: wire_env_def wire_cenv_def waiting_server_def sample_cenv_def sample_defs)

lemma wire_two: "transports (enc_master the_wire) (dec_master the_wire) task_two"
  unfolding the_wire_def by (rule master_transported[OF string_lib_3])
    (simp_all add: task_two_def Master_texts_def texts_def task_packet_def sample_defs INT_MAX_def)

lemma waiting_server_state:
  "server_inv (waiting_server q)" "0 < sint (m_freeCores (nodes (waiting_server q) 7))" "7 \<in> set (m_clients (waiting_server q))"
  "m_tasks (waiting_server q) = [(sample_task 1)\<lparr>m_node := Some 7\<rparr>] @ sample_task 2 # []"
  "\<forall>x \<in> set [(sample_task 1)\<lparr>m_node := Some 7\<rparr>]. \<not> free_task x" "free_task (sample_task 2)"
  using sample_server_inv by (simp_all add: waiting_server_def server_inv_def sample_defs free_task_def)

lemma two_sent:
  "recvPackets (cl_node waiting_client) = drop (length (sentPackets (nodes (waiting_server q) 7)))
     (sentPackets (nodes (snd (sendTasksToSlave wire_env 7 (waiting_server q))) 7))"
  using offer_sends(1,2)[OF waiting_server_state(1,2,4-6), of wire_env "dec_master the_wire"] wire_two
  by (simp add: waiting_client_def task_two_def)

lemma two_project:
  "getProject (ce_projects wire_cenv) (get_or [] (tk_project (m_message (sample_task 2)))) = Some \<lparr>m_name = ''g'', m_path = ''p'', m_workPath = ''w''\<rparr>"
  by (simp add: client_projects_def getProject_def sample_defs)

lemma two_saved: "fs_save (ce_fs wire_cenv) (cl_world waiting_client) f b = (fs_OK (ce_fs wire_cenv), 0)"
  by (simp add: null_fs_def waiting_client_def)

theorem task_reaches_daemon_witness:
  "map ct_id (cl_tasks (snd (client_onRecv wire_cenv waiting_client))) = [2]"
proof -
  have tr: "transports (enc_master (se_codec wire_env)) (dec_master (ce_codec wire_cenv))
      \<lparr>mp_task = Some (task_packet (se_fs wire_env) (files (waiting_server [])) (sample_task 2)), mp_system = None\<rparr>"
    using wire_two by (simp add: task_two_def)
  obtain job where "cl_tasks (snd (client_onRecv wire_cenv waiting_client)) = cl_tasks waiting_client @ [job]"
      "ct_id job = get_or 0 (task_id (sample_task 2))"
    using task_reaches_daemon[OF waiting_server_state(1,2,4-6) tr two_sent two_project two_saved] by blast
  then show ?thesis
    by (simp add: waiting_client_def sample_defs)
qed

definition report_one :: Slave_Packet where
  "report_one = result_packet wire_cenv (sample_client [sample_job 1 False] 0) (sample_job 1 False)"

theorem result_reaches_master_witness:
  "m_result (m_tasks (snd (onRecvFromNode wire_env 7 (waiting_server [enc_slave the_wire report_one]))) ! 0) = Exited"
proof -
  let ?s = "waiting_server [enc_slave the_wire report_one]" and ?c = "sample_client [sample_job 1 False] 0"
  have job: "0 < length (m_tasks ?s)" "m_node (m_tasks ?s ! 0) = Some 7" "ct_id (sample_job 1 False) = get_or 0 (task_id (m_tasks ?s ! 0))"
    by (simp_all add: waiting_server_def sample_defs)
  have code: "pa_exitCode (ce_proc wire_cenv) (cl_world ?c) (ct_process (sample_job 1 False)) = (Exited, Some 0)"
    by simp
  have tr: "transports (enc_slave (ce_codec wire_cenv)) (dec_slave (se_codec wire_env)) (result_packet wire_cenv ?c (sample_job 1 False))"
    unfolding wire_envs the_wire_def by (rule slave_transported[OF string_lib_3])
      (simp_all add: result_packet_def Slave_texts_def texts_def sample_job_def null_fs_def INT_MAX_def)
  have q: "recvPackets (nodes ?s 7) = [enc_slave (ce_codec wire_cenv) (result_packet wire_cenv ?c (sample_job 1 False))]"
    by (simp add: report_one_def)
  from result_reaches_master[OF waiting_server_state(1) job tr q code refl] show ?thesis
    by auto
qed

theorem messages_survive_the_wire_witness:
  "transports (enc_master (wire_codec (string_lib 3) 100)) (dec_master (wire_codec (string_lib 3) 100)) sample_task_packet \<and>
   transports (enc_slave (wire_codec (string_lib 3) 100)) (dec_slave (wire_codec (string_lib 3) 100)) sample_info_packet"
  using messages_survive_the_wire[OF string_lib_3, of sample_task_packet sample_info_packet]
  by (simp add: sample_task_packet_def sample_info_packet_def Master_texts_def Slave_texts_def texts_def Master_Task_default_def INT_MAX_def)

definition job_two :: "AppObject client_task" where
  "job_two = last (cl_tasks (snd (client_onRecv wire_cenv waiting_client)))"

lemma job_two: "pa_exitCode (ce_proc wire_cenv) 0 (ct_process job_two) = (Exited, Some 0)" "ct_outputFile job_two = ''o''"
proof -
  have d: "dec_master the_wire (enc_master the_wire task_two) = task_two"
    using wire_two by (simp add: transports_def)
  define c where "c = snd (runTaskProcess wire_cenv (the (mp_task task_two)) (set_queue [] waiting_client))"
  have c: "runTaskProcess wire_cenv (the (mp_task task_two)) (set_queue [] waiting_client) = (True, c)" "length (cl_tasks c) = 1"
    "pa_exitCode (ce_proc wire_cenv) 0 (ct_process (last (cl_tasks c))) = (Exited, Some 0)" "ct_outputFile (last (cl_tasks c)) = ''o''"
    by (simp_all add: c_def task_two_def task_packet_def waiting_client_def wire_cenv_def sample_cenv_def sample_msg_def sample_task_def runTaskProcess_def
        getProject_def client_projects_def null_fs_def plain_su_def sample_su_def AppObject_api_def AppObject_execute_def create_process_def new_AppObject_def exited_win_def
        getProcessExitCode_def Let_def)
  have "client_onRecv wire_cenv waiting_client = client_onRecv wire_cenv c"
    using c(1) by (subst client_onRecv.simps)
      (simp add: waiting_client_def d, simp add: task_two_def task_packet_def sample_msg_def sample_task_def Master_IsInitialized_def Task_IsInitialized_def close_requested_def)
  moreover have "recvPackets (cl_node c) = []"
    by (simp add: c_def)
  ultimately have "client_onRecv wire_cenv waiting_client = (True, c)"
    by (simp add: client_onRecv.simps)
  then show "pa_exitCode (ce_proc wire_cenv) 0 (ct_process job_two) = (Exited, Some 0)" "ct_outputFile job_two = ''o''"
    using c by (simp_all add: job_two_def)
qed

definition offered :: "(string \<rightharpoonup> string) server" where
  "offered = snd (sendTasksToSlave wire_env 7 (waiting_server []))"

theorem task_makes_the_round_witness:
  "\<exists>s'. onRecvFromNode wire_env 7 (offered\<lparr>nodes := (nodes offered)(7 := (nodes offered 7)\<lparr>recvPackets := recvPackets (nodes offered 7) @
      [enc_slave (ce_codec wire_cenv) (result_packet wire_cenv (sample_client [job_two] 0) job_two)]\<rparr>)\<rparr>) = (True, s') \<and>
    m_result (m_tasks s' ! 1) = Exited \<and> m_doneIp (m_tasks s' ! 1) = ''ip'' \<and> files s' [] = Some []"
proof -
  let ?m = "\<lparr>mp_task = Some (task_packet (se_fs wire_env) (files (waiting_server [])) (sample_task 2)), mp_system = None\<rparr>"
  have m: "int (Master_texts ?m) \<le> INT_MAX - 200"
    by (simp add: Master_texts_def texts_def task_packet_def sample_defs INT_MAX_def)
  have code: "pa_exitCode (ce_proc wire_cenv) (cl_world (sample_client [job_two] 0)) (ct_process job_two) = (Exited, Some 0)"
    using job_two(1) by simp
  have r: "int (Slave_texts (result_packet wire_cenv (sample_client [job_two] 0) job_two)) \<le> INT_MAX - 200"
    using job_two by (simp add: result_packet_def Slave_texts_def texts_def null_fs_def INT_MAX_def)
  have c: "se_codec wire_env = wire_codec (string_lib 3) 100" "ce_codec wire_cenv = wire_codec (string_lib 3) 100" "recvPackets (nodes (waiting_server []) 7) = []"
    by (simp_all add: the_wire_def)
  have ip: "fullId (nodes (waiting_server []) 7) = ''ip''" "OutputFile (m_vars (sample_task 2)) = []"
    by (simp_all add: waiting_server_def sample_defs empty_vars_def)
  from task_makes_the_round[OF string_lib_3 c(1,2) waiting_server_state m two_sent two_project two_saved job_two_def code r c(3) offered_def refl]
  show ?thesis
    by (auto simp: ip map_fs_def null_fs_def)
qed

end
